(* ===== verification/Prelude.thy ===== *)
theory Prelude
  imports Main "HOL-Library.Word" "HOL-Library.Multiset"
begin

text \<open>
  Shared vocabulary of the development.  Go's \<^verbatim>\<open>string\<close> and \<^verbatim>\<open>[]byte\<close> are byte
  sequences and both are modelled by \<^typ>\<open>string\<close> (a \<^typ>\<open>char\<close> is one byte); \<^verbatim>\<open>uint64\<close>
  is \<^typ>\<open>64 word\<close>; \<^verbatim>\<open>int\<close> and \<^verbatim>\<open>int64\<close> are \<^typ>\<open>int\<close> with \<open>i64\<close>, the
  two's-complement wrap-around, written where an operation can leave the range.  A
  \<^verbatim>\<open>(value, error)\<close> pair is a sum whose left side is the error.  The theory also holds
  the HTTP vocabulary every service shares: headers with Go's canonical keys, requests,
  and responses; and the generic list and map lemmas the components use.
\<close>

section \<open>Machine integers\<close>

type_synonym uint64 = "64 word"

definition i64 :: "int \<Rightarrow> int" where
  "i64 x = (x + 2 ^ 63) mod 2 ^ 64 - 2 ^ 63"

definition int64_range :: "int \<Rightarrow> bool" where
  "int64_range x \<longleftrightarrow> - (2 ^ 63) \<le> x \<and> x < 2 ^ 63"

lemma i64_id [simp]: "int64_range x \<Longrightarrow> i64 x = x"
  by (simp add: i64_def int64_range_def)

lemma int64_rangeI:
  "- 9223372036854775808 \<le> x \<Longrightarrow> x < 9223372036854775808 \<Longrightarrow> int64_range x"
  by (simp add: int64_range_def)

lemma i64_range [simp]: "int64_range (i64 x)"
  using pos_mod_bound [of "2 ^ 64" "x + 2 ^ 63"] pos_mod_sign [of "2 ^ 64" "x + 2 ^ 63"]
  by (simp add: i64_def int64_range_def)

section \<open>Errors\<close>

text \<open>
  The error values the services distinguish.  \<open>Errorf m\<close> is a plain \<^verbatim>\<open>errors.New\<close> or
  \<^verbatim>\<open>fmt.Errorf\<close>; \<open>Validation m\<close> wraps a service's \<^verbatim>\<open>ErrValidation\<close> sentinel, the one
  \<^verbatim>\<open>errors.Is\<close> test that decides between a 400 and a 500; \<open>External m\<close> is an error
  that came out of a database, a Redis server or a network call.
\<close>

datatype goerror = Errorf string | Validation string | External string

type_synonym 'a result = "goerror + 'a"

text \<open>\<^verbatim>\<open>err.Error()\<close>.\<close>

definition err_text :: "goerror \<Rightarrow> string" where
  "err_text e = (case e of Errorf m \<Rightarrow> m | Validation m \<Rightarrow> m | External m \<Rightarrow> m)"

named_theorems ok_iff

definition bind_result :: "'e + 'a \<Rightarrow> ('a \<Rightarrow> 'e + 'b) \<Rightarrow> 'e + 'b" where
  "bind_result r f = (case r of Inl e \<Rightarrow> Inl e | Inr x \<Rightarrow> f x)"

lemma bind_result_simps [simp]:
  "bind_result (Inl e) f = Inl e"
  "bind_result (Inr x) f = f x"
  by (simp_all add: bind_result_def)

lemma bind_result_Inr_iff [ok_iff]:
  "bind_result r f = Inr y \<longleftrightarrow> (\<exists>x. r = Inr x \<and> f x = Inr y)"
  by (cases r) simp_all

section \<open>HTTP headers, requests and responses\<close>

definition lower_char :: "char \<Rightarrow> char" where
  "lower_char c = (let n = (of_char c :: nat) in if 65 \<le> n \<and> n \<le> 90 then char_of (n + 32) else c)"

definition upper_char :: "char \<Rightarrow> char" where
  "upper_char c = (let n = (of_char c :: nat) in if 97 \<le> n \<and> n \<le> 122 then char_of (n - 32) else c)"

text \<open>
  \<^verbatim>\<open>http.CanonicalHeaderKey\<close> on the token names the sources use: the first letter and
  every letter after a hyphen upper case, the others lower case.  \<^verbatim>\<open>Get\<close>, \<^verbatim>\<open>Set\<close> and
  \<^verbatim>\<open>Del\<close> canonicalise their key, and the server stores what it parsed under canonical
  keys, so \<^verbatim>\<open>X-Request-ID\<close> and \<^verbatim>\<open>x-request-id\<close> are one header.
\<close>

fun canon_from :: "bool \<Rightarrow> string \<Rightarrow> string" where
  "canon_from up [] = []"
| "canon_from up (c # cs) = (if up then upper_char c else lower_char c) # canon_from (c = CHR ''-'') cs"

definition CanonicalHeaderKey :: "string \<Rightarrow> string" where
  "CanonicalHeaderKey = canon_from True"

type_synonym headers = "string \<Rightarrow> string list"

definition Header_Get :: "headers \<Rightarrow> string \<Rightarrow> string" where
  "Header_Get h k = (case h (CanonicalHeaderKey k) of [] \<Rightarrow> '''' | v # _ \<Rightarrow> v)"

definition Header_Set :: "headers \<Rightarrow> string \<Rightarrow> string \<Rightarrow> headers" where
  "Header_Set h k v = h(CanonicalHeaderKey k := [v])"

definition Header_Del :: "headers \<Rightarrow> string \<Rightarrow> headers" where
  "Header_Del h k = h(CanonicalHeaderKey k := [])"

lemma Header_Get_Set [simp]:
  "Header_Get (Header_Set h k v) k' =
     (if CanonicalHeaderKey k' = CanonicalHeaderKey k then v else Header_Get h k')"
  by (simp add: Header_Get_def Header_Set_def)

lemma Header_Get_Del [simp]:
  "Header_Get (Header_Del h k) k' =
     (if CanonicalHeaderKey k' = CanonicalHeaderKey k then '''' else Header_Get h k')"
  by (simp add: Header_Get_def Header_Del_def)

text \<open>
  A request as a handler sees it: the method, the path, the parsed query
  (\<^verbatim>\<open>url.Values\<close>) and the headers.
\<close>

record request =
  req_method :: string
  req_path :: string
  req_query :: "string \<Rightarrow> string list"
  req_header :: headers

definition Values_Get :: "(string \<Rightarrow> string list) \<Rightarrow> string \<Rightarrow> string" where
  "Values_Get q k = (case q k of [] \<Rightarrow> '''' | v # _ \<Rightarrow> v)"

definition Values_Del :: "(string \<Rightarrow> string list) \<Rightarrow> string \<Rightarrow> (string \<Rightarrow> string list)" where
  "Values_Del q k = q(k := [])"

lemma Values_Get_Del [simp]:
  "Values_Get (Values_Del q k) k' = (if k' = k then '''' else Values_Get q k')"
  by (simp add: Values_Get_def Values_Del_def)

text \<open>
  A response: status, headers and body.  \<open>JSON_error m\<close> is the body
  \<^verbatim>\<open>{"error": m}\<close>, \<open>JSON v\<close> any other encoded value, \<open>Blob b\<close> raw bytes.
\<close>

datatype 'v body = NoBody | Blob string | JSON_error string | JSON 'v

record 'v response =
  resp_status :: nat
  resp_header :: headers
  resp_body :: "'v body"

definition no_headers :: headers where
  "no_headers = (\<lambda>_. [])"

definition respond :: "nat \<Rightarrow> 'v body \<Rightarrow> 'v response" where
  "respond st b = \<lparr>resp_status = st, resp_header = no_headers, resp_body = b\<rparr>"

lemma respond_sel [simp]:
  "resp_status (respond st b) = st" "resp_header (respond st b) = no_headers" "resp_body (respond st b) = b"
  by (simp_all add: respond_def)

text \<open>
  The part of \<^verbatim>\<open>echo.Context\<close> the handlers read and write: the request, the route
  parameters, the response headers set so far, and the values stored by the middlewares
  (\<^verbatim>\<open>request_id\<close>, \<^verbatim>\<open>user_id\<close>, \<^verbatim>\<open>role\<close>); a failed type assertion on a stored string
  yields the empty string.  \<open>reply\<close> is \<^verbatim>\<open>c.JSON\<close>, \<^verbatim>\<open>c.NoContent\<close> or \<^verbatim>\<open>c.Blob\<close> on the
  headers already set.
\<close>

record echo_context =
  cx_req :: request
  cx_param :: "string \<Rightarrow> string"
  cx_resp :: headers
  cx_request_id :: string
  cx_user_id :: "int option"
  cx_role :: string

definition reply :: "echo_context \<Rightarrow> nat \<Rightarrow> 'v body \<Rightarrow> 'v response" where
  "reply cx st b = \<lparr>resp_status = st, resp_header = cx_resp cx, resp_body = b\<rparr>"

definition set_resp :: "string \<Rightarrow> string \<Rightarrow> echo_context \<Rightarrow> echo_context" where
  "set_resp k v cx = cx\<lparr>cx_resp := Header_Set (cx_resp cx) k v\<rparr>"

lemma reply_sel [simp]:
  "resp_status (reply cx st b) = st" "resp_header (reply cx st b) = cx_resp cx" "resp_body (reply cx st b) = b"
  by (simp_all add: reply_def)

lemma set_resp_sel [simp]:
  "cx_req (set_resp k v cx) = cx_req cx" "cx_param (set_resp k v cx) = cx_param cx"
  "cx_request_id (set_resp k v cx) = cx_request_id cx" "cx_user_id (set_resp k v cx) = cx_user_id cx"
  "cx_resp (set_resp k v cx) = Header_Set (cx_resp cx) k v"
  by (simp_all add: set_resp_def)

section \<open>Generic lemmas\<close>

lemma nth_mem_filter_iff: "x \<in> set (filter P xs) \<longleftrightarrow> x \<in> set xs \<and> P x"
  by simp

lemma distinct_map_filterI: "distinct (map f xs) \<Longrightarrow> distinct (map f (filter P xs))"
  by (induction xs) auto

lemma sum_list_filter_split:
  fixes f :: "'a \<Rightarrow> int"
  shows "sum_list (map f xs) = sum_list (map f (filter P xs)) + sum_list (map f (filter (\<lambda>x. \<not> P x) xs))"
  by (induction xs) auto

lemma sum_list_nonneg_map:
  fixes f :: "'a \<Rightarrow> int"
  shows "(\<And>x. x \<in> set xs \<Longrightarrow> 0 \<le> f x) \<Longrightarrow> 0 \<le> sum_list (map f xs)"
  by (rule sum_list_nonneg) auto

lemma filter_key_single:
  "distinct (map fst xs) \<Longrightarrow> (k, v) \<in> set xs \<Longrightarrow> filter (\<lambda>x. fst x = k) xs = [(k, v)]"
proof (induction xs)
  case (Cons x xs)
  show ?case
  proof (cases "fst x = k")
    case True
    with Cons.prems have nin: "k \<notin> set (map fst xs)" by simp
    then have "(k, v) \<notin> set xs" by force
    with Cons.prems have x: "x = (k, v)" by simp
    from nin have "filter (\<lambda>x. fst x = k) xs = []" by (auto simp: filter_empty_conv)
    with x show ?thesis by simp
  qed (use Cons in auto)
qed simp

lemma length_filter_remove1:
  "x \<in> set xs \<Longrightarrow> length (filter P xs) = length (filter P (remove1 x xs)) + (if P x then 1 else 0)"
  by (induction xs) auto

end
