(* ===== verification/GoStrings.thy ===== *)
theory GoStrings
  imports Prelude
begin

text \<open>
  The parts of Go's \<^verbatim>\<open>strconv\<close>, \<^verbatim>\<open>strings\<close>, \<^verbatim>\<open>unicode/utf8\<close> and \<^verbatim>\<open>encoding/hex\<close>
  that the services use: decimal printing and parsing of 64-bit integers, prefix and
  separator cuts, hexadecimal encoding, and the rune loop \<^verbatim>\<open>for _, r := range s\<close> with
  the UTF-8 decoder behind it.  The lemmas are the facts the components rest on: decimal
  parsing inverts printing on the whole \<^verbatim>\<open>int64\<close> range, a printed integer holds no
  separator, and a rune loop that only admits ASCII runes decides the same thing as a
  loop over bytes.
\<close>

section \<open>Characters\<close>

abbreviation byte_of :: "char \<Rightarrow> nat" where
  "byte_of c \<equiv> of_char c"

definition digit_char :: "nat \<Rightarrow> char" where
  "digit_char d = char_of (48 + d)"

definition is_digit :: "char \<Rightarrow> bool" where
  "is_digit c \<longleftrightarrow> 48 \<le> byte_of c \<and> byte_of c \<le> 57"

definition digit_val :: "char \<Rightarrow> nat" where
  "digit_val c = byte_of c - 48"

lemma byte_of_digit_char: "d < 10 \<Longrightarrow> byte_of (digit_char d) = 48 + d"
  by (simp add: digit_char_def)

lemma is_digit_digit_char [simp]: "d < 10 \<Longrightarrow> is_digit (digit_char d)"
  by (simp add: is_digit_def byte_of_digit_char)

lemma digit_val_digit_char [simp]: "d < 10 \<Longrightarrow> digit_val (digit_char d) = d"
  by (simp add: digit_val_def byte_of_digit_char)

lemma not_digit_sign [simp]:
  "\<not> is_digit (CHR ''-'')" "\<not> is_digit (CHR ''+'')" "\<not> is_digit (CHR '':'')" "\<not> is_digit (CHR ''.'')"
  by (simp_all add: is_digit_def)

section \<open>strconv: FormatInt, ParseInt and Atoi\<close>

fun fmt_nat :: "nat \<Rightarrow> string" where
  "fmt_nat n = (if n < 10 then [digit_char n] else fmt_nat (n div 10) @ [digit_char (n mod 10)])"

declare fmt_nat.simps [simp del]

definition FormatInt :: "int \<Rightarrow> string" where
  "FormatInt i = (if i < 0 then CHR ''-'' # fmt_nat (nat (- i)) else fmt_nat (nat i))"

definition digits_val :: "string \<Rightarrow> nat" where
  "digits_val s = foldl (\<lambda>a c. 10 * a + digit_val c) 0 s"

text \<open>
  \<^verbatim>\<open>strconv.ParseInt(s, 10, 64)\<close>, which \<^verbatim>\<open>strconv.Atoi\<close> agrees with on a 64-bit
  platform: an optional sign, at least one digit, nothing else, and a value inside the
  \<^verbatim>\<open>int64\<close> range.  \<open>None\<close> is any of its errors.
\<close>

definition ParseUint10 :: "string \<Rightarrow> nat option" where
  "ParseUint10 s = (if s \<noteq> [] \<and> list_all is_digit s then Some (digits_val s) else None)"

definition ParseInt :: "string \<Rightarrow> int option" where
  "ParseInt s =
     (case s of
        [] \<Rightarrow> None
      | c # cs \<Rightarrow>
          (let neg = (c = CHR ''-'');
               body = (if c = CHR ''+'' \<or> c = CHR ''-'' then cs else s)
           in case ParseUint10 body of
                None \<Rightarrow> None
              | Some n \<Rightarrow>
                  (let v = (if neg then - int n else int n)
                   in if int64_range v then Some v else None)))"

lemma fmt_nat_nonempty [simp]: "fmt_nat n \<noteq> []"
  by (subst fmt_nat.simps) simp

lemma fmt_nat_digits: "list_all is_digit (fmt_nat n)"
proof (induction n rule: fmt_nat.induct)
  case (1 n)
  show ?case
    using 1 by (cases "n < 10") (simp_all add: fmt_nat.simps [of n])
qed

lemma digits_val_snoc [simp]: "digits_val (s @ [c]) = 10 * digits_val s + digit_val c"
  by (simp add: digits_val_def)

lemma digits_val_fmt_nat [simp]: "digits_val (fmt_nat n) = n"
proof (induction n rule: fmt_nat.induct)
  case (1 n)
  show ?case
  proof (cases "n < 10")
    case True
    then show ?thesis by (simp add: fmt_nat.simps [of n] digits_val_def)
  next
    case False
    with 1 show ?thesis by (simp add: fmt_nat.simps [of n])
  qed
qed

lemma ParseUint10_fmt_nat [simp]: "ParseUint10 (fmt_nat n) = Some n"
  by (simp add: ParseUint10_def fmt_nat_digits)

lemma fmt_nat_Cons: "\<exists>c cs. fmt_nat n = c # cs \<and> is_digit c"
  using fmt_nat_digits [of n] by (cases "fmt_nat n") auto

lemma ParseInt_digits:
  "s \<noteq> [] \<Longrightarrow> list_all is_digit s \<Longrightarrow>
   ParseInt s = (if int64_range (int (digits_val s)) then Some (int (digits_val s)) else None)"
  by (cases s) (auto simp: ParseInt_def ParseUint10_def Let_def)

lemma ParseInt_FormatInt: "int64_range i \<Longrightarrow> ParseInt (FormatInt i) = Some i"
proof (cases "i < 0")
  case True
  assume "int64_range i"
  with True show ?thesis by (simp add: FormatInt_def ParseInt_def)
next
  case False
  assume "int64_range i"
  with False show ?thesis
    by (simp add: FormatInt_def ParseInt_digits fmt_nat_digits)
qed

lemma ParseInt_range: "ParseInt s = Some i \<Longrightarrow> int64_range i"
  by (auto simp: ParseInt_def Let_def split: list.splits option.splits if_splits)

lemma FormatInt_inj: "int64_range i \<Longrightarrow> int64_range j \<Longrightarrow> FormatInt i = FormatInt j \<Longrightarrow> i = j"
  by (metis ParseInt_FormatInt option.inject)

lemma fmt_nat_digit: "c \<in> set (fmt_nat n) \<Longrightarrow> is_digit c"
  using fmt_nat_digits [of n] by (simp add: list_all_iff)

lemma FormatInt_chars: "c \<in> set (FormatInt i) \<Longrightarrow> is_digit c \<or> c = CHR ''-''"
  by (auto simp: FormatInt_def dest: fmt_nat_digit split: if_splits)

lemma FormatInt_no_colon [simp]: "CHR '':'' \<notin> set (FormatInt i)"
  using FormatInt_chars [of "CHR '':''" i] by (auto simp: is_digit_def)

lemma FormatInt_nonempty [simp]: "FormatInt i \<noteq> []"
  by (simp add: FormatInt_def)

section \<open>strings: TrimPrefix and Cut\<close>

fun strip_prefix :: "string \<Rightarrow> string \<Rightarrow> string option" where
  "strip_prefix [] s = Some s"
| "strip_prefix (p # ps) [] = None"
| "strip_prefix (p # ps) (c # cs) = (if p = c then strip_prefix ps cs else None)"

definition TrimPrefix :: "string \<Rightarrow> string \<Rightarrow> string" where
  "TrimPrefix s p = (case strip_prefix p s of None \<Rightarrow> s | Some r \<Rightarrow> r)"

lemma strip_prefix_Some_iff: "strip_prefix p s = Some r \<longleftrightarrow> s = p @ r"
  by (induction p s rule: strip_prefix.induct) auto

lemma TrimPrefix_append [simp]: "TrimPrefix (p @ r) p = r"
proof -
  have "strip_prefix p (p @ r) = Some r" by (simp add: strip_prefix_Some_iff)
  then show ?thesis by (simp add: TrimPrefix_def)
qed

lemma TrimPrefix_changed: "TrimPrefix s p \<noteq> s \<Longrightarrow> s = p @ TrimPrefix s p"
  by (auto simp: TrimPrefix_def strip_prefix_Some_iff split: option.splits)

text \<open>The part of \<^verbatim>\<open>strings.Cut(s, sep)\<close> before the separator; the whole string without one.\<close>

definition Cut_before :: "string \<Rightarrow> char \<Rightarrow> string" where
  "Cut_before s sep = takeWhile (\<lambda>c. c \<noteq> sep) s"

lemma Cut_before_append [simp]: "sep \<notin> set a \<Longrightarrow> Cut_before (a @ sep # b) sep = a"
  by (induction a) (auto simp: Cut_before_def)

lemma Cut_before_none [simp]: "sep \<notin> set a \<Longrightarrow> Cut_before a sep = a"
  by (induction a) (auto simp: Cut_before_def)

section \<open>encoding/hex\<close>

definition hex_digit :: "nat \<Rightarrow> char" where
  "hex_digit d = (if d < 10 then char_of (48 + d) else char_of (87 + d))"

definition hex_EncodeToString :: "string \<Rightarrow> string" where
  "hex_EncodeToString bs = concat (map (\<lambda>c. [hex_digit (byte_of c div 16), hex_digit (byte_of c mod 16)]) bs)"

definition is_lower_hex :: "char \<Rightarrow> bool" where
  "is_lower_hex c \<longleftrightarrow> (48 \<le> byte_of c \<and> byte_of c \<le> 57) \<or> (97 \<le> byte_of c \<and> byte_of c \<le> 102)"

lemma length_hex [simp]: "length (hex_EncodeToString bs) = 2 * length bs"
  by (induction bs) (auto simp: hex_EncodeToString_def)

lemma byte_of_hex_digit: "d < 16 \<Longrightarrow> byte_of (hex_digit d) = (if d < 10 then 48 + d else 87 + d)"
  by (simp add: hex_digit_def)

lemma is_lower_hex_digit: "d < 16 \<Longrightarrow> is_lower_hex (hex_digit d)"
  by (simp add: is_lower_hex_def byte_of_hex_digit)

lemma byte_of_bound: "byte_of c < 256"
  using of_char_of [of "byte_of c"] by (simp add: of_char_def)

lemma high_nibble_bound [simp]: "byte_of c div 16 < 16"
  by (rule less_mult_imp_div_less) (use byte_of_bound [of c] in simp)

lemma hex_all_lower: "list_all is_lower_hex (hex_EncodeToString bs)"
  by (auto simp: hex_EncodeToString_def list_all_iff is_lower_hex_digit)

lemma hex_digit_inj: "a < 16 \<Longrightarrow> b < 16 \<Longrightarrow> hex_digit a = hex_digit b \<Longrightarrow> a = b"
proof -
  assume a: "a < 16" and b: "b < 16" and eq: "hex_digit a = hex_digit b"
  then have "byte_of (hex_digit a) = byte_of (hex_digit b)" by simp
  with a b show "a = b" by (simp add: byte_of_hex_digit split: if_splits)
qed

lemma hex_inj: "hex_EncodeToString a = hex_EncodeToString b \<Longrightarrow> a = b"
proof (induction a arbitrary: b)
  case Nil
  then show ?case by (cases b) (auto simp: hex_EncodeToString_def)
next
  case (Cons x xs)
  then obtain y ys where b: "b = y # ys" by (cases b) (auto simp: hex_EncodeToString_def)
  from Cons.prems b have
    hi: "hex_digit (byte_of x div 16) = hex_digit (byte_of y div 16)" and
    lo: "hex_digit (byte_of x mod 16) = hex_digit (byte_of y mod 16)" and
    tl: "hex_EncodeToString xs = hex_EncodeToString ys"
    by (auto simp: hex_EncodeToString_def)
  have "byte_of x div 16 = byte_of y div 16"
    using hex_digit_inj [OF _ _ hi] by simp
  moreover have "byte_of x mod 16 = byte_of y mod 16"
    using hex_digit_inj [OF _ _ lo] by simp
  ultimately have "byte_of x = byte_of y"
    by (metis div_mult_mod_eq)
  with Cons.IH [OF tl] b show ?case by simp
qed

section \<open>utf8: the rune loop\<close>

text \<open>
  \<open>decode_rune\<close> is \<^verbatim>\<open>utf8.DecodeRuneInString\<close> on a non-empty byte list: the code point and
  the number of bytes it takes, or U+FFFD and one byte where the encoding is invalid
  (a stray continuation byte, an overlong form, a surrogate, a truncated sequence).
\<close>

definition cont :: "nat \<Rightarrow> bool" where
  "cont b \<longleftrightarrow> 128 \<le> b \<and> b \<le> 191"

definition second_ok :: "nat \<Rightarrow> nat \<Rightarrow> bool" where
  "second_ok b0 b1 \<longleftrightarrow>
     (if b0 = 224 then 160 \<le> b1 \<and> b1 \<le> 191
      else if b0 = 237 then 128 \<le> b1 \<and> b1 \<le> 159
      else if b0 = 240 then 144 \<le> b1 \<and> b1 \<le> 191
      else if b0 = 244 then 128 \<le> b1 \<and> b1 \<le> 143
      else cont b1)"

definition RuneError :: nat where
  "RuneError = 65533"

fun decode_rune :: "nat list \<Rightarrow> nat \<times> nat" where
  "decode_rune [] = (RuneError, 0)"
| "decode_rune (b0 # bs) =
     (if b0 < 128 then (b0, 1)
      else if 194 \<le> b0 \<and> b0 \<le> 223 then
        (case bs of b1 # _ \<Rightarrow> if cont b1 then ((b0 - 192) * 64 + (b1 - 128), 2) else (RuneError, 1)
         | _ \<Rightarrow> (RuneError, 1))
      else if 224 \<le> b0 \<and> b0 \<le> 239 then
        (case bs of b1 # b2 # _ \<Rightarrow>
            if second_ok b0 b1 \<and> cont b2
            then ((b0 - 224) * 4096 + (b1 - 128) * 64 + (b2 - 128), 3) else (RuneError, 1)
         | _ \<Rightarrow> (RuneError, 1))
      else if 240 \<le> b0 \<and> b0 \<le> 244 then
        (case bs of b1 # b2 # b3 # _ \<Rightarrow>
            if second_ok b0 b1 \<and> cont b2 \<and> cont b3
            then ((b0 - 240) * 262144 + (b1 - 128) * 4096 + (b2 - 128) * 64 + (b3 - 128), 4)
            else (RuneError, 1)
         | _ \<Rightarrow> (RuneError, 1))
      else (RuneError, 1))"

lemma decode_rune_width: "bs \<noteq> [] \<Longrightarrow> 1 \<le> snd (decode_rune bs)"
  by (cases bs) (auto split: list.splits)

function runes_of :: "nat list \<Rightarrow> nat list" where
  "runes_of bs =
     (if bs = [] then []
      else fst (decode_rune bs) # runes_of (drop (snd (decode_rune bs)) bs))"
  by pat_completeness auto
termination
proof (relation "measure length", goal_cases)
  case 1
  show ?case by simp
next
  case (2 bs)
  then show ?case using decode_rune_width [of bs] by simp
qed

declare runes_of.simps [simp del]

definition runes :: "string \<Rightarrow> nat list" where
  "runes s = runes_of (map of_char s)"

lemma decode_rune_ascii: "b < 128 \<Longrightarrow> decode_rune (b # bs) = (b, 1)"
  by simp

lemma decode_rune_non_ascii: "128 \<le> b \<Longrightarrow> 128 \<le> fst (decode_rune (b # bs))"
  by (auto simp: RuneError_def second_ok_def cont_def split: list.splits if_splits)

lemma runes_of_ascii: "list_all (\<lambda>b. b < 128) bs \<Longrightarrow> runes_of bs = bs"
  by (induction bs) (simp_all add: runes_of.simps)

lemma runes_of_ascii_only:
  "list_all (\<lambda>r. r < 128) (runes_of bs) \<Longrightarrow> list_all (\<lambda>b. b < 128) bs"
proof (induction bs)
  case Nil
  then show ?case by simp
next
  case (Cons b bs)
  from Cons.prems have "fst (decode_rune (b # bs)) < 128"
    by (simp add: runes_of.simps [of "b # bs"])
  then have "b < 128" using decode_rune_non_ascii [of b bs] by (meson not_le)
  with Cons show ?case by (simp add: runes_of.simps [of "b # bs"])
qed

text \<open>
  A rune loop whose test only admits runes below 128 (every identifier rule in the
  services) decides the same thing as the same test on the bytes.
\<close>

lemma list_all_runes:
  assumes ascii: "\<And>r. P r \<Longrightarrow> r < 128"
  shows "list_all P (runes s) \<longleftrightarrow> list_all (\<lambda>c. P (byte_of c)) s"
proof
  assume L: "list_all P (runes s)"
  then have "list_all (\<lambda>r. r < 128) (runes s)"
    using ascii by (auto simp: list_all_iff)
  then have "list_all (\<lambda>b. b < 128) (map byte_of s)"
    unfolding runes_def by (rule runes_of_ascii_only)
  then have "runes s = map byte_of s" unfolding runes_def by (rule runes_of_ascii)
  with L show "list_all (\<lambda>c. P (byte_of c)) s" by (simp add: list_all_iff)
next
  assume R: "list_all (\<lambda>c. P (byte_of c)) s"
  then have "list_all (\<lambda>b. b < 128) (map byte_of s)"
    using ascii by (auto simp: list_all_iff)
  then have "runes s = map byte_of s" unfolding runes_def by (rule runes_of_ascii)
  with R show "list_all P (runes s)" by (simp add: list_all_iff)
qed

end
