(* ===== verification/EdgeCache.thy ===== *)
theory EdgeCache
  imports GoStrings
begin

text \<open>
  \<^verbatim>\<open>gateway/internal/edgecache/cache.go\<close>: the byte-bounded LRU cache.  The Go cache keeps
  a \<^verbatim>\<open>container/list\<close> of items and a map from keys to list elements; an element pointer
  is modelled by an allocation number, so the agreement of the two structures is
  something to prove.  The abstract cache is the list of items, most recently used
  first; \<open>cache_abs\<close> relates the two and every operation refines its abstract
  counterpart.  Sizes are \<^verbatim>\<open>int64\<close> and the additions wrap.
\<close>

section \<open>cache.go\<close>

record Entry =
  e_Body :: string
  e_ContentType :: string
  e_ETag :: string

record item =
  it_key :: string
  it_entry :: Entry

record Cache =
  c_maxBytes :: int
  c_maxEntry :: int
  c_used :: int
  c_order :: "(nat \<times> item) list"
  c_items :: "string \<rightharpoonup> nat"
  c_hits :: uint64
  c_misses :: uint64
  c_next :: nat

definition Cache_New :: "int \<Rightarrow> int \<Rightarrow> Cache" where
  "Cache_New maxBytes maxEntry =
     \<lparr>c_maxBytes = maxBytes, c_maxEntry = maxEntry, c_used = 0, c_order = [], c_items = Map.empty,
      c_hits = 0, c_misses = 0, c_next = 0\<rparr>"

definition entry_size :: "Entry \<Rightarrow> int" where
  "entry_size e = int (length (e_Body e))"

text \<open>\<^verbatim>\<open>list.Remove\<close>, \<^verbatim>\<open>list.MoveToFront\<close> and \<^verbatim>\<open>list.Back\<close> on the element list.\<close>

definition list_Remove :: "nat \<Rightarrow> (nat \<times> item) list \<Rightarrow> (nat \<times> item) list" where
  "list_Remove el xs = filter (\<lambda>x. fst x \<noteq> el) xs"

definition list_MoveToFront :: "nat \<Rightarrow> (nat \<times> item) list \<Rightarrow> (nat \<times> item) list" where
  "list_MoveToFront el xs = filter (\<lambda>x. fst x = el) xs @ list_Remove el xs"

definition list_Back :: "(nat \<times> item) list \<Rightarrow> nat option" where
  "list_Back xs = (if xs = [] then None else Some (fst (last xs)))"

definition Cache_Get :: "Cache \<Rightarrow> string \<Rightarrow> Cache \<times> Entry option" where
  "Cache_Get c key =
     (case c_items c key of
        None \<Rightarrow> (c\<lparr>c_misses := c_misses c + 1\<rparr>, None)
      | Some element \<Rightarrow>
          (c\<lparr>c_order := list_MoveToFront element (c_order c), c_hits := c_hits c + 1\<rparr>,
           map_option it_entry (map_of (c_order c) element)))"

definition Cache_evict :: "nat \<Rightarrow> Cache \<Rightarrow> Cache" where
  "Cache_evict element c =
     (case map_of (c_order c) element of
        None \<Rightarrow> c
      | Some it \<Rightarrow>
          c\<lparr>c_used := i64 (c_used c - entry_size (it_entry it)),
            c_order := list_Remove element (c_order c),
            c_items := (c_items c)(it_key it := None)\<rparr>)"

lemma Cache_evict_shrinks:
  "list_Back (c_order c) = Some el \<Longrightarrow> length (c_order (Cache_evict el c)) < length (c_order c)"
proof -
  assume "list_Back (c_order c) = Some el"
  then have l: "c_order c \<noteq> []" "fst (last (c_order c)) = el"
    by (auto simp: list_Back_def split: if_splits)
  then have mem: "last (c_order c) \<in> set (c_order c)" by simp
  with l(2) have "map_of (c_order c) el \<noteq> None" by (metis map_of_eq_None_iff image_eqI)
  moreover have "length (list_Remove el (c_order c)) < length (c_order c)"
    unfolding list_Remove_def by (rule length_filter_less [OF mem]) (simp add: l(2))
  ultimately show ?thesis by (auto simp: Cache_evict_def)
qed

text \<open>The eviction loop of \<^verbatim>\<open>Put\<close>.\<close>

function Put_evict :: "int \<Rightarrow> Cache \<Rightarrow> Cache" where
  "Put_evict sz c =
     (if i64 (c_used c + sz) > c_maxBytes c
      then (case list_Back (c_order c) of None \<Rightarrow> c | Some oldest \<Rightarrow> Put_evict sz (Cache_evict oldest c))
      else c)"
  by pat_completeness auto
termination
  by (relation "measure (\<lambda>(sz, c). length (c_order c))") (auto simp: Cache_evict_shrinks)

declare Put_evict.simps [simp del]

definition Cache_Put :: "Cache \<Rightarrow> string \<Rightarrow> Entry \<Rightarrow> Cache \<times> bool" where
  "Cache_Put c key entry =
     (let sz = entry_size entry
      in if sz > c_maxEntry c \<or> sz > c_maxBytes c then (c, False)
         else
           (let c1 = (case c_items c key of
                        None \<Rightarrow> c
                      | Some element \<Rightarrow>
                          c\<lparr>c_used := i64 (c_used c - (case map_of (c_order c) element of
                                                          None \<Rightarrow> 0 | Some it \<Rightarrow> entry_size (it_entry it))),
                            c_order := list_Remove element (c_order c),
                            c_items := (c_items c)(key := None)\<rparr>);
                c2 = Put_evict sz c1
            in (c2\<lparr>c_order := (c_next c2, \<lparr>it_key = key, it_entry = entry\<rparr>) # c_order c2,
                   c_items := (c_items c2)(key \<mapsto> c_next c2),
                   c_used := i64 (c_used c2 + sz),
                   c_next := Suc (c_next c2)\<rparr>, True)))"

record Stats =
  st_Entries :: nat
  st_UsedBytes :: int
  st_MaxBytes :: int
  st_Hits :: uint64
  st_Misses :: uint64

definition Cache_Stats :: "Cache \<Rightarrow> Stats" where
  "Cache_Stats c =
     \<lparr>st_Entries = card (dom (c_items c)), st_UsedBytes = c_used c, st_MaxBytes = c_maxBytes c,
      st_Hits = c_hits c, st_Misses = c_misses c\<rparr>"

section \<open>The abstract cache: a recency list\<close>

type_synonym recency = "(string \<times> Entry) list"

definition lru_drop :: "string \<Rightarrow> recency \<Rightarrow> recency" where
  "lru_drop k xs = filter (\<lambda>x. fst x \<noteq> k) xs"

definition lru_get :: "string \<Rightarrow> recency \<Rightarrow> recency \<times> Entry option" where
  "lru_get k xs =
     (case map_of xs k of None \<Rightarrow> (xs, None) | Some e \<Rightarrow> ((k, e) # lru_drop k xs, Some e))"

text \<open>The longest prefix (most recent items) that fits a byte budget.\<close>

fun lru_fit :: "int \<Rightarrow> recency \<Rightarrow> recency" where
  "lru_fit b [] = []"
| "lru_fit b (x # xs) = (if entry_size (snd x) \<le> b then x # lru_fit (b - entry_size (snd x)) xs else [])"

definition lru_put :: "int \<Rightarrow> string \<Rightarrow> Entry \<Rightarrow> recency \<Rightarrow> recency" where
  "lru_put cap k e xs = (k, e) # lru_fit (cap - entry_size e) (lru_drop k xs)"

definition lru_size :: "recency \<Rightarrow> int" where
  "lru_size xs = sum_list (map (\<lambda>x. entry_size (snd x)) xs)"

definition cache_abs :: "Cache \<Rightarrow> recency" where
  "cache_abs c = map (\<lambda>x. (it_key (snd x), it_entry (snd x))) (c_order c)"

section \<open>Representation invariant\<close>

definition cache_wf :: "Cache \<Rightarrow> bool" where
  "cache_wf c \<longleftrightarrow>
     distinct (map fst (c_order c)) \<and>
     distinct (map (\<lambda>x. it_key (snd x)) (c_order c)) \<and>
     (\<forall>x \<in> set (c_order c). fst x < c_next c) \<and>
     c_items c = map_of (map (\<lambda>x. (it_key (snd x), fst x)) (c_order c)) \<and>
     c_used c = lru_size (cache_abs c) \<and>
     0 \<le> c_maxBytes c \<and> c_maxBytes c < 2 ^ 62"

definition cache_inv :: "Cache \<Rightarrow> bool" where
  "cache_inv c \<longleftrightarrow> cache_wf c \<and> c_used c \<le> c_maxBytes c \<and>
     (\<forall>x \<in> set (cache_abs c). entry_size (snd x) \<le> c_maxEntry c)"

lemma entry_size_nonneg [simp]: "0 \<le> entry_size e"
  by (simp add: entry_size_def)

lemma lru_size_simps [simp]:
  "lru_size [] = 0" "lru_size (x # xs) = entry_size (snd x) + lru_size xs"
  "lru_size (xs @ ys) = lru_size xs + lru_size ys"
  by (simp_all add: lru_size_def)

lemma lru_size_nonneg [simp]: "0 \<le> lru_size xs"
  by (induction xs) simp_all

lemma lru_size_filter_le: "lru_size (filter P xs) \<le> lru_size xs"
proof (induction xs)
  case (Cons x xs)
  have "0 \<le> entry_size (snd x)" by simp
  with Cons show ?case by (cases "P x") (simp_all del: entry_size_nonneg)
qed simp

section \<open>The list and the map agree\<close>

lemma abs_keys: "map fst (cache_abs c) = map (\<lambda>x. it_key (snd x)) (c_order c)"
  by (simp add: cache_abs_def comp_def)

lemma map_of_abs_order:
  "map_of (map (\<lambda>x. (it_key (snd x), it_entry (snd x))) xs) k =
     Option.bind (map_of (map (\<lambda>x. (it_key (snd x), fst x)) xs) k)
       (\<lambda>el. map_option it_entry (map_of xs el))"
  if "distinct (map fst xs)"
  using that
proof (induction xs)
  case Nil
  then show ?case by simp
next
  case (Cons x xs)
  obtain a it where x: "x = (a, it)" by (cases x)
  have "map_of xs el = map_of (x # xs) el" if "map_of (map (\<lambda>x. (it_key (snd x), fst x)) xs) k = Some el" for el
  proof -
    from that have "el \<in> set (map fst xs)" by (auto dest!: map_of_SomeD)
    with Cons.prems have "el \<noteq> fst x" by (metis distinct.simps(2) list.simps(9))
    then show ?thesis by (simp add: x)
  qed
  with Cons show ?case
    by (cases "map_of (map (\<lambda>x. (it_key (snd x), fst x)) xs) k") (auto simp: x)
qed

lemma cache_lookup:
  "cache_wf c \<Longrightarrow> map_of (cache_abs c) k =
     Option.bind (c_items c k) (\<lambda>el. map_option it_entry (map_of (c_order c) el))"
  unfolding cache_wf_def cache_abs_def by (simp add: map_of_abs_order)

lemma items_Some:
  assumes "cache_wf c" "c_items c k = Some el"
  obtains it where "(el, it) \<in> set (c_order c)" "it_key it = k" "map_of (c_order c) el = Some it"
proof -
  from assms have "map_of (map (\<lambda>x. (it_key (snd x), fst x)) (c_order c)) k = Some el"
    by (simp add: cache_wf_def)
  then obtain x where x: "x \<in> set (c_order c)" "it_key (snd x) = k" "fst x = el"
    by (auto dest!: map_of_SomeD)
  then have "(el, snd x) \<in> set (c_order c)" by (metis prod.collapse)
  moreover from this have "map_of (c_order c) el = Some (snd x)"
    using assms(1) by (simp add: cache_wf_def map_of_eq_Some_iff)
  ultimately show thesis using that x(2) by blast
qed

text \<open>Removing an element from the list is dropping its key from the recency list.\<close>

lemma element_iff_key:
  assumes "cache_wf c" "(el, it) \<in> set (c_order c)" "x \<in> set (c_order c)"
  shows "fst x = el \<longleftrightarrow> it_key (snd x) = it_key it"
proof
  assume "fst x = el"
  with assms have "x = (el, it)"
    by (metis cache_wf_def eq_key_imp_eq_value prod.collapse)
  then show "it_key (snd x) = it_key it" by simp
next
  assume k: "it_key (snd x) = it_key it"
  have "inj_on (\<lambda>x. it_key (snd x)) (set (c_order c))"
    using assms(1) by (simp add: cache_wf_def distinct_map)
  then have "x = (el, it)" by (rule inj_onD) (use k assms(2,3) in auto)
  then show "fst x = el" by simp
qed

lemma abs_Remove:
  assumes "cache_wf c" "(el, it) \<in> set (c_order c)"
  shows "map (\<lambda>x. (it_key (snd x), it_entry (snd x))) (list_Remove el (c_order c)) =
    lru_drop (it_key it) (cache_abs c)"
proof -
  have "list_Remove el (c_order c) = filter (\<lambda>x. it_key (snd x) \<noteq> it_key it) (c_order c)"
    unfolding list_Remove_def by (rule filter_cong) (auto simp: element_iff_key [OF assms])
  then show ?thesis by (simp add: lru_drop_def cache_abs_def filter_map comp_def)
qed

lemma items_Remove:
  assumes "cache_wf c" "(el, it) \<in> set (c_order c)"
  shows "(c_items c)(it_key it := None) = map_of (map (\<lambda>x. (it_key (snd x), fst x)) (list_Remove el (c_order c)))"
proof -
  have "list_Remove el (c_order c) = filter (\<lambda>x. it_key (snd x) \<noteq> it_key it) (c_order c)"
    unfolding list_Remove_def by (rule filter_cong) (auto simp: element_iff_key [OF assms])
  moreover have "map_of (map (\<lambda>x. (it_key (snd x), fst x)) (filter (\<lambda>x. it_key (snd x) \<noteq> k) xs)) =
      (map_of (map (\<lambda>x. (it_key (snd x), fst x)) xs))(k := None)" for xs :: "(nat \<times> item) list" and k
    by (induction xs) auto
  ultimately show ?thesis using assms(1) by (simp add: cache_wf_def)
qed

lemma lru_drop_absent: "map_of xs k = None \<Longrightarrow> lru_drop k xs = xs"
  by (auto simp: lru_drop_def map_of_eq_None_iff filter_id_conv)

lemma lru_size_drop:
  "distinct (map fst xs) \<Longrightarrow> (k, e) \<in> set xs \<Longrightarrow> lru_size (lru_drop k xs) = lru_size xs - entry_size e"
proof (induction xs)
  case Nil
  then show ?case by simp
next
  case (Cons x xs)
  show ?case
  proof (cases "fst x = k")
    case True
    with Cons.prems have "map_of xs k = None" and "snd x = e"
      by (auto simp: map_of_eq_None_iff rev_image_eqI prod_eq_iff)
    with True show ?thesis by (simp add: lru_drop_def lru_drop_absent [unfolded lru_drop_def])
  next
    case False
    with Cons have "lru_size (lru_drop k xs) = lru_size xs - entry_size e" by auto
    with False show ?thesis by (simp add: lru_drop_def)
  qed
qed

text \<open>
  Taking one element out (the replace branch of \<^verbatim>\<open>Put\<close>, and \<^verbatim>\<open>evict\<close>) keeps the
  representation and drops exactly its key.
\<close>

definition take_out :: "nat \<Rightarrow> item \<Rightarrow> Cache \<Rightarrow> Cache" where
  "take_out el it c =
     c\<lparr>c_used := i64 (c_used c - entry_size (it_entry it)),
       c_order := list_Remove el (c_order c),
       c_items := (c_items c)(it_key it := None)\<rparr>"

lemma take_out_sel [simp]:
  "c_maxBytes (take_out el it c) = c_maxBytes c" "c_maxEntry (take_out el it c) = c_maxEntry c"
  "c_next (take_out el it c) = c_next c"
  by (simp_all add: take_out_def)

lemma take_out_wf:
  assumes wf: "cache_wf c" and mem: "(el, it) \<in> set (c_order c)" and fits: "c_used c < 2 ^ 63"
  shows "cache_wf (take_out el it c)"
    and "cache_abs (take_out el it c) = lru_drop (it_key it) (cache_abs c)"
    and "c_used (take_out el it c) \<le> c_used c"
proof -
  show abs: "cache_abs (take_out el it c) = lru_drop (it_key it) (cache_abs c)"
    using abs_Remove [OF wf mem] by (simp add: cache_abs_def take_out_def)
  have "(it_key it, it_entry it) \<in> set (cache_abs c)"
    using mem by (force simp: cache_abs_def)
  moreover have "distinct (map fst (cache_abs c))" using wf by (simp add: abs_keys cache_wf_def)
  ultimately have sz: "lru_size (lru_drop (it_key it) (cache_abs c)) = c_used c - entry_size (it_entry it)"
    using wf by (simp add: lru_size_drop cache_wf_def)
  have "int64_range (c_used c - entry_size (it_entry it))"
    using lru_size_nonneg [of "lru_drop (it_key it) (cache_abs c)"] fits sz entry_size_nonneg [of "it_entry it"]
    unfolding int64_range_def by linarith
  then have used: "c_used (take_out el it c) = c_used c - entry_size (it_entry it)"
    by (simp add: take_out_def)
  then show "c_used (take_out el it c) \<le> c_used c" by simp
  have d: "distinct (map fst (list_Remove el (c_order c)))"
    "distinct (map (\<lambda>x. it_key (snd x)) (list_Remove el (c_order c)))"
    using wf by (auto simp: cache_wf_def list_Remove_def intro: distinct_map_filterI)
  show "cache_wf (take_out el it c)"
    using wf d used abs sz items_Remove [OF wf mem]
    unfolding cache_wf_def by (auto simp: take_out_def list_Remove_def)
qed

lemma lru_fit_all: "lru_size xs \<le> b \<Longrightarrow> lru_fit b xs = xs"
proof (induction xs arbitrary: b)
  case Nil
  then show ?case by simp
next
  case (Cons x xs)
  have "0 \<le> lru_size xs" by (rule lru_size_nonneg)
  with Cons show ?case by (simp del: lru_size_nonneg)
qed

lemma lru_fit_snoc: "b < lru_size (xs @ [x]) \<Longrightarrow> lru_fit b (xs @ [x]) = lru_fit b xs"
proof (induction xs arbitrary: b)
  case Nil
  then show ?case by simp
next
  case (Cons y ys)
  then show ?case by auto
qed

lemma lru_fit_size: "0 \<le> b \<Longrightarrow> lru_size (lru_fit b xs) \<le> b"
proof (induction xs arbitrary: b)
  case Nil
  then show ?case by simp
next
  case (Cons x xs)
  show ?case
  proof (cases "entry_size (snd x) \<le> b")
    case True
    then have "lru_size (lru_fit (b - entry_size (snd x)) xs) \<le> b - entry_size (snd x)"
      by (intro Cons.IH) simp
    with True show ?thesis by simp
  qed (use Cons.prems in simp)
qed

lemma lru_fit_prefix: "\<exists>rest. xs = lru_fit b xs @ rest"
proof (induction xs arbitrary: b)
  case Nil
  then show ?case by simp
next
  case (Cons x xs)
  then show ?case by (auto)
qed

lemma Put_evict_simps:
  "i64 (c_used c + sz) \<le> c_maxBytes c \<Longrightarrow> Put_evict sz c = c"
  "c_maxBytes c < i64 (c_used c + sz) \<Longrightarrow> list_Back (c_order c) = None \<Longrightarrow> Put_evict sz c = c"
  "c_maxBytes c < i64 (c_used c + sz) \<Longrightarrow> list_Back (c_order c) = Some el \<Longrightarrow>
     Put_evict sz c = Put_evict sz (Cache_evict el c)"
  by (simp_all add: Put_evict.simps [of sz c])

lemma Put_evict_correct:
  "cache_wf c \<Longrightarrow> c_used c \<le> c_maxBytes c \<Longrightarrow> 0 \<le> sz \<Longrightarrow> sz \<le> c_maxBytes c \<Longrightarrow>
   cache_wf (Put_evict sz c) \<and> c_maxBytes (Put_evict sz c) = c_maxBytes c \<and>
   c_maxEntry (Put_evict sz c) = c_maxEntry c \<and>
   cache_abs (Put_evict sz c) = lru_fit (c_maxBytes c - sz) (cache_abs c)"
proof (induction "length (c_order c)" arbitrary: c rule: less_induct)
  case less
  have used0: "0 \<le> c_used c" using less.prems(1) by (simp add: cache_wf_def)
  have range: "int64_range (c_used c + sz)"
  proof -
    have "c_maxBytes c < 4611686018427387904" using less.prems(1) by (simp add: cache_wf_def)
    with less.prems(2,3,4) used0 show ?thesis by (simp add: int64_range_def)
  qed
  have size_abs: "lru_size (cache_abs c) = c_used c" using less.prems(1) by (simp add: cache_wf_def)
  show ?case
  proof (cases "c_used c + sz \<le> c_maxBytes c")
    case True
    then show ?thesis
      using less.prems range by (simp add: Put_evict_simps(1) lru_fit_all size_abs)
  next
    case False
    then have over: "c_maxBytes c < i64 (c_used c + sz)" using range by simp
    have ne: "c_order c \<noteq> []"
      using False less.prems size_abs by (auto simp: cache_abs_def)
    obtain xs el it where snoc: "c_order c = xs @ [(el, it)]"
      using ne by (metis append_butlast_last_id prod.collapse)
    then have bk: "list_Back (c_order c) = Some el" and mem: "(el, it) \<in> set (c_order c)"
      by (simp_all add: list_Back_def)
    have "map_of (c_order c) el = Some it"
      using mem less.prems(1) by (simp add: cache_wf_def)
    then have ev: "Cache_evict el c = take_out el it c"
      by (simp add: Cache_evict_def take_out_def)
    have small: "c_used c < 2 ^ 63" using less.prems by (simp add: cache_wf_def)
    note out = take_out_wf [OF less.prems(1) mem small]
    have keys: "distinct (map fst (cache_abs c))" using less.prems(1) by (simp add: abs_keys cache_wf_def)
    have abs_c: "cache_abs c = map (\<lambda>x. (it_key (snd x), it_entry (snd x))) xs @ [(it_key it, it_entry it)]"
      by (simp add: cache_abs_def snoc)
    then have dropped: "lru_drop (it_key it) (cache_abs c) = map (\<lambda>x. (it_key (snd x), it_entry (snd x))) xs"
      using keys by (force simp: lru_drop_def comp_def filter_id_conv)
    have "cache_wf (Put_evict sz (take_out el it c)) \<and>
        c_maxBytes (Put_evict sz (take_out el it c)) = c_maxBytes c \<and>
        c_maxEntry (Put_evict sz (take_out el it c)) = c_maxEntry c \<and>
        cache_abs (Put_evict sz (take_out el it c)) =
          lru_fit (c_maxBytes c - sz) (cache_abs (take_out el it c))"
      using less.hyps [of "take_out el it c"] Cache_evict_shrinks [OF bk] out less.prems
      by (simp add: ev)
    moreover have "lru_fit (c_maxBytes c - sz) (cache_abs c) =
        lru_fit (c_maxBytes c - sz) (map (\<lambda>x. (it_key (snd x), it_entry (snd x))) xs)"
      unfolding abs_c using False size_abs by (intro lru_fit_snoc) (simp add: abs_c)
    ultimately show ?thesis
      by (simp add: Put_evict_simps(3) [OF over bk] ev out(2) dropped)
  qed
qed


section \<open>The operations refine the abstract cache\<close>

lemma Cache_Get_sel [simp]:
  "c_maxBytes (fst (Cache_Get c k)) = c_maxBytes c"
  "c_maxEntry (fst (Cache_Get c k)) = c_maxEntry c"
  "c_next (fst (Cache_Get c k)) = c_next c"
  "c_used (fst (Cache_Get c k)) = c_used c"
  by (simp_all add: Cache_Get_def split: option.split)

lemma Cache_Get_refines:
  assumes "cache_wf c"
  shows "cache_wf (fst (Cache_Get c k))"
    and "cache_abs (fst (Cache_Get c k)) = fst (lru_get k (cache_abs c))"
    and "snd (Cache_Get c k) = snd (lru_get k (cache_abs c))"
proof -
  have dk: "distinct (map fst (cache_abs c))" using assms by (simp add: abs_keys cache_wf_def)
  show "snd (Cache_Get c k) = snd (lru_get k (cache_abs c))"
    using cache_lookup [OF assms, of k]
    by (auto simp: Cache_Get_def lru_get_def split: option.splits elim: items_Some [OF assms])
  have "cache_wf (fst (Cache_Get c k)) \<and>
    cache_abs (fst (Cache_Get c k)) = fst (lru_get k (cache_abs c))"
  proof (cases "c_items c k")
    case None
    then have "map_of (cache_abs c) k = None" by (simp add: cache_lookup [OF assms])
    with None assms show ?thesis
      by (simp add: Cache_Get_def lru_get_def cache_wf_def cache_abs_def)
  next
    case (Some el)
    obtain it where it: "(el, it) \<in> set (c_order c)" "it_key it = k" "map_of (c_order c) el = Some it"
      using items_Some [OF assms Some] by blast
    have look: "map_of (cache_abs c) k = Some (it_entry it)"
      by (simp add: cache_lookup [OF assms] Some it(3))
    have only: "filter (\<lambda>x. fst x = el) (c_order c) = [(el, it)]"
      using assms it(1) by (intro filter_key_single) (simp_all add: cache_wf_def)
    then have mtf: "list_MoveToFront el (c_order c) = (el, it) # list_Remove el (c_order c)"
      by (simp add: list_MoveToFront_def)
    let ?c = "fst (Cache_Get c k)"
    have order: "c_order ?c = (el, it) # list_Remove el (c_order c)"
      by (simp add: Cache_Get_def Some mtf)
    have abs: "cache_abs ?c = (k, it_entry it) # lru_drop k (cache_abs c)"
      using abs_Remove [OF assms it(1)] by (simp add: cache_abs_def order it(2))
    have sz: "lru_size (cache_abs ?c) = lru_size (cache_abs c)"
      using lru_size_drop [OF dk, of k "it_entry it"] map_of_SomeD [OF look] by (simp add: abs)
    have "distinct (map fst (cache_abs ?c))"
      using dk by (auto simp: abs lru_drop_def intro: distinct_map_filterI)
    then have keys: "distinct (map (\<lambda>x. it_key (snd x)) (c_order ?c))" by (simp add: abs_keys)
    have els: "distinct (map fst (c_order ?c))"
      using assms by (auto simp: order list_Remove_def cache_wf_def intro: distinct_map_filterI)
    have "c_items ?c = map_of (map (\<lambda>x. (it_key (snd x), fst x)) (c_order ?c))"
      unfolding order using items_Remove [OF assms it(1), symmetric] Some
      by (simp add: it(2) Cache_Get_def fun_upd_idem)
    then have "cache_wf ?c"
      using assms keys els sz it(1) unfolding cache_wf_def order
      by (auto simp: list_Remove_def)
    with abs look show ?thesis by (simp add: lru_get_def)
  qed
  then show "cache_wf (fst (Cache_Get c k))"
    and "cache_abs (fst (Cache_Get c k)) = fst (lru_get k (cache_abs c))" by simp_all
qed


lemma Cache_Put_refused: "\<not> snd (Cache_Put c k e) \<Longrightarrow> fst (Cache_Put c k e) = c"
  by (cases "entry_size e > c_maxEntry c \<or> entry_size e > c_maxBytes c") (auto simp: Cache_Put_def Let_def)

lemma Cache_Put_stored_iff:
  "snd (Cache_Put c k e) \<longleftrightarrow> entry_size e \<le> c_maxEntry c \<and> entry_size e \<le> c_maxBytes c"
  by (auto simp: Cache_Put_def Let_def)

definition Put_replace :: "string \<Rightarrow> Cache \<Rightarrow> Cache" where
  "Put_replace k c =
     (case c_items c k of None \<Rightarrow> c
      | Some el \<Rightarrow> (case map_of (c_order c) el of None \<Rightarrow> c | Some it \<Rightarrow> take_out el it c))"

lemma Put_replace_correct:
  assumes "cache_wf c" "c_used c \<le> c_maxBytes c"
  shows "cache_wf (Put_replace k c) \<and> cache_abs (Put_replace k c) = lru_drop k (cache_abs c) \<and>
    c_used (Put_replace k c) \<le> c_maxBytes c \<and> c_maxBytes (Put_replace k c) = c_maxBytes c \<and>
    c_maxEntry (Put_replace k c) = c_maxEntry c"
proof (cases "c_items c k")
  case None
  then have "map_of (cache_abs c) k = None" by (simp add: cache_lookup [OF assms(1)])
  with None assms show ?thesis by (simp add: Put_replace_def lru_drop_absent)
next
  case (Some el)
  obtain it where it: "(el, it) \<in> set (c_order c)" "it_key it = k" "map_of (c_order c) el = Some it"
    using items_Some [OF assms(1) Some] by blast
  have "c_used c < 2 ^ 63" using assms by (simp add: cache_wf_def)
  from take_out_wf [OF assms(1) it(1) this] it assms(2) show ?thesis
    by (simp add: Put_replace_def Some)
qed

lemma Cache_Put_unfold:
  assumes "cache_wf c" "snd (Cache_Put c k e)"
  shows "fst (Cache_Put c k e) =
    (let c2 = Put_evict (entry_size e) (Put_replace k c)
     in c2\<lparr>c_order := (c_next c2, \<lparr>it_key = k, it_entry = e\<rparr>) # c_order c2,
           c_items := (c_items c2)(k \<mapsto> c_next c2),
           c_used := i64 (c_used c2 + entry_size e), c_next := Suc (c_next c2)\<rparr>)"
proof -
  have "Put_replace k c = (case c_items c k of None \<Rightarrow> c
      | Some el \<Rightarrow> c\<lparr>c_used := i64 (c_used c - (case map_of (c_order c) el of
                       None \<Rightarrow> 0 | Some it \<Rightarrow> entry_size (it_entry it))),
          c_order := list_Remove el (c_order c), c_items := (c_items c)(k := None)\<rparr>)"
    by (auto simp: Put_replace_def take_out_def split: option.splits elim: items_Some [OF assms(1)])
  then show ?thesis using assms(2) by (auto simp: Cache_Put_def Let_def split: if_splits)
qed

lemma lru_fit_subset: "set (lru_fit b xs) \<subseteq> set xs"
  by (metis lru_fit_prefix set_append Un_upper1)

lemma lru_fit_distinct: "distinct (map fst xs) \<Longrightarrow> distinct (map fst (lru_fit b xs))"
  by (metis distinct_append lru_fit_prefix map_append)

lemma Cache_Put_refines:
  assumes "cache_wf c" "c_used c \<le> c_maxBytes c" "snd (Cache_Put c k e)"
  shows "cache_wf (fst (Cache_Put c k e))"
    and "cache_abs (fst (Cache_Put c k e)) = lru_put (c_maxBytes c) k e (cache_abs c)"
proof -
  define c2 where "c2 = Put_evict (entry_size e) (Put_replace k c)"
  have size_le: "entry_size e \<le> c_maxBytes c" using assms(3) by (simp add: Cache_Put_stored_iff)
  note R = Put_replace_correct [OF assms(1,2), of k]
  have E: "cache_wf c2" "c_maxBytes c2 = c_maxBytes c"
      "cache_abs c2 = lru_fit (c_maxBytes c - entry_size e) (lru_drop k (cache_abs c))"
    using Put_evict_correct [of "Put_replace k c" "entry_size e"] R size_le by (simp_all add: c2_def)
  have new: "fst (Cache_Put c k e) = c2\<lparr>c_order := (c_next c2, \<lparr>it_key = k, it_entry = e\<rparr>) # c_order c2,
      c_items := (c_items c2)(k \<mapsto> c_next c2), c_used := i64 (c_used c2 + entry_size e),
      c_next := Suc (c_next c2)\<rparr>" (is "_ = ?n")
    using Cache_Put_unfold [OF assms(1,3)] by (simp add: c2_def Let_def)
  show abs: "cache_abs (fst (Cache_Put c k e)) = lru_put (c_maxBytes c) k e (cache_abs c)"
    using E(3) by (simp add: new lru_put_def cache_abs_def)
  have used2: "c_used c2 = lru_size (cache_abs c2)" using E(1) by (simp add: cache_wf_def)
  have "lru_size (cache_abs c2) \<le> c_maxBytes c - entry_size e"
    unfolding E(3) using size_le by (intro lru_fit_size) simp
  moreover have "c_maxBytes c < 4611686018427387904" using assms(1) by (simp add: cache_wf_def)
  moreover have "0 \<le> c_used c2" "0 \<le> entry_size e" by (simp_all add: used2)
  ultimately have "int64_range (c_used c2 + entry_size e)"
    unfolding used2 [symmetric] by (intro int64_rangeI) linarith+
  then have used: "c_used ?n = lru_size (cache_abs ?n)"
    using used2 by (simp add: cache_abs_def)
  have "k \<notin> set (map fst (cache_abs c2))"
    using lru_fit_subset unfolding E(3) by (fastforce simp: lru_drop_def)
  then have fresh: "k \<notin> set (map (\<lambda>x. it_key (snd x)) (c_order c2))" unfolding abs_keys .
  have "cache_wf ?n"
    using E(1) fresh used unfolding cache_wf_def by (auto simp: less_Suc_eq)
  then show "cache_wf (fst (Cache_Put c k e))" by (simp add: new)
qed


lemma Cache_Put_sel [simp]:
  assumes "cache_wf c" "c_used c \<le> c_maxBytes c"
  shows "c_maxBytes (fst (Cache_Put c k e)) = c_maxBytes c"
    and "c_maxEntry (fst (Cache_Put c k e)) = c_maxEntry c"
proof -
  have "c_maxBytes (fst (Cache_Put c k e)) = c_maxBytes c \<and> c_maxEntry (fst (Cache_Put c k e)) = c_maxEntry c"
  proof (cases "snd (Cache_Put c k e)")
    case True
    then have "entry_size e \<le> c_maxBytes c" by (simp add: Cache_Put_stored_iff)
    then show ?thesis
      using Put_evict_correct [of "Put_replace k c" "entry_size e"] Put_replace_correct [OF assms, of k]
      by (simp add: Cache_Put_unfold [OF assms(1) True] Let_def)
  qed (simp add: Cache_Put_refused)
  then show "c_maxBytes (fst (Cache_Put c k e)) = c_maxBytes c"
    "c_maxEntry (fst (Cache_Put c k e)) = c_maxEntry c" by simp_all
qed

lemma cache_wf_used: "cache_wf c \<Longrightarrow> c_used c = lru_size (cache_abs c)"
  by (simp add: cache_wf_def)

lemma cache_wf_keys: "cache_wf c \<Longrightarrow> distinct (map fst (cache_abs c))"
  by (simp add: cache_wf_def abs_keys)

lemma cache_inv_New: "0 \<le> maxBytes \<Longrightarrow> maxBytes < 2 ^ 62 \<Longrightarrow> cache_inv (Cache_New maxBytes maxEntry)"
  by (simp add: cache_inv_def cache_wf_def Cache_New_def cache_abs_def)

lemma lru_get_set: "set (fst (lru_get k xs)) \<subseteq> set xs"
  by (auto simp: lru_get_def lru_drop_def dest: map_of_SomeD split: option.splits)

lemma cache_inv_Get: "cache_inv c \<Longrightarrow> cache_inv (fst (Cache_Get c k))"
  using Cache_Get_refines(1,2) [of c k] lru_get_set [of k "cache_abs c"] by (auto simp: cache_inv_def)

lemma lru_put_set: "set (lru_put cap k e xs) \<subseteq> insert (k, e) (set xs)"
  using lru_fit_subset [of "cap - entry_size e" "lru_drop k xs"] by (auto simp: lru_put_def lru_drop_def)

lemma lru_put_size: "entry_size e \<le> cap \<Longrightarrow> lru_size (lru_put cap k e xs) \<le> cap"
  using lru_fit_size [of "cap - entry_size e" "lru_drop k xs"] by (simp add: lru_put_def)

lemma cache_inv_Put:
  assumes "cache_inv c"
  shows "cache_inv (fst (Cache_Put c k e))"
proof (cases "snd (Cache_Put c k e)")
  case True
  from assms have wf: "cache_wf c" and u: "c_used c \<le> c_maxBytes c"
    and small: "\<forall>x \<in> set (cache_abs c). entry_size (snd x) \<le> c_maxEntry c"
    by (simp_all add: cache_inv_def)
  note ref = Cache_Put_refines [OF wf u True]
  from True have "entry_size e \<le> c_maxEntry c" "entry_size e \<le> c_maxBytes c"
    by (simp_all add: Cache_Put_stored_iff)
  with ref wf u small show ?thesis
    using lru_put_set [of "c_maxBytes c" k e "cache_abs c"] lru_put_size [of e "c_maxBytes c" k "cache_abs c"]
    by (auto simp: cache_inv_def cache_wf_used)
qed (use assms in \<open>simp add: Cache_Put_refused\<close>)

section \<open>The contract the edge handler relies on\<close>

text \<open>
  The handler uses the cache through \<^verbatim>\<open>Get\<close> and \<^verbatim>\<open>Put\<close> only.  The contract: a lookup returns
  the current contents and changes none of them, an accepted entry is there afterwards,
  and nothing else appears (an insertion may only evict).
\<close>

locale object_cache =
  fixes get :: "'c \<Rightarrow> string \<Rightarrow> 'c \<times> 'e option"
    and put :: "'c \<Rightarrow> string \<Rightarrow> 'e \<Rightarrow> 'c \<times> bool"
    and contents :: "'c \<Rightarrow> string \<rightharpoonup> 'e"
    and inv :: "'c \<Rightarrow> bool"
  assumes get_inv: "inv c \<Longrightarrow> inv (fst (get c k))"
    and put_inv: "inv c \<Longrightarrow> inv (fst (put c k e))"
    and get_result: "inv c \<Longrightarrow> snd (get c k) = contents c k"
    and get_contents: "inv c \<Longrightarrow> contents (fst (get c k)) = contents c"
    and put_stored: "inv c \<Longrightarrow> snd (put c k e) \<Longrightarrow> contents (fst (put c k e)) k = Some e"
    and put_refused: "\<not> snd (put c k e) \<Longrightarrow> fst (put c k e) = c"
    and put_other: "inv c \<Longrightarrow> k' \<noteq> k \<Longrightarrow> contents (fst (put c k e)) k' \<in> {None, contents c k'}"
begin

lemma get_after_put: "inv c \<Longrightarrow> snd (put c k e) \<Longrightarrow> snd (get (fst (put c k e)) k) = Some e"
  by (simp add: get_result put_inv put_stored)

lemma put_keeps_all:
  assumes "inv c" "\<And>k e. contents c k = Some e \<Longrightarrow> P k e" "P k e"
    and "contents (fst (put c k e)) k' = Some e'"
  shows "P k' e'"
proof (cases "k' = k \<and> snd (put c k e)")
  case True
  with assms show ?thesis by (simp add: put_stored)
next
  case False
  with assms(4) put_refused [of c k e] put_other [OF assms(1), of k' k e] have "contents c k' = Some e'"
    by (cases "k' = k") auto
  then show ?thesis by (rule assms(2))
qed

end

lemma map_of_lru_get: "map_of (fst (lru_get k xs)) = map_of xs"
proof (cases "map_of xs k")
  case (Some e)
  have "map_of (lru_drop k xs) = (map_of xs)(k := None)"
    unfolding lru_drop_def by (induction xs) auto
  with Some show ?thesis by (simp add: lru_get_def fun_upd_idem)
qed (simp add: lru_get_def)

lemma map_of_lru_put_other:
  assumes "k' \<noteq> k" "distinct (map fst xs)"
  shows "map_of (lru_put cap k e xs) k' \<in> {None, map_of xs k'}"
proof (cases "map_of (lru_put cap k e xs) k'")
  case (Some e')
  then have "(k', e') \<in> set xs"
    using lru_put_set [of cap k e xs] assms(1) by (auto dest!: map_of_SomeD)
  with assms(2) Some show ?thesis by simp
qed simp

interpretation edge: object_cache Cache_Get Cache_Put "\<lambda>c. map_of (cache_abs c)" cache_inv
proof
  fix c :: Cache and k k' :: string and e
  show "cache_inv c \<Longrightarrow> cache_inv (fst (Cache_Get c k))" by (rule cache_inv_Get)
  show "cache_inv c \<Longrightarrow> cache_inv (fst (Cache_Put c k e))" by (rule cache_inv_Put)
  show "\<not> snd (Cache_Put c k e) \<Longrightarrow> fst (Cache_Put c k e) = c" by (rule Cache_Put_refused)
  show "cache_inv c \<Longrightarrow> snd (Cache_Get c k) = map_of (cache_abs c) k"
    by (simp add: cache_inv_def Cache_Get_refines(3) lru_get_def split: option.split)
  show "cache_inv c \<Longrightarrow> map_of (cache_abs (fst (Cache_Get c k))) = map_of (cache_abs c)"
    by (simp add: cache_inv_def Cache_Get_refines(2) map_of_lru_get)
  show "cache_inv c \<Longrightarrow> snd (Cache_Put c k e) \<Longrightarrow> map_of (cache_abs (fst (Cache_Put c k e))) k = Some e"
    by (simp add: cache_inv_def Cache_Put_refines(2) lru_put_def)
  show "cache_inv c \<Longrightarrow> k' \<noteq> k \<Longrightarrow>
      map_of (cache_abs (fst (Cache_Put c k e))) k' \<in> {None, map_of (cache_abs c) k'}"
    using map_of_lru_put_other [of k' k "cache_abs c" "c_maxBytes c" e] Cache_Put_refused [of c k e]
    by (cases "snd (Cache_Put c k e)") (auto simp: cache_inv_def Cache_Put_refines(2) cache_wf_keys)
qed


section \<open>Properties\<close>

datatype cache_op = OpGet string | OpPut string Entry

primrec cache_step :: "cache_op \<Rightarrow> Cache \<Rightarrow> Cache" where
  "cache_step (OpGet k) c = fst (Cache_Get c k)"
| "cache_step (OpPut k e) c = fst (Cache_Put c k e)"

lemma cache_step_inv: "cache_inv c \<Longrightarrow> cache_inv (cache_step op c)"
  by (cases op) (simp_all add: cache_inv_Get cache_inv_Put)

lemma cache_steps_inv:
  "cache_inv c \<Longrightarrow> cache_inv (fold cache_step ops c) \<and> c_maxBytes (fold cache_step ops c) = c_maxBytes c \<and>
     c_maxEntry (fold cache_step ops c) = c_maxEntry c"
proof (induction ops arbitrary: c)
  case (Cons op ops)
  have "c_maxBytes (cache_step op c) = c_maxBytes c \<and> c_maxEntry (cache_step op c) = c_maxEntry c"
    using Cons.prems by (cases op) (simp_all add: cache_inv_def)
  with Cons.IH [OF cache_step_inv [OF Cons.prems, of op]] show ?case by simp
qed simp

text \<open>
  C6: the pointer-based cache is an LRU cache.  On every state that satisfies the
  representation invariant, \<^verbatim>\<open>Get\<close> returns what the recency list holds and moves the key to
  its front; \<^verbatim>\<open>Put\<close> either refuses an entry over a cap and changes nothing, or puts the
  entry in front and keeps exactly the longest most-recently-used prefix of the others that
  still fits \<^verbatim>\<open>maxBytes\<close>.
\<close>

theorem cache_refines_lru:
  assumes "cache_inv c"
  shows "snd (Cache_Get c k) = snd (lru_get k (cache_abs c)) \<and>
    cache_abs (fst (Cache_Get c k)) = fst (lru_get k (cache_abs c)) \<and>
    (if entry_size e \<le> c_maxEntry c \<and> entry_size e \<le> c_maxBytes c
     then snd (Cache_Put c k e) \<and> cache_abs (fst (Cache_Put c k e)) = lru_put (c_maxBytes c) k e (cache_abs c)
     else Cache_Put c k e = (c, False))"
proof -
  from assms have "cache_wf c" "c_used c \<le> c_maxBytes c" by (simp_all add: cache_inv_def)
  then show ?thesis
    using Cache_Get_refines [of c k] Cache_Put_refines [of c k e] Cache_Put_stored_iff [of c k e]
    by (auto simp: Cache_Put_def Let_def)
qed

definition three_bytes :: Entry where
  "three_bytes = \<lparr>e_Body = ''abc'', e_ContentType = ''image/png'', e_ETag = ''t''\<rparr>"

theorem cache_refines_lru_witness:
  "snd (Cache_Put (Cache_New 8 4) ''k'' three_bytes) \<and>
   cache_abs (fst (Cache_Put (Cache_New 8 4) ''k'' three_bytes)) = [(''k'', three_bytes)]"
  using cache_refines_lru [OF cache_inv_New [of 8 4], of "''k''" three_bytes]
  by (simp add: three_bytes_def entry_size_def Cache_New_def lru_put_def lru_drop_def cache_abs_def)

text \<open>
  Memory is bounded.  From an empty cache of non-negative capacity (below \<^verbatim>\<open>2^62\<close>, so that
  \<^verbatim>\<open>used+size\<close> does not wrap), after any sequence of \<^verbatim>\<open>Get\<close> and \<^verbatim>\<open>Put\<close> the accounting is
  exact (\<^verbatim>\<open>used\<close> is the sum of the kept body lengths), it is at most \<^verbatim>\<open>maxBytes\<close>, no kept
  object exceeds \<^verbatim>\<open>maxEntry\<close>, and the key map has exactly the keys of the list.
\<close>

theorem cache_bytes_bounded:
  assumes "0 \<le> maxBytes" "maxBytes < 2 ^ 62"
  shows "let c = fold cache_step ops (Cache_New maxBytes maxEntry)
    in st_UsedBytes (Cache_Stats c) = lru_size (cache_abs c) \<and> lru_size (cache_abs c) \<le> maxBytes \<and>
       (\<forall>x \<in> set (cache_abs c). entry_size (snd x) \<le> maxEntry) \<and>
       st_Entries (Cache_Stats c) = length (cache_abs c) \<and> dom (c_items c) = fst ` set (cache_abs c)"
proof -
  let ?c0 = "Cache_New maxBytes maxEntry"
  define c where "c = fold cache_step ops ?c0"
  have inv: "cache_inv c" and caps: "c_maxBytes c = maxBytes" "c_maxEntry c = maxEntry"
    using cache_steps_inv [OF cache_inv_New [OF assms], of ops maxEntry] by (simp_all add: c_def Cache_New_def)
  from inv have wf: "cache_wf c" by (simp add: cache_inv_def)
  then have dom: "dom (c_items c) = fst ` set (cache_abs c)"
    by (simp add: cache_wf_def dom_map_of_conv_image_fst cache_abs_def image_image)
  moreover have "card (fst ` set (cache_abs c)) = length (cache_abs c)"
    using cache_wf_keys [OF wf] distinct_card [of "map fst (cache_abs c)"] by simp
  ultimately show ?thesis
    using inv caps cache_wf_used [OF wf] unfolding c_def [symmetric] Let_def
    by (simp add: Cache_Stats_def cache_inv_def)
qed

theorem cache_bytes_bounded_witness:
  "lru_size (cache_abs (fold cache_step [OpPut ''a'' three_bytes, OpPut ''b'' three_bytes, OpGet ''a'', OpPut ''c'' three_bytes]
     (Cache_New 8 4))) \<le> 8"
  using cache_bytes_bounded [of 8 "[OpPut ''a'' three_bytes, OpPut ''b'' three_bytes, OpGet ''a'', OpPut ''c'' three_bytes]" 4]
  by (simp add: Let_def del: fold_simps)

end
