(* ===== verification/EdgeHandler.thy ===== *)
theory EdgeHandler
  imports EdgeCache
begin

text \<open>
  \<^verbatim>\<open>gateway/internal/edgecache/handler.go\<close>: \<^verbatim>\<open>GET /media/:hash\<close> served from the cache, going to
  the origin (media-service) on a miss.  The HTTP client is a parameter, an \<open>origin\<close>: the
  answer to the n-th outgoing request for a URL.  The handler state holds the cache, the
  origin URL and the log of the outgoing requests.  This theory is the life of one request at a
  time; \<^verbatim>\<open>EdgeFlight\<close> interleaves requests and models the in-flight table.
\<close>

section \<open>The origin\<close>

text \<open>
  A response of the origin.  The body is the bytes that arrive; \<open>o_BodyErr\<close> says that reading
  fails after them instead of ending.
\<close>

record origin_response =
  o_StatusCode :: nat
  o_Header :: headers
  o_ContentLength :: int
  o_Body :: string
  o_BodyErr :: bool

type_synonym origin = "nat \<Rightarrow> string \<Rightarrow> string \<Rightarrow> origin_response result"

text \<open>\<^verbatim>\<open>io.ReadAll(io.LimitReader(body, n))\<close>: at most \<^verbatim>\<open>n\<close> bytes, none when \<^verbatim>\<open>n <= 0\<close>.\<close>

definition ReadAll_Limit :: "origin_response \<Rightarrow> int \<Rightarrow> string result" where
  "ReadAll_Limit r n =
     (if n \<le> int (length (o_Body r)) then Inr (take (nat n) (o_Body r))
      else if o_BodyErr r then Inl (External ''read'')
      else Inr (o_Body r))"

text \<open>\<^verbatim>\<open>strings.Contains\<close> and \<^verbatim>\<open>strings.TrimRight(s, "/")\<close>.\<close>

fun Contains :: "string \<Rightarrow> string \<Rightarrow> bool" where
  "Contains s p = (strip_prefix p s \<noteq> None \<or> (case s of [] \<Rightarrow> False | _ # t \<Rightarrow> Contains t p))"

definition TrimRight_slash :: "string \<Rightarrow> string" where
  "TrimRight_slash s = rev (dropWhile (\<lambda>c. c = CHR ''/'') (rev s))"

section \<open>handler.go\<close>

record Handler =
  h_cache :: Cache
  h_originURL :: string
  h_calls :: "(string \<times> string) list"

record fetchResult =
  fr_entry :: "Entry option"
  fr_status :: nat
  fr_err :: "goerror option"

definition NewHandler :: "Cache \<Rightarrow> string \<Rightarrow> Handler" where
  "NewHandler cache originURL =
     \<lparr>h_cache = cache, h_originURL = TrimRight_slash originURL, h_calls = []\<rparr>"

definition media_url :: "Handler \<Rightarrow> string \<Rightarrow> string" where
  "media_url h hash = h_originURL h @ ''/media/'' @ hash"

definition originGet :: "origin \<Rightarrow> Handler \<Rightarrow> string \<Rightarrow> string \<Rightarrow> Handler \<times> origin_response result" where
  "originGet do h hash requestID =
     (h\<lparr>h_calls := h_calls h @ [(media_url h hash, requestID)]\<rparr>,
      do (length (h_calls h)) (media_url h hash) requestID)"

definition writeCacheHeaders :: "echo_context \<Rightarrow> string \<Rightarrow> echo_context" where
  "writeCacheHeaders cx etag =
     set_resp ''Cache-Control'' ''public, max-age=31536000, immutable'' (set_resp ''ETag'' etag cx)"

definition writeEntry :: "echo_context \<Rightarrow> Entry \<Rightarrow> Stats response" where
  "writeEntry cx entry =
     (let cx1 = writeCacheHeaders cx (e_ETag entry);
          cx2 = set_resp ''Content-Length'' (FormatInt (int (length (e_Body entry)))) cx1;
          cx3 = set_resp ''X-Content-Type-Options'' ''nosniff'' cx2
      in reply (set_resp ''Content-Type'' (e_ContentType entry) cx3) 200 (Blob (e_Body entry)))"

definition answer :: "echo_context \<Rightarrow> Entry \<Rightarrow> string \<Rightarrow> Stats response" where
  "answer cx entry ifNoneMatch =
     (if ifNoneMatch \<noteq> '''' \<and> ifNoneMatch = e_ETag entry
      then reply (writeCacheHeaders cx (e_ETag entry)) 304 NoBody
      else writeEntry cx entry)"

definition not_cached :: "nat \<Rightarrow> fetchResult" where
  "not_cached st = \<lparr>fr_entry = None, fr_status = st, fr_err = None\<rparr>"

definition fetch_failed :: "goerror \<Rightarrow> fetchResult" where
  "fetch_failed e = \<lparr>fr_entry = None, fr_status = 0, fr_err = Some e\<rparr>"

definition cacheable :: "int \<Rightarrow> origin_response \<Rightarrow> bool" where
  "cacheable maxEntry r \<longleftrightarrow>
     Header_Get (o_Header r) ''ETag'' \<noteq> '''' \<and>
     Contains (Header_Get (o_Header r) ''Cache-Control'') ''immutable'' \<and>
     o_ContentLength r \<le> maxEntry"

definition fetch_response :: "int \<Rightarrow> origin_response \<Rightarrow> fetchResult" where
  "fetch_response maxEntry r =
     (if o_StatusCode r \<noteq> 200 then not_cached (o_StatusCode r)
      else if \<not> cacheable maxEntry r then not_cached 200
      else case ReadAll_Limit r (i64 (maxEntry + 1)) of
             Inl e \<Rightarrow> fetch_failed e
           | Inr body \<Rightarrow>
               if int (length body) > maxEntry then not_cached 200
               else \<lparr>fr_entry = Some \<lparr>e_Body = body, e_ContentType = Header_Get (o_Header r) ''Content-Type'',
                                     e_ETag = Header_Get (o_Header r) ''ETag''\<rparr>,
                     fr_status = 200, fr_err = None\<rparr>)"

definition fetch :: "origin \<Rightarrow> Handler \<Rightarrow> string \<Rightarrow> string \<Rightarrow> Handler \<times> fetchResult" where
  "fetch do h hash requestID =
     (case originGet do h hash requestID of
        (h', Inl e) \<Rightarrow> (h', fetch_failed e)
      | (h', Inr r) \<Rightarrow> (h', fetch_response (c_maxEntry (h_cache h)) r))"

text \<open>The leader's part of \<^verbatim>\<open>fetchOnce\<close>: fetch, and keep a cacheable entry.\<close>

definition fetchOnce :: "origin \<Rightarrow> Handler \<Rightarrow> string \<Rightarrow> string \<Rightarrow> Handler \<times> fetchResult" where
  "fetchOnce do h hash requestID =
     (let (h1, result) = fetch do h hash requestID
      in case fr_entry result of
           None \<Rightarrow> (h1, result)
         | Some entry \<Rightarrow> (h1\<lparr>h_cache := fst (Cache_Put (h_cache h1) hash entry)\<rparr>, result))"

definition copy_header :: "headers \<Rightarrow> string \<Rightarrow> echo_context \<Rightarrow> echo_context" where
  "copy_header hs name cx = (if Header_Get hs name \<noteq> '''' then set_resp name (Header_Get hs name) cx else cx)"

definition passthrough :: "origin \<Rightarrow> Handler \<Rightarrow> echo_context \<Rightarrow> string \<Rightarrow> string \<Rightarrow> Handler \<times> Stats response" where
  "passthrough do h cx hash requestID =
     (case originGet do h hash requestID of
        (h', Inl e) \<Rightarrow> (h', reply cx 502 (JSON_error ''media origin unavailable''))
      | (h', Inr r) \<Rightarrow>
          (let cx1 = fold (copy_header (o_Header r))
                       [''Content-Type'', ''Content-Length'', ''ETag'', ''Cache-Control''] cx;
               cx2 = set_resp ''X-Content-Type-Options'' ''nosniff'' cx1
           in (h', reply cx2 (o_StatusCode r) (Blob (o_Body r)))))"

text \<open>What \<^verbatim>\<open>Serve\<close> does once \<^verbatim>\<open>fetchOnce\<close> has returned.\<close>

definition Serve_result ::
  "origin \<Rightarrow> Handler \<Rightarrow> echo_context \<Rightarrow> string \<Rightarrow> string \<Rightarrow> string \<Rightarrow> fetchResult \<Rightarrow> Handler \<times> Stats response" where
  "Serve_result do h cx hash requestID ifNoneMatch result =
     (if fr_err result \<noteq> None then (h, reply cx 502 (JSON_error ''media origin unavailable''))
      else case fr_entry result of
             None \<Rightarrow>
               if fr_status result = 200 then passthrough do h (set_resp ''X-Cache'' ''BYPASS'' cx) hash requestID
               else (h, reply cx (fr_status result) NoBody)
           | Some entry \<Rightarrow> (h, answer cx entry ifNoneMatch))"

definition Serve :: "origin \<Rightarrow> Handler \<Rightarrow> echo_context \<Rightarrow> Handler \<times> Stats response" where
  "Serve do h cx =
     (let hash = cx_param cx ''hash'';
          requestID = cx_request_id cx;
          ifNoneMatch = Header_Get (req_header (cx_req cx)) ''If-None-Match'';
          (c1, got) = Cache_Get (h_cache h) hash;
          h1 = h\<lparr>h_cache := c1\<rparr>
      in case got of
           Some entry \<Rightarrow> (h1, answer (set_resp ''X-Cache'' ''HIT'' cx) entry ifNoneMatch)
         | None \<Rightarrow>
             (let (h2, result) = fetchOnce do h1 hash requestID
              in Serve_result do h2 (set_resp ''X-Cache'' ''MISS'' cx) hash requestID ifNoneMatch result))"

definition Handler_Stats :: "Handler \<Rightarrow> echo_context \<Rightarrow> Stats response" where
  "Handler_Stats h cx = reply cx 200 (JSON (Cache_Stats (h_cache h)))"

section \<open>One request\<close>

lemma originGet_sel [simp]:
  "h_cache (fst (originGet do h hash rid)) = h_cache h"
  "h_originURL (fst (originGet do h hash rid)) = h_originURL h"
  "h_calls (fst (originGet do h hash rid)) = h_calls h @ [(media_url h hash, rid)]"
  "snd (originGet do h hash rid) = do (length (h_calls h)) (media_url h hash) rid"
  by (simp_all add: originGet_def)

lemma fetch_sel [simp]:
  "h_cache (fst (fetch do h hash rid)) = h_cache h"
  "h_originURL (fst (fetch do h hash rid)) = h_originURL h"
  "h_calls (fst (fetch do h hash rid)) = h_calls h @ [(media_url h hash, rid)]"
  by (simp_all add: fetch_def originGet_def split: sum.split)

lemma passthrough_sel [simp]:
  "h_cache (fst (passthrough do h cx hash rid)) = h_cache h"
  "h_originURL (fst (passthrough do h cx hash rid)) = h_originURL h"
  "h_calls (fst (passthrough do h cx hash rid)) = h_calls h @ [(media_url h hash, rid)]"
  by (simp_all add: passthrough_def originGet_def Let_def split: sum.split)

lemma media_url_cong: "h_originURL h' = h_originURL h \<Longrightarrow> media_url h' = media_url h"
  by (rule HOL.ext) (simp add: media_url_def)

lemma ReadAll_Limit_within:
  assumes "ReadAll_Limit r (i64 (m + 1)) = Inr body" "int (length body) \<le> m" "m < 2 ^ 63 - 1"
  shows "body = o_Body r \<and> \<not> o_BodyErr r"
proof -
  have "0 \<le> m" using assms(2) by simp
  then have "int64_range (m + 1)" using assms(3) by (intro int64_rangeI) simp_all
  then have "i64 (m + 1) = m + 1" by simp
  with assms(1,2) \<open>0 \<le> m\<close> show ?thesis by (auto simp: ReadAll_Limit_def split: if_splits)
qed

text \<open>What a kept entry tells about the response it was built from.\<close>

definition kept_from :: "int \<Rightarrow> origin_response \<Rightarrow> Entry \<Rightarrow> bool" where
  "kept_from maxEntry r e \<longleftrightarrow>
     o_StatusCode r = 200 \<and> Header_Get (o_Header r) ''ETag'' \<noteq> '''' \<and>
     Contains (Header_Get (o_Header r) ''Cache-Control'') ''immutable'' \<and>
     \<not> o_BodyErr r \<and> entry_size e \<le> maxEntry \<and>
     e = \<lparr>e_Body = o_Body r, e_ContentType = Header_Get (o_Header r) ''Content-Type'',
          e_ETag = Header_Get (o_Header r) ''ETag''\<rparr>"

lemma fetch_response_kept:
  assumes "fr_entry (fetch_response m r) = Some e" "m < 2 ^ 63 - 1"
  shows "kept_from m r e"
proof -
  from assms(1) have st: "o_StatusCode r = 200" and ca: "cacheable m r"
    by (auto simp: fetch_response_def not_cached_def split: if_splits)
  with assms(1) obtain body where b: "ReadAll_Limit r (i64 (m + 1)) = Inr body" "int (length body) \<le> m"
      "e = \<lparr>e_Body = body, e_ContentType = Header_Get (o_Header r) ''Content-Type'',
          e_ETag = Header_Get (o_Header r) ''ETag''\<rparr>"
    by (auto simp: fetch_response_def not_cached_def fetch_failed_def split: sum.splits if_splits)
  with ReadAll_Limit_within [OF b(1,2) assms(2)] st ca show ?thesis
    by (simp add: kept_from_def cacheable_def entry_size_def)
qed

lemma fetch_response_complete:
  assumes "o_StatusCode r = 200" "cacheable m r" "\<not> o_BodyErr r" "int (length (o_Body r)) \<le> m" "m < 2 ^ 63 - 1"
  shows "fetch_response m r =
    \<lparr>fr_entry = Some \<lparr>e_Body = o_Body r, e_ContentType = Header_Get (o_Header r) ''Content-Type'',
                      e_ETag = Header_Get (o_Header r) ''ETag''\<rparr>, fr_status = 200, fr_err = None\<rparr>"
proof -
  have "0 \<le> m" using assms(4) by simp
  then have "int64_range (m + 1)" using assms(5) by (intro int64_rangeI) simp_all
  then have "ReadAll_Limit r (i64 (m + 1)) = Inr (o_Body r)"
    using assms(3,4) by (simp add: ReadAll_Limit_def)
  with assms show ?thesis by (simp add: fetch_response_def)
qed

lemma fetchOnce_cases:
  "fetchOnce do h hash rid =
     (let r = snd (fetch do h hash rid); h1 = fst (fetch do h hash rid)
      in (case fr_entry r of None \<Rightarrow> h1 | Some e \<Rightarrow> h1\<lparr>h_cache := fst (Cache_Put (h_cache h) hash e)\<rparr>, r))"
  by (simp add: fetchOnce_def Let_def split_beta split: option.split)

lemma Serve_hit:
  assumes "cache_inv (h_cache h)" "map_of (cache_abs (h_cache h)) (cx_param cx ''hash'') = Some e"
  shows "Serve do h cx =
    (h\<lparr>h_cache := fst (Cache_Get (h_cache h) (cx_param cx ''hash''))\<rparr>,
     answer (set_resp ''X-Cache'' ''HIT'' cx) e (Header_Get (req_header (cx_req cx)) ''If-None-Match''))"
  using edge.get_result [OF assms(1), of "cx_param cx ''hash''"] assms(2)
  by (simp add: Serve_def Let_def split_beta)

lemma Serve_miss:
  assumes "cache_inv (h_cache h)" "map_of (cache_abs (h_cache h)) (cx_param cx ''hash'') = None"
  shows "Serve do h cx =
    (let f = fetchOnce do (h\<lparr>h_cache := fst (Cache_Get (h_cache h) (cx_param cx ''hash''))\<rparr>)
               (cx_param cx ''hash'') (cx_request_id cx)
     in Serve_result do (fst f) (set_resp ''X-Cache'' ''MISS'' cx) (cx_param cx ''hash'') (cx_request_id cx)
          (Header_Get (req_header (cx_req cx)) ''If-None-Match'') (snd f))"
  using edge.get_result [OF assms(1), of "cx_param cx ''hash''"] assms(2)
  by (simp add: Serve_def Let_def split_beta)

lemma Serve_result_sel [simp]:
  "h_cache (fst (Serve_result do h cx hash rid inm r)) = h_cache h"
  "h_originURL (fst (Serve_result do h cx hash rid inm r)) = h_originURL h"
  by (simp_all add: Serve_result_def split: option.split)

lemma Serve_result_calls: "\<exists>ext. h_calls (fst (Serve_result do h cx hash rid inm r)) = h_calls h @ ext"
  by (simp add: Serve_result_def split: option.split)

section \<open>Many requests\<close>

text \<open>
  \<open>edge_inv\<close>: the cache invariant, and every kept entry is the complete body of an immutable 200
  response that the origin gave to a logged request for that very hash.
\<close>

definition edge_inv :: "origin \<Rightarrow> Handler \<Rightarrow> bool" where
  "edge_inv do h \<longleftrightarrow>
     cache_inv (h_cache h) \<and> c_maxEntry (h_cache h) < 2 ^ 63 - 1 \<and>
     (\<forall>k e. map_of (cache_abs (h_cache h)) k = Some e \<longrightarrow>
        (\<exists>n rid r. n < length (h_calls h) \<and> h_calls h ! n = (media_url h k, rid) \<and>
           do n (media_url h k) rid = Inr r \<and> kept_from (c_maxEntry (h_cache h)) r e))"

definition backed :: "origin \<Rightarrow> Handler \<Rightarrow> string \<Rightarrow> Entry \<Rightarrow> bool" where
  "backed do h k e \<longleftrightarrow>
     (\<exists>n rid r. n < length (h_calls h) \<and> h_calls h ! n = (media_url h k, rid) \<and>
        do n (media_url h k) rid = Inr r \<and> kept_from (c_maxEntry (h_cache h)) r e)"

lemma edge_invI:
  "cache_inv (h_cache h) \<Longrightarrow> c_maxEntry (h_cache h) < 2 ^ 63 - 1 \<Longrightarrow>
     (\<And>k e. map_of (cache_abs (h_cache h)) k = Some e \<Longrightarrow> backed do h k e) \<Longrightarrow> edge_inv do h"
  by (simp add: edge_inv_def backed_def)

lemma edge_invD:
  assumes "edge_inv do h"
  shows "cache_inv (h_cache h)" "c_maxEntry (h_cache h) < 2 ^ 63 - 1"
    "\<And>k e. map_of (cache_abs (h_cache h)) k = Some e \<Longrightarrow> backed do h k e"
  using assms by (simp_all add: edge_inv_def backed_def)

lemma backed_mono:
  assumes "backed do h k e" "h_originURL h' = h_originURL h" "h_calls h' = h_calls h @ ext"
    and "c_maxEntry (h_cache h') = c_maxEntry (h_cache h)"
  shows "backed do h' k e"
proof -
  obtain n rid r where n: "n < length (h_calls h)" "h_calls h ! n = (media_url h k, rid)"
      "do n (media_url h k) rid = Inr r" "kept_from (c_maxEntry (h_cache h)) r e"
    using assms(1) unfolding backed_def by blast
  moreover have "media_url h' = media_url h" by (rule media_url_cong) (rule assms(2))
  moreover have "n < length (h_calls h')" "h_calls h' ! n = h_calls h ! n"
    using n(1) by (simp_all add: assms(3) nth_append)
  ultimately show ?thesis unfolding backed_def by (metis assms(4))
qed

lemma fetch_backed:
  assumes "fr_entry (snd (fetch do h hash rid)) = Some e" "c_maxEntry (h_cache h) < 2 ^ 63 - 1"
  shows "backed do (fst (fetch do h hash rid)) hash e"
proof -
  obtain r where r: "do (length (h_calls h)) (media_url h hash) rid = Inr r"
      "fr_entry (fetch_response (c_maxEntry (h_cache h)) r) = Some e"
    using assms(1) by (auto simp: fetch_def originGet_def fetch_failed_def split: sum.splits)
  have k: "kept_from (c_maxEntry (h_cache h)) r e" by (rule fetch_response_kept [OF r(2) assms(2)])
  have "media_url (fst (fetch do h hash rid)) = media_url h" by (rule media_url_cong) simp
  then show ?thesis
    using r(1) k unfolding backed_def by (intro exI [of _ "length (h_calls h)"]) auto
qed

lemma fetchOnce_inv:
  assumes "edge_inv do h"
  shows "edge_inv do (fst (fetchOnce do h hash rid))"
proof -
  let ?h1 = "fst (fetch do h hash rid)" and ?r = "snd (fetch do h hash rid)"
  note inv = edge_invD [OF assms]
  have old: "backed do ?h1 k e" if "map_of (cache_abs (h_cache h)) k = Some e" for k e
    by (rule backed_mono [OF inv(3) [OF that], of ?h1 "[(media_url h hash, rid)]"]) simp_all
  show ?thesis
  proof (cases "fr_entry ?r")
    case None
    have "edge_inv do ?h1" by (rule edge_invI) (use inv old in simp_all)
    with None show ?thesis by (simp add: fetchOnce_cases Let_def)
  next
    case (Some e)
    let ?h2 = "?h1\<lparr>h_cache := fst (Cache_Put (h_cache h) hash e)\<rparr>"
    have same: "c_maxEntry (h_cache ?h2) = c_maxEntry (h_cache h)"
      using inv(1) by (simp add: cache_inv_def)
    have lift: "backed do ?h2 k' e'" if "backed do ?h1 k' e'" for k' e'
      by (rule backed_mono [OF that, of ?h2 "[]"]) (use same in simp_all)
    have "edge_inv do ?h2"
    proof (rule edge_invI)
      show "cache_inv (h_cache ?h2)" using edge.put_inv [OF inv(1)] by simp
      show "c_maxEntry (h_cache ?h2) < 2 ^ 63 - 1" unfolding same by (rule inv(2))
      show "backed do ?h2 k' e'" if "map_of (cache_abs (h_cache ?h2)) k' = Some e'" for k' e'
      proof (rule edge.put_keeps_all [OF inv(1), where k = hash and e = e and P = "backed do ?h2"])
        show "backed do ?h2 hash e" using fetch_backed [OF Some inv(2)] by (rule lift)
        show "\<And>k e. map_of (cache_abs (h_cache h)) k = Some e \<Longrightarrow> backed do ?h2 k e" by (rule lift, rule old)
        show "map_of (cache_abs (fst (Cache_Put (h_cache h) hash e))) k' = Some e'" using that by simp
      qed
    qed
    with Some show ?thesis by (simp add: fetchOnce_cases Let_def)
  qed
qed

lemma edge_inv_same_contents:
  assumes "edge_inv do h" "cache_inv (h_cache h')" "h_originURL h' = h_originURL h"
    "h_calls h' = h_calls h @ ext" "c_maxEntry (h_cache h') = c_maxEntry (h_cache h)"
    "map_of (cache_abs (h_cache h')) = map_of (cache_abs (h_cache h))"
  shows "edge_inv do h'"
proof (rule edge_invI)
  show "c_maxEntry (h_cache h') < 2 ^ 63 - 1" unfolding assms(5) by (rule edge_invD(2) [OF assms(1)])
  show "backed do h' k e" if "map_of (cache_abs (h_cache h')) k = Some e" for k e
    using that unfolding assms(6) by (intro backed_mono [OF edge_invD(3) [OF assms(1)] assms(3,4,5)])
qed (rule assms(2))

lemma edge_inv_Get:
  assumes "edge_inv do h"
  shows "edge_inv do (h\<lparr>h_cache := fst (Cache_Get (h_cache h) k)\<rparr>)"
  by (rule edge_inv_same_contents [OF assms, where ext = "[]"])
    (simp_all add: edge.get_inv edge.get_contents edge_invD(1) [OF assms])

lemma Serve_result_inv:
  assumes "edge_inv do h"
  shows "edge_inv do (fst (Serve_result do h cx hash rid inm r))"
proof -
  obtain ext where "h_calls (fst (Serve_result do h cx hash rid inm r)) = h_calls h @ ext"
    using Serve_result_calls by blast
  then show ?thesis
    by (intro edge_inv_same_contents [OF assms, where ext = ext]) (simp_all add: edge_invD(1) [OF assms])
qed

lemma Serve_inv:
  assumes "edge_inv do h"
  shows "edge_inv do (fst (Serve do h cx))"
proof -
  from assms have inv: "cache_inv (h_cache h)" by (simp add: edge_inv_def)
  note got = edge_inv_Get [OF assms, of "cx_param cx ''hash''"]
  show ?thesis
  proof (cases "map_of (cache_abs (h_cache h)) (cx_param cx ''hash'')")
    case None
    then show ?thesis
      using Serve_result_inv [OF fetchOnce_inv [OF got]] by (simp add: Serve_miss [OF inv] Let_def)
  next
    case (Some e)
    then show ?thesis using got by (simp add: Serve_hit [OF inv])
  qed
qed

lemma Serves_inv: "edge_inv do h \<Longrightarrow> edge_inv do (fold (\<lambda>cx h. fst (Serve do h cx)) cxs h)"
  by (induction cxs arbitrary: h) (simp_all add: Serve_inv)

lemma edge_inv_New:
  "0 \<le> maxBytes \<Longrightarrow> maxBytes < 2 ^ 62 \<Longrightarrow> maxEntry < 2 ^ 63 - 1 \<Longrightarrow>
     edge_inv do (NewHandler (Cache_New maxBytes maxEntry) url)"
  using cache_inv_New [of maxBytes maxEntry]
  by (simp add: edge_inv_def NewHandler_def Cache_New_def cache_abs_def)

section \<open>Properties\<close>

lemma answer_body:
  "answer cx e inm =
     (if inm \<noteq> '''' \<and> inm = e_ETag e then reply (writeCacheHeaders cx (e_ETag e)) 304 NoBody
      else writeEntry cx e)"
  by (simp add: answer_def)

lemma canon_edge:
  "CanonicalHeaderKey ''X-Cache'' = ''X-Cache''" "CanonicalHeaderKey ''ETag'' = ''Etag''"
  "CanonicalHeaderKey ''Cache-Control'' = ''Cache-Control''"
  "CanonicalHeaderKey ''Content-Length'' = ''Content-Length''"
  "CanonicalHeaderKey ''X-Content-Type-Options'' = ''X-Content-Type-Options''"
  "CanonicalHeaderKey ''Content-Type'' = ''Content-Type''"
  by code_simp+

lemma answer_headers:
  "Header_Get (resp_header (answer cx e inm)) ''X-Cache'' = Header_Get (cx_resp cx) ''X-Cache''"
  "Header_Get (resp_header (answer cx e inm)) ''ETag'' = e_ETag e"
  by (simp_all add: answer_def writeEntry_def writeCacheHeaders_def Let_def canon_edge)

lemma writeEntry_sel [simp]:
  "resp_status (writeEntry cx e) = 200" "resp_body (writeEntry cx e) = Blob (e_Body e)"
  "Header_Get (resp_header (writeEntry cx e)) ''Content-Type'' = e_ContentType e"
  "Header_Get (resp_header (writeEntry cx e)) ''Content-Length'' = FormatInt (int (length (e_Body e)))"
  by (simp_all add: writeEntry_def writeCacheHeaders_def Let_def canon_edge)

definition cx_etag_match :: "echo_context \<Rightarrow> Entry \<Rightarrow> bool" where
  "cx_etag_match cx e \<longleftrightarrow>
     Header_Get (req_header (cx_req cx)) ''If-None-Match'' \<noteq> '''' \<and>
     Header_Get (req_header (cx_req cx)) ''If-None-Match'' = e_ETag e"

text \<open>
  A cached object is served at the edge.  No request goes to the origin, the answer is
  marked HIT and carries the entry's ETag; a matching non-empty \<^verbatim>\<open>If-None-Match\<close> gets a 304 without
  a body, and any other request gets a 200 with exactly the kept bytes, their content type and
  their length.
\<close>

theorem edge_hit:
  assumes "cache_inv (h_cache h)" "map_of (cache_abs (h_cache h)) (cx_param cx ''hash'') = Some e"
  shows "let (h', resp) = Serve do h cx
    in h_calls h' = h_calls h \<and> map_of (cache_abs (h_cache h')) = map_of (cache_abs (h_cache h)) \<and>
       Header_Get (resp_header resp) ''X-Cache'' = ''HIT'' \<and> Header_Get (resp_header resp) ''ETag'' = e_ETag e \<and>
       (if cx_etag_match cx e then resp_status resp = 304 \<and> resp_body resp = NoBody
        else resp_status resp = 200 \<and> resp_body resp = Blob (e_Body e) \<and>
             Header_Get (resp_header resp) ''Content-Type'' = e_ContentType e \<and>
             Header_Get (resp_header resp) ''Content-Length'' = FormatInt (int (length (e_Body e))))"
  using edge.get_contents [OF assms(1)] answer_headers [of "set_resp ''X-Cache'' ''HIT'' cx" e]
  by (auto simp: Serve_hit [OF assms] Let_def cx_etag_match_def answer_body simp del: Header_Get_Set)
    (simp_all add: canon_edge)

definition get_media :: "string \<Rightarrow> echo_context" where
  "get_media hash =
     \<lparr>cx_req = \<lparr>req_method = ''GET'', req_path = ''/media/'' @ hash, req_query = (\<lambda>_. []), req_header = no_headers\<rparr>,
      cx_param = (\<lambda>_. hash), cx_resp = no_headers, cx_request_id = ''r1'', cx_user_id = None, cx_role = ''''\<rparr>"

definition png_origin :: origin where
  "png_origin n url rid =
     Inr \<lparr>o_StatusCode = 200,
          o_Header = Header_Set (Header_Set no_headers ''ETag'' ''t'') ''Cache-Control'' ''public, immutable'',
          o_ContentLength = 3, o_Body = ''abc'', o_BodyErr = False\<rparr>"

definition warm_handler :: Handler where
  "warm_handler = \<lparr>h_cache = fst (Cache_Put (Cache_New 8 4) ''aa'' three_bytes), h_originURL = ''http://m'', h_calls = []\<rparr>"

lemma warm_handler_facts:
  "cache_inv (h_cache warm_handler)" "map_of (cache_abs (h_cache warm_handler)) ''aa'' = Some three_bytes"
proof -
  have inv: "cache_inv (Cache_New 8 4)" by (rule cache_inv_New) simp_all
  have st: "snd (Cache_Put (Cache_New 8 4) ''aa'' three_bytes)"
    by (simp add: Cache_Put_stored_iff three_bytes_def entry_size_def Cache_New_def)
  show "cache_inv (h_cache warm_handler)" by (simp add: warm_handler_def edge.put_inv [OF inv])
  show "map_of (cache_abs (h_cache warm_handler)) ''aa'' = Some three_bytes"
    by (simp add: warm_handler_def edge.put_stored [OF inv st])
qed

theorem edge_hit_witness:
  "h_calls (fst (Serve png_origin warm_handler (get_media ''aa''))) = h_calls warm_handler \<and>
   resp_body (snd (Serve png_origin warm_handler (get_media ''aa''))) = Blob ''abc''"
proof -
  have m: "map_of (cache_abs (h_cache warm_handler)) (cx_param (get_media ''aa'') ''hash'') = Some three_bytes"
    by (simp add: get_media_def warm_handler_facts)
  have "\<not> cx_etag_match (get_media ''aa'') three_bytes"
    by (simp add: cx_etag_match_def get_media_def no_headers_def Header_Get_def)
  then show ?thesis
    using edge_hit [OF warm_handler_facts(1) m, of png_origin]
    by (simp add: split_beta Let_def) (simp add: three_bytes_def)
qed

definition entry_of :: "origin_response \<Rightarrow> Entry" where
  "entry_of r = \<lparr>e_Body = o_Body r, e_ContentType = Header_Get (o_Header r) ''Content-Type'',
                 e_ETag = Header_Get (o_Header r) ''ETag''\<rparr>"

lemma Serve_fill:
  fixes h cx do
  defines "h1 \<equiv> fst (Serve do h cx)"
  assumes inv: "cache_inv (h_cache h)" and miss: "map_of (cache_abs (h_cache h)) (cx_param cx ''hash'') = None"
    and resp: "do (length (h_calls h)) (media_url h (cx_param cx ''hash'')) (cx_request_id cx) = Inr r"
    and ok: "o_StatusCode r = 200" "cacheable (c_maxEntry (h_cache h)) r" "\<not> o_BodyErr r"
    and fits: "int (length (o_Body r)) \<le> c_maxEntry (h_cache h)" "int (length (o_Body r)) \<le> c_maxBytes (h_cache h)"
    and cap: "c_maxEntry (h_cache h) < 2 ^ 63 - 1"
  shows "cache_inv (h_cache h1)" "map_of (cache_abs (h_cache h1)) (cx_param cx ''hash'') = Some (entry_of r)"
    "h_calls h1 = h_calls h @ [(media_url h (cx_param cx ''hash''), cx_request_id cx)]"
proof -
  let ?k = "cx_param cx ''hash''"
  let ?g = "h\<lparr>h_cache := fst (Cache_Get (h_cache h) ?k)\<rparr>"
  let ?h1 = "?g\<lparr>h_calls := h_calls h @ [(media_url h ?k, cx_request_id cx)],
                h_cache := fst (Cache_Put (h_cache ?g) ?k (entry_of r))\<rparr>"
  have url: "media_url ?g = media_url h" by (rule media_url_cong) simp
  have ginv: "cache_inv (h_cache ?g)" using inv by (simp add: edge.get_inv)
  have f: "fetch do ?g ?k (cx_request_id cx) = (?g\<lparr>h_calls := h_calls h @ [(media_url h ?k, cx_request_id cx)]\<rparr>,
      \<lparr>fr_entry = Some (entry_of r), fr_status = 200, fr_err = None\<rparr>)"
    using fetch_response_complete [OF ok fits(1) cap]
    by (simp add: fetch_def originGet_def url resp entry_of_def)
  have h1: "h1 = ?h1"
    by (simp add: h1_def Serve_miss [OF inv miss] Let_def fetchOnce_cases f Serve_result_def)
  have st: "snd (Cache_Put (h_cache ?g) ?k (entry_of r))"
    using fits by (simp add: Cache_Put_stored_iff entry_size_def entry_of_def)
  show "cache_inv (h_cache h1)" using edge.put_inv [OF ginv] by (simp add: h1)
  show "map_of (cache_abs (h_cache h1)) ?k = Some (entry_of r)"
    using edge.put_stored [OF ginv st] by (simp add: h1)
  show "h_calls h1 = h_calls h @ [(media_url h ?k, cx_request_id cx)]" by (simp add: h1)
qed

text \<open>
  Fill, then hit.  On a miss, when the origin answers 200 with an ETag, marked immutable,
  with a body that arrives complete and fits the per-object and total caps, the request makes
  exactly one origin call and keeps the object; a following request for the same hash makes
  none and gets the same bytes.
\<close>

theorem edge_fill_then_hit:
  fixes h cx cx' do
  defines "h1 \<equiv> fst (Serve do h cx)"
  assumes inv: "cache_inv (h_cache h)" and miss: "map_of (cache_abs (h_cache h)) (cx_param cx ''hash'') = None"
    and resp: "do (length (h_calls h)) (media_url h (cx_param cx ''hash'')) (cx_request_id cx) = Inr r"
    and ok: "o_StatusCode r = 200" "cacheable (c_maxEntry (h_cache h)) r" "\<not> o_BodyErr r"
    and fits: "int (length (o_Body r)) \<le> c_maxEntry (h_cache h)" "int (length (o_Body r)) \<le> c_maxBytes (h_cache h)"
    and cap: "c_maxEntry (h_cache h) < 2 ^ 63 - 1"
    and again: "cx_param cx' ''hash'' = cx_param cx ''hash''" "Header_Get (req_header (cx_req cx')) ''If-None-Match'' = ''''"
  shows "h_calls h1 = h_calls h @ [(media_url h (cx_param cx ''hash''), cx_request_id cx)] \<and>
    h_calls (fst (Serve do h1 cx')) = h_calls h1 \<and>
    resp_status (snd (Serve do h1 cx')) = 200 \<and> resp_body (snd (Serve do h1 cx')) = Blob (o_Body r)"
proof -
  note fill = Serve_fill [where do = do, OF inv miss resp ok fits cap, folded h1_def]
  have hit: "map_of (cache_abs (h_cache h1)) (cx_param cx' ''hash'') = Some (entry_of r)"
    using fill(2) by (simp add: again(1))
  show ?thesis
    using again(2) by (simp add: Serve_hit [OF fill(1) hit] answer_body fill(3) entry_of_def)
qed

definition cold_handler :: Handler where
  "cold_handler = NewHandler (Cache_New 8 4) ''http://m/''"

definition png_response :: origin_response where
  "png_response = \<lparr>o_StatusCode = 200,
          o_Header = Header_Set (Header_Set no_headers ''ETag'' ''t'') ''Cache-Control'' ''public, immutable'',
          o_ContentLength = 3, o_Body = ''abc'', o_BodyErr = False\<rparr>"

lemma cold_facts:
  "cache_inv (h_cache cold_handler)" "map_of (cache_abs (h_cache cold_handler)) (cx_param (get_media ''aa'') ''hash'') = None"
  "png_origin n u rid = Inr png_response" "o_StatusCode png_response = 200"
  "cacheable (c_maxEntry (h_cache cold_handler)) png_response" "\<not> o_BodyErr png_response"
  "int (length (o_Body png_response)) \<le> c_maxEntry (h_cache cold_handler)"
  "int (length (o_Body png_response)) \<le> c_maxBytes (h_cache cold_handler)"
  "c_maxEntry (h_cache cold_handler) < 2 ^ 63 - 1"
  "Header_Get (req_header (cx_req (get_media ''aa''))) ''If-None-Match'' = ''''"
  "o_Body png_response = ''abc''"
  using cache_inv_New [of 8 4]
  by (simp_all add: cold_handler_def NewHandler_def Cache_New_def cache_abs_def png_origin_def png_response_def
      get_media_def no_headers_def cacheable_def Header_Get_def Header_Set_def canon_edge)

theorem edge_fill_then_hit_witness:
  "resp_body (snd (Serve png_origin (fst (Serve png_origin cold_handler (get_media ''aa''))) (get_media ''aa''))) = Blob ''abc''"
  using edge_fill_then_hit [where do = png_origin, OF cold_facts(1-9) refl cold_facts(10)] by (simp add: cold_facts(11))

text \<open>
  Only what the origin declared immutable is ever replayed.  After any sequence of requests
  from an empty cache, every kept object is the complete body of a 200 response, with an ETag
  and marked immutable, which the origin gave to a logged request for exactly that hash, and is
  within the per-object cap.  (The cap is below the largest \<^verbatim>\<open>int64\<close>, where \<^verbatim>\<open>maxEntry+1\<close> would wrap.)
\<close>

theorem edge_keeps_only_origin_bytes:
  assumes "0 \<le> maxBytes" "maxBytes < 2 ^ 62" "maxEntry < 2 ^ 63 - 1"
    and "map_of (cache_abs (h_cache h)) k = Some e"
    and "h = fold (\<lambda>cx h. fst (Serve do h cx)) cxs (NewHandler (Cache_New maxBytes maxEntry) url)"
  shows "\<exists>n rid r. n < length (h_calls h) \<and> h_calls h ! n = (media_url h k, rid) \<and>
    do n (media_url h k) rid = Inr r \<and> kept_from (c_maxEntry (h_cache h)) r e"
  using Serves_inv [OF edge_inv_New [OF assms(1-3)], of do cxs url] assms(4)
  unfolding assms(5) edge_inv_def by blast

theorem edge_keeps_only_origin_bytes_witness:
  "\<exists>n rid r. n < length (h_calls (fst (Serve png_origin cold_handler (get_media ''aa'')))) \<and>
     kept_from 4 r (entry_of png_response) \<and> png_origin n (''http://m/media/aa'') rid = Inr r"
proof -
  let ?h = "fst (Serve png_origin cold_handler (get_media ''aa''))"
  have hit: "map_of (cache_abs (h_cache ?h)) ''aa'' = Some (entry_of png_response)"
    using Serve_fill(2) [where do = png_origin, OF cold_facts(1-9)] by (simp add: get_media_def)
  have "?h = fold (\<lambda>cx h. fst (Serve png_origin h cx)) [get_media ''aa''] (NewHandler (Cache_New 8 4) ''http://m/'')"
    by (simp add: cold_handler_def)
  from edge_keeps_only_origin_bytes [OF _ _ _ hit this]
  obtain n rid r where "n < length (h_calls ?h)" "kept_from (c_maxEntry (h_cache ?h)) r (entry_of png_response)"
    "png_origin n (media_url ?h ''aa'') rid = Inr r" by auto
  moreover from this(3) have "r = png_response" by (simp add: cold_facts(3))
  moreover have "kept_from 4 png_response (entry_of png_response)"
    by (simp add: kept_from_def entry_of_def png_response_def entry_size_def canon_edge)
  ultimately show ?thesis by (auto simp: cold_facts(3))
qed

end
