(* ===== verification/EdgeFlight.thy ===== *)
theory EdgeFlight
  imports EdgeHandler
begin

text \<open>
  Concurrent requests at the edge: the in-flight table of \<^verbatim>\<open>fetchOnce\<close> in
  \<^verbatim>\<open>gateway/internal/edgecache/handler.go\<close>.  A request is a task that moves through the
  points where it can be preempted; the table, the results and the handler are shared.  A
  \<^verbatim>\<open>*fetchResult\<close> is an identifier, its \<^verbatim>\<open>done\<close> channel is closed when \<open>fl_results\<close> has it; \<open>fl_key\<close>
  records for the proofs which hash a result was created for.
\<close>

section \<open>Tasks and steps\<close>

datatype task =
    Start echo_context
  | Missed echo_context
  | Lead echo_context nat
  | Fetched echo_context nat fetchResult
  | Kept echo_context nat fetchResult
  | Released echo_context nat fetchResult
  | Waiting echo_context nat
  | Resumed echo_context fetchResult
  | Answered "Stats response"

record flight =
  fl_handler :: Handler
  fl_inflight :: "string \<rightharpoonup> nat"
  fl_results :: "nat \<rightharpoonup> fetchResult"
  fl_tasks :: "nat \<rightharpoonup> task"
  fl_fresh :: nat
  fl_key :: "nat \<Rightarrow> string"

definition flight_init :: "Handler \<Rightarrow> flight" where
  "flight_init h = \<lparr>fl_handler = h, fl_inflight = Map.empty, fl_results = Map.empty,
                    fl_tasks = Map.empty, fl_fresh = 0, fl_key = (\<lambda>_. '''')\<rparr>"

definition hash_of :: "echo_context \<Rightarrow> string" where
  "hash_of cx = cx_param cx ''hash''"

definition if_none_match :: "echo_context \<Rightarrow> string" where
  "if_none_match cx = Header_Get (req_header (cx_req cx)) ''If-None-Match''"

definition set_task :: "nat \<Rightarrow> task \<Rightarrow> flight \<Rightarrow> flight" where
  "set_task t p s = s\<lparr>fl_tasks := (fl_tasks s)(t \<mapsto> p)\<rparr>"

text \<open>\<^verbatim>\<open>Serve\<close> up to the cache lookup.\<close>

definition do_lookup :: "nat \<Rightarrow> echo_context \<Rightarrow> flight \<Rightarrow> flight" where
  "do_lookup t cx s =
     (let (c1, got) = Cache_Get (h_cache (fl_handler s)) (hash_of cx);
          s1 = s\<lparr>fl_handler := (fl_handler s)\<lparr>h_cache := c1\<rparr>\<rparr>
      in case got of
           Some e \<Rightarrow> set_task t (Answered (answer (set_resp ''X-Cache'' ''HIT'' cx) e (if_none_match cx))) s1
         | None \<Rightarrow> set_task t (Missed cx) s1)"

text \<open>The first critical section of \<^verbatim>\<open>fetchOnce\<close>: join the fetch in flight or lead a new one.\<close>

definition do_enter :: "nat \<Rightarrow> echo_context \<Rightarrow> flight \<Rightarrow> flight" where
  "do_enter t cx s =
     (case fl_inflight s (hash_of cx) of
        Some i \<Rightarrow> set_task t (Waiting cx i) s
      | None \<Rightarrow>
          set_task t (Lead cx (fl_fresh s))
            (s\<lparr>fl_inflight := (fl_inflight s)(hash_of cx \<mapsto> fl_fresh s), fl_fresh := Suc (fl_fresh s),
              fl_key := (fl_key s)(fl_fresh s := hash_of cx)\<rparr>))"

definition do_fetch :: "origin \<Rightarrow> nat \<Rightarrow> echo_context \<Rightarrow> nat \<Rightarrow> flight \<Rightarrow> flight" where
  "do_fetch do t cx i s =
     (let (h1, r) = fetch do (fl_handler s) (hash_of cx) (cx_request_id cx)
      in set_task t (Fetched cx i r) (s\<lparr>fl_handler := h1\<rparr>))"

definition do_keep :: "nat \<Rightarrow> echo_context \<Rightarrow> nat \<Rightarrow> fetchResult \<Rightarrow> flight \<Rightarrow> flight" where
  "do_keep t cx i r s =
     set_task t (Kept cx i r)
       (case fr_entry r of
          None \<Rightarrow> s
        | Some e \<Rightarrow> s\<lparr>fl_handler := (fl_handler s)\<lparr>h_cache := fst (Cache_Put (h_cache (fl_handler s)) (hash_of cx) e)\<rparr>\<rparr>)"

definition do_release :: "nat \<Rightarrow> echo_context \<Rightarrow> nat \<Rightarrow> fetchResult \<Rightarrow> flight \<Rightarrow> flight" where
  "do_release t cx i r s =
     set_task t (Released cx i r) (s\<lparr>fl_inflight := (fl_inflight s)(hash_of cx := None)\<rparr>)"

definition do_close :: "nat \<Rightarrow> echo_context \<Rightarrow> nat \<Rightarrow> fetchResult \<Rightarrow> flight \<Rightarrow> flight" where
  "do_close t cx i r s = set_task t (Resumed cx r) (s\<lparr>fl_results := (fl_results s)(i \<mapsto> r)\<rparr>)"

definition do_answer :: "origin \<Rightarrow> nat \<Rightarrow> echo_context \<Rightarrow> fetchResult \<Rightarrow> flight \<Rightarrow> flight" where
  "do_answer do t cx r s =
     (let (h1, resp) = Serve_result do (fl_handler s) (set_resp ''X-Cache'' ''MISS'' cx) (hash_of cx)
                         (cx_request_id cx) (if_none_match cx) r
      in set_task t (Answered resp) (s\<lparr>fl_handler := h1\<rparr>))"

inductive flight_step :: "origin \<Rightarrow> flight \<Rightarrow> flight \<Rightarrow> bool" for do :: origin where
  arrive: "fl_tasks s t = None \<Longrightarrow> flight_step do s (set_task t (Start cx) s)"
| lookup: "fl_tasks s t = Some (Start cx) \<Longrightarrow> flight_step do s (do_lookup t cx s)"
| enter: "fl_tasks s t = Some (Missed cx) \<Longrightarrow> flight_step do s (do_enter t cx s)"
| fetched: "fl_tasks s t = Some (Lead cx i) \<Longrightarrow> flight_step do s (do_fetch do t cx i s)"
| keep: "fl_tasks s t = Some (Fetched cx i r) \<Longrightarrow> flight_step do s (do_keep t cx i r s)"
| release: "fl_tasks s t = Some (Kept cx i r) \<Longrightarrow> flight_step do s (do_release t cx i r s)"
| closed: "fl_tasks s t = Some (Released cx i r) \<Longrightarrow> flight_step do s (do_close t cx i r s)"
| wake: "fl_tasks s t = Some (Waiting cx i) \<Longrightarrow> fl_results s i = Some r \<Longrightarrow>
    flight_step do s (set_task t (Resumed cx r) s)"
| answered: "fl_tasks s t = Some (Resumed cx r) \<Longrightarrow> flight_step do s (do_answer do t cx r s)"

inductive flight_reach :: "origin \<Rightarrow> Handler \<Rightarrow> flight \<Rightarrow> bool" for do :: origin and h :: Handler where
  init: "flight_reach do h (flight_init h)"
| step: "flight_reach do h s \<Longrightarrow> flight_step do s s' \<Longrightarrow> flight_reach do h s'"

section \<open>Invariant\<close>

text \<open>The task that holds the in-flight slot, and the task that will close \<^verbatim>\<open>done\<close>.\<close>

fun leading :: "task \<Rightarrow> (string \<times> nat) option" where
  "leading (Lead cx i) = Some (hash_of cx, i)"
| "leading (Fetched cx i r) = Some (hash_of cx, i)"
| "leading (Kept cx i r) = Some (hash_of cx, i)"
| "leading _ = None"

fun owning :: "task \<Rightarrow> (string \<times> nat) option" where
  "owning (Released cx i r) = Some (hash_of cx, i)"
| "owning p = leading p"

fun holding :: "task \<Rightarrow> (string \<times> fetchResult) option" where
  "holding (Fetched cx i r) = Some (hash_of cx, r)"
| "holding (Kept cx i r) = Some (hash_of cx, r)"
| "holding (Released cx i r) = Some (hash_of cx, r)"
| "holding (Resumed cx r) = Some (hash_of cx, r)"
| "holding _ = None"

definition fetch_outcome :: "int \<Rightarrow> origin_response result \<Rightarrow> fetchResult" where
  "fetch_outcome m x = (case x of Inl e \<Rightarrow> fetch_failed e | Inr r \<Rightarrow> fetch_response m r)"

definition genuine :: "origin \<Rightarrow> int \<Rightarrow> Handler \<Rightarrow> string \<Rightarrow> fetchResult \<Rightarrow> bool" where
  "genuine do m h k r \<longleftrightarrow>
     (\<exists>n rid. n < length (h_calls h) \<and> h_calls h ! n = (media_url h k, rid) \<and>
        r = fetch_outcome m (do n (media_url h k) rid))"

definition lead_at :: "flight \<Rightarrow> nat \<Rightarrow> (string \<times> nat) option" where
  "lead_at s t = Option.bind (fl_tasks s t) leading"

definition own_at :: "flight \<Rightarrow> nat \<Rightarrow> (string \<times> nat) option" where
  "own_at s t = Option.bind (fl_tasks s t) owning"

definition slot_inv :: "flight \<Rightarrow> bool" where
  "slot_inv s \<longleftrightarrow>
     (\<forall>t k i. lead_at s t = Some (k, i) \<longrightarrow> fl_inflight s k = Some i) \<and>
     (\<forall>k i. fl_inflight s k = Some i \<longrightarrow> (\<exists>t. lead_at s t = Some (k, i)))"

definition owner_inv :: "flight \<Rightarrow> bool" where
  "owner_inv s \<longleftrightarrow>
     (\<forall>t t' k k' i. own_at s t = Some (k, i) \<longrightarrow> own_at s t' = Some (k', i) \<longrightarrow> t = t') \<and>
     (\<forall>t k i. own_at s t = Some (k, i) \<longrightarrow> i < fl_fresh s \<and> fl_key s i = k)"

definition wait_inv :: "flight \<Rightarrow> bool" where
  "wait_inv s \<longleftrightarrow>
     (\<forall>t cx i. fl_tasks s t = Some (Waiting cx i) \<longrightarrow> i < fl_fresh s \<and> fl_key s i = hash_of cx \<and>
        (fl_results s i = None \<longrightarrow> (\<exists>t' k. own_at s t' = Some (k, i))))"

definition result_inv :: "origin \<Rightarrow> flight \<Rightarrow> bool" where
  "result_inv do s \<longleftrightarrow>
     (\<forall>t p k r. fl_tasks s t = Some p \<longrightarrow> holding p = Some (k, r) \<longrightarrow>
        genuine do (c_maxEntry (h_cache (fl_handler s))) (fl_handler s) k r) \<and>
     (\<forall>i r. fl_results s i = Some r \<longrightarrow> i < fl_fresh s \<and>
        genuine do (c_maxEntry (h_cache (fl_handler s))) (fl_handler s) (fl_key s i) r)"

lemma leading_owning: "leading p = Some x \<Longrightarrow> owning p = Some x"
  by (cases p) simp_all

lemma lead_at_own_at: "lead_at s t = Some x \<Longrightarrow> own_at s t = Some x"
  by (cases "fl_tasks s t") (simp_all add: lead_at_def own_at_def leading_owning)

subsection \<open>The in-flight table\<close>

text \<open>What each step does to the tasks and the table, apart from the handler.\<close>

lemma do_lookup_sel:
  "fl_inflight (do_lookup t cx s) = fl_inflight s" "fl_fresh (do_lookup t cx s) = fl_fresh s"
  "fl_key (do_lookup t cx s) = fl_key s" "fl_results (do_lookup t cx s) = fl_results s"
  by (simp_all add: do_lookup_def set_task_def split_beta Let_def split: option.split)

lemma do_lookup_task:
  obtains p where "fl_tasks (do_lookup t cx s) = (fl_tasks s)(t \<mapsto> p)" "p = Missed cx \<or> (\<exists>r. p = Answered r)"
  by (cases "snd (Cache_Get (h_cache (fl_handler s)) (hash_of cx))")
    (auto simp: do_lookup_def set_task_def split_beta Let_def)

lemma do_keep_sel:
  "fl_inflight (do_keep t cx i r s) = fl_inflight s" "fl_fresh (do_keep t cx i r s) = fl_fresh s"
  "fl_key (do_keep t cx i r s) = fl_key s" "fl_results (do_keep t cx i r s) = fl_results s"
  "fl_tasks (do_keep t cx i r s) = (fl_tasks s)(t \<mapsto> Kept cx i r)"
  by (simp_all add: do_keep_def set_task_def split: option.split)

lemma do_fetch_sel:
  "fl_inflight (do_fetch do t cx i s) = fl_inflight s" "fl_fresh (do_fetch do t cx i s) = fl_fresh s"
  "fl_key (do_fetch do t cx i s) = fl_key s" "fl_results (do_fetch do t cx i s) = fl_results s"
  "fl_tasks (do_fetch do t cx i s) =
     (fl_tasks s)(t \<mapsto> Fetched cx i (snd (fetch do (fl_handler s) (hash_of cx) (cx_request_id cx))))"
  "fl_handler (do_fetch do t cx i s) = fst (fetch do (fl_handler s) (hash_of cx) (cx_request_id cx))"
  by (simp_all add: do_fetch_def set_task_def split_beta Let_def)

lemma do_answer_sel:
  "fl_inflight (do_answer do t cx r s) = fl_inflight s" "fl_fresh (do_answer do t cx r s) = fl_fresh s"
  "fl_key (do_answer do t cx r s) = fl_key s" "fl_results (do_answer do t cx r s) = fl_results s"
  by (simp_all add: do_answer_def set_task_def split_beta Let_def)

lemma do_answer_task:
  obtains resp where "fl_tasks (do_answer do t cx r s) = (fl_tasks s)(t \<mapsto> Answered resp)"
  by (auto simp: do_answer_def set_task_def split_beta Let_def)

lemmas flight_sel = do_lookup_sel do_keep_sel do_fetch_sel do_answer_sel

lemma roles_upd:
  "fl_tasks s' = (fl_tasks s)(t \<mapsto> p) \<Longrightarrow> lead_at s' = (lead_at s)(t := leading p)"
  "fl_tasks s' = (fl_tasks s)(t \<mapsto> p) \<Longrightarrow> own_at s' = (own_at s)(t := owning p)"
  by (auto simp: lead_at_def own_at_def fun_eq_iff)

text \<open>
  A step either keeps all roles (up to dropping an owner), or gives up a slot, or takes a free one.
\<close>

definition roles_step :: "flight \<Rightarrow> flight \<Rightarrow> bool" where
  "roles_step s s' \<longleftrightarrow>
     (lead_at s' = lead_at s \<and> (own_at s' = own_at s \<or> (\<exists>t. lead_at s t = None \<and> own_at s' = (own_at s)(t := None))) \<and>
        fl_inflight s' = fl_inflight s \<and> fl_fresh s' = fl_fresh s \<and> fl_key s' = fl_key s) \<or>
     (\<exists>t k i. lead_at s t = Some (k, i) \<and> lead_at s' = (lead_at s)(t := None) \<and> own_at s' = own_at s \<and>
        fl_inflight s' = (fl_inflight s)(k := None) \<and> fl_fresh s' = fl_fresh s \<and> fl_key s' = fl_key s) \<or>
     (\<exists>t k. own_at s t = None \<and> fl_inflight s k = None \<and>
        lead_at s' = (lead_at s)(t \<mapsto> (k, fl_fresh s)) \<and> own_at s' = (own_at s)(t \<mapsto> (k, fl_fresh s)) \<and>
        fl_inflight s' = (fl_inflight s)(k \<mapsto> fl_fresh s) \<and> fl_fresh s' = Suc (fl_fresh s) \<and>
        fl_key s' = (fl_key s)(fl_fresh s := k))"

lemma roles_unchanged:
  assumes "fl_tasks s' = (fl_tasks s)(t \<mapsto> p)" "fl_inflight s' = fl_inflight s" "fl_fresh s' = fl_fresh s"
    "fl_key s' = fl_key s" "leading p = lead_at s t" "owning p = own_at s t"
  shows "roles_step s s'"
  using assms roles_upd [OF assms(1)] unfolding roles_step_def by (metis fun_upd_idem_iff)

lemma step_roles: "flight_step do s s' \<Longrightarrow> roles_step s s'"
proof (cases rule: flight_step.cases, assumption)
  show "roles_step s s'" if "s' = set_task t (Start cx) s" "fl_tasks s t = None" for t cx
    using that by (intro roles_unchanged [of s' s t "Start cx"]) (simp_all add: set_task_def lead_at_def own_at_def)
  show "roles_step s s'" if "s' = do_lookup t cx s" "fl_tasks s t = Some (Start cx)" for t cx
  proof -
    obtain p where "fl_tasks (do_lookup t cx s) = (fl_tasks s)(t \<mapsto> p)" "p = Missed cx \<or> (\<exists>r. p = Answered r)"
      by (rule do_lookup_task)
    with that show ?thesis
      by (intro roles_unchanged [of s' s t p]) (auto simp: flight_sel lead_at_def own_at_def)
  qed
  show "roles_step s s'" if "s' = do_fetch do t cx i s" "fl_tasks s t = Some (Lead cx i)" for t cx i
    using that
    by (intro roles_unchanged [of s' s t "Fetched cx i (snd (fetch do (fl_handler s) (hash_of cx) (cx_request_id cx)))"])
      (simp_all add: flight_sel lead_at_def own_at_def)
  show "roles_step s s'" if "s' = do_keep t cx i r s" "fl_tasks s t = Some (Fetched cx i r)" for t cx i r
    using that by (intro roles_unchanged [of s' s t "Kept cx i r"]) (simp_all add: flight_sel lead_at_def own_at_def)
  show "roles_step s s'" if "s' = set_task t (Resumed cx r) s" "fl_tasks s t = Some (Waiting cx i)" for t cx i r
    using that by (intro roles_unchanged [of s' s t "Resumed cx r"]) (simp_all add: set_task_def lead_at_def own_at_def)
  show "roles_step s s'" if "s' = do_answer do t cx r s" "fl_tasks s t = Some (Resumed cx r)" for t cx r
  proof -
    obtain resp where "fl_tasks (do_answer do t cx r s) = (fl_tasks s)(t \<mapsto> Answered resp)" by (rule do_answer_task)
    with that show ?thesis
      by (intro roles_unchanged [of s' s t "Answered resp"]) (simp_all add: flight_sel lead_at_def own_at_def)
  qed
  show "roles_step s s'" if "s' = do_close t cx i r s" "fl_tasks s t = Some (Released cx i r)" for t cx i r
  proof -
    have *: "fl_tasks s' = (fl_tasks s)(t \<mapsto> Resumed cx r)" "lead_at s t = None"
      using that by (simp_all add: do_close_def set_task_def lead_at_def)
    then have "lead_at s' = lead_at s" "own_at s' = (own_at s)(t := None)"
      by (simp_all add: roles_upd fun_upd_idem)
    with * that(1) show ?thesis unfolding roles_step_def by (auto simp: do_close_def set_task_def)
  qed
  show "roles_step s s'" if "s' = do_release t cx i r s" "fl_tasks s t = Some (Kept cx i r)" for t cx i r
  proof -
    have *: "fl_tasks s' = (fl_tasks s)(t \<mapsto> Released cx i r)" "lead_at s t = Some (hash_of cx, i)"
      "own_at s t = Some (hash_of cx, i)"
      using that by (simp_all add: do_release_def set_task_def lead_at_def own_at_def)
    then have "lead_at s' = (lead_at s)(t := None)" "own_at s' = own_at s"
      by (simp_all add: roles_upd fun_upd_idem)
    with * that(1) show ?thesis unfolding roles_step_def by (auto simp: do_release_def set_task_def)
  qed
  show "roles_step s s'" if "s' = do_enter t cx s" "fl_tasks s t = Some (Missed cx)" for t cx
  proof (cases "fl_inflight s (hash_of cx)")
    case (Some i)
    with that show ?thesis
      by (intro roles_unchanged [of s' s t "Waiting cx i"])
        (simp_all add: do_enter_def set_task_def lead_at_def own_at_def)
  next
    case None
    have *: "fl_tasks s' = (fl_tasks s)(t \<mapsto> Lead cx (fl_fresh s))" "own_at s t = None"
      "fl_inflight s' = (fl_inflight s)(hash_of cx \<mapsto> fl_fresh s)" "fl_fresh s' = Suc (fl_fresh s)"
      "fl_key s' = (fl_key s)(fl_fresh s := hash_of cx)"
      using that None by (simp_all add: do_enter_def set_task_def own_at_def)
    with None roles_upd [OF *(1)] show ?thesis
      unfolding roles_step_def by (intro disjI2 exI [of _ t] exI [of _ "hash_of cx"]) simp
  qed
qed

lemma roles_slot_inv:
  assumes "roles_step s s'" "slot_inv s" "owner_inv s"
  shows "slot_inv s'"
proof -
  have uniq: "t = t'" if "lead_at s t = Some (k, i)" "lead_at s t' = Some (k, i')" for t t' k i i'
  proof -
    have "i = i'" using assms(2) that unfolding slot_inv_def by (metis option.inject)
    with that assms(3) show ?thesis unfolding owner_inv_def by (metis lead_at_own_at)
  qed
  from assms(1) show ?thesis unfolding roles_step_def
  proof (elim disjE exE conjE)
    fix t k i assume t: "lead_at s t = Some (k, i)" "lead_at s' = (lead_at s)(t := None)"
      "fl_inflight s' = (fl_inflight s)(k := None)"
    show ?thesis unfolding slot_inv_def
    proof (intro conjI allI impI)
      fix u k' j assume "lead_at s' u = Some (k', j)"
      then have u: "u \<noteq> t" "lead_at s u = Some (k', j)" by (auto simp: t(2) split: if_splits)
      then have "k' \<noteq> k" using uniq t(1) by blast
      with u assms(2) show "fl_inflight s' k' = Some j" by (simp add: t(3) slot_inv_def)
    next
      fix k' j assume "fl_inflight s' k' = Some j"
      then have k': "k' \<noteq> k" "fl_inflight s k' = Some j" by (auto simp: t(3) split: if_splits)
      then obtain u where "lead_at s u = Some (k', j)" using assms(2) unfolding slot_inv_def by blast
      with k'(1) t(1) show "\<exists>u. lead_at s' u = Some (k', j)" by (intro exI [of _ u]) (auto simp: t(2))
    qed
  next
    fix t k assume t: "own_at s t = None" "fl_inflight s k = None"
      "lead_at s' = (lead_at s)(t \<mapsto> (k, fl_fresh s))" "fl_inflight s' = (fl_inflight s)(k \<mapsto> fl_fresh s)"
    have free: "lead_at s t = None" using t(1) lead_at_own_at by (cases "lead_at s t") force+
    show ?thesis unfolding slot_inv_def
    proof (intro conjI allI impI)
      fix u k' j assume "lead_at s' u = Some (k', j)"
      then show "fl_inflight s' k' = Some j"
        using assms(2) t(2) unfolding slot_inv_def by (auto simp: t(3,4) split: if_splits)
    next
      fix k' j assume "fl_inflight s' k' = Some j"
      then show "\<exists>u. lead_at s' u = Some (k', j)"
        using assms(2) free unfolding slot_inv_def by (auto simp: t(3,4) split: if_splits) (metis option.distinct(1))
    qed
  qed (use assms(2) in \<open>auto simp: slot_inv_def\<close>)
qed

lemma roles_owner_inv:
  assumes "roles_step s s'" "owner_inv s"
  shows "owner_inv s'"
  using assms(1) unfolding roles_step_def
proof (elim disjE exE conjE)
  fix t assume "own_at s' = (own_at s)(t := None)" "fl_fresh s' = fl_fresh s" "fl_key s' = fl_key s"
  then show ?thesis using assms(2) unfolding owner_inv_def by (auto split: if_splits)
next
  fix t k assume t: "own_at s' = (own_at s)(t \<mapsto> (k, fl_fresh s))" "fl_fresh s' = Suc (fl_fresh s)"
    "fl_key s' = (fl_key s)(fl_fresh s := k)"
  have old: "i < fl_fresh s \<and> fl_key s i = k'" if "own_at s u = Some (k', i)" for u k' i
    using assms(2) that unfolding owner_inv_def by blast
  show ?thesis unfolding owner_inv_def
  proof (intro conjI allI impI)
    fix u u' k1 k2 i assume "own_at s' u = Some (k1, i)" "own_at s' u' = Some (k2, i)"
    then show "u = u'"
      using assms(2) old unfolding owner_inv_def by (auto simp: t(1) split: if_splits) blast+
  qed (use old in \<open>auto simp: t less_Suc_eq split: if_splits\<close>)
qed (use assms(2) in \<open>auto simp: owner_inv_def\<close>)

subsection \<open>Waiters\<close>

lemma wait_frame:
  assumes "wait_inv s" "fl_fresh s \<le> fl_fresh s'" "\<And>i. i < fl_fresh s \<Longrightarrow> fl_key s' i = fl_key s i"
    and "\<And>u cx i. fl_tasks s' u = Some (Waiting cx i) \<Longrightarrow> fl_tasks s u = Some (Waiting cx i)"
    and "\<And>i u k. fl_results s' i = None \<Longrightarrow> own_at s u = Some (k, i) \<Longrightarrow> own_at s' u = Some (k, i)"
    and "\<And>i. fl_results s' i = None \<Longrightarrow> fl_results s i = None"
  shows "wait_inv s'"
proof -
  have w: "i < fl_fresh s" "fl_key s i = hash_of cx"
    "fl_results s i = None \<Longrightarrow> \<exists>u k. own_at s u = Some (k, i)" if "fl_tasks s t = Some (Waiting cx i)" for t cx i
    using assms(1) that unfolding wait_inv_def by blast+
  show ?thesis
    unfolding wait_inv_def by (metis assms(2-6) w order_less_le_trans)
qed

lemma step_wait_inv:
  assumes "flight_step do s s'" "wait_inv s" "slot_inv s" "owner_inv s"
  shows "wait_inv s'"
proof (cases "\<exists>t cx i. fl_tasks s t = Some (Missed cx) \<and> s' = do_enter t cx s \<and> fl_inflight s (hash_of cx) = Some i")
  case True
  then obtain t cx i where t: "fl_tasks s t = Some (Missed cx)" "s' = do_enter t cx s" "fl_inflight s (hash_of cx) = Some i"
    by blast
  then obtain u where u: "own_at s u = Some (hash_of cx, i)"
    using assms(3) lead_at_own_at unfolding slot_inv_def by blast
  moreover have "own_at s' = own_at s"
    using t by (simp add: do_enter_def roles_upd(2) [of _ s t "Waiting cx i"] set_task_def own_at_def fun_upd_idem)
  moreover have "i < fl_fresh s \<and> fl_key s i = hash_of cx" using u assms(4) unfolding owner_inv_def by blast
  ultimately show ?thesis
    using assms(2) t unfolding wait_inv_def by (auto simp: do_enter_def set_task_def split: if_splits)
next
  case False
  from assms(1) show ?thesis
  proof cases
    case (lookup t cx)
    obtain p where "fl_tasks (do_lookup t cx s) = (fl_tasks s)(t \<mapsto> p)" "p = Missed cx \<or> (\<exists>r. p = Answered r)"
      by (rule do_lookup_task)
    with lookup show ?thesis
      by (intro wait_frame [OF assms(2)]) (auto simp: flight_sel own_at_def split: if_splits option.splits)
  next
    case (answered t cx r)
    obtain resp where "fl_tasks (do_answer do t cx r s) = (fl_tasks s)(t \<mapsto> Answered resp)" by (rule do_answer_task)
    with answered show ?thesis
      by (intro wait_frame [OF assms(2)]) (auto simp: flight_sel own_at_def split: if_splits option.splits)
  next
    case (enter t cx)
    with False have "fl_inflight s (hash_of cx) = None" by auto
    with enter show ?thesis
      by (intro wait_frame [OF assms(2)]) (auto simp: do_enter_def set_task_def own_at_def split: if_splits option.splits)
  qed (intro wait_frame [OF assms(2)]; force simp: flight_sel own_at_def set_task_def do_release_def do_close_def
      split: if_splits option.splits)+
qed

subsection \<open>Results are what the origin answered\<close>

definition grows :: "Handler \<Rightarrow> Handler \<Rightarrow> bool" where
  "grows h h' \<longleftrightarrow> h_originURL h' = h_originURL h \<and> (\<exists>ext. h_calls h' = h_calls h @ ext) \<and>
     cache_inv (h_cache h') \<and> c_maxEntry (h_cache h') = c_maxEntry (h_cache h)"

lemma genuine_grows:
  assumes "genuine do m h k r" "grows h h'"
  shows "genuine do m h' k r"
proof -
  obtain n rid where n: "n < length (h_calls h)" "h_calls h ! n = (media_url h k, rid)"
      "r = fetch_outcome m (do n (media_url h k) rid)"
    using assms(1) unfolding genuine_def by blast
  obtain ext where ext: "h_calls h' = h_calls h @ ext" using assms(2) by (auto simp: grows_def)
  have "media_url h' = media_url h" by (rule media_url_cong) (use assms(2) in \<open>simp add: grows_def\<close>)
  with n ext show ?thesis unfolding genuine_def by (intro exI [of _ n] exI [of _ rid]) (simp add: nth_append)
qed

lemma fetch_genuine:
  "genuine do (c_maxEntry (h_cache h)) (fst (fetch do h k rid)) k (snd (fetch do h k rid))"
proof -
  have "media_url (fst (fetch do h k rid)) = media_url h" by (rule media_url_cong) simp
  then show ?thesis
    unfolding genuine_def
    by (intro exI [of _ "length (h_calls h)"] exI [of _ rid])
      (simp add: fetch_def originGet_def fetch_outcome_def split: sum.split)
qed

lemma step_grows:
  assumes "flight_step do s s'" "cache_inv (h_cache (fl_handler s))"
  shows "grows (fl_handler s) (fl_handler s')"
  using assms(1)
proof cases
  case (lookup t cx)
  have "fl_handler s' = (fl_handler s)\<lparr>h_cache := fst (Cache_Get (h_cache (fl_handler s)) (hash_of cx))\<rparr>"
    unfolding lookup(1) by (simp add: do_lookup_def set_task_def split_beta Let_def split: option.split)
  with assms(2) show ?thesis by (simp add: grows_def edge.get_inv)
next
  case (keep t cx i r)
  with assms(2) show ?thesis
    by (cases "fr_entry r") (auto simp: grows_def do_keep_def set_task_def edge.put_inv cache_inv_def [of "h_cache (fl_handler s)"])
next
  case (fetched t cx i)
  with assms(2) show ?thesis by (simp add: grows_def flight_sel)
next
  case (answered t cx r)
  with assms(2) Serve_result_calls show ?thesis
    by (simp add: grows_def do_answer_def set_task_def split_beta Let_def)
next
  case (enter t cx)
  with assms(2) show ?thesis by (simp add: grows_def do_enter_def set_task_def split: option.split)
qed (use assms(2) in \<open>simp_all add: grows_def set_task_def do_release_def do_close_def\<close>)

lemma result_frame:
  assumes "result_inv do s" "grows (fl_handler s) (fl_handler s')" "fl_fresh s \<le> fl_fresh s'"
    and "\<And>i. i < fl_fresh s \<Longrightarrow> fl_key s' i = fl_key s i"
    and "\<And>u p x. fl_tasks s' u = Some p \<Longrightarrow> holding p = Some x \<Longrightarrow>
       (\<exists>v q. fl_tasks s v = Some q \<and> holding q = Some x) \<or>
       genuine do (c_maxEntry (h_cache (fl_handler s'))) (fl_handler s') (fst x) (snd x)"
    and "\<And>i r. fl_results s' i = Some r \<Longrightarrow> fl_results s i = Some r \<or>
       i < fl_fresh s' \<and> genuine do (c_maxEntry (h_cache (fl_handler s'))) (fl_handler s') (fl_key s' i) r"
  shows "result_inv do s'"
proof -
  let ?h = "fl_handler s" and ?h' = "fl_handler s'"
  have m: "c_maxEntry (h_cache ?h') = c_maxEntry (h_cache ?h)" using assms(2) by (simp add: grows_def)
  have held: "genuine do (c_maxEntry (h_cache ?h')) ?h' k r" if "fl_tasks s v = Some q" "holding q = Some (k, r)" for v q k r
    using assms(1) that genuine_grows [OF _ assms(2)] unfolding result_inv_def m by blast
  have res: "i < fl_fresh s \<and> genuine do (c_maxEntry (h_cache ?h')) ?h' (fl_key s i) r" if "fl_results s i = Some r" for i r
    using assms(1) that genuine_grows [OF _ assms(2)] unfolding result_inv_def m by blast
  show ?thesis unfolding result_inv_def
  proof (intro conjI allI impI)
    fix u p k r assume "fl_tasks s' u = Some p" "holding p = Some (k, r)"
    with assms(5) [of u p "(k, r)"] held show "genuine do (c_maxEntry (h_cache ?h')) ?h' k r" by auto
  next
    fix i r assume *: "fl_results s' i = Some r"
    show "i < fl_fresh s'" using assms(6) [OF *] res assms(3) by (meson order_less_le_trans)
    show "genuine do (c_maxEntry (h_cache ?h')) ?h' (fl_key s' i) r" using assms(6) [OF *] res assms(4) by metis
  qed
qed

lemma step_result_inv:
  assumes "flight_step do s s'" "result_inv do s" "owner_inv s" "wait_inv s" "cache_inv (h_cache (fl_handler s))"
  shows "result_inv do s'"
proof -
  note frame = result_frame [OF assms(2) step_grows [OF assms(1,5)]]
  from assms(1) show ?thesis
  proof cases
    case (lookup t cx)
    obtain p where "fl_tasks (do_lookup t cx s) = (fl_tasks s)(t \<mapsto> p)" "p = Missed cx \<or> (\<exists>r. p = Answered r)"
      by (rule do_lookup_task)
    with lookup show ?thesis by (intro frame) (auto simp: flight_sel split: if_splits)
  next
    case (enter t cx)
    then show ?thesis
      by (intro frame) (auto simp: do_enter_def set_task_def split: if_splits option.splits)
  next
    case (fetched t cx i)
    then show ?thesis
      using fetch_genuine [of do "fl_handler s" "hash_of cx" "cx_request_id cx"]
      by (intro frame) (auto simp: flight_sel split: if_splits)
  next
    case (answered t cx r)
    obtain resp where "fl_tasks (do_answer do t cx r s) = (fl_tasks s)(t \<mapsto> Answered resp)" by (rule do_answer_task)
    with answered show ?thesis by (intro frame) (auto simp: flight_sel split: if_splits)
  next
    case (closed t cx i r)
    have "own_at s t = Some (hash_of cx, i)" by (simp add: own_at_def closed(2))
    then have i: "i < fl_fresh s" "fl_key s i = hash_of cx"
      using assms(3) unfolding owner_inv_def by blast+
    have "genuine do (c_maxEntry (h_cache (fl_handler s))) (fl_handler s) (hash_of cx) r"
      using assms(2) closed(2) unfolding result_inv_def by force
    moreover have sel: "fl_tasks s' = (fl_tasks s)(t \<mapsto> Resumed cx r)" "fl_results s' = (fl_results s)(i \<mapsto> r)"
      "fl_handler s' = fl_handler s" "fl_fresh s' = fl_fresh s" "fl_key s' = fl_key s"
      using closed(1) by (simp_all add: do_close_def set_task_def)
    ultimately show ?thesis using i by (intro frame) (auto simp: sel split: if_splits)
  next
    case (wake t cx i r)
    have "fl_key s i = hash_of cx" using assms(4) wake(2) unfolding wait_inv_def by blast
    then have "genuine do (c_maxEntry (h_cache (fl_handler s))) (fl_handler s) (hash_of cx) r"
      using assms(2) wake(3) unfolding result_inv_def by force
    with wake show ?thesis by (intro frame) (auto simp: set_task_def split: if_splits)
  next
    case (keep t cx i r)
    then show ?thesis by (intro frame) (fastforce simp: flight_sel split: if_splits)+
  next
    case (release t cx i r)
    then show ?thesis by (intro frame) (fastforce simp: do_release_def set_task_def split: if_splits)+
  next
    case (arrive t cx)
    then show ?thesis by (intro frame) (auto simp: set_task_def split: if_splits)
  qed
qed

definition flight_inv :: "origin \<Rightarrow> flight \<Rightarrow> bool" where
  "flight_inv do s \<longleftrightarrow> slot_inv s \<and> owner_inv s \<and> wait_inv s \<and> result_inv do s \<and> cache_inv (h_cache (fl_handler s))"

lemma flight_reach_inv:
  assumes "flight_reach do h s" "cache_inv (h_cache h)"
  shows "flight_inv do s"
  using assms(1)
proof induction
  case init
  show ?case using assms(2)
    by (simp add: flight_inv_def slot_inv_def owner_inv_def wait_inv_def result_inv_def flight_init_def
        lead_at_def own_at_def)
next
  case (step s s')
  then have inv: "slot_inv s" "owner_inv s" "wait_inv s" "result_inv do s" "cache_inv (h_cache (fl_handler s))"
    by (simp_all add: flight_inv_def)
  note roles = step_roles [OF step.hyps(2)]
  have "cache_inv (h_cache (fl_handler s'))" using step_grows [OF step.hyps(2) inv(5)] by (simp add: grows_def)
  with roles_slot_inv [OF roles inv(1,2)] roles_owner_inv [OF roles inv(2)]
    step_wait_inv [OF step.hyps(2) inv(3,1,2)] step_result_inv [OF step.hyps(2) inv(4,2,3,5)]
  show ?case by (simp add: flight_inv_def)
qed

section \<open>Properties\<close>


definition two_requests :: flight where
  "two_requests = do_enter 3 (get_media ''aa'') (do_enter 2 (get_media ''aa'')
     (do_lookup 3 (get_media ''aa'') (do_lookup 2 (get_media ''aa'')
       (set_task 3 (Start (get_media ''aa'')) (set_task 2 (Start (get_media ''aa'')) (flight_init cold_handler))))))"

lemma cold_lookup:
  assumes "map_of (cache_abs (h_cache (fl_handler s))) (hash_of cx) = None" "cache_inv (h_cache (fl_handler s))"
  shows "fl_tasks (do_lookup t cx s) = (fl_tasks s)(t \<mapsto> Missed cx)"
    and "map_of (cache_abs (h_cache (fl_handler (do_lookup t cx s)))) = map_of (cache_abs (h_cache (fl_handler s)))"
    and "cache_inv (h_cache (fl_handler (do_lookup t cx s)))"
  using edge.get_result [OF assms(2), of "hash_of cx"] assms(1) edge.get_contents [OF assms(2)] edge.get_inv [OF assms(2)]
  by (simp_all add: do_lookup_def set_task_def split_beta Let_def)

lemma two_requests_reach:
  "flight_reach png_origin cold_handler two_requests"
  "fl_tasks two_requests 2 = Some (Lead (get_media ''aa'') 0)"
  "fl_tasks two_requests 3 = Some (Waiting (get_media ''aa'') 0)"
proof -
  let ?cx = "get_media ''aa''"
  define s2 where "s2 = set_task 3 (Start ?cx) (set_task 2 (Start ?cx) (flight_init cold_handler))"
  define s3 where "s3 = do_lookup 2 ?cx s2"
  define s4 where "s4 = do_lookup 3 ?cx s3"
  define s5 where "s5 = do_enter 2 ?cx s4"
  have two: "two_requests = do_enter 3 ?cx s5"
    by (simp add: two_requests_def s2_def s3_def s4_def s5_def)
  have h: "fl_handler s2 = cold_handler" "fl_inflight s2 = Map.empty" "fl_fresh s2 = 0"
    and t2: "fl_tasks s2 2 = Some (Start ?cx)" "fl_tasks s2 3 = Some (Start ?cx)"
    by (simp_all add: s2_def set_task_def flight_init_def)
  have hash: "hash_of ?cx = cx_param ?cx ''hash''" by (simp add: hash_of_def)
  have c3: "fl_tasks s3 = (fl_tasks s2)(2 \<mapsto> Missed ?cx)"
      "map_of (cache_abs (h_cache (fl_handler s3))) (hash_of ?cx) = None" "cache_inv (h_cache (fl_handler s3))"
    using cold_lookup [of s2 ?cx 2] by (simp_all add: s3_def h hash cold_facts)
  have c4: "fl_tasks s4 = (fl_tasks s3)(3 \<mapsto> Missed ?cx)"
    using cold_lookup(1) [of s3 ?cx 3] c3(2,3) by (simp add: s4_def)
  have i4: "fl_inflight s4 = Map.empty" "fl_fresh s4 = 0"
    by (simp_all add: s4_def s3_def do_lookup_sel h)
  have r2: "flight_reach png_origin cold_handler s2" unfolding s2_def
    by (intro flight_reach.step [OF _ flight_step.arrive] flight_reach.init) (simp_all add: set_task_def flight_init_def)
  have r3: "flight_reach png_origin cold_handler s3" unfolding s3_def
    by (rule flight_reach.step [OF r2 flight_step.lookup]) (rule t2)
  have r4: "flight_reach png_origin cold_handler s4" unfolding s4_def
    by (rule flight_reach.step [OF r3 flight_step.lookup]) (simp add: c3 t2)
  have r5: "flight_reach png_origin cold_handler s5" unfolding s5_def
    by (rule flight_reach.step [OF r4 flight_step.enter]) (simp add: c4 c3)
  have s5: "fl_tasks s5 = (fl_tasks s4)(2 \<mapsto> Lead ?cx 0)" "fl_inflight s5 (hash_of ?cx) = Some 0"
    by (simp_all add: s5_def do_enter_def i4 set_task_def)
  show "flight_reach png_origin cold_handler two_requests"
    unfolding two by (rule flight_reach.step [OF r5 flight_step.enter]) (simp add: s5 c4)
  show "fl_tasks two_requests 2 = Some (Lead ?cx 0)" "fl_tasks two_requests 3 = Some (Waiting ?cx 0)"
    by (simp_all add: two do_enter_def s5 set_task_def)
qed


text \<open>
  What a coalesced request is answered with.  Every request past the fetch, a waiter as much as
  the leader, holds the outcome of a logged origin request for its own hash.
\<close>

theorem coalesced_result_genuine:
  assumes "flight_reach do h s" "cache_inv (h_cache h)" "fl_tasks s t = Some (Resumed cx r)"
  shows "genuine do (c_maxEntry (h_cache (fl_handler s))) (fl_handler s) (hash_of cx) r"
  using flight_reach_inv [OF assms(1,2)] assms(3) unfolding flight_inv_def result_inv_def by force

definition answered_waiter :: flight where
  "answered_waiter =
     (let cx = get_media ''aa''; r = snd (fetch png_origin (fl_handler two_requests) ''aa'' ''r1'')
      in do_close 2 cx 0 r (do_release 2 cx 0 r (do_keep 2 cx 0 r (do_fetch png_origin 2 cx 0 two_requests))))"

lemma answered_waiter_reach:
  "flight_reach png_origin cold_handler (set_task 3 (Resumed (get_media ''aa'')
     (snd (fetch png_origin (fl_handler two_requests) ''aa'' ''r1''))) answered_waiter)"
proof -
  let ?cx = "get_media ''aa''" and ?r = "snd (fetch png_origin (fl_handler two_requests) ''aa'' ''r1'')"
  have cx: "hash_of ?cx = ''aa''" "cx_request_id ?cx = ''r1''" by (simp_all add: hash_of_def get_media_def)
  let ?s1 = "do_fetch png_origin 2 ?cx 0 two_requests"
  let ?s2 = "do_keep 2 ?cx 0 ?r ?s1"
  let ?s3 = "do_release 2 ?cx 0 ?r ?s2"
  have t1: "fl_tasks ?s1 = (fl_tasks two_requests)(2 \<mapsto> Fetched ?cx 0 ?r)" by (simp add: do_fetch_sel cx)
  have t2: "fl_tasks ?s2 = (fl_tasks two_requests)(2 \<mapsto> Kept ?cx 0 ?r)" by (simp add: do_keep_sel t1)
  have t3: "fl_tasks ?s3 = (fl_tasks two_requests)(2 \<mapsto> Released ?cx 0 ?r)" by (simp add: do_release_def set_task_def t2)
  have "flight_reach png_origin cold_handler ?s1"
    by (rule flight_reach.step [OF two_requests_reach(1) flight_step.fetched]) (rule two_requests_reach)
  then have "flight_reach png_origin cold_handler ?s2"
    by (rule flight_reach.step [OF _ flight_step.keep]) (simp add: t1)
  then have "flight_reach png_origin cold_handler ?s3"
    by (rule flight_reach.step [OF _ flight_step.release]) (simp add: t2)
  then have r4: "flight_reach png_origin cold_handler answered_waiter"
    unfolding answered_waiter_def Let_def
    by (rule flight_reach.step [OF _ flight_step.closed]) (simp add: t3)
  have a: "fl_tasks answered_waiter = (fl_tasks two_requests)(2 \<mapsto> Resumed ?cx ?r)"
    "fl_results answered_waiter 0 = Some ?r"
    by (simp_all add: answered_waiter_def Let_def do_close_def set_task_def t3)
  show ?thesis
    by (rule flight_reach.step [OF r4 flight_step.wake [where i = 0]]) (simp_all add: a two_requests_reach)
qed

theorem coalesced_result_genuine_witness:
  "genuine png_origin (c_maxEntry (h_cache (fl_handler answered_waiter))) (fl_handler answered_waiter) ''aa''
     (snd (fetch png_origin (fl_handler two_requests) ''aa'' ''r1''))"
  using coalesced_result_genuine [OF answered_waiter_reach cold_facts(1), of 3]
  by (simp add: set_task_def hash_of_def get_media_def)

subsection \<open>Progress\<close>

fun rank :: "task \<Rightarrow> nat" where
  "rank (Start cx) = 8"
| "rank (Missed cx) = 7"
| "rank (Lead cx i) = 6"
| "rank (Fetched cx i r) = 5"
| "rank (Kept cx i r) = 4"
| "rank (Released cx i r) = 3"
| "rank (Waiting cx i) = 2"
| "rank (Resumed cx r) = 1"
| "rank (Answered resp) = 0"

definition work :: "flight \<Rightarrow> nat" where
  "work s = (\<Sum>t \<in> dom (fl_tasks s). rank (the (fl_tasks s t)))"

lemma step_finite: "flight_step do s s' \<Longrightarrow> finite (dom (fl_tasks s)) \<Longrightarrow> finite (dom (fl_tasks s'))"
  by (induction rule: flight_step.induct)
    (auto simp: do_lookup_def do_enter_def do_fetch_def do_keep_def do_release_def do_close_def do_answer_def
      set_task_def split_beta Let_def split: option.split)

lemma flight_reach_finite: "flight_reach do h s \<Longrightarrow> finite (dom (fl_tasks s))"
  by (induction rule: flight_reach.induct) (auto simp: flight_init_def step_finite)

lemma work_decreases:
  assumes "finite (dom (fl_tasks s))" "fl_tasks s t = Some p" "fl_tasks s' = (fl_tasks s)(t \<mapsto> q)" "rank q < rank p"
  shows "dom (fl_tasks s') = dom (fl_tasks s) \<and> work s' < work s"
proof -
  let ?D = "dom (fl_tasks s)"
  have d: "dom (fl_tasks s') = ?D" using assms(2,3) by auto
  have "work s' = rank q + (\<Sum>u \<in> ?D - {t}. rank (the (fl_tasks s u)))"
    using assms(1,2) unfolding work_def d by (subst sum.remove [of _ t]) (auto simp: assms(3) intro: sum.cong)
  moreover have "work s = rank p + (\<Sum>u \<in> ?D - {t}. rank (the (fl_tasks s u)))"
    using assms(1,2) unfolding work_def by (subst sum.remove [of _ t]) auto
  ultimately show ?thesis using d assms(4) by simp
qed

lemma owner_can_move:
  assumes "fl_tasks s t = Some p" "owning p = Some x" "finite (dom (fl_tasks s))"
  shows "\<exists>s'. flight_step do s s' \<and> dom (fl_tasks s') = dom (fl_tasks s) \<and> work s' < work s"
proof (cases p)
  case (Lead cx i)
  with assms show ?thesis
    by (intro exI [of _ "do_fetch do t cx i s"] conjI flight_step.fetched work_decreases [OF _ assms(1) do_fetch_sel(5), THEN conjunct1]
        work_decreases [OF _ assms(1) do_fetch_sel(5), THEN conjunct2]) simp_all
next
  case (Fetched cx i r)
  with assms show ?thesis
    by (intro exI [of _ "do_keep t cx i r s"] conjI flight_step.keep work_decreases [OF _ assms(1) do_keep_sel(5), THEN conjunct1]
        work_decreases [OF _ assms(1) do_keep_sel(5), THEN conjunct2]) simp_all
next
  case (Kept cx i r)
  have "fl_tasks (do_release t cx i r s) = (fl_tasks s)(t \<mapsto> Released cx i r)" by (simp add: do_release_def set_task_def)
  from work_decreases [OF assms(3,1) this] Kept assms(1) show ?thesis by (auto intro: flight_step.release)
next
  case (Released cx i r)
  have "fl_tasks (do_close t cx i r s) = (fl_tasks s)(t \<mapsto> Resumed cx r)" by (simp add: do_close_def set_task_def)
  from work_decreases [OF assms(3,1) this] Released assms(1) show ?thesis by (auto intro: flight_step.closed)
qed (use assms(2) in simp_all)

text \<open>
  C37: no request is left waiting.  In every reachable state either all requests have been
  answered or some request can take a step without any new request arriving, and the steps that
  remain are bounded (\<^const>\<open>work\<close> decreases): a waiter never blocks on a result nobody will
  deliver.
\<close>

theorem flight_progress:
  assumes "flight_reach do h s" "cache_inv (h_cache h)" "fl_tasks s t = Some p" "rank p \<noteq> 0"
  shows "\<exists>s'. flight_step do s s' \<and> dom (fl_tasks s') = dom (fl_tasks s) \<and> work s' < work s"
proof -
  note fin = flight_reach_finite [OF assms(1)]
  note dec = work_decreases [OF fin assms(3)]
  show ?thesis
  proof (cases "owning p")
    case (Some x)
    then show ?thesis by (rule owner_can_move [OF assms(3) _ fin])
  next
    case None
    then consider cx where "p = Start cx" | cx where "p = Missed cx" | cx i where "p = Waiting cx i" | cx r where "p = Resumed cx r"
      using assms(4) by (cases p) auto
    then show ?thesis
    proof cases
      case (1 cx)
      obtain q where q: "fl_tasks (do_lookup t cx s) = (fl_tasks s)(t \<mapsto> q)" "q = Missed cx \<or> (\<exists>r. q = Answered r)"
        by (rule do_lookup_task)
      then have "rank q < rank p" using 1 by auto
      from dec [OF q(1) this] 1 assms(3) show ?thesis by (auto intro: flight_step.lookup)
    next
      case (2 cx)
      obtain q where q: "fl_tasks (do_enter t cx s) = (fl_tasks s)(t \<mapsto> q)" "rank q < rank p"
        using 2 by (cases "fl_inflight s (hash_of cx)") (auto simp: do_enter_def set_task_def)
      from dec [OF this] 2 assms(3) show ?thesis by (auto intro: flight_step.enter)
    next
      case (4 cx r)
      obtain resp where q: "fl_tasks (do_answer do t cx r s) = (fl_tasks s)(t \<mapsto> Answered resp)" by (rule do_answer_task)
      from dec [OF q] 4 assms(3) show ?thesis by (auto intro: flight_step.answered)
    next
      case (3 cx i)
      show ?thesis
      proof (cases "fl_results s i")
        case (Some r)
        have "fl_tasks (set_task t (Resumed cx r) s) = (fl_tasks s)(t \<mapsto> Resumed cx r)" by (simp add: set_task_def)
        from dec [OF this] 3 assms(3) Some show ?thesis by (auto intro: flight_step.wake)
      next
        case None
        then obtain u k where "own_at s u = Some (k, i)"
          using flight_reach_inv [OF assms(1,2)] assms(3) 3 unfolding flight_inv_def wait_inv_def by blast
        then obtain q where "fl_tasks s u = Some q" "owning q = Some (k, i)"
          by (cases "fl_tasks s u") (auto simp: own_at_def)
        then show ?thesis by (rule owner_can_move [OF _ _ fin])
      qed
    qed
  qed
qed

theorem flight_progress_witness:
  "\<exists>s'. flight_step png_origin two_requests s' \<and> dom (fl_tasks s') = dom (fl_tasks two_requests) \<and> work s' < work two_requests"
  using flight_progress [OF two_requests_reach(1) cold_facts(1) two_requests_reach(3)] by simp

end
