(* ===== verification/Auth.thy ===== *)
theory Auth
  imports GoStrings
begin

text \<open>
  Authentication: the three copies of \<^verbatim>\<open>jwt.go\<close> (gateway, chat-service, presence-service), the
  service-to-service key middlewares (\<^verbatim>\<open>api_key.go\<close>, \<^verbatim>\<open>gateway_auth.go\<close>), \<^verbatim>\<open>request_id.go\<close> and
  \<^verbatim>\<open>instance.go\<close>.  A middleware maps the context to a rejection (status and error message) or to the
  context the next handler gets.  The package golang-jwt is a parameter of type \<open>jwt_package\<close>; what the
  code relies on is the predicate \<open>jwt_sound\<close>.  Random bytes and the clock are arguments.
\<close>

section \<open>Middlewares\<close>

type_synonym reject = "nat \<times> string"

definition run_middleware :: "reject + echo_context \<Rightarrow> echo_context \<Rightarrow> (echo_context \<Rightarrow> 'v response) \<Rightarrow> 'v response" where
  "run_middleware m cx next =
     (case m of Inl (st, msg) \<Rightarrow> reply cx st (JSON_error msg) | Inr cx' \<Rightarrow> next cx')"

section \<open>request_id.go, instance.go\<close>

definition generateRequestID :: "string \<Rightarrow> string" where
  "generateRequestID b = hex_EncodeToString b"

definition RequestIDMiddleware :: "string \<Rightarrow> echo_context \<Rightarrow> echo_context" where
  "RequestIDMiddleware rnd cx =
     (let given = Header_Get (req_header (cx_req cx)) ''X-Request-ID'';
          requestID = (if given = '''' then generateRequestID rnd else given)
      in set_resp ''X-Request-ID'' requestID (cx\<lparr>cx_request_id := requestID\<rparr>))"

definition InstanceHeaderMiddleware :: "string \<Rightarrow> echo_context \<Rightarrow> echo_context" where
  "InstanceHeaderMiddleware instanceID cx = set_resp ''X-Chat-Instance'' instanceID cx"

section \<open>float64 claims\<close>

text \<open>
  \<^verbatim>\<open>jwt.MapClaims\<close> decodes every JSON number into a \<^verbatim>\<open>float64\<close>, here a mantissa and a binary
  exponent.  An integer is rounded to 53 significant bits, ties to even; \<^verbatim>\<open>int64(f)\<close> truncates, and
  gives the smallest \<^verbatim>\<open>int64\<close> outside the range (amd64).
\<close>

type_synonym float64 = "int \<times> int"

fun bit_len :: "nat \<Rightarrow> nat" where
  "bit_len n = (if n = 0 then 0 else Suc (bit_len (n div 2)))"

declare bit_len.simps [simp del]

definition round_half_even :: "int \<Rightarrow> nat \<Rightarrow> int" where
  "round_half_even n k =
     (let q = n div 2 ^ k; r = n mod 2 ^ k; h = 2 ^ k div 2
      in if r > h \<or> (r = h \<and> odd q) then q + 1 else q)"

definition float64_of_int :: "int \<Rightarrow> float64" where
  "float64_of_int n =
     (let k = bit_len (nat \<bar>n\<bar>) - 53
      in if k = 0 then (n, 0) else (sgn n * round_half_even \<bar>n\<bar> k, int k))"

definition int64_of_float :: "float64 \<Rightarrow> int" where
  "int64_of_float f =
     (case f of (m, e) \<Rightarrow>
        let t = (if e \<ge> 0 then m * 2 ^ nat e else sgn m * (\<bar>m\<bar> div 2 ^ nat (- e)))
        in if int64_range t then t else - (2 ^ 63))"

section \<open>jwt.go\<close>

record claims =
  cl_user_id :: int
  cl_role :: string
  cl_exp :: int

text \<open>The claims as the parser returns them: absent, or of another JSON type, is \<open>None\<close>.\<close>

record parsed_token =
  pt_Valid :: bool
  pt_MapClaims :: bool
  pt_user_id :: "float64 option"
  pt_role :: "string option"

text \<open>
  golang-jwt: \<^verbatim>\<open>SignedString\<close> on HS256, and \<^verbatim>\<open>Parse\<close> at a time, with the key function, which is
  given whether the token names an HMAC method.
\<close>

record jwt_package =
  jw_SignedString :: "claims \<Rightarrow> string \<Rightarrow> string result"
  jw_Parse :: "int \<Rightarrow> (bool \<Rightarrow> string result) \<Rightarrow> string \<Rightarrow> parsed_token result"

definition jwt_keyfunc :: "string \<Rightarrow> bool \<Rightarrow> string result" where
  "jwt_keyfunc jwtSecret is_hmac =
     (if \<not> is_hmac then Inl (Errorf ''unexpected signing method'') else Inr jwtSecret)"

definition GenerateToken :: "jwt_package \<Rightarrow> string \<Rightarrow> int \<Rightarrow> int \<Rightarrow> string \<Rightarrow> string result" where
  "GenerateToken J jwtSecret now userID role =
     jw_SignedString J \<lparr>cl_user_id = userID, cl_role = role, cl_exp = now + 24 * 3600\<rparr> jwtSecret"

definition gateway_JWTMiddleware :: "jwt_package \<Rightarrow> string \<Rightarrow> int \<Rightarrow> echo_context \<Rightarrow> reject + echo_context" where
  "gateway_JWTMiddleware J jwtSecret now cx =
     (let authHeader = Header_Get (req_header (cx_req cx)) ''Authorization''
      in if authHeader = '''' then Inl (401, ''missing authorization header'')
         else
           (let tokenString = TrimPrefix authHeader ''Bearer ''
            in if tokenString = authHeader then Inl (401, ''invalid authorization format'')
               else case jw_Parse J now (jwt_keyfunc jwtSecret) tokenString of
                      Inl err \<Rightarrow> Inl (401, ''invalid or expired token'')
                    | Inr token \<Rightarrow>
                        if \<not> pt_Valid token then Inl (401, ''invalid or expired token'')
                        else if \<not> pt_MapClaims token then Inl (401, ''invalid token claims'')
                        else case pt_user_id token of
                               None \<Rightarrow> Inl (401, ''invalid user id in token'')
                             | Some userIDFloat \<Rightarrow>
                                 Inr (cx\<lparr>cx_user_id := Some (int64_of_float userIDFloat),
                                         cx_role := case_option '''' id (pt_role token)\<rparr>)))"

record Claims =
  UserID :: int
  Role :: string

definition chat_ValidateToken :: "jwt_package \<Rightarrow> string \<Rightarrow> int \<Rightarrow> string \<Rightarrow> Claims result" where
  "chat_ValidateToken J jwtSecret now tokenString =
     (case jw_Parse J now (jwt_keyfunc jwtSecret) tokenString of
        Inl err \<Rightarrow> Inl (Errorf ''invalid or expired token'')
      | Inr token \<Rightarrow>
          if \<not> pt_Valid token then Inl (Errorf ''invalid or expired token'')
          else if \<not> pt_MapClaims token then Inl (Errorf ''invalid token claims'')
          else case pt_user_id token of
                 None \<Rightarrow> Inl (Errorf ''invalid user id in token'')
               | Some userIDFloat \<Rightarrow>
                   Inr \<lparr>UserID = int64_of_float userIDFloat, Role = case_option '''' id (pt_role token)\<rparr>)"

definition chat_JWTMiddleware :: "jwt_package \<Rightarrow> string \<Rightarrow> int \<Rightarrow> echo_context \<Rightarrow> reject + echo_context" where
  "chat_JWTMiddleware J jwtSecret now cx =
     (let authHeader = Header_Get (req_header (cx_req cx)) ''Authorization'';
          tokenString = TrimPrefix authHeader ''Bearer ''
      in if authHeader = '''' \<or> tokenString = authHeader then Inl (401, ''missing or invalid authorization header'')
         else case chat_ValidateToken J jwtSecret now tokenString of
                Inl err \<Rightarrow> Inl (401, err_text err)
              | Inr claims \<Rightarrow> Inr (cx\<lparr>cx_user_id := Some (UserID claims), cx_role := Role claims\<rparr>))"

text \<open>The copy in presence-service.\<close>

definition presence_ValidateToken :: "jwt_package \<Rightarrow> string \<Rightarrow> int \<Rightarrow> string \<Rightarrow> Claims result" where
  "presence_ValidateToken J jwtSecret now tokenString =
     (case jw_Parse J now (jwt_keyfunc jwtSecret) tokenString of
        Inl err \<Rightarrow> Inl (Errorf ''invalid or expired token'')
      | Inr token \<Rightarrow>
          if \<not> pt_Valid token then Inl (Errorf ''invalid or expired token'')
          else if \<not> pt_MapClaims token then Inl (Errorf ''invalid token claims'')
          else case pt_user_id token of
                 None \<Rightarrow> Inl (Errorf ''invalid user id in token'')
               | Some userIDFloat \<Rightarrow>
                   Inr \<lparr>UserID = int64_of_float userIDFloat, Role = case_option '''' id (pt_role token)\<rparr>)"

definition presence_JWTMiddleware :: "jwt_package \<Rightarrow> string \<Rightarrow> int \<Rightarrow> echo_context \<Rightarrow> reject + echo_context" where
  "presence_JWTMiddleware J jwtSecret now cx =
     (let authHeader = Header_Get (req_header (cx_req cx)) ''Authorization'';
          tokenString = TrimPrefix authHeader ''Bearer ''
      in if authHeader = '''' \<or> tokenString = authHeader then Inl (401, ''missing or invalid authorization header'')
         else case presence_ValidateToken J jwtSecret now tokenString of
                Inl err \<Rightarrow> Inl (401, err_text err)
              | Inr claims \<Rightarrow> Inr (cx\<lparr>cx_user_id := Some (UserID claims), cx_role := Role claims\<rparr>))"

section \<open>api_key.go, gateway_auth.go\<close>

text \<open>\<^verbatim>\<open>subtle.ConstantTimeCompare\<close> is 1 exactly on equal byte slices.\<close>

definition presence_APIKeyMiddleware :: "string \<Rightarrow> echo_context \<Rightarrow> reject + echo_context" where
  "presence_APIKeyMiddleware presenceAPIKey cx =
     (if Header_Get (req_header (cx_req cx)) ''X-Presence-Key'' \<noteq> presenceAPIKey
      then Inl (401, ''invalid presence key'') else Inr cx)"

definition notification_APIKeyMiddleware :: "string \<Rightarrow> echo_context \<Rightarrow> reject + echo_context" where
  "notification_APIKeyMiddleware notificationAPIKey cx =
     (if Header_Get (req_header (cx_req cx)) ''X-Notification-Key'' \<noteq> notificationAPIKey
      then Inl (401, ''invalid notification key'') else Inr cx)"

definition notification_GatewayAuthMiddleware :: "string \<Rightarrow> echo_context \<Rightarrow> reject + echo_context" where
  "notification_GatewayAuthMiddleware gatewayKey cx =
     (if Header_Get (req_header (cx_req cx)) ''X-Gateway-Key'' \<noteq> gatewayKey
      then Inl (401, ''requests must come through the gateway'')
      else case ParseInt (Header_Get (req_header (cx_req cx)) ''X-User-ID'') of
             None \<Rightarrow> Inl (401, ''missing or invalid user identity'')
           | Some userID \<Rightarrow>
               if userID \<le> 0 then Inl (401, ''missing or invalid user identity'')
               else Inr (cx\<lparr>cx_user_id := Some userID\<rparr>))"

definition media_GatewayAuthMiddleware :: "string \<Rightarrow> echo_context \<Rightarrow> reject + echo_context" where
  "media_GatewayAuthMiddleware gatewayKey cx =
     (if Header_Get (req_header (cx_req cx)) ''X-Gateway-Key'' \<noteq> gatewayKey
      then Inl (401, ''requests must come through the gateway'') else Inr cx)"

section \<open>Identities survive the token\<close>

text \<open>
  What the code relies on of golang-jwt (v5): a token made by \<^verbatim>\<open>SignedString\<close> parses, under a key
  function that returns the same secret for an HMAC token, to its own claims as long as the
  expiry is in the future, and is an error otherwise.
\<close>

definition decoded :: "claims \<Rightarrow> parsed_token" where
  "decoded c = \<lparr>pt_Valid = True, pt_MapClaims = True, pt_user_id = Some (float64_of_int (cl_user_id c)),
                pt_role = Some (cl_role c)\<rparr>"

definition jwt_sound :: "jwt_package \<Rightarrow> bool" where
  "jwt_sound J \<longleftrightarrow>
     (\<forall>c secret tok now kf. jw_SignedString J c secret = Inr tok \<longrightarrow> tok \<noteq> '''' \<and>
        jw_Parse J now kf tok =
          (case kf True of
             Inl e \<Rightarrow> Inl e
           | Inr s \<Rightarrow> if s = secret \<and> now < cl_exp c then Inr (decoded c) else Inl (External ''jwt'')))"

lemma bit_len_le: "n < 2 ^ k \<Longrightarrow> bit_len n \<le> k"
proof (induction k arbitrary: n)
  case 0
  then show ?case by (simp add: bit_len.simps)
next
  case (Suc k)
  then have "bit_len (n div 2) \<le> k" by (intro Suc.IH) auto
  then show ?case by (simp add: bit_len.simps [of n])
qed

lemma float64_exact: "\<bar>n\<bar> < 2 ^ 53 \<Longrightarrow> float64_of_int n = (n, 0)"
proof -
  assume "\<bar>n\<bar> < 2 ^ 53"
  then have "nat \<bar>n\<bar> < 2 ^ 53" by (simp add: nat_less_iff)
  then have "bit_len (nat \<bar>n\<bar>) \<le> 53" by (rule bit_len_le)
  then show ?thesis by (simp add: float64_of_int_def)
qed

lemma int64_of_float_exact: "\<bar>n\<bar> < 2 ^ 53 \<Longrightarrow> int64_of_float (float64_of_int n) = n"
proof -
  assume n: "\<bar>n\<bar> < 2 ^ 53"
  then have "int64_range n" by (intro int64_rangeI) auto
  then show ?thesis by (simp add: float64_exact [OF n] int64_of_float_def)
qed

lemma ValidateToken_signed:
  assumes "jwt_sound J" "GenerateToken J secret now uid role = Inr tok" "t < now + 86400"
  shows "chat_ValidateToken J secret t tok = Inr \<lparr>UserID = int64_of_float (float64_of_int uid), Role = role\<rparr>"
proof -
  have s: "jw_SignedString J \<lparr>cl_user_id = uid, cl_role = role, cl_exp = now + 86400\<rparr> secret = Inr tok"
    using assms(2) by (simp add: GenerateToken_def)
  have "jw_Parse J t (jwt_keyfunc secret) tok = Inr (decoded \<lparr>cl_user_id = uid, cl_role = role, cl_exp = now + 86400\<rparr>)"
    using assms(1,3) s unfolding jwt_sound_def by (simp add: jwt_keyfunc_def)
  then show ?thesis by (simp add: chat_ValidateToken_def decoded_def)
qed

lemma presence_ValidateToken_eq: "presence_ValidateToken = chat_ValidateToken"
  by (intro ext) (simp add: presence_ValidateToken_def chat_ValidateToken_def)

lemma gateway_JWT_ValidateToken:
  "gateway_JWTMiddleware J secret now cx = Inr cx' \<longleftrightarrow>
     (\<exists>tok c. tok \<noteq> Header_Get (req_header (cx_req cx)) ''Authorization'' \<and>
        tok = TrimPrefix (Header_Get (req_header (cx_req cx)) ''Authorization'') ''Bearer '' \<and>
        Header_Get (req_header (cx_req cx)) ''Authorization'' \<noteq> '''' \<and>
        chat_ValidateToken J secret now tok = Inr c \<and>
        cx' = cx\<lparr>cx_user_id := Some (UserID c), cx_role := Role c\<rparr>)"
  by (auto simp: gateway_JWTMiddleware_def chat_ValidateToken_def Let_def split: sum.splits if_splits option.splits)

text \<open>
  The three copies of the token check agree.  For every request, secret and time, the
  gateway, chat-service and presence-service accept the same requests and establish the same
  identity and role; chat-service and presence-service also reject with the same message.
\<close>

theorem jwt_copies_agree:
  "(gateway_JWTMiddleware J secret now cx = Inr cx' \<longleftrightarrow> chat_JWTMiddleware J secret now cx = Inr cx') \<and>
   presence_JWTMiddleware J secret now cx = chat_JWTMiddleware J secret now cx"
  by (auto simp: gateway_JWT_ValidateToken chat_JWTMiddleware_def presence_JWTMiddleware_def
      presence_ValidateToken_eq Let_def split: sum.splits if_splits)

text \<open>
  Identity round trip.  A token minted by \<^verbatim>\<open>GenerateToken\<close> and presented as a Bearer header
  before its 24 hours are over establishes exactly the user id and role it was minted for,
  for every id whose magnitude is below \<^verbatim>\<open>2^53\<close>.
\<close>

theorem token_roundtrip:
  assumes "jwt_sound J" "GenerateToken J secret now uid role = Inr tok" "t < now + 86400" "\<bar>uid\<bar> < 2 ^ 53"
    and "Header_Get (req_header (cx_req cx)) ''Authorization'' = ''Bearer '' @ tok"
  shows "gateway_JWTMiddleware J secret t cx = Inr (cx\<lparr>cx_user_id := Some uid, cx_role := role\<rparr>)"
proof -
  have "''Bearer '' @ tok \<noteq> tok" by (metis append_self_conv2 list.discI)
  then show ?thesis
    using ValidateToken_signed [OF assms(1-3)] int64_of_float_exact [OF assms(4)]
    unfolding gateway_JWT_ValidateToken assms(5) TrimPrefix_append by simp
qed

text \<open>A concrete token package that signs one claim set, to exercise the hypothesis.\<close>

definition one_token :: "claims \<Rightarrow> string \<Rightarrow> jwt_package" where
  "one_token c0 secret0 =
     \<lparr>jw_SignedString = (\<lambda>c s. if c = c0 \<and> s = secret0 then Inr ''tok'' else Inl (External ''sign'')),
      jw_Parse = (\<lambda>now kf tok.
        if tok \<noteq> ''tok'' then Inl (External ''jwt'')
        else case kf True of
               Inl e \<Rightarrow> Inl e
             | Inr s \<Rightarrow> if s = secret0 \<and> now < cl_exp c0 then Inr (decoded c0) else Inl (External ''jwt''))\<rparr>"

lemma one_token_sound: "jwt_sound (one_token c0 s0)"
  by (auto simp: jwt_sound_def one_token_def split: sum.split)

definition bearer_context :: "string \<Rightarrow> echo_context" where
  "bearer_context tok =
     \<lparr>cx_req = \<lparr>req_method = ''GET'', req_path = ''/me'', req_query = (\<lambda>_. []),
                req_header = Header_Set no_headers ''Authorization'' (''Bearer '' @ tok)\<rparr>,
      cx_param = (\<lambda>_. ''''), cx_resp = no_headers, cx_request_id = ''r1'', cx_user_id = None, cx_role = ''''\<rparr>"

theorem token_roundtrip_witness:
  "gateway_JWTMiddleware (one_token \<lparr>cl_user_id = 42, cl_role = ''user'', cl_exp = 86500\<rparr> ''k'') ''k'' 200 (bearer_context ''tok'') =
     Inr ((bearer_context ''tok'')\<lparr>cx_user_id := Some 42, cx_role := ''user''\<rparr>)"
proof (rule token_roundtrip [OF one_token_sound, where now = 100])
  show "GenerateToken (one_token \<lparr>cl_user_id = 42, cl_role = ''user'', cl_exp = 86500\<rparr> ''k'') ''k'' 100 42 ''user'' = Inr ''tok''"
    by (simp add: GenerateToken_def one_token_def)
  show "Header_Get (req_header (cx_req (bearer_context ''tok''))) ''Authorization'' = ''Bearer '' @ ''tok''"
    by (simp add: bearer_context_def)
qed simp_all

text \<open>
  Beyond \<^verbatim>\<open>2^53\<close> the round trip fails.  \<^verbatim>\<open>user_id\<close> is an \<^verbatim>\<open>int64\<close> when the token is minted but a
  \<^verbatim>\<open>float64\<close> when it is read back: a token minted for user \<^verbatim>\<open>2^53+1\<close> authenticates its bearer as
  user \<^verbatim>\<open>2^53\<close>.
\<close>

theorem user_id_beyond_2_53_collides:
  assumes "jwt_sound J" "GenerateToken J secret now 9007199254740993 role = Inr tok" "t < now + 86400"
  shows "chat_ValidateToken J secret t tok = Inr \<lparr>UserID = 9007199254740992, Role = role\<rparr>"
proof -
  have "int64_of_float (float64_of_int 9007199254740993) = 9007199254740992"
    by (simp add: float64_of_int_def bit_len.simps round_half_even_def int64_of_float_def int64_range_def)
  then show ?thesis using ValidateToken_signed [OF assms] by simp
qed

theorem user_id_beyond_2_53_collides_witness:
  "chat_ValidateToken (one_token \<lparr>cl_user_id = 9007199254740993, cl_role = ''user'', cl_exp = 86500\<rparr> ''k'') ''k'' 200 ''tok'' =
     Inr \<lparr>UserID = 9007199254740992, Role = ''user''\<rparr>"
  by (rule user_id_beyond_2_53_collides [OF one_token_sound, where now = 100])
    (simp_all add: GenerateToken_def one_token_def)

end
