(* ===== verification/Validation.thy ===== *)
theory Validation
  imports GoStrings
begin

text \<open>
  The identifier rules.  A room name reaches four independent programs (chat-service
  creates a room under it, presence-service builds a Redis key from it,
  notification-service stores subscriptions to it) and each carries its own validator:
  \<^verbatim>\<open>chat-service/internal/validation/room.go\<close>, \<^verbatim>\<open>presence-service/internal/service\<close> and
  \<^verbatim>\<open>notification-service/internal/service/validation.go\<close>.  An instance id is checked by
  chat-service at startup (\<^verbatim>\<open>config.ValidInstanceID\<close>) and by presence-service on the
  wire.  The sources say the copies must agree; the theorems here say they do.
\<close>

section \<open>chat-service: ValidateRoomName and ValidInstanceID\<close>

definition MaxRoomNameLength :: nat where
  "MaxRoomNameLength = 64"

definition room_rune_allowed :: "nat \<Rightarrow> bool" where
  "room_rune_allowed r \<longleftrightarrow>
     (97 \<le> r \<and> r \<le> 122) \<or> (65 \<le> r \<and> r \<le> 90) \<or> (48 \<le> r \<and> r \<le> 57) \<or> r = 95 \<or> r = 45"

definition ValidateRoomName :: "string \<Rightarrow> unit result" where
  "ValidateRoomName room =
     (if room = '''' then Inl (Errorf ''room is required'')
      else if length room > MaxRoomNameLength
      then Inl (Errorf (''room must be at most '' @ FormatInt (int MaxRoomNameLength) @ '' characters''))
      else if \<not> list_all room_rune_allowed (runes room)
      then Inl (Errorf ''room may only contain letters, digits, underscore and hyphen'')
      else Inr ())"

definition maxInstanceIDLength :: nat where
  "maxInstanceIDLength = 64"

definition instance_rune_allowed :: "nat \<Rightarrow> bool" where
  "instance_rune_allowed r \<longleftrightarrow>
     (97 \<le> r \<and> r \<le> 122) \<or> (65 \<le> r \<and> r \<le> 90) \<or> (48 \<le> r \<and> r \<le> 57) \<or> r = 95 \<or> r = 45 \<or> r = 46"

definition ValidInstanceID :: "string \<Rightarrow> bool" where
  "ValidInstanceID instanceID \<longleftrightarrow>
     \<not> (instanceID = '''' \<or> length instanceID > maxInstanceIDLength) \<and>
     list_all instance_rune_allowed (runes instanceID)"

section \<open>presence-service: validateRoom, validateInstanceID, isSafeIdentifier\<close>

definition isSafeIdentifier :: "string \<Rightarrow> bool \<Rightarrow> bool" where
  "isSafeIdentifier value allowDot =
     list_all (\<lambda>r. (97 \<le> r \<and> r \<le> 122) \<or> (65 \<le> r \<and> r \<le> 90) \<or> (48 \<le> r \<and> r \<le> 57) \<or>
                   r = 95 \<or> r = 45 \<or> (allowDot \<and> r = 46)) (runes value)"

definition presence_validateRoom :: "string \<Rightarrow> unit result" where
  "presence_validateRoom room =
     (if room = '''' then Inl (Validation ''room is required'')
      else if length room > 64
      then Inl (Validation (''room must be at most '' @ FormatInt 64 @ '' characters''))
      else if \<not> isSafeIdentifier room False
      then Inl (Validation ''room may only contain letters, digits, underscore and hyphen'')
      else Inr ())"

definition presence_validateInstanceID :: "string \<Rightarrow> unit result" where
  "presence_validateInstanceID instanceID =
     (if instanceID = '''' then Inl (Validation ''instance_id is required'')
      else if length instanceID > 64
      then Inl (Validation (''instance_id must be at most '' @ FormatInt 64 @ '' characters''))
      else if \<not> isSafeIdentifier instanceID True
      then Inl (Validation ''instance_id may only contain letters, digits, underscore, hyphen and dot'')
      else Inr ())"

section \<open>notification-service: validateRoom\<close>

definition notification_validateRoom :: "string \<Rightarrow> unit result" where
  "notification_validateRoom room =
     (if room = '''' then Inl (Validation ''room is required'')
      else if length room > 64
      then Inl (Validation (''room must be at most '' @ FormatInt 64 @ '' characters''))
      else if \<not> list_all (\<lambda>r. (97 \<le> r \<and> r \<le> 122) \<or> (65 \<le> r \<and> r \<le> 90) \<or> (48 \<le> r \<and> r \<le> 57) \<or>
                               r = 95 \<or> r = 45) (runes room)
      then Inl (Validation ''room may only contain letters, digits, underscore and hyphen'')
      else Inr ())"

section \<open>The rule behind the validators\<close>

text \<open>
  The specification: the names the README gives, \<^verbatim>\<open>[A-Za-z0-9_-]{1,64}\<close> for a room and
  \<^verbatim>\<open>[A-Za-z0-9_.-]{1,64}\<close> for an instance id, as byte strings.
\<close>

definition room_name :: "string \<Rightarrow> bool" where
  "room_name s \<longleftrightarrow> 1 \<le> length s \<and> length s \<le> 64 \<and> (\<forall>c \<in> set s. room_rune_allowed (byte_of c))"

definition instance_name :: "string \<Rightarrow> bool" where
  "instance_name s \<longleftrightarrow> 1 \<le> length s \<and> length s \<le> 64 \<and> (\<forall>c \<in> set s. instance_rune_allowed (byte_of c))"

lemma room_rune_ascii: "room_rune_allowed r \<Longrightarrow> r < 128"
  by (auto simp: room_rune_allowed_def)

lemma instance_rune_ascii: "instance_rune_allowed r \<Longrightarrow> r < 128"
  by (auto simp: instance_rune_allowed_def)

lemma room_runes_iff:
  "list_all room_rune_allowed (runes s) \<longleftrightarrow> (\<forall>c \<in> set s. room_rune_allowed (byte_of c))"
  by (subst list_all_runes) (auto simp: room_rune_ascii list_all_iff)

lemma instance_runes_iff:
  "list_all instance_rune_allowed (runes s) \<longleftrightarrow> (\<forall>c \<in> set s. instance_rune_allowed (byte_of c))"
  by (subst list_all_runes) (auto simp: instance_rune_ascii list_all_iff)

lemma isSafeIdentifier_room: "isSafeIdentifier s False = list_all room_rune_allowed (runes s)"
  unfolding isSafeIdentifier_def room_rune_allowed_def by simp

lemma isSafeIdentifier_instance: "isSafeIdentifier s True = list_all instance_rune_allowed (runes s)"
  unfolding isSafeIdentifier_def instance_rune_allowed_def by simp

lemma length_pos_iff: "Suc 0 \<le> length s \<longleftrightarrow> s \<noteq> []"
  by (cases s) auto

lemma ValidateRoomName_iff [ok_iff]: "ValidateRoomName s = Inr u \<longleftrightarrow> room_name s"
  by (auto simp: ValidateRoomName_def room_name_def room_runes_iff MaxRoomNameLength_def length_pos_iff)

lemma presence_validateRoom_iff [ok_iff]: "presence_validateRoom s = Inr u \<longleftrightarrow> room_name s"
  by (auto simp: presence_validateRoom_def room_name_def isSafeIdentifier_room room_runes_iff length_pos_iff)

lemma notification_validateRoom_iff [ok_iff]: "notification_validateRoom s = Inr u \<longleftrightarrow> room_name s"
proof -
  have "list_all (\<lambda>r. (97 \<le> r \<and> r \<le> 122) \<or> (65 \<le> r \<and> r \<le> 90) \<or> (48 \<le> r \<and> r \<le> 57) \<or> r = 95 \<or> r = 45)
          (runes s) = list_all room_rune_allowed (runes s)"
    by (simp add: room_rune_allowed_def list_all_iff)
  then show ?thesis
    by (auto simp: notification_validateRoom_def room_name_def room_runes_iff length_pos_iff)
qed

lemma presence_validateInstanceID_iff [ok_iff]: "presence_validateInstanceID s = Inr u \<longleftrightarrow> instance_name s"
  by (auto simp: presence_validateInstanceID_def instance_name_def isSafeIdentifier_instance
      instance_runes_iff length_pos_iff)

lemma ValidInstanceID_iff: "ValidInstanceID s \<longleftrightarrow> instance_name s"
  by (auto simp: ValidInstanceID_def instance_name_def instance_runes_iff maxInstanceIDLength_def length_pos_iff)

lemma presence_validateRoom_error:
  "presence_validateRoom s = Inl e \<Longrightarrow> \<exists>m. e = Validation m"
  by (auto simp: presence_validateRoom_def split: if_splits)

lemma presence_validateInstanceID_error:
  "presence_validateInstanceID s = Inl e \<Longrightarrow> \<exists>m. e = Validation m"
  by (auto simp: presence_validateInstanceID_def split: if_splits)

lemma notification_validateRoom_error:
  "notification_validateRoom s = Inl e \<Longrightarrow> \<exists>m. e = Validation m"
  by (auto simp: notification_validateRoom_def split: if_splits)

lemma colon_not_allowed [simp]:
  "\<not> room_rune_allowed (byte_of (CHR '':''))" "\<not> instance_rune_allowed (byte_of (CHR '':''))"
  by (simp_all add: room_rune_allowed_def instance_rune_allowed_def)

lemma room_name_no_colon: "room_name s \<Longrightarrow> CHR '':'' \<notin> set s"
  using colon_not_allowed unfolding room_name_def by blast

lemma instance_name_no_colon: "instance_name s \<Longrightarrow> CHR '':'' \<notin> set s"
  using colon_not_allowed unfolding instance_name_def by blast

end
