(* ===== verification/Routes.thy ===== *)
theory Routes
  imports Auth Validation "HOL-Library.Sublist"
begin

text \<open>
  The route tables of the five \<^verbatim>\<open>main.go\<close> files, as data: method, path pattern, the middlewares of the group
  or route in the order they run, and the handler.  echo's router is a parameter \<open>rfind\<close> with the documented
  contract \<open>echo_router\<close>: it serves a registered route of the request's method whose pattern the path is an
  instance of, and it finds one when a route fits with plain parameters.  The lemmas show that
  each table is unambiguous, so that every router with that contract picks the same route.
\<close>

section \<open>Patterns\<close>

text \<open>A colon starts a parameter name, which ends at the next slash.\<close>

abbreviation not_slash :: "char \<Rightarrow> bool" where
  "not_slash c \<equiv> c \<noteq> CHR ''/''"

function expand :: "(string \<Rightarrow> string) \<Rightarrow> string \<Rightarrow> string" where
  "expand ps [] = []"
| "expand ps (c # cs) =
     (if c = CHR '':'' then ps (takeWhile not_slash cs) @ expand ps (dropWhile not_slash cs) else c # expand ps cs)"
  by pat_completeness auto

termination expand
  by (relation "measure (\<lambda>(ps, s). length s)") (auto simp: le_imp_less_Suc length_dropWhile_le)

function param_names :: "string \<Rightarrow> string list" where
  "param_names [] = []"
| "param_names (c # cs) =
     (if c = CHR '':'' then takeWhile not_slash cs # param_names (dropWhile not_slash cs) else param_names cs)"
  by pat_completeness auto

termination param_names
  by (relation "measure length") (auto simp: le_imp_less_Suc length_dropWhile_le)

definition plain_value :: "string \<Rightarrow> bool" where
  "plain_value v \<longleftrightarrow> v \<noteq> [] \<and> list_all not_slash v \<and> list_all (\<lambda>c. c \<noteq> CHR ''%'') v"

definition plain_params :: "string \<Rightarrow> (string \<Rightarrow> string) \<Rightarrow> bool" where
  "plain_params pat ps \<longleftrightarrow> list_all (\<lambda>n. plain_value (ps n)) (param_names pat)"

lemma plain_room: "room_name s \<Longrightarrow> plain_value s"
  by (auto simp: room_name_def plain_value_def list_all_iff room_rune_allowed_def)

lemma expand_cong: "(\<And>n. n \<in> set (param_names pat) \<Longrightarrow> ps n = ps' n) \<Longrightarrow> expand ps pat = expand ps' pat"
  by (induction ps pat rule: expand.induct) auto

lemma expand_prefix: "prefix (takeWhile (\<lambda>c. c \<noteq> CHR '':'') pat) (expand ps pat)"
  by (induction ps pat rule: expand.induct) auto

lemma expand_static: "CHR '':'' \<notin> set pat \<Longrightarrow> expand ps pat = pat"
  by (induction ps pat rule: expand.induct) auto

lemma param_names_static: "CHR '':'' \<notin> set pat \<Longrightarrow> param_names pat = []"
  by (induction pat rule: param_names.induct) auto

section \<open>The router\<close>

type_synonym router = "(string \<times> string) list \<Rightarrow> string \<Rightarrow> string \<Rightarrow> (nat \<times> (string \<Rightarrow> string)) option"

text \<open>
  The tables have no catch-all patterns, and what is asked of the router is asked for such tables only.  A
  parameter may match more than a plain value (the last one also takes slashes); \<open>found\<close> allows for that.
\<close>

definition no_wildcards :: "(string \<times> string) list \<Rightarrow> bool" where
  "no_wildcards rs \<longleftrightarrow> list_all (\<lambda>r. list_all (\<lambda>c. c \<noteq> CHR ''*'') (snd r)) rs"

locale echo_router =
  fixes rfind :: router
  assumes found: "no_wildcards rs \<Longrightarrow> rfind rs m path = Some (i, ps) \<Longrightarrow>
      i < length rs \<and> fst (rs ! i) = m \<and> (\<exists>ps'. expand ps' (snd (rs ! i)) = path)"
    and found_params: "no_wildcards rs \<Longrightarrow> rfind rs m path = Some (i, ps) \<Longrightarrow> plain_params (snd (rs ! i)) ps' \<Longrightarrow>
      expand ps' (snd (rs ! i)) = path \<Longrightarrow> n \<in> set (param_names (snd (rs ! i))) \<Longrightarrow> ps n = ps' n"
    and finds: "no_wildcards rs \<Longrightarrow> i < length rs \<Longrightarrow> fst (rs ! i) = m \<Longrightarrow> plain_params (snd (rs ! i)) ps' \<Longrightarrow>
      expand ps' (snd (rs ! i)) = path \<Longrightarrow> rfind rs m path \<noteq> None"

text \<open>Two patterns that no path is an instance of both.\<close>

definition literal_prefix :: "string \<Rightarrow> string" where
  "literal_prefix = takeWhile (\<lambda>c. c \<noteq> CHR '':'')"

definition disjoint_patterns :: "string \<Rightarrow> string \<Rightarrow> bool" where
  "disjoint_patterns p q \<longleftrightarrow>
     (if CHR '':'' \<in> set p
      then (if CHR '':'' \<in> set q
            then \<not> prefix (literal_prefix p) (literal_prefix q) \<and> \<not> prefix (literal_prefix q) (literal_prefix p)
            else \<not> prefix (literal_prefix p) q)
      else (if CHR '':'' \<in> set q then \<not> prefix (literal_prefix q) p else p \<noteq> q))"

lemma disjoint_patterns_sound: "disjoint_patterns p q \<Longrightarrow> expand ps p \<noteq> expand ps' q"
  using expand_prefix [of p ps] expand_prefix [of q ps'] expand_static [of p ps] expand_static [of q ps']
  by (auto simp: disjoint_patterns_def literal_prefix_def split: if_splits dest: prefix_same_cases)

definition unambiguous :: "(string \<times> string) list \<Rightarrow> bool" where
  "unambiguous rs \<longleftrightarrow>
     list_all (\<lambda>i. list_all (\<lambda>j. i = j \<or> fst (rs ! i) \<noteq> fst (rs ! j) \<or> disjoint_patterns (snd (rs ! i)) (snd (rs ! j)))
       [0..<length rs]) [0..<length rs]"

lemma unambiguousD:
  "unambiguous rs \<Longrightarrow> i < length rs \<Longrightarrow> j < length rs \<Longrightarrow> fst (rs ! i) = fst (rs ! j) \<Longrightarrow>
   expand ps (snd (rs ! i)) = expand ps' (snd (rs ! j)) \<Longrightarrow> i = j"
  using disjoint_patterns_sound [of "snd (rs ! i)" "snd (rs ! j)" ps ps'] by (fastforce simp: unambiguous_def list_all_iff)

context echo_router
begin

lemma finds_it:
  assumes "no_wildcards rs" "unambiguous rs" "i < length rs" "plain_params (snd (rs ! i)) ps"
  shows "\<exists>ps'. rfind rs (fst (rs ! i)) (expand ps (snd (rs ! i))) = Some (i, ps') \<and>
    (\<forall>n \<in> set (param_names (snd (rs ! i))). ps' n = ps n)"
proof -
  obtain j ps' where f: "rfind rs (fst (rs ! i)) (expand ps (snd (rs ! i))) = Some (j, ps')"
    using finds [OF assms(1,3) refl assms(4) refl] by auto
  from found [OF assms(1) f] have "j = i" using unambiguousD [OF assms(2), of j i] assms(3) by metis
  with f found_params [OF assms(1) f] assms(4) show ?thesis by metis
qed

lemma found_static: "no_wildcards rs \<Longrightarrow> rfind rs m path = Some (i, ps) \<Longrightarrow> CHR '':'' \<notin> set (snd (rs ! i)) \<Longrightarrow> rs ! i = (m, path)"
  using found [of rs m path i ps] expand_static [of "snd (rs ! i)"] by (metis prod.collapse)

end

section \<open>A router\<close>

text \<open>The first route of the list that fits, with non-empty parameters that stop at a slash.\<close>

function pmatch :: "string \<Rightarrow> string \<Rightarrow> (string \<times> string) list option" where
  "pmatch [] path = (if path = [] then Some [] else None)"
| "pmatch (c # cs) path =
     (if c = CHR '':''
      then (let v = takeWhile not_slash path
            in if v = [] then None
               else map_option (\<lambda>l. (takeWhile not_slash cs, v) # l) (pmatch (dropWhile not_slash cs) (dropWhile not_slash path)))
      else (case path of [] \<Rightarrow> None | d # ds \<Rightarrow> if c = d then pmatch cs ds else None))"
  by pat_completeness auto

termination pmatch
  by (relation "measure (\<lambda>(p, s). length p)") (auto simp: le_imp_less_Suc length_dropWhile_le)

definition param_fun :: "(string \<times> string) list \<Rightarrow> string \<Rightarrow> string" where
  "param_fun l n = (case map_of l n of None \<Rightarrow> '''' | Some v \<Rightarrow> v)"

definition fits :: "string \<Rightarrow> string \<Rightarrow> (string \<Rightarrow> string) option" where
  "fits pat path =
     (case pmatch pat path of
        None \<Rightarrow> None
      | Some l \<Rightarrow> if expand (param_fun l) pat = path then Some (param_fun l) else None)"

fun first_match_from :: "nat \<Rightarrow> router" where
  "first_match_from i [] m path = None"
| "first_match_from i ((m', pat) # rs) m path =
     (case (if m' = m then fits pat path else None) of
        Some ps \<Rightarrow> Some (i, ps)
      | None \<Rightarrow> first_match_from (Suc i) rs m path)"

definition first_match :: router where
  "first_match = first_match_from 0"

lemma after_name: "expand ps (dropWhile not_slash cs) = [] \<or> (\<exists>r. expand ps (dropWhile not_slash cs) = CHR ''/'' # r)"
  by (induction cs) auto

lemma upto_slash:
  assumes "\<And>x. x \<in> set v \<Longrightarrow> not_slash x" "rest = [] \<or> (\<exists>r. rest = CHR ''/'' # r)"
  shows "takeWhile not_slash (v @ rest) = v" "dropWhile not_slash (v @ rest) = rest"
  using assms by (auto simp: takeWhile_append2 dropWhile_append2)

declare expand.simps(2) [simp del] param_names.simps(2) [simp del] pmatch.simps(2) [simp del]

lemma pmatch_plain:
  "plain_params pat ps \<Longrightarrow> pmatch pat (expand ps pat) = Some (map (\<lambda>n. (n, ps n)) (param_names pat))"
proof (induction ps pat rule: expand.induct)
  case (2 ps c cs)
  show ?case
  proof (cases "c = CHR '':''")
    case True
    define n rest where "n = takeWhile not_slash cs" and "rest = dropWhile not_slash cs"
    have e: "expand ps (c # cs) = ps n @ expand ps rest" "param_names (c # cs) = n # param_names rest"
      using True by (simp_all add: expand.simps(2) param_names.simps(2) n_def rest_def)
    have v: "ps n \<noteq> []" "\<And>x. x \<in> set (ps n) \<Longrightarrow> not_slash x" and pr: "plain_params rest ps"
      using 2(3) unfolding plain_params_def e by (auto simp: plain_value_def list_all_iff)
    have "pmatch rest (expand ps rest) = Some (map (\<lambda>n. (n, ps n)) (param_names rest))"
      using 2(1) [OF True] pr unfolding rest_def by blast
    moreover have "takeWhile not_slash (ps n @ expand ps rest) = ps n" "dropWhile not_slash (ps n @ expand ps rest) = expand ps rest"
      using upto_slash v(2) after_name [of ps cs, folded rest_def] by blast+
    ultimately show ?thesis
      using v(1) True unfolding e pmatch.simps(2) by (simp add: Let_def flip: n_def rest_def)
  next
    case False
    then have e: "expand ps (c # cs) = c # expand ps cs" "param_names (c # cs) = param_names cs"
      by (simp_all add: expand.simps(2) param_names.simps(2))
    have "pmatch cs (expand ps cs) = Some (map (\<lambda>n. (n, ps n)) (param_names cs))"
      using 2(2) [OF False] 2(3) by (simp add: plain_params_def e)
    with False show ?thesis by (simp add: e pmatch.simps(2))
  qed
qed simp

lemma param_fun_map: "n \<in> set ns \<Longrightarrow> param_fun (map (\<lambda>n. (n, ps n)) ns) n = ps n"
  by (induction ns) (auto simp: param_fun_def)

lemma fits_plain:
  assumes "plain_params pat ps"
  shows "\<exists>ps'. fits pat (expand ps pat) = Some ps' \<and> (\<forall>n \<in> set (param_names pat). ps' n = ps n)"
proof -
  let ?p = "param_fun (map (\<lambda>n. (n, ps n)) (param_names pat))"
  have "expand ?p pat = expand ps pat" by (rule expand_cong) (rule param_fun_map)
  then have "fits pat (expand ps pat) = Some ?p" by (simp add: fits_def pmatch_plain [OF assms])
  then show ?thesis by (simp add: param_fun_map)
qed

lemma first_match_from_Some:
  "first_match_from k rs m path = Some (i, ps) \<Longrightarrow>
   k \<le> i \<and> i - k < length rs \<and> fst (rs ! (i - k)) = m \<and> fits (snd (rs ! (i - k))) path = Some ps"
proof (induction k rs m path rule: first_match_from.induct)
  case (2 k m' pat rs m path)
  show ?case
  proof (cases "(if m' = m then fits pat path else None) = None")
    case True
    then have "Suc k \<le> i \<and> i - Suc k < length rs \<and> fst (rs ! (i - Suc k)) = m \<and> fits (snd (rs ! (i - Suc k))) path = Some ps"
      using 2 by simp
    moreover from this have "i - k = Suc (i - Suc k)" by linarith
    ultimately show ?thesis by simp
  next
    case False
    with "2.prems" show ?thesis by (auto split: if_splits)
  qed
qed simp

lemma first_match_from_None:
  "first_match_from k rs m path = None \<Longrightarrow> i < length rs \<Longrightarrow> fst (rs ! i) = m \<Longrightarrow> fits (snd (rs ! i)) path = None"
proof (induction k rs m path arbitrary: i rule: first_match_from.induct)
  case (2 k m' pat rs m path)
  then show ?case by (cases i) (auto split: if_splits option.splits)
qed simp

lemma fits_expand: "fits pat path = Some ps \<Longrightarrow> expand ps pat = path"
  by (auto simp: fits_def split: option.splits if_splits)

interpretation fm: echo_router first_match
proof
  fix rs :: "(string \<times> string) list" and m path :: string and i and ps ps' :: "string \<Rightarrow> string" and n :: string
  {
    assume "first_match rs m path = Some (i, ps)"
    then have f: "i < length rs \<and> fst (rs ! i) = m \<and> fits (snd (rs ! i)) path = Some ps"
      using first_match_from_Some [of 0 rs m path i ps] by (simp add: first_match_def)
    then show "i < length rs \<and> fst (rs ! i) = m \<and> (\<exists>ps'. expand ps' (snd (rs ! i)) = path)" using fits_expand by blast
    assume "plain_params (snd (rs ! i)) ps'" "expand ps' (snd (rs ! i)) = path" "n \<in> set (param_names (snd (rs ! i)))"
    with fits_plain [of "snd (rs ! i)" ps'] f show "ps n = ps' n" by auto
  }
  assume "i < length rs" "fst (rs ! i) = m" "plain_params (snd (rs ! i)) ps'" "expand ps' (snd (rs ! i)) = path"
  with fits_plain [of "snd (rs ! i)" ps'] first_match_from_None [of 0 rs m path i]
  show "first_match rs m path \<noteq> None" unfolding first_match_def by (metis option.distinct(1))
qed

section \<open>The tables\<close>

datatype guard = JWTMiddleware | WSTicket | APIKey | GatewayAuth | BodyLimit

record 'h route =
  rt_method :: string
  rt_path :: string
  rt_guards :: "guard list"
  rt_handler :: 'h

definition on :: "string \<Rightarrow> string \<Rightarrow> guard list \<Rightarrow> 'h \<Rightarrow> 'h route" where
  "on m p gs h = \<lparr>rt_method = m, rt_path = p, rt_guards = gs, rt_handler = h\<rparr>"

definition keys :: "'h route list \<Rightarrow> (string \<times> string) list" where
  "keys rs = map (\<lambda>r. (rt_method r, rt_path r)) rs"

lemma keys_nth [simp]: "i < length rs \<Longrightarrow> keys rs ! i = (rt_method (rs ! i), rt_path (rs ! i))" "length (keys rs) = length rs"
  by (simp_all add: keys_def)

lemma on_sel [simp]: "rt_method (on m p gs h) = m" "rt_path (on m p gs h) = p" "rt_guards (on m p gs h) = gs" "rt_handler (on m p gs h) = h"
  by (simp_all add: on_def)

datatype gateway_handler =
    GHealth | GRegister | GLogin | GMe | GTicketIssue | GHealthBackends | GChatHistory | GChatWS | GPresence
  | GNotification | GMediaUpload | GMediaEdge | GEdgeStats

definition gateway_routes :: "gateway_handler route list" where
  "gateway_routes =
     [on ''GET'' ''/health'' [] GHealth,
      on ''POST'' ''/register'' [] GRegister,
      on ''POST'' ''/login'' [] GLogin,
      on ''GET'' ''/me'' [JWTMiddleware] GMe,
      on ''POST'' ''/ws-ticket'' [JWTMiddleware] GTicketIssue,
      on ''GET'' ''/health/backends'' [JWTMiddleware] GHealthBackends,
      on ''GET'' ''/rooms/:room/messages'' [JWTMiddleware] GChatHistory,
      on ''GET'' ''/ws'' [WSTicket] GChatWS,
      on ''GET'' ''/rooms'' [JWTMiddleware] GPresence,
      on ''GET'' ''/presence/:room'' [JWTMiddleware] GPresence,
      on ''PUT'' ''/webhook'' [JWTMiddleware] GNotification,
      on ''GET'' ''/webhook'' [JWTMiddleware] GNotification,
      on ''DELETE'' ''/webhook'' [JWTMiddleware] GNotification,
      on ''POST'' ''/subscriptions'' [JWTMiddleware] GNotification,
      on ''GET'' ''/subscriptions'' [JWTMiddleware] GNotification,
      on ''DELETE'' ''/subscriptions/:room'' [JWTMiddleware] GNotification,
      on ''GET'' ''/deliveries'' [JWTMiddleware] GNotification,
      on ''POST'' ''/media'' [JWTMiddleware] GMediaUpload,
      on ''GET'' ''/media/:hash'' [] GMediaEdge,
      on ''GET'' ''/health/edge-cache'' [JWTMiddleware] GEdgeStats]"

datatype chat_handler = CHealth | CListRooms | CListByRoom | CServe

definition chat_routes :: "chat_handler route list" where
  "chat_routes =
     [on ''GET'' ''/health'' [] CHealth,
      on ''GET'' ''/rooms'' [JWTMiddleware] CListRooms,
      on ''GET'' ''/rooms/:room/messages'' [JWTMiddleware] CListByRoom,
      on ''GET'' ''/ws'' [] CServe]"

datatype presence_handler = PHealth | PRecordEvent | PHeartbeat | PGetRoom | PListRooms

definition presence_routes :: "presence_handler route list" where
  "presence_routes =
     [on ''GET'' ''/health'' [] PHealth,
      on ''POST'' ''/events'' [APIKey] PRecordEvent,
      on ''POST'' ''/heartbeat'' [APIKey] PHeartbeat,
      on ''GET'' ''/internal/presence/:room'' [APIKey] PGetRoom,
      on ''GET'' ''/presence/:room'' [JWTMiddleware] PGetRoom,
      on ''GET'' ''/rooms'' [JWTMiddleware] PListRooms]"

datatype notification_handler =
  NHealth | NMessage | NPutWebhook | NGetWebhook | NDeleteWebhook | NSubscribe | NListSubscriptions | NUnsubscribe | NListDeliveries

definition notification_routes :: "notification_handler route list" where
  "notification_routes =
     [on ''GET'' ''/health'' [] NHealth,
      on ''POST'' ''/events/message'' [APIKey] NMessage,
      on ''PUT'' ''/webhook'' [GatewayAuth] NPutWebhook,
      on ''GET'' ''/webhook'' [GatewayAuth] NGetWebhook,
      on ''DELETE'' ''/webhook'' [GatewayAuth] NDeleteWebhook,
      on ''POST'' ''/subscriptions'' [GatewayAuth] NSubscribe,
      on ''GET'' ''/subscriptions'' [GatewayAuth] NListSubscriptions,
      on ''DELETE'' ''/subscriptions/:room'' [GatewayAuth] NUnsubscribe,
      on ''GET'' ''/deliveries'' [GatewayAuth] NListDeliveries]"

datatype media_handler = MHealth | MGet | MUpload

definition media_routes :: "media_handler route list" where
  "media_routes =
     [on ''GET'' ''/health'' [] MHealth,
      on ''GET'' ''/media/:hash'' [] MGet,
      on ''POST'' ''/media'' [GatewayAuth, BodyLimit] MUpload]"

lemma tables_no_wildcards [simp]:
  "no_wildcards (keys gateway_routes)" "no_wildcards (keys chat_routes)" "no_wildcards (keys presence_routes)"
  "no_wildcards (keys notification_routes)" "no_wildcards (keys media_routes)"
  by code_simp+

lemma tables_unambiguous [simp]:
  "unambiguous (keys gateway_routes)" "unambiguous (keys chat_routes)" "unambiguous (keys presence_routes)"
  "unambiguous (keys notification_routes)" "unambiguous (keys media_routes)"
  by code_simp+

section \<open>Public and guarded gateway routes\<close>

definition public_handlers :: "gateway_handler list" where
  "public_handlers = [GHealth, GRegister, GLogin, GMediaEdge]"

lemma public_or_guarded:
  "list_all (\<lambda>r. if rt_handler r = GChatWS then rt_guards r = [WSTicket]
     else if rt_handler r \<in> set public_handlers then rt_guards r = [] else rt_guards r = [JWTMiddleware]) gateway_routes"
  by code_simp

section \<open>Serving a request\<close>

text \<open>The bodies a process answers with: its handlers' values, and \<^verbatim>\<open>{"status": s}\<close> of \<^verbatim>\<open>/health\<close>.\<close>

datatype 'v served_json = Status string | Served 'v

definition lift_response :: "('a \<Rightarrow> 'b) \<Rightarrow> 'a response \<Rightarrow> 'b response" where
  "lift_response f r = \<lparr>resp_status = resp_status r, resp_header = resp_header r, resp_body = map_body f (resp_body r)\<rparr>"

lemma lift_response_sel [simp]:
  "resp_status (lift_response f r) = resp_status r" "resp_header (lift_response f r) = resp_header r"
  "resp_body (lift_response f r) = map_body f (resp_body r)"
  by (simp_all add: lift_response_def)

text \<open>
  What echo does with a request once the global middlewares have run: find the route, run its middlewares
  in order until one refuses, then the handler.  \<open>refuse\<close> builds the answer of a refusing middleware,
  \<open>unrouted\<close> the one for a path or method without a route.
\<close>

primrec run_guards ::
  "(guard \<Rightarrow> echo_context \<Rightarrow> 's \<Rightarrow> 's \<times> (reject + echo_context)) \<Rightarrow> guard list \<Rightarrow> echo_context \<Rightarrow> 's \<Rightarrow>
   's \<times> (echo_context \<times> reject + echo_context)" where
  "run_guards guard [] cx s = (s, Inr cx)"
| "run_guards guard (x # xs) cx s =
     (case guard x cx s of
        (s', Inl rej) \<Rightarrow> (s', Inl (cx, rej))
      | (s', Inr cx') \<Rightarrow> run_guards guard xs cx' s')"

definition serve_routes ::
  "router \<Rightarrow> 'h route list \<Rightarrow> (guard \<Rightarrow> echo_context \<Rightarrow> 's \<Rightarrow> 's \<times> (reject + echo_context)) \<Rightarrow>
   ('h \<Rightarrow> echo_context \<Rightarrow> 's \<Rightarrow> 's \<times> 'o) \<Rightarrow> (echo_context \<Rightarrow> reject \<Rightarrow> 'o) \<Rightarrow> (echo_context \<Rightarrow> 'o) \<Rightarrow>
   echo_context \<Rightarrow> 's \<Rightarrow> 's \<times> 'o" where
  "serve_routes rfind table guard handle refuse unrouted cx s =
     (case rfind (keys table) (req_method (cx_req cx)) (req_path (cx_req cx)) of
        None \<Rightarrow> (s, unrouted cx)
      | Some (i, ps) \<Rightarrow>
          (case run_guards guard (rt_guards (table ! i)) (cx\<lparr>cx_param := ps\<rparr>) s of
             (s', Inl (cx', rej)) \<Rightarrow> (s', refuse cx' rej)
           | (s', Inr cx') \<Rightarrow> handle (rt_handler (table ! i)) cx' s'))"

definition routed :: "router \<Rightarrow> 'h route list \<Rightarrow> request \<Rightarrow> 'h route \<Rightarrow> (string \<Rightarrow> string) \<Rightarrow> bool" where
  "routed rfind table r rt ps \<longleftrightarrow>
     (\<exists>i < length table. rt = table ! i \<and> rfind (keys table) (req_method r) (req_path r) = Some (i, ps))"

lemma routed_mem: "routed rfind table r rt ps \<Longrightarrow> rt \<in> set table"
  by (auto simp: routed_def)

lemma serve_routed:
  assumes "routed rfind table (cx_req cx) rt ps"
  shows "serve_routes rfind table guard handle refuse unrouted cx s =
    (case run_guards guard (rt_guards rt) (cx\<lparr>cx_param := ps\<rparr>) s of
       (s', Inl (cx', rej)) \<Rightarrow> (s', refuse cx' rej)
     | (s', Inr cx') \<Rightarrow> handle (rt_handler rt) cx' s')"
  using assms by (auto simp: routed_def serve_routes_def)

context echo_router
begin

lemma routed_some:
  assumes "no_wildcards (keys table)" "rfind (keys table) (req_method r) (req_path r) \<noteq> None"
  shows "\<exists>rt ps. routed rfind table r rt ps"
proof -
  obtain i ps where f: "rfind (keys table) (req_method r) (req_path r) = Some (i, ps)" using assms(2) by auto
  with found [OF assms(1) f] show ?thesis by (auto simp: routed_def)
qed

lemma routed_matches:
  "no_wildcards (keys table) \<Longrightarrow> routed rfind table r rt ps \<Longrightarrow>
   rt \<in> set table \<and> rt_method rt = req_method r \<and> (\<exists>ps'. expand ps' (rt_path rt) = req_path r)"
  using found [of "keys table"] by (fastforce simp: routed_def)

text \<open>A request that is an instance of a route's pattern with plain parameters is served by that route.\<close>

lemma routed_to:
  assumes "no_wildcards (keys table)" "unambiguous (keys table)" "rt \<in> set table" "plain_params (rt_path rt) ps"
    "req_method r = rt_method rt" "req_path r = expand ps (rt_path rt)"
  shows "\<exists>ps'. routed rfind table r rt ps' \<and> (\<forall>n \<in> set (param_names (rt_path rt)). ps' n = ps n)"
proof -
  obtain i where "i < length table" "rt = table ! i" using assms(3) by (auto simp: in_set_conv_nth)
  with finds_it [OF assms(1,2), of i ps] assms(4-6) show ?thesis by (fastforce simp: routed_def)
qed

lemma routed_static:
  assumes "no_wildcards (keys table)" "unambiguous (keys table)" "rt \<in> set table" "CHR '':'' \<notin> set (rt_path rt)"
    "req_method r = rt_method rt" "req_path r = rt_path rt"
  shows "\<exists>ps. routed rfind table r rt ps"
  using routed_to [OF assms(1-3) _ assms(5), of id] assms(4,6) by (auto simp: plain_params_def param_names_static expand_static)

end

text \<open>A request two tables both know lands on the same pattern in both.\<close>

lemma same_route:
  assumes "echo_router rfind" "echo_router rfind'" "no_wildcards (keys T)" "no_wildcards (keys T')" "unambiguous (keys T')"
    and "routed rfind T r rt ps" "routed rfind' T' r' rt' ps'" "req_method r' = req_method r" "req_path r' = req_path r"
    and "x \<in> set T'" "rt_method x = rt_method rt" "rt_path x = rt_path rt"
  shows "rt' = x"
proof -
  obtain q q' where m: "rt_method rt = req_method r" "expand q (rt_path rt) = req_path r"
      "rt_method rt' = req_method r'" "expand q' (rt_path rt') = req_path r'"
    using echo_router.routed_matches [OF assms(1,3,6)] echo_router.routed_matches [OF assms(2,4,7)] by blast
  obtain i j where ij: "i < length T'" "rt' = T' ! i" "j < length T'" "x = T' ! j"
    using assms(7,10) by (auto simp: routed_def in_set_conv_nth)
  have "i = j"
    by (rule unambiguousD [OF assms(5), where ps = q' and ps' = q]) (use ij m assms(8-12) in simp_all)
  with ij show ?thesis by simp
qed

text \<open>A request as the next process gets it: nothing established about it yet.\<close>

definition incoming :: "request \<Rightarrow> echo_context" where
  "incoming r = \<lparr>cx_req = r, cx_param = (\<lambda>_. ''''), cx_resp = no_headers, cx_request_id = '''', cx_user_id = None, cx_role = ''''\<rparr>"

lemma incoming_req [simp]: "cx_req (incoming r) = r"
  by (simp add: incoming_def)

end
