(* ===== verification/LoadBalancer.thy ===== *)
theory LoadBalancer
  imports GoStrings
begin

text \<open>
  \<^verbatim>\<open>gateway/internal/loadbalancer\<close>: the pool of chat-service instances with its health
  checks, the round-robin strategy and the \<^verbatim>\<open>Strategy\<close> interface.  A \<^verbatim>\<open>*Backend\<close> pointer
  is its index in the pool's slice, so that a strategy that holds backends observes the
  health flag the checker last stored.  \<^verbatim>\<open>url.Parse\<close> and the health request are
  parameters: \<open>parse\<close> gives the \<^verbatim>\<open>Host\<close> of a URL or an error, \<open>do\<close> the status code
  of \<^verbatim>\<open>GET /health\<close> or a transport error.
\<close>

section \<open>backend.go and pool.go\<close>

record Backend =
  be_Host :: string
  be_healthy :: bool

record Pool =
  backends :: "Backend list"

datatype pool_error =
    NoURLs
  | InvalidURL string goerror
  | MissingHost string
  | DuplicateURL string

definition NewBackend :: "(string \<Rightarrow> string result) \<Rightarrow> string \<Rightarrow> Backend result" where
  "NewBackend parse rawURL =
     (case parse rawURL of
        Inl err \<Rightarrow> Inl err
      | Inr host \<Rightarrow> Inr \<lparr>be_Host = host, be_healthy = True\<rparr>)"

definition setHealthy :: "Backend \<Rightarrow> bool \<Rightarrow> Backend \<times> bool" where
  "setHealthy b h = (b\<lparr>be_healthy := h\<rparr>, be_healthy b \<noteq> h)"

fun NewPool_loop ::
  "(string \<Rightarrow> string result) \<Rightarrow> string list \<Rightarrow> string set \<Rightarrow> Backend list \<Rightarrow> pool_error + Backend list" where
  "NewPool_loop parse [] seen bs = Inr bs"
| "NewPool_loop parse (rawURL # rest) seen bs =
     (case NewBackend parse rawURL of
        Inl err \<Rightarrow> Inl (InvalidURL rawURL err)
      | Inr b \<Rightarrow>
          if be_Host b = '''' then Inl (MissingHost rawURL)
          else if be_Host b \<in> seen then Inl (DuplicateURL rawURL)
          else NewPool_loop parse rest (insert (be_Host b) seen) (bs @ [b]))"

definition NewPool :: "(string \<Rightarrow> string result) \<Rightarrow> string list \<Rightarrow> pool_error + Pool" where
  "NewPool parse rawURLs =
     (if length rawURLs = 0 then Inl NoURLs
      else case NewPool_loop parse rawURLs {} [] of
             Inl e \<Rightarrow> Inl e
           | Inr bs \<Rightarrow> Inr \<lparr>backends = bs\<rparr>)"

text \<open>\<^verbatim>\<open>Pool.Healthy\<close>: the backends passing their check, in configuration order.\<close>

definition Pool_Healthy :: "Pool \<Rightarrow> nat list" where
  "Pool_Healthy p = filter (\<lambda>i. be_healthy (backends p ! i)) [0..<length (backends p)]"

definition probe :: "(Backend \<Rightarrow> nat result) \<Rightarrow> Backend \<Rightarrow> bool \<times> string" where
  "probe do b =
     (case do b of
        Inl (Errorf m) \<Rightarrow> (False, m)
      | Inl (Validation m) \<Rightarrow> (False, m)
      | Inl (External m) \<Rightarrow> (False, m)
      | Inr status \<Rightarrow> if status \<noteq> 200 then (False, ''status='' @ FormatInt (int status)) else (True, ''''))"

text \<open>
  \<^verbatim>\<open>Pool.check\<close> for one backend; \<^verbatim>\<open>Pool.Check\<close> runs it for every backend, one goroutine
  each, so the order in which the flags are stored is the scheduler's: \<open>Check_in\<close> takes
  that order as an argument.
\<close>

definition Pool_check :: "(Backend \<Rightarrow> nat result) \<Rightarrow> nat \<Rightarrow> Pool \<Rightarrow> Pool" where
  "Pool_check do i p =
     (let b = backends p ! i; (h, reason) = probe do b
      in p\<lparr>backends := (backends p)[i := fst (setHealthy b h)]\<rparr>)"

definition Check_in :: "nat list \<Rightarrow> (Backend \<Rightarrow> nat result) \<Rightarrow> Pool \<Rightarrow> Pool" where
  "Check_in order do p = fold (Pool_check do) order p"

definition Pool_Check :: "(Backend \<Rightarrow> nat result) \<Rightarrow> Pool \<Rightarrow> Pool" where
  "Pool_Check do p = Check_in [0..<length (backends p)] do p"

text \<open>
  \<^verbatim>\<open>Pool.Start\<close>: one synchronous sweep, then a loop that sweeps at each tick until
  \<^verbatim>\<open>Close\<close> closes the stop channel.
\<close>

datatype health_event = TickerC "Backend \<Rightarrow> nat result" | StopClosed

fun health_loop :: "health_event list \<Rightarrow> Pool \<Rightarrow> Pool" where
  "health_loop [] p = p"
| "health_loop (StopClosed # es) p = p"
| "health_loop (TickerC do # es) p = health_loop es (Pool_Check do p)"

definition Pool_Start :: "(Backend \<Rightarrow> nat result) \<Rightarrow> health_event list \<Rightarrow> Pool \<Rightarrow> Pool" where
  "Pool_Start do events p = health_loop events (Pool_Check do p)"

section \<open>strategy.go and round\_robin.go\<close>

text \<open>
  What a strategy's \<^verbatim>\<open>Pick\<close> can answer besides a backend.  \<open>IndexPanic\<close> is the
  out-of-range panic of Go's slice indexing, a value here so that its absence can be
  stated.
\<close>

datatype lberror = ErrNoHealthyBackend | ErrBackendDown string nat | IndexPanic

record RoundRobin =
  rr_next :: uint64

definition RoundRobin_Pick :: "RoundRobin \<Rightarrow> Pool \<Rightarrow> request \<Rightarrow> RoundRobin \<times> (lberror + nat)" where
  "RoundRobin_Pick s p r =
     (let healthy = Pool_Healthy p
      in if length healthy = 0 then (s, Inl ErrNoHealthyBackend)
         else (let next' = rr_next s + 1;
                   index = (next' - 1) mod of_nat (length healthy)
               in (s\<lparr>rr_next := next'\<rparr>,
                   if unat index < length healthy then Inr (healthy ! unat index) else Inl IndexPanic)))"

text \<open>A run of \<open>n\<close> consecutive picks while no health flag changes.\<close>

fun RoundRobin_picks :: "nat \<Rightarrow> RoundRobin \<Rightarrow> Pool \<Rightarrow> request \<Rightarrow> RoundRobin \<times> (lberror + nat) list" where
  "RoundRobin_picks 0 s p r = (s, [])"
| "RoundRobin_picks (Suc n) s p r =
     (let (s1, x) = RoundRobin_Pick s p r; (s2, xs) = RoundRobin_picks n s1 p r in (s2, x # xs))"

section \<open>The Strategy interface\<close>

text \<open>
  The contract \<^verbatim>\<open>NewBalancedProxy\<close> relies on.  \<open>inv s p\<close> says that the strategy was
  built over the pool it is asked about.  It is kept by a pick and by every change of
  health (membership never changes), and under it a pick answers a healthy member of the
  pool or an error, never a panic.
\<close>

locale Strategy =
  fixes Pick :: "'s \<Rightarrow> Pool \<Rightarrow> request \<Rightarrow> 's \<times> (lberror + nat)"
    and inv :: "'s \<Rightarrow> Pool \<Rightarrow> bool"
  assumes Pick_inv: "inv s p \<Longrightarrow> Pick s p r = (s', res) \<Longrightarrow> inv s' p"
    and health_inv: "inv s p \<Longrightarrow> map be_Host (backends p') = map be_Host (backends p) \<Longrightarrow> inv s p'"
    and Pick_healthy: "inv s p \<Longrightarrow> Pick s p r = (s', Inr i) \<Longrightarrow>
          i < length (backends p) \<and> be_healthy (backends p ! i)"
    and Pick_no_panic: "inv s p \<Longrightarrow> snd (Pick s p r) \<noteq> Inl IndexPanic"
begin

lemma Pick_cases:
  assumes "inv s p"
  obtains (ok) i where "snd (Pick s p r) = Inr i" "i < length (backends p)" "be_healthy (backends p ! i)"
    | (none) "snd (Pick s p r) = Inl ErrNoHealthyBackend"
    | (down) k i where "snd (Pick s p r) = Inl (ErrBackendDown k i)"
proof (cases "snd (Pick s p r)")
  case (Inl e)
  with Pick_no_panic [OF assms] none down show thesis by (cases e) auto
next
  case (Inr i)
  with Pick_healthy [OF assms, of r "fst (Pick s p r)" i] ok show thesis
    by (metis prod.collapse)
qed

end

section \<open>Construction of the pool\<close>

lemma NewPool_loop_ok:
  "NewPool_loop parse urls seen bs = Inr bs' \<Longrightarrow>
   \<exists>new. bs' = bs @ new \<and> map (\<lambda>u. parse u) urls = map (\<lambda>b. Inr (be_Host b)) new \<and>
     distinct (map be_Host new) \<and> (\<forall>b \<in> set new. be_Host b \<notin> seen \<and> be_Host b \<noteq> '''' \<and> be_healthy b)"
proof (induction urls arbitrary: seen bs)
  case Nil
  then show ?case by simp
next
  case (Cons u urls)
  from Cons.prems obtain b where
    b: "NewBackend parse u = Inr b" "be_Host b \<noteq> ''''" "be_Host b \<notin> seen"
      "NewPool_loop parse urls (insert (be_Host b) seen) (bs @ [b]) = Inr bs'"
    by (auto split: sum.splits if_splits)
  from Cons.IH [OF b(4)] obtain new where
    new: "bs' = (bs @ [b]) @ new" "map (\<lambda>u. parse u) urls = map (\<lambda>b. Inr (be_Host b)) new"
      "distinct (map be_Host new)"
      "\<forall>x \<in> set new. be_Host x \<notin> insert (be_Host b) seen \<and> be_Host x \<noteq> '''' \<and> be_healthy x"
    by blast
  from b(1) have p: "parse u = Inr (be_Host b)" "be_healthy b"
    by (auto simp: NewBackend_def split: sum.splits)
  show ?case
    by (rule exI [of _ "b # new"]) (use new b p in auto)
qed

lemma NewPool_ok:
  assumes "NewPool parse urls = Inr p"
  shows "backends p \<noteq> []"
    and "map (\<lambda>u. parse u) urls = map (\<lambda>b. Inr (be_Host b)) (backends p)"
    and "distinct (map be_Host (backends p))"
    and "\<forall>b \<in> set (backends p). be_Host b \<noteq> '''' \<and> be_healthy b"
proof -
  from assms have ne: "urls \<noteq> []" and loop: "NewPool_loop parse urls {} [] = Inr (backends p)"
    by (auto simp: NewPool_def split: if_splits sum.splits)
  from NewPool_loop_ok [OF loop] show
    m: "map (\<lambda>u. parse u) urls = map (\<lambda>b. Inr (be_Host b)) (backends p)" and
    "distinct (map be_Host (backends p))" and
    "\<forall>b \<in> set (backends p). be_Host b \<noteq> '''' \<and> be_healthy b"
    by auto
  from m ne show "backends p \<noteq> []" by auto
qed

section \<open>Health checks\<close>

definition checked :: "(Backend \<Rightarrow> nat result) \<Rightarrow> Backend \<Rightarrow> Backend" where
  "checked do b = b\<lparr>be_healthy := fst (probe do b)\<rparr>"

lemma Pool_check_alt: "Pool_check do i p = p\<lparr>backends := (backends p)[i := checked do (backends p ! i)]\<rparr>"
  by (simp add: Pool_check_def Let_def setHealthy_def checked_def split: prod.split)

lemma length_Pool_check [simp]: "length (backends (Pool_check do i p)) = length (backends p)"
  by (simp add: Pool_check_alt)

lemma length_Check_in [simp]: "length (backends (Check_in order do p)) = length (backends p)"
  by (induction order arbitrary: p) (auto simp: Check_in_def)

lemma Check_in_nth:
  "j < length (backends p) \<Longrightarrow> distinct order \<Longrightarrow>
   backends (Check_in order do p) ! j =
     (if j \<in> set order then checked do (backends p ! j) else backends p ! j)"
proof (induction order arbitrary: p)
  case Nil
  then show ?case by (simp add: Check_in_def)
next
  case (Cons i order)
  have step: "Check_in (i # order) do p = Check_in order do (Pool_check do i p)"
    by (simp add: Check_in_def)
  have len: "j < length (backends (Pool_check do i p))" and d: "distinct order"
    using Cons.prems by simp_all
  have "backends (Pool_check do i p) ! j = (if j = i then checked do (backends p ! j) else backends p ! j)"
    using Cons.prems by (simp add: Pool_check_alt nth_list_update)
  then show ?case
    using Cons.prems by (simp only: step Cons.IH [OF len d]) auto
qed

lemma Check_in_eq:
  assumes "distinct order" "set order = {..<length (backends p)}"
  shows "Check_in order do p = p\<lparr>backends := map (checked do) (backends p)\<rparr>"
proof -
  have "backends (Check_in order do p) = map (checked do) (backends p)"
    using assms by (intro nth_equalityI) (auto simp: Check_in_nth)
  then show ?thesis by (cases "Check_in order do p"; cases p) simp
qed

lemma Pool_Check_eq: "Pool_Check do p = p\<lparr>backends := map (checked do) (backends p)\<rparr>"
  unfolding Pool_Check_def by (rule Check_in_eq) (auto simp: atLeast0LessThan)

lemma be_Host_checked [simp]: "be_Host (checked do b) = be_Host b"
  by (simp add: checked_def)

lemma hosts_Pool_Check [simp]: "map be_Host (backends (Pool_Check do p)) = map be_Host (backends p)"
  by (simp add: Pool_Check_eq comp_def)

lemma hosts_health_loop [simp]: "map be_Host (backends (health_loop es p)) = map be_Host (backends p)"
  by (induction es p rule: health_loop.induct) simp_all

lemma probe_healthy_iff: "fst (probe do b) \<longleftrightarrow> do b = Inr 200"
  by (auto simp: probe_def split: sum.splits goerror.splits)

section \<open>Round robin\<close>

lemma Pool_Healthy_nth:
  "i \<in> set (Pool_Healthy p) \<longleftrightarrow> i < length (backends p) \<and> be_healthy (backends p ! i)"
  by (auto simp: Pool_Healthy_def)

lemma distinct_Pool_Healthy [simp]: "distinct (Pool_Healthy p)"
  by (simp add: Pool_Healthy_def)

lemma RoundRobin_Pick_ok:
  assumes ne: "Pool_Healthy p \<noteq> []" and small: "length (Pool_Healthy p) < 2 ^ 64"
  shows "RoundRobin_Pick s p r =
    (s\<lparr>rr_next := rr_next s + 1\<rparr>,
     Inr (Pool_Healthy p ! (unat (rr_next s) mod length (Pool_Healthy p))))"
proof -
  have "unat ((rr_next s) mod of_nat (length (Pool_Healthy p))) =
      unat (rr_next s) mod length (Pool_Healthy p)"
    using small by (simp add: unat_mod unat_of_nat take_bit_nat_eq_self)
  then show ?thesis
    using ne by (simp add: RoundRobin_Pick_def Let_def)
qed

lemma unat_plus_one: "Suc (unat (c :: uint64)) < 2 ^ 64 \<Longrightarrow> unat (c + 1) = Suc (unat c)"
  by (simp add: unat_word_ariths)

lemma RoundRobin_picks_eq:
  assumes ne: "Pool_Healthy p \<noteq> []" and small: "length (Pool_Healthy p) < 2 ^ 64"
  shows "unat (rr_next s) + n \<le> 2 ^ 64 \<Longrightarrow>
    snd (RoundRobin_picks n s p r) =
      map (\<lambda>j. Inr (Pool_Healthy p ! ((unat (rr_next s) + j) mod length (Pool_Healthy p)))) [0..<n]"
proof (induction n arbitrary: s)
  case 0
  then show ?case by simp
next
  case (Suc n)
  let ?s1 = "s\<lparr>rr_next := rr_next s + 1\<rparr>"
  have tail: "snd (RoundRobin_picks n ?s1 p r) =
      map (\<lambda>j. Inr (Pool_Healthy p ! ((unat (rr_next s) + Suc j) mod length (Pool_Healthy p)))) [0..<n]"
  proof (cases n)
    case 0
    then show ?thesis by simp
  next
    case (Suc m)
    with \<open>unat (rr_next s) + Suc n \<le> 2 ^ 64\<close> have "Suc (unat (rr_next s)) < 2 ^ 64" by simp
    then have u: "unat (rr_next ?s1) = Suc (unat (rr_next s))" by (simp add: unat_plus_one)
    with Suc.IH [of ?s1] \<open>unat (rr_next s) + Suc n \<le> 2 ^ 64\<close> show ?thesis by simp
  qed
  have "snd (RoundRobin_picks (Suc n) s p r) =
      Inr (Pool_Healthy p ! (unat (rr_next s) mod length (Pool_Healthy p))) # snd (RoundRobin_picks n ?s1 p r)"
    by (simp add: RoundRobin_Pick_ok [OF ne small] Let_def split: prod.split)
  also have "\<dots> = map (\<lambda>j. Inr (Pool_Healthy p ! ((unat (rr_next s) + j) mod length (Pool_Healthy p)))) (0 # map Suc [0..<n])"
    by (simp add: tail)
  finally show ?case by (simp only: upt_conv_Cons map_Suc_upt zero_less_Suc)
qed

interpretation rr: Strategy RoundRobin_Pick "\<lambda>s p. length (backends p) < 2 ^ 64"
proof
  fix s s' :: RoundRobin and p p' :: Pool and r :: request and res i
  assume inv: "length (backends p) < 2 ^ 64"
  have le: "length (Pool_Healthy p) < 2 ^ 64"
    using inv length_filter_le [of "\<lambda>i. be_healthy (backends p ! i)" "[0..<length (backends p)]"]
    by (simp add: Pool_Healthy_def)
  show "length (backends p) < 2 ^ 64" by (rule inv)
  show "length (backends p') < 2 ^ 64" if "map be_Host (backends p') = map be_Host (backends p)"
    using inv that by (metis length_map)
  show "i < length (backends p) \<and> be_healthy (backends p ! i)"
    if P: "RoundRobin_Pick s p r = (s', Inr i)"
  proof -
    have ne: "Pool_Healthy p \<noteq> []" using P by (auto simp: RoundRobin_Pick_def Let_def split: if_splits)
    then have "i = Pool_Healthy p ! (unat (rr_next s) mod length (Pool_Healthy p))"
      using P RoundRobin_Pick_ok [OF ne le, of s r] by simp
    then have "i \<in> set (Pool_Healthy p)" using ne by simp
    then show ?thesis by (simp add: Pool_Healthy_nth)
  qed
  show "snd (RoundRobin_Pick s p r) \<noteq> Inl IndexPanic"
  proof (cases "Pool_Healthy p = []")
    case True
    then show ?thesis by (simp add: RoundRobin_Pick_def)
  next
    case False
    then show ?thesis by (simp add: RoundRobin_Pick_ok [OF _ le])
  qed
qed

section \<open>Properties\<close>

text \<open>
  Round robin is fair over the healthy instances.  While health does not change and
  the 64-bit counter does not wrap, one round of picks (as many as there are healthy
  instances) answers each healthy instance exactly once: it is the healthy list rotated
  by the counter.
\<close>

theorem round_robin_round:
  assumes "Pool_Healthy p \<noteq> []" "unat (rr_next s) + length (Pool_Healthy p) \<le> 2 ^ 64"
    and "length (backends p) < 2 ^ 64"
  shows "snd (RoundRobin_picks (length (Pool_Healthy p)) s p r) =
    map Inr (rotate (unat (rr_next s)) (Pool_Healthy p))"
proof -
  have small: "length (Pool_Healthy p) < 2 ^ 64"
    using assms(3) length_filter_le [of "\<lambda>i. be_healthy (backends p ! i)" "[0..<length (backends p)]"]
    by (simp add: Pool_Healthy_def)
  show ?thesis
    unfolding RoundRobin_picks_eq [OF assms(1) small assms(2)]
    by (rule nth_equalityI) (simp_all add: nth_rotate)
qed

theorem round_robin_round_witness:
  "snd (RoundRobin_picks 2 \<lparr>rr_next = 3\<rparr>
      \<lparr>backends = [\<lparr>be_Host = ''a'', be_healthy = True\<rparr>, \<lparr>be_Host = ''b'', be_healthy = False\<rparr>,
                   \<lparr>be_Host = ''c'', be_healthy = True\<rparr>]\<rparr>
      \<lparr>req_method = ''GET'', req_path = ''/rooms'', req_query = (\<lambda>_. []), req_header = no_headers\<rparr>)
   = [Inr 2, Inr 0]"
proof -
  let ?p = "\<lparr>backends = [\<lparr>be_Host = ''a'', be_healthy = True\<rparr>, \<lparr>be_Host = ''b'', be_healthy = False\<rparr>,
                   \<lparr>be_Host = ''c'', be_healthy = True\<rparr>]\<rparr>"
  have h: "Pool_Healthy ?p = [0, 2]" by (simp add: Pool_Healthy_def upt_rec numeral_3_eq_3)
  have rot: "map Inr (rotate (unat (rr_next \<lparr>rr_next = 3\<rparr>)) [0, 2 :: nat]) = [Inr 2 :: lberror + nat, Inr 0]"
    by code_simp
  have "snd (RoundRobin_picks (length [0, 2 :: nat]) \<lparr>rr_next = 3\<rparr> ?p
        \<lparr>req_method = ''GET'', req_path = ''/rooms'', req_query = (\<lambda>_. []), req_header = no_headers\<rparr>) =
      map Inr (rotate (unat (rr_next \<lparr>rr_next = 3\<rparr>)) [0, 2])"
    by (rule round_robin_round [of ?p, unfolded h]) simp_all
  then show ?thesis unfolding rot by (simp add: numeral_2_eq_2)
qed

text \<open>
  A health sweep is independent of goroutine scheduling.  In whatever order the
  parallel probes store their flags, the sweep ends in the same pool: every flag is the
  outcome of its own probe (healthy exactly on status 200), and membership and order of
  the backends are untouched.
\<close>

theorem health_sweep_any_order:
  assumes "distinct order" "set order = {..<length (backends p)}"
  shows "Check_in order do p = Pool_Check do p \<and>
    map be_Host (backends (Pool_Check do p)) = map be_Host (backends p) \<and>
    map be_healthy (backends (Check_in order do p)) = map (\<lambda>b. do b = Inr 200) (backends p)"
  by (simp add: Check_in_eq [OF assms] Pool_Check_eq checked_def probe_healthy_iff)

theorem health_sweep_any_order_witness:
  "map be_healthy (backends (Check_in [1, 0] (\<lambda>b. if be_Host b = ''a'' then Inr 200 else Inr 503)
      \<lparr>backends = [\<lparr>be_Host = ''a'', be_healthy = False\<rparr>, \<lparr>be_Host = ''b'', be_healthy = True\<rparr>]\<rparr>))
   = [True, False]"
proof -
  have o: "distinct [1, 0 :: nat]"
    "set [1, 0] = {..<length (backends \<lparr>backends = [\<lparr>be_Host = ''a'', be_healthy = False\<rparr>, \<lparr>be_Host = ''b'', be_healthy = True\<rparr>]\<rparr>)}"
    by auto
  from health_sweep_any_order [OF o, of "\<lambda>b. if be_Host b = ''a'' then Inr 200 else Inr 503",
      THEN conjunct2, THEN conjunct2]
  show ?thesis by (rule trans) simp
qed

end
