(* ===== verification/ConsistentHash.thy ===== *)
theory ConsistentHash
  imports LoadBalancer
begin

unbundle bit_operations_syntax

text \<open>
  \<^verbatim>\<open>gateway/internal/loadbalancer/consistent_hash.go\<close>: the 64-bit FNV-1a hash with the
  MurmurHash3 finalizer, the ring of virtual nodes, the binary search on it and the
  sticky \<^verbatim>\<open>Pick\<close>.  \<^verbatim>\<open>sort.Slice\<close> is not stable and promises only a sorted permutation,
  so the ring is built with a sorting function \<open>srt\<close> as an argument and the theorems
  hold for every function with that contract (\<open>sorts_ring\<close>).  The reference notion is
  the clockwise distance on the 64-bit circle, \<open>hash - h\<close> in wrapping arithmetic: a key
  belongs to the point at the least distance.
\<close>

section \<open>consistent\_hash.go\<close>

definition virtualNodes :: nat where
  "virtualNodes = 150"

record ringPoint =
  rp_hash :: uint64
  rp_backend :: nat

record ConsistentHash =
  ch_ring :: "ringPoint list"
  ch_key :: "request \<Rightarrow> string"

definition fnv64a :: "string \<Rightarrow> uint64" where
  "fnv64a key = foldl (\<lambda>h c. (h XOR of_nat (byte_of c)) * 1099511628211) 14695981039346656037 key"

definition mix64 :: "uint64 \<Rightarrow> uint64" where
  "mix64 x =
     (let x = x XOR drop_bit 33 x;
          x = x * 0xff51afd7ed558ccd;
          x = x XOR drop_bit 33 x;
          x = x * 0xc4ceb9fe1a85ec53;
          x = x XOR drop_bit 33 x
      in x)"

definition hashKey :: "string \<Rightarrow> uint64" where
  "hashKey key = mix64 (fnv64a key)"

text \<open>The unsorted ring: \<open>vn\<close> points per backend, in configuration order.\<close>

definition host_points :: "nat \<Rightarrow> nat \<Rightarrow> string \<Rightarrow> ringPoint list" where
  "host_points vn b host =
     map (\<lambda>i. \<lparr>rp_hash = hashKey (host @ ''#'' @ FormatInt (int i)), rp_backend = b\<rparr>) [0..<vn]"

definition ring_points :: "nat \<Rightarrow> string list \<Rightarrow> ringPoint list" where
  "ring_points vn hosts = concat (map (\<lambda>(b, host). host_points vn b host) (enumerate 0 hosts))"

definition NewConsistentHash_with ::
  "nat \<Rightarrow> (ringPoint list \<Rightarrow> ringPoint list) \<Rightarrow> Pool \<Rightarrow> (request \<Rightarrow> string) \<Rightarrow> ConsistentHash" where
  "NewConsistentHash_with vn srt p keyFunc =
     \<lparr>ch_ring = srt (ring_points vn (map be_Host (backends p))), ch_key = keyFunc\<rparr>"

definition NewConsistentHash ::
  "(ringPoint list \<Rightarrow> ringPoint list) \<Rightarrow> Pool \<Rightarrow> (request \<Rightarrow> string) \<Rightarrow> ConsistentHash" where
  "NewConsistentHash srt p keyFunc = NewConsistentHash_with virtualNodes srt p keyFunc"

text \<open>\<^verbatim>\<open>sort.Search\<close>: the least index in \<open>[i, j)\<close> at which \<open>f\<close> holds, by bisection.\<close>

function sort_Search_loop :: "(nat \<Rightarrow> bool) \<Rightarrow> nat \<Rightarrow> nat \<Rightarrow> nat" where
  "sort_Search_loop f i j =
     (if i < j
      then (let h = (i + j) div 2
            in if \<not> f h then sort_Search_loop f (h + 1) j else sort_Search_loop f i h)
      else i)"
  by pat_completeness auto
termination
  by (relation "measure (\<lambda>(f, i, j). j - i)") auto

declare sort_Search_loop.simps [simp del]

definition sort_Search :: "nat \<Rightarrow> (nat \<Rightarrow> bool) \<Rightarrow> nat" where
  "sort_Search n f = sort_Search_loop f 0 n"

text \<open>\<open>None\<close> is the index panic on an empty ring.\<close>

definition lookup :: "ConsistentHash \<Rightarrow> string \<Rightarrow> nat option" where
  "lookup s key =
     (let h = hashKey key;
          index = sort_Search (length (ch_ring s)) (\<lambda>i. rp_hash (ch_ring s ! i) \<ge> h);
          index = (if index = length (ch_ring s) then 0 else index)
      in if index < length (ch_ring s) then Some (rp_backend (ch_ring s ! index)) else None)"

definition ConsistentHash_Pick :: "ConsistentHash \<Rightarrow> Pool \<Rightarrow> request \<Rightarrow> ConsistentHash \<times> (lberror + nat)" where
  "ConsistentHash_Pick s p r =
     (let key = ch_key s r
      in case lookup s key of
           None \<Rightarrow> (s, Inl IndexPanic)
         | Some b \<Rightarrow>
             if \<not> be_healthy (backends p ! b) then (s, Inl (ErrBackendDown key b)) else (s, Inr b))"

definition RoomKey :: "request \<Rightarrow> string" where
  "RoomKey r =
     (let room = Values_Get (req_query r) ''room''
      in if room = '''' then ''general'' else room)"

section \<open>The finalizer loses nothing\<close>

definition unmix64 :: "uint64 \<Rightarrow> uint64" where
  "unmix64 x =
     (let x = x XOR drop_bit 33 x;
          x = x * 11291846944257947611;
          x = x XOR drop_bit 33 x;
          x = x * 5725274745694666757;
          x = x XOR drop_bit 33 x
      in x)"

lemma xorshift33_involution: "(x XOR drop_bit 33 x) XOR drop_bit 33 (x XOR drop_bit 33 x) = (x :: uint64)"
  by (rule bit_word_eqI) (auto simp: bit_xor_iff bit_drop_bit_eq dest: bit_imp_le_length)

lemma mult_inverse_cancel: "(a :: uint64) * b = 1 \<Longrightarrow> (x * a) * b = x"
  by (simp add: mult.assoc)

lemma unmix64_mix64 [simp]: "unmix64 (mix64 x) = x"
proof -
  define sh where "sh = (\<lambda>x :: uint64. x XOR drop_bit 33 x)"
  have sh: "sh (sh y) = y" for y
    unfolding sh_def by (rule xorshift33_involution)
  have m: "mix64 x = sh (sh (sh x * 0xff51afd7ed558ccd) * 0xc4ceb9fe1a85ec53)" for x
    by (simp add: mix64_def sh_def Let_def)
  have u: "unmix64 x = sh (sh (sh x * 11291846944257947611) * 5725274745694666757)" for x
    by (simp add: unmix64_def sh_def Let_def)
  have c1: "(y * 0xc4ceb9fe1a85ec53) * 11291846944257947611 = y" for y :: uint64
    by (rule mult_inverse_cancel) simp
  have c2: "(y * 0xff51afd7ed558ccd) * 5725274745694666757 = y" for y :: uint64
    by (rule mult_inverse_cancel) simp
  show ?thesis by (simp only: m u sh c1 c2)
qed

section \<open>Binary search\<close>

lemma sort_Search_loop_correct:
  assumes "\<And>k l. k \<le> l \<Longrightarrow> l < n \<Longrightarrow> f k \<Longrightarrow> f l"
  shows "i \<le> j \<Longrightarrow> j \<le> n \<Longrightarrow> (\<And>k. k < i \<Longrightarrow> \<not> f k) \<Longrightarrow> (\<And>k. j \<le> k \<Longrightarrow> k < n \<Longrightarrow> f k) \<Longrightarrow>
    sort_Search_loop f i j \<le> j \<and> (\<forall>k < sort_Search_loop f i j. \<not> f k) \<and>
    (\<forall>k. sort_Search_loop f i j \<le> k \<longrightarrow> k < n \<longrightarrow> f k)"
proof (induction "j - i" arbitrary: i j rule: less_induct)
  case less
  show ?case
  proof (cases "i < j")
    case False
    then have "sort_Search_loop f i j = i" by (simp add: sort_Search_loop.simps [of f i j])
    with False less.prems show ?thesis by auto
  next
    case True
    define h where "h = (i + j) div 2"
    have h: "i \<le> h" "h < j" using True by (auto simp: h_def)
    show ?thesis
    proof (cases "f h")
      case True
      have eq: "sort_Search_loop f i j = sort_Search_loop f i h"
        using \<open>i < j\<close> True by (simp add: sort_Search_loop.simps [of f i j] h_def Let_def)
      have "sort_Search_loop f i h \<le> h \<and> (\<forall>k < sort_Search_loop f i h. \<not> f k) \<and>
          (\<forall>k. sort_Search_loop f i h \<le> k \<longrightarrow> k < n \<longrightarrow> f k)"
        by (rule less.hyps) (use h less.prems True assms in auto)
      with eq h show ?thesis by auto
    next
      case False
      have eq: "sort_Search_loop f i j = sort_Search_loop f (h + 1) j"
        using \<open>i < j\<close> False by (simp add: sort_Search_loop.simps [of f i j] h_def Let_def)
      have below: "\<not> f k" if "k < h + 1" for k
        using assms [of k h] that False h less.prems(2) by auto
      have "sort_Search_loop f (h + 1) j \<le> j \<and> (\<forall>k < sort_Search_loop f (h + 1) j. \<not> f k) \<and>
          (\<forall>k. sort_Search_loop f (h + 1) j \<le> k \<longrightarrow> k < n \<longrightarrow> f k)"
        by (rule less.hyps) (use h less.prems below in auto)
      with eq show ?thesis by simp
    qed
  qed
qed

lemma sort_Search_least:
  assumes "\<And>k l. k \<le> l \<Longrightarrow> l < n \<Longrightarrow> f k \<Longrightarrow> f l"
  shows "sort_Search n f \<le> n"
    and "k < sort_Search n f \<Longrightarrow> \<not> f k"
    and "sort_Search n f \<le> k \<Longrightarrow> k < n \<Longrightarrow> f k"
proof -
  have "sort_Search_loop f 0 n \<le> n \<and> (\<forall>k < sort_Search_loop f 0 n. \<not> f k) \<and>
      (\<forall>k. sort_Search_loop f 0 n \<le> k \<longrightarrow> k < n \<longrightarrow> f k)"
    by (rule sort_Search_loop_correct) (use assms in auto)
  then show "sort_Search n f \<le> n" and "k < sort_Search n f \<Longrightarrow> \<not> f k"
    and "sort_Search n f \<le> k \<Longrightarrow> k < n \<Longrightarrow> f k"
    by (auto simp: sort_Search_def)
qed

section \<open>The ring as a circle\<close>

definition sorts_ring :: "(ringPoint list \<Rightarrow> ringPoint list) \<Rightarrow> bool" where
  "sorts_ring srt \<longleftrightarrow> (\<forall>xs. mset (srt xs) = mset xs \<and> sorted (map rp_hash (srt xs)))"

lemma sorts_ring_sort_key: "sorts_ring (sort_key rp_hash)"
  by (simp add: sorts_ring_def)

lemma set_srt: "sorts_ring srt \<Longrightarrow> set (srt xs) = set xs"
  by (metis sorts_ring_def mset_eq_setD)

lemma clockwise_le:
  fixes x y h :: uint64
  shows "x \<le> y \<Longrightarrow> h \<le> x \<or> y < h \<Longrightarrow> x - h \<le> y - h"
    and "h \<le> x \<Longrightarrow> y < h \<Longrightarrow> x - h \<le> y - h"
proof -
  show "x - h \<le> y - h" if "x \<le> y" "h \<le> x \<or> y < h"
    using that by (auto simp: word_le_def word_less_def uint_sub_if')
  have "uint x < 2 ^ 64" using uint_lt2p [of x] by simp
  then have "uint x \<le> uint y + 2 ^ 64" by (rule add_increasing [OF uint_ge_0 less_imp_le])
  then show "x - h \<le> y - h" if "h \<le> x" "y < h"
    using that by (auto simp: word_le_def word_less_def uint_sub_if')
qed

lemma lookup_closest:
  assumes ne: "ch_ring s \<noteq> []" and srt: "sorted (map rp_hash (ch_ring s))"
  shows "\<exists>p \<in> set (ch_ring s). lookup s key = Some (rp_backend p) \<and>
    (\<forall>q \<in> set (ch_ring s). rp_hash p - hashKey key \<le> rp_hash q - hashKey key)"
proof -
  let ?r = "ch_ring s" and ?h = "hashKey key" and ?n = "length (ch_ring s)"
  let ?f = "\<lambda>i. rp_hash (?r ! i) \<ge> ?h"
  define k where "k = sort_Search ?n ?f"
  have le: "rp_hash (?r ! a) \<le> rp_hash (?r ! b)" if "a \<le> b" "b < ?n" for a b
    using sorted_nth_mono [OF srt, of a b] that by simp
  have mono: "?f b" if "a \<le> b" "b < ?n" "?f a" for a b
    using le that by (meson order_trans)
  have search: "k \<le> ?n" "\<And>j. j < k \<Longrightarrow> \<not> ?f j" "\<And>j. k \<le> j \<Longrightarrow> j < ?n \<Longrightarrow> ?f j"
    unfolding k_def using sort_Search_least [of ?n ?f] mono by blast+
  define m where "m = (if k = ?n then 0 else k)"
  have m: "m < ?n" using ne search(1) by (auto simp: m_def)
  have look: "lookup s key = Some (rp_backend (?r ! m))"
    using m by (simp only: lookup_def Let_def k_def [symmetric] m_def [symmetric] if_True)
  have close: "rp_hash (?r ! m) - ?h \<le> rp_hash (?r ! j) - ?h" if j: "j < ?n" for j
  proof (cases "k = ?n")
    case True
    then have "rp_hash (?r ! j) < ?h" using search(2) [of j] j by auto
    with True j le [of 0 j] show ?thesis by (intro clockwise_le(1)) (auto simp: m_def)
  next
    case False
    then have k: "m = k" "?h \<le> rp_hash (?r ! k)" using search(1) search(3) [of k] by (auto simp: m_def)
    show ?thesis
    proof (cases "k \<le> j")
      case True
      with k le [OF True j] show ?thesis by (intro clockwise_le(1)) auto
    next
      case False
      then have "rp_hash (?r ! j) < ?h" using search(2) [of j] by auto
      with k show ?thesis by (intro clockwise_le(2)) auto
    qed
  qed
  show ?thesis
    by (rule bexI [of _ "?r ! m"]) (use look close m in \<open>auto simp: in_set_conv_nth\<close>)
qed

lemma lookup_unique:
  assumes "ch_ring s \<noteq> []" "sorted (map rp_hash (ch_ring s))" "inj_on rp_hash (set (ch_ring s))"
    and "p \<in> set (ch_ring s)"
    and "\<And>q. q \<in> set (ch_ring s) \<Longrightarrow> rp_hash p - hashKey key \<le> rp_hash q - hashKey key"
  shows "lookup s key = Some (rp_backend p)"
proof -
  from lookup_closest [OF assms(1,2), of key] obtain p' where
    p': "p' \<in> set (ch_ring s)" "lookup s key = Some (rp_backend p')"
      "\<forall>q \<in> set (ch_ring s). rp_hash p' - hashKey key \<le> rp_hash q - hashKey key"
    by blast
  then have "rp_hash p' - hashKey key = rp_hash p - hashKey key"
    using assms(4,5) by (meson order_antisym)
  then have "rp_hash p' = rp_hash p" by simp
  then have "p' = p" using assms(3,4) p'(1) by (auto dest: inj_onD)
  with p'(2) show ?thesis by simp
qed

lemma ring_points_backend: "x \<in> set (ring_points vn hosts) \<Longrightarrow> rp_backend x < length hosts"
  by (auto simp: ring_points_def host_points_def in_set_enumerate_eq)

lemma ring_points_nonempty: "hosts \<noteq> [] \<Longrightarrow> 0 < vn \<Longrightarrow> ring_points vn hosts \<noteq> []"
  by (cases hosts) (auto simp: ring_points_def host_points_def)

lemma ring_points_snoc:
  "ring_points vn (hosts @ [h]) = ring_points vn hosts @ host_points vn (length hosts) h"
  by (simp add: ring_points_def enumerate_append_eq)

lemma NewConsistentHash_with_sel [simp]:
  "ch_ring (NewConsistentHash_with vn srt p kf) = srt (ring_points vn (map be_Host (backends p)))"
  "ch_key (NewConsistentHash_with vn srt p kf) = kf"
  by (simp_all add: NewConsistentHash_with_def)

lemma NewConsistentHash_sel [simp]:
  "ch_ring (NewConsistentHash srt p kf) = srt (ring_points virtualNodes (map be_Host (backends p)))"
  "ch_key (NewConsistentHash srt p kf) = kf"
  by (simp_all add: NewConsistentHash_def)

lemma virtualNodes_pos [simp]: "0 < virtualNodes"
  by (simp add: virtualNodes_def)

lemma ring_nonempty:
  "sorts_ring srt \<Longrightarrow> hosts \<noteq> [] \<Longrightarrow> 0 < vn \<Longrightarrow> srt (ring_points vn hosts) \<noteq> []"
  using set_srt [of srt "ring_points vn hosts"] ring_points_nonempty [of hosts vn] by force

text \<open>
  A sub-ring's owner stays the owner in the larger ring unless one of the added points
  takes over: the monotonicity that consistent hashing is for.
\<close>

lemma closest_of_superset:
  assumes r: "ch_ring s \<noteq> []" "sorted (map rp_hash (ch_ring s))"
    and r': "ch_ring s' \<noteq> []" "sorted (map rp_hash (ch_ring s'))"
    and sub: "set (ch_ring s') = set (ch_ring s) \<union> new"
    and inj: "inj_on rp_hash (set (ch_ring s'))"
  shows "lookup s' key = lookup s key \<or> (\<exists>q \<in> new. lookup s' key = Some (rp_backend q))"
proof -
  from lookup_closest [OF r', of key] obtain p' where
    p': "p' \<in> set (ch_ring s')" "lookup s' key = Some (rp_backend p')"
      "\<forall>q \<in> set (ch_ring s'). rp_hash p' - hashKey key \<le> rp_hash q - hashKey key"
    by blast
  show ?thesis
  proof (cases "p' \<in> new")
    case True
    with p' show ?thesis by blast
  next
    case False
    with p'(1) sub have "p' \<in> set (ch_ring s)" by blast
    moreover have "inj_on rp_hash (set (ch_ring s))" using inj sub by (auto intro: inj_on_subset)
    ultimately have "lookup s key = Some (rp_backend p')"
      using p'(3) sub by (intro lookup_unique [OF r]) auto
    with p'(2) show ?thesis by simp
  qed
qed

section \<open>The sticky strategy\<close>

definition ch_inv :: "ConsistentHash \<Rightarrow> Pool \<Rightarrow> bool" where
  "ch_inv s p \<longleftrightarrow> ch_ring s \<noteq> [] \<and> (\<forall>x \<in> set (ch_ring s). rp_backend x < length (backends p))"

lemma lookup_Some:
  assumes "ch_ring s \<noteq> []"
  shows "\<exists>x \<in> set (ch_ring s). lookup s key = Some (rp_backend x)"
proof -
  let ?k = "sort_Search (length (ch_ring s)) (\<lambda>i. rp_hash (ch_ring s ! i) \<ge> hashKey key)"
  have "?k \<le> length (ch_ring s)"
  proof -
    have "sort_Search_loop f i j \<le> max i j" for f i j
    proof (induction f i j rule: sort_Search_loop.induct)
      case (1 f i j)
      show ?case
      proof (cases "i < j")
        case True
        with 1 show ?thesis
          by (cases "f ((i + j) div 2)") (auto simp: sort_Search_loop.simps [of f i j] Let_def)
      next
        case False
        then show ?thesis by (simp add: sort_Search_loop.simps [of f i j])
      qed
    qed
    then show ?thesis unfolding sort_Search_def by (metis max_0L)
  qed
  then show ?thesis using assms by (auto simp: lookup_def Let_def intro!: nth_mem)
qed

lemma ch_inv_NewConsistentHash:
  "sorts_ring srt \<Longrightarrow> backends p \<noteq> [] \<Longrightarrow> ch_inv (NewConsistentHash srt p kf) p"
  using ring_nonempty [of srt "map be_Host (backends p)"]
  by (auto simp: ch_inv_def set_srt dest: ring_points_backend)

interpretation ch: Strategy ConsistentHash_Pick ch_inv
proof
  fix s s' :: ConsistentHash and p p' :: Pool and r :: request and res i
  assume inv: "ch_inv s p"
  then obtain x where x: "x \<in> set (ch_ring s)" "lookup s (ch_key s r) = Some (rp_backend x)"
    using lookup_Some [of s "ch_key s r"] by (auto simp: ch_inv_def)
  then have lt: "rp_backend x < length (backends p)" using inv by (simp add: ch_inv_def)
  show "ch_inv s' p" if "ConsistentHash_Pick s p r = (s', res)"
    using inv that x by (auto simp: ConsistentHash_Pick_def Let_def split: if_splits)
  show "ch_inv s p'" if "map be_Host (backends p') = map be_Host (backends p)"
    using inv that by (metis ch_inv_def length_map)
  show "i < length (backends p) \<and> be_healthy (backends p ! i)"
    if "ConsistentHash_Pick s p r = (s', Inr i)"
    using that x lt by (auto simp: ConsistentHash_Pick_def Let_def split: if_splits)
  show "snd (ConsistentHash_Pick s p r) \<noteq> Inl IndexPanic"
    using x by (simp add: ConsistentHash_Pick_def Let_def)
qed

section \<open>Properties\<close>

text \<open>
  Sticky sessions, fail closed.  On the ring the gateway builds over its configured
  pool, every room key belongs to one backend \<open>i\<close>, whatever health the backends have
  at the time of the request: a request for the room is sent to \<open>i\<close> when \<open>i\<close> is healthy
  and refused with \<^verbatim>\<open>ErrBackendDown\<close> naming \<open>i\<close> when it is not.  It never panics and is
  never rerouted.
\<close>

theorem sticky_pick:
  assumes "NewPool parse urls = Inr p" "sorts_ring srt"
  shows "\<exists>i < length (backends p). \<forall>p' r.
    map be_Host (backends p') = map be_Host (backends p) \<longrightarrow> RoomKey r = key \<longrightarrow>
    snd (ConsistentHash_Pick (NewConsistentHash srt p RoomKey) p' r) =
      (if be_healthy (backends p' ! i) then Inr i else Inl (ErrBackendDown key i))"
proof -
  let ?s = "NewConsistentHash srt p RoomKey"
  from NewPool_ok(1) [OF assms(1)] have "backends p \<noteq> []" .
  then have inv: "ch_inv ?s p" by (rule ch_inv_NewConsistentHash [OF assms(2)])
  then obtain x where x: "x \<in> set (ch_ring ?s)" "lookup ?s key = Some (rp_backend x)"
    using lookup_Some [of ?s key] by (auto simp: ch_inv_def)
  then have "rp_backend x < length (backends p)" using inv by (simp add: ch_inv_def)
  moreover have "snd (ConsistentHash_Pick ?s p' r) =
      (if be_healthy (backends p' ! rp_backend x) then Inr (rp_backend x)
       else Inl (ErrBackendDown key (rp_backend x)))" if "RoomKey r = key" for p' r
    using x(2) that by (simp add: ConsistentHash_Pick_def Let_def)
  ultimately show ?thesis by blast
qed

theorem sticky_pick_witness:
  "\<exists>p i r. NewPool (\<lambda>u. Inr u) [''a:1'', ''b:2''] = Inr p \<and> i < length (backends p) \<and> RoomKey r = ''general'' \<and>
    snd (ConsistentHash_Pick (NewConsistentHash (sort_key rp_hash) p RoomKey) p r) = Inr i \<and>
    snd (ConsistentHash_Pick (NewConsistentHash (sort_key rp_hash) p RoomKey)
      (p\<lparr>backends := map (\<lambda>b. b\<lparr>be_healthy := False\<rparr>) (backends p)\<rparr>) r) = Inl (ErrBackendDown ''general'' i)"
proof -
  define p where "p = \<lparr>backends = [\<lparr>be_Host = ''a:1'', be_healthy = True\<rparr>, \<lparr>be_Host = ''b:2'', be_healthy = True\<rparr>]\<rparr>"
  define down where "down = p\<lparr>backends := map (\<lambda>b. b\<lparr>be_healthy := False\<rparr>) (backends p)\<rparr>"
  define r :: request where "r = \<lparr>req_method = ''GET'', req_path = ''/ws'', req_query = (\<lambda>_. []), req_header = no_headers\<rparr>"
  have p: "NewPool (\<lambda>u. Inr u) [''a:1'', ''b:2''] = Inr p"
    by (simp add: p_def NewPool_def NewBackend_def)
  obtain i where i: "i < length (backends p)" and pick: "\<And>p' r. map be_Host (backends p') = map be_Host (backends p) \<Longrightarrow> RoomKey r = ''general'' \<Longrightarrow>
      snd (ConsistentHash_Pick (NewConsistentHash (sort_key rp_hash) p RoomKey) p' r) =
        (if be_healthy (backends p' ! i) then Inr i else Inl (ErrBackendDown ''general'' i))"
    using sticky_pick [OF p sorts_ring_sort_key, of "''general''"] by blast
  have r: "RoomKey r = ''general''" by (simp add: r_def RoomKey_def Values_Get_def)
  have "be_healthy (backends p ! i)" using i by (auto simp: p_def nth_Cons split: nat.split)
  moreover have "\<not> be_healthy (backends down ! i)" using i by (simp add: down_def)
  moreover have "map be_Host (backends down) = map be_Host (backends p)" by (simp add: down_def p_def)
  ultimately show ?thesis using p i r pick [of p r] pick [of down r] by (auto simp: down_def)
qed

text \<open>
  C22: The binary search implements the circle.  For a pool the gateway accepted,
  \<^verbatim>\<open>lookup\<close> answers the backend of a virtual node whose clockwise distance from the key's
  hash (wrapping 64-bit subtraction) is the least of all virtual nodes on the ring.
\<close>

theorem lookup_nearest_clockwise:
  assumes "NewPool parse urls = Inr p" "sorts_ring srt"
  shows "\<exists>x \<in> set (ring_points virtualNodes (map be_Host (backends p))).
    lookup (NewConsistentHash srt p kf) key = Some (rp_backend x) \<and>
    (\<forall>y \<in> set (ring_points virtualNodes (map be_Host (backends p))).
       rp_hash x - hashKey key \<le> rp_hash y - hashKey key)"
proof -
  let ?s = "NewConsistentHash srt p kf"
  have "ch_ring ?s \<noteq> []"
    using ring_nonempty [OF assms(2)] NewPool_ok(1) [OF assms(1)] by simp
  moreover have "sorted (map rp_hash (ch_ring ?s))"
    using assms(2) by (simp add: sorts_ring_def)
  ultimately show ?thesis
    using lookup_closest [of ?s key] by (simp add: set_srt [OF assms(2)])
qed

theorem lookup_nearest_clockwise_witness:
  "\<exists>p. NewPool (\<lambda>u. Inr u) [''a:1'', ''b:2''] = Inr p \<and> sorts_ring (sort_key rp_hash) \<and>
    (\<exists>x \<in> set (ring_points virtualNodes [''a:1'', ''b:2'']).
      lookup (NewConsistentHash (sort_key rp_hash) p RoomKey) ''general'' = Some (rp_backend x) \<and>
      (\<forall>y \<in> set (ring_points virtualNodes [''a:1'', ''b:2'']).
         rp_hash x - hashKey ''general'' \<le> rp_hash y - hashKey ''general''))"
proof -
  define p where "p = \<lparr>backends = [\<lparr>be_Host = ''a:1'', be_healthy = True\<rparr>, \<lparr>be_Host = ''b:2'', be_healthy = True\<rparr>]\<rparr>"
  have p: "NewPool (\<lambda>u. Inr u) [''a:1'', ''b:2''] = Inr p"
    by (simp add: p_def NewPool_def NewBackend_def)
  have h: "map be_Host (backends p) = [''a:1'', ''b:2'']" by (simp add: p_def)
  show ?thesis
    using p sorts_ring_sort_key lookup_nearest_clockwise [OF p sorts_ring_sort_key, of RoomKey "''general''"]
    unfolding h by blast
qed

text \<open>
  Scaling out moves rooms to the new instance only.  Adding a backend at the end of
  the configuration leaves every key where it was or moves it to the added backend, for
  any number \<open>vn\<close> of virtual nodes (the code's is \<open>virtualNodes\<close>), as long as no two
  points of the larger ring share a hash.
\<close>

theorem scale_out_moves_only_to_new:
  assumes "sorts_ring srt" "0 < vn" "backends p \<noteq> []"
    and "distinct (map rp_hash (ring_points vn (map be_Host (backends p @ [b]))))"
  shows "lookup (NewConsistentHash_with vn srt (p\<lparr>backends := backends p @ [b]\<rparr>) kf) key
      \<in> {lookup (NewConsistentHash_with vn srt p kf) key, Some (length (backends p))}"
proof -
  let ?s = "NewConsistentHash_with vn srt p kf"
    and ?s' = "NewConsistentHash_with vn srt (p\<lparr>backends := backends p @ [b]\<rparr>) kf"
  have sorted: "sorted (map rp_hash (ch_ring ?s))" "sorted (map rp_hash (ch_ring ?s'))"
    using assms(1) by (simp_all add: sorts_ring_def)
  have ne: "ch_ring ?s \<noteq> []" "ch_ring ?s' \<noteq> []"
    using ring_nonempty [OF assms(1) _ assms(2)] assms(3) by simp_all
  have sub: "set (ch_ring ?s') = set (ch_ring ?s) \<union> set (host_points vn (length (backends p)) (be_Host b))"
    using ring_points_snoc [of vn "map be_Host (backends p)" "be_Host b"] by (simp add: set_srt [OF assms(1)])
  have inj: "inj_on rp_hash (set (ch_ring ?s'))"
    using assms(4) by (simp add: set_srt [OF assms(1)] distinct_map)
  show ?thesis
    using closest_of_superset [OF ne(1) sorted(1) ne(2) sorted(2) sub inj, of key]
    by (auto simp: host_points_def)
qed

theorem scale_out_moves_only_to_new_witness:
  "distinct (map rp_hash (ring_points 2 [''a'', ''b''])) \<and>
   lookup (NewConsistentHash_with 2 (sort_key rp_hash)
       \<lparr>backends = [\<lparr>be_Host = ''a'', be_healthy = True\<rparr>, \<lparr>be_Host = ''b'', be_healthy = True\<rparr>]\<rparr> RoomKey) ''general''
     \<in> {lookup (NewConsistentHash_with 2 (sort_key rp_hash) \<lparr>backends = [\<lparr>be_Host = ''a'', be_healthy = True\<rparr>]\<rparr> RoomKey)
           ''general'', Some 1}"
proof -
  have d: "distinct (map rp_hash (ring_points 2 [''a'', ''b'']))" by code_simp
  then show ?thesis
    using scale_out_moves_only_to_new [OF sorts_ring_sort_key, of 2
        "\<lparr>backends = [\<lparr>be_Host = ''a'', be_healthy = True\<rparr>]\<rparr>" "\<lparr>be_Host = ''b'', be_healthy = True\<rparr>"
        RoomKey "''general''"]
    by simp
qed

text \<open>
  The finalizer is reversible.  \<^verbatim>\<open>mix64\<close> has a left inverse, so it maps distinct FNV
  values to distinct ring positions: two keys collide on the ring only if FNV-1a already
  collided.
\<close>

theorem mix64_injective: "hashKey k1 = hashKey k2 \<longleftrightarrow> fnv64a k1 = fnv64a k2"
proof -
  have "unmix64 (hashKey k) = fnv64a k" for k by (simp add: hashKey_def)
  then show ?thesis by (metis hashKey_def)
qed

end
