(* ===== verification/Proxy.thy ===== *)
theory Proxy
  imports Auth ConsistentHash
begin

text \<open>
  \<^verbatim>\<open>gateway/internal/proxy\<close>: \<^verbatim>\<open>balanced_proxy.go\<close>, \<^verbatim>\<open>reverse_proxy.go\<close> and \<^verbatim>\<open>trusted_proxy.go\<close>.  The
  transport behind \<^verbatim>\<open>httputil.ReverseProxy\<close> is a parameter \<open>fwd\<close>: the upstream's response to a request,
  or a transport error.  A handler returns its response together with the requests it
  forwarded, so that a property can say which instance saw which headers.
\<close>

section \<open>reverse_proxy.go\<close>

text \<open>\<^verbatim>\<open>ReverseProxy.ServeHTTP\<close> with the \<^verbatim>\<open>ErrorHandler\<close> all proxies install.\<close>

definition ReverseProxy_ServeHTTP :: "(request \<Rightarrow> 'v response result) \<Rightarrow> request \<Rightarrow> 'v response" where
  "ReverseProxy_ServeHTTP fwd r = (case fwd r of Inl err \<Rightarrow> respond 502 NoBody | Inr resp \<Rightarrow> resp)"

definition set_request_id :: "echo_context \<Rightarrow> request" where
  "set_request_id cx =
     (let r = cx_req cx
      in if cx_request_id cx \<noteq> '''' then r\<lparr>req_header := Header_Set (req_header r) ''X-Request-ID'' (cx_request_id cx)\<rparr> else r)"

text \<open>A handler as a function of the transport at the time of the request: the request it forwards and its response.\<close>

type_synonym 'v proxy_handler = "(request \<Rightarrow> 'v response result) \<Rightarrow> echo_context \<Rightarrow> request \<times> 'v response"

definition NewServiceProxy ::
  "(string \<Rightarrow> string result) \<Rightarrow> string \<Rightarrow> 'v proxy_handler result" where
  "NewServiceProxy parse targetURL =
     (case parse targetURL of
        Inl err \<Rightarrow> Inl err
      | Inr target \<Rightarrow> Inr (\<lambda>fwd cx. let r = set_request_id cx in (r, ReverseProxy_ServeHTTP fwd r)))"

section \<open>trusted_proxy.go\<close>

definition trusted_headers :: "string \<Rightarrow> echo_context \<Rightarrow> headers" where
  "trusted_headers gatewayKey cx =
     (let h1 = req_header (set_request_id cx);
          h2 = Header_Set h1 ''X-Gateway-Key'' gatewayKey;
          h3 = Header_Del h2 ''X-User-ID'';
          h4 = (case cx_user_id cx of None \<Rightarrow> h3 | Some userID \<Rightarrow> Header_Set h3 ''X-User-ID'' (FormatInt userID))
      in Header_Del h4 ''Authorization'')"

definition NewTrustedProxy ::
  "(string \<Rightarrow> string result) \<Rightarrow> string \<Rightarrow> string \<Rightarrow> 'v proxy_handler result" where
  "NewTrustedProxy parse targetURL gatewayKey =
     (case parse targetURL of
        Inl err \<Rightarrow> Inl err
      | Inr target \<Rightarrow>
          Inr (\<lambda>fwd cx. let r = (cx_req cx)\<lparr>req_header := trusted_headers gatewayKey cx\<rparr>
                    in (r, ReverseProxy_ServeHTTP fwd r)))"

section \<open>balanced_proxy.go\<close>

definition respondUnavailable :: "echo_context \<Rightarrow> lberror \<Rightarrow> 'v response" where
  "respondUnavailable cx err =
     (case err of
        ErrBackendDown key b \<Rightarrow> reply cx 503 (JSON_error ''the instance serving this room is unavailable; retry later'')
      | _ \<Rightarrow> reply cx 503 (JSON_error ''chat service unavailable''))"

text \<open>
  \<open>n\<close> is the size of the pool the proxies were built over; \<open>Pick\<close> is the strategy.  The result: the
  strategy's next state, the backend and request forwarded, if any, and the response.
\<close>

definition BalancedProxy ::
  "('s \<Rightarrow> Pool \<Rightarrow> request \<Rightarrow> 's \<times> (lberror + nat)) \<Rightarrow> nat \<Rightarrow> (nat \<Rightarrow> request \<Rightarrow> 'v response result) \<Rightarrow>
   's \<Rightarrow> Pool \<Rightarrow> echo_context \<Rightarrow> 's \<times> (nat \<times> request) option \<times> 'v response" where
  "BalancedProxy Pick n fwd s pool cx =
     (let r = set_request_id cx
      in case Pick s pool r of
           (s', Inl err) \<Rightarrow> (s', None, respondUnavailable cx err)
         | (s', Inr backend) \<Rightarrow>
             if backend < n then (s', Some (backend, r), ReverseProxy_ServeHTTP (fwd backend) r)
             else (s', None, reply cx 500 (JSON_error ''gateway misconfiguration'')))"

section \<open>What every strategy gives the proxy\<close>

definition proxied_well :: "Pool \<Rightarrow> (nat \<times> request) option \<Rightarrow> 'v response \<Rightarrow> echo_context \<Rightarrow> (nat \<Rightarrow> request \<Rightarrow> 'v response result) \<Rightarrow> bool" where
  "proxied_well pool sent resp cx fwd \<longleftrightarrow>
     (case sent of
        None \<Rightarrow> resp_status resp = 503
      | Some (i, r) \<Rightarrow> i < length (backends pool) \<and> be_healthy (backends pool ! i) \<and> r = set_request_id cx \<and>
          resp = ReverseProxy_ServeHTTP (fwd i) r)"

context Strategy
begin

lemma BalancedProxy_well:
  assumes "inv s pool" "length (backends pool) = n"
  shows "case BalancedProxy Pick n fwd s pool cx of (s', sent, resp) \<Rightarrow>
    inv s' pool \<and> proxied_well pool sent resp cx fwd"
proof -
  let ?r = "set_request_id cx"
  obtain s' res where p: "Pick s pool ?r = (s', res)" by fastforce
  have i: "inv s' pool" using Pick_inv [OF assms(1) p] .
  consider (ok) i where "res = Inr i" "i < length (backends pool)" "be_healthy (backends pool ! i)"
    | (none) "res = Inl ErrNoHealthyBackend" | (down) k j where "res = Inl (ErrBackendDown k j)"
    using Pick_cases [OF assms(1), of ?r] p by (metis snd_conv)
  then show ?thesis
    using p i assms(2) by cases (simp_all add: BalancedProxy_def proxied_well_def respondUnavailable_def Let_def)
qed

end

lemma set_request_id_query [simp]: "req_query (set_request_id cx) = req_query (cx_req cx)"
  by (simp add: set_request_id_def Let_def)

lemma set_request_id_header:
  "Header_Get (req_header (set_request_id cx)) ''X-Request-ID'' =
     (if cx_request_id cx \<noteq> '''' then cx_request_id cx else Header_Get (req_header (cx_req cx)) ''X-Request-ID'')"
  by (simp add: set_request_id_def Let_def)

section \<open>Properties\<close>

text \<open>
  History requests are balanced over healthy instances only.  Over its own pool the round-robin
  proxy forwards a request unchanged (apart from the request id) to an instance that is healthy
  at that moment, or answers 503 without forwarding; the 500 for a backend outside the pool never
  happens, and neither does a division by zero or an index panic.
\<close>

theorem history_proxy_healthy_only:
  assumes "length (backends pool) < 2 ^ 64" "BalancedProxy RoundRobin_Pick (length (backends pool)) fwd s pool cx = (s', sent, resp)"
  shows "proxied_well pool sent resp cx fwd \<and>
    (sent = None \<longrightarrow> resp_body resp = JSON_error ''chat service unavailable'' \<and> Pool_Healthy pool = [])"
proof -
  have w: "proxied_well pool sent resp cx fwd"
    using rr.BalancedProxy_well [OF assms(1) refl, where fwd = fwd and s = s and cx = cx] assms(2) by simp
  have "length (Pool_Healthy pool) \<le> length (backends pool)"
    using length_filter_le [of _ "[0..<length (backends pool)]"] by (simp add: Pool_Healthy_def)
  then have small: "length (Pool_Healthy pool) < 2 ^ 64" using assms(1) by linarith
  have "Pool_Healthy pool = [] \<and> resp_body resp = JSON_error ''chat service unavailable''" if "sent = None"
  proof -
    have e: "Pool_Healthy pool = []"
    proof (rule ccontr)
      assume ne: "Pool_Healthy pool \<noteq> []"
      have "snd (RoundRobin_Pick s pool (set_request_id cx)) \<in> range Inr"
        unfolding RoundRobin_Pick_ok [OF ne small] by simp
      moreover from w that have "resp_status resp = 503" by (simp add: proxied_well_def)
      ultimately show False using assms(2) that
        by (auto simp: BalancedProxy_def Let_def split: prod.splits sum.splits if_splits)
    qed
    then have "RoundRobin_Pick s pool (set_request_id cx) = (s, Inl ErrNoHealthyBackend)"
      by (simp add: RoundRobin_Pick_def)
    with assms(2) e show ?thesis by (auto simp: BalancedProxy_def Let_def respondUnavailable_def)
  qed
  with w show ?thesis by blast
qed

definition two_up_one_down :: Pool where
  "two_up_one_down = \<lparr>backends = [\<lparr>be_Host = ''a:1'', be_healthy = True\<rparr>, \<lparr>be_Host = ''b:1'', be_healthy = False\<rparr>]\<rparr>"

theorem history_proxy_healthy_only_witness:
  "\<exists>s' sent resp. BalancedProxy RoundRobin_Pick (length (backends two_up_one_down)) (\<lambda>i r. Inr (respond 200 (Blob ''ok''))) \<lparr>rr_next = 7\<rparr> two_up_one_down (bearer_context ''t'') =
     (s', sent, resp) \<and>
     proxied_well two_up_one_down sent resp (bearer_context ''t'') (\<lambda>i r. Inr (respond 200 (Blob ''ok'') :: nat response))"
proof -
  obtain s' sent resp where b: "BalancedProxy RoundRobin_Pick (length (backends two_up_one_down))
      (\<lambda>i r. Inr (respond 200 (Blob ''ok'') :: nat response)) \<lparr>rr_next = 7\<rparr> two_up_one_down (bearer_context ''t'') = (s', sent, resp)"
    by (metis prod_cases3)
  have "length (backends two_up_one_down) < 2 ^ 64" by (simp add: two_up_one_down_def)
  from history_proxy_healthy_only [OF this b] b show ?thesis by blast
qed

text \<open>
  A WebSocket handshake reaches its room's instance or nobody.  For the pool the gateway
  built, every room has one instance; a handshake for the room is forwarded to that instance
  when it is healthy, and answered 503 without being forwarded when it is not, however the
  health of the others changes.
\<close>

theorem ws_proxy_sticky:
  assumes "NewPool parse urls = Inr p" "sorts_ring srt"
  shows "\<exists>i < length (backends p). \<forall>p' cx fwd s' sent (resp :: 'v response).
    map be_Host (backends p') = map be_Host (backends p) \<longrightarrow> RoomKey (cx_req cx) = room \<longrightarrow>
    BalancedProxy ConsistentHash_Pick (length (backends p)) fwd (NewConsistentHash srt p RoomKey) p' cx = (s', sent, resp) \<longrightarrow>
    (if be_healthy (backends p' ! i) then sent = Some (i, set_request_id cx) \<and> resp = ReverseProxy_ServeHTTP (fwd i) (set_request_id cx)
     else sent = None \<and> resp_status resp = 503)"
proof -
  let ?s = "NewConsistentHash srt p RoomKey"
  have "backends p \<noteq> []" by (rule NewPool_ok(1) [OF assms(1)])
  then have inv: "ch_inv ?s p" by (rule ch_inv_NewConsistentHash [OF assms(2)])
  then obtain x where x: "x \<in> set (ch_ring ?s)" "lookup ?s room = Some (rp_backend x)"
    using lookup_Some [of ?s room] by (auto simp: ch_inv_def)
  then have lt: "rp_backend x < length (backends p)" using inv by (simp add: ch_inv_def)
  have key: "RoomKey (set_request_id cx) = RoomKey (cx_req cx)" for cx by (simp add: RoomKey_def)
  have kf: "ch_key ?s = RoomKey" by simp
  show ?thesis
  proof (intro exI [of _ "rp_backend x"] conjI lt allI impI)
    fix p' :: Pool and cx :: echo_context and fwd :: "nat \<Rightarrow> request \<Rightarrow> 'v response result" and s' sent and resp :: "'v response"
    assume a: "map be_Host (backends p') = map be_Host (backends p)" "RoomKey (cx_req cx) = room"
      "BalancedProxy ConsistentHash_Pick (length (backends p)) fwd ?s p' cx = (s', sent, resp)"
    have "ConsistentHash_Pick ?s p' (set_request_id cx) =
        (if be_healthy (backends p' ! rp_backend x) then (?s, Inr (rp_backend x)) else (?s, Inl (ErrBackendDown room (rp_backend x))))"
      using x(2) by (simp add: ConsistentHash_Pick_def Let_def kf key a(2))
    with a(3) lt show "if be_healthy (backends p' ! rp_backend x)
        then sent = Some (rp_backend x, set_request_id cx) \<and> resp = ReverseProxy_ServeHTTP (fwd (rp_backend x)) (set_request_id cx)
        else sent = None \<and> resp_status resp = 503"
      by (auto simp: BalancedProxy_def Let_def respondUnavailable_def split: if_splits)
  qed
qed

theorem ws_proxy_sticky_witness:
  "\<exists>p i s'. NewPool (\<lambda>u. Inr u) [''a:1'', ''b:2''] = Inr p \<and> i < length (backends p) \<and>
    BalancedProxy ConsistentHash_Pick (length (backends p)) (\<lambda>i r. Inr (respond 200 (Blob ''ok'') :: nat response))
      (NewConsistentHash (sort_key rp_hash) p RoomKey) p (bearer_context ''t'') =
      (s', Some (i, set_request_id (bearer_context ''t'')), respond 200 (Blob ''ok''))"
proof -
  let ?p = "\<lparr>backends = [\<lparr>be_Host = ''a:1'', be_healthy = True\<rparr>, \<lparr>be_Host = ''b:2'', be_healthy = True\<rparr>]\<rparr>"
  let ?fwd = "\<lambda>i r. Inr (respond 200 (Blob ''ok'') :: nat response)"
  let ?cx = "bearer_context ''t''"
  have p: "NewPool (\<lambda>u. Inr u) [''a:1'', ''b:2''] = Inr ?p"
    by (simp add: NewPool_def NewBackend_def)
  have srt: "sorts_ring (sort_key rp_hash)" by (simp add: sorts_ring_def)
  obtain s' sent resp where b: "BalancedProxy ConsistentHash_Pick (length (backends ?p)) ?fwd
      (NewConsistentHash (sort_key rp_hash) ?p RoomKey) ?p ?cx = (s', sent, resp)" by (metis prod_cases3)
  obtain i where i: "i < length (backends ?p)" and
    res: "if be_healthy (backends ?p ! i) then sent = Some (i, set_request_id ?cx) \<and> resp = ReverseProxy_ServeHTTP (?fwd i) (set_request_id ?cx)
       else sent = None \<and> resp_status resp = 503"
    using ws_proxy_sticky [OF p srt, of "RoomKey (cx_req ?cx)"] b by blast
  have "be_healthy (backends ?p ! i)" using i by (auto simp: nth_Cons split: nat.split)
  then have "sent = Some (i, set_request_id ?cx)" "resp = respond 200 (Blob ''ok'')"
    using res by (simp_all add: ReverseProxy_ServeHTTP_def)
  then show ?thesis using p i b by blast
qed

lemma canon_trusted:
  "CanonicalHeaderKey ''X-Gateway-Key'' = ''X-Gateway-Key''" "CanonicalHeaderKey ''X-User-ID'' = ''X-User-Id''"
  "CanonicalHeaderKey ''Authorization'' = ''Authorization''" "CanonicalHeaderKey ''X-Request-ID'' = ''X-Request-Id''"
  by code_simp+

lemma trusted_forwards:
  assumes "NewTrustedProxy parse url key = Inr handler" "handler fwd cx = (r, resp)"
  shows "req_header r = trusted_headers key cx" "req_method r = req_method (cx_req cx)" "req_path r = req_path (cx_req cx)"
  using assms by (auto simp: NewTrustedProxy_def Let_def split: sum.splits)

lemma service_forwards:
  assumes "NewServiceProxy parse url = Inr handler" "handler fwd cx = (r, resp)"
  shows "r = set_request_id cx"
  using assms by (auto simp: NewServiceProxy_def Let_def split: sum.splits)

lemma trusted_headers_get:
  "Header_Get (trusted_headers key cx) ''X-Gateway-Key'' = key"
  "Header_Get (trusted_headers key cx) ''X-User-ID'' = (case cx_user_id cx of None \<Rightarrow> '''' | Some u \<Rightarrow> FormatInt u)"
  "Header_Get (trusted_headers key cx) ''Authorization'' = ''''"
  by (simp_all add: trusted_headers_def Let_def canon_trusted split: option.split)

text \<open>
  Edge authentication cannot be forged through the gateway.  Whatever headers the client
  sent, the request the trusted proxy forwards carries the gateway's key, no bearer token, and as
  user id exactly the identity the gateway established: notification-service accepts it as that
  user when the id is positive, and rejects it with 401 when the gateway established none (or a
  non-positive one).
\<close>

theorem trusted_identity_end_to_end:
  assumes "NewTrustedProxy parse url key = Inr handler" "handler fwd cx = (r, resp)"
    and "cx_req cx2 = r" "\<forall>u. cx_user_id cx = Some u \<longrightarrow> int64_range u"
  shows "Header_Get (req_header r) ''Authorization'' = '''' \<and>
    notification_GatewayAuthMiddleware key cx2 =
      (case cx_user_id cx of
         Some u \<Rightarrow> if 0 < u then Inr (cx2\<lparr>cx_user_id := Some u\<rparr>) else Inl (401, ''missing or invalid user identity'')
       | None \<Rightarrow> Inl (401, ''missing or invalid user identity''))"
proof -
  have r: "req_header r = trusted_headers key cx" by (rule trusted_forwards(1) [OF assms(1,2)])
  have none: "ParseInt '''' = None" by (simp add: ParseInt_def ParseUint10_def)
  show ?thesis
    using assms(4)
    by (auto simp: notification_GatewayAuthMiddleware_def r assms(3) trusted_headers_get none ParseInt_FormatInt
        split: option.split)
qed

definition forged_context :: echo_context where
  "forged_context = (bearer_context ''tok'')\<lparr>cx_user_id := Some 42,
     cx_req := (cx_req (bearer_context ''tok''))\<lparr>req_header :=
       Header_Set (Header_Set no_headers ''X-User-ID'' ''999'') ''X-Gateway-Key'' ''guess''\<rparr>\<rparr>"

theorem trusted_identity_end_to_end_witness:
  "\<exists>r. notification_GatewayAuthMiddleware ''gk'' (forged_context\<lparr>cx_req := r\<rparr>) =
     Inr (forged_context\<lparr>cx_req := r, cx_user_id := Some 42\<rparr>) \<and> Header_Get (req_header r) ''Authorization'' = ''''"
proof -
  let ?h = "\<lambda>fwd cx. let r = (cx_req cx)\<lparr>req_header := trusted_headers ''gk'' cx\<rparr> in (r, ReverseProxy_ServeHTTP fwd r :: nat response)"
  let ?up = "\<lambda>r. Inr (respond 200 NoBody :: nat response)"
  have h: "NewTrustedProxy (\<lambda>u. Inr u) ''http://n'' ''gk'' = Inr ?h"
    by (simp add: NewTrustedProxy_def)
  have e: "?h ?up forged_context = (fst (?h ?up forged_context), snd (?h ?up forged_context))" by simp
  let ?r = "fst (?h ?up forged_context)"
  have c2: "cx_req (forged_context\<lparr>cx_req := ?r\<rparr>) = ?r" by simp
  have u: "cx_user_id forged_context = Some 42" by (simp add: forged_context_def)
  show ?thesis
    using trusted_identity_end_to_end [OF h e c2] by (intro exI [of _ ?r]) (simp add: u int64_range_def)
qed

end
