(* ===== verification/Tickets.thy ===== *)
theory Tickets
  imports Auth
begin

text \<open>
  The one-shot WebSocket tickets: \<^verbatim>\<open>gateway/internal/service/ticket_service.go\<close>,
  \<^verbatim>\<open>controller/ticket_controller.go\<close> and \<^verbatim>\<open>middleware/ws_ticket.go\<close>.  Times are nanoseconds; the bytes
  \<^verbatim>\<open>rand.Read\<close> fills, or its error, are an argument.
\<close>

section \<open>ticket_service.go\<close>

definition TicketTTL :: int where
  "TicketTTL = 30 * 10 ^ 9"

record ticketEntry =
  te_userID :: int
  te_role :: string
  te_expiresAt :: int

record TicketService =
  tickets :: "string \<rightharpoonup> ticketEntry"

definition NewTicketService :: TicketService where
  "NewTicketService = \<lparr>tickets = Map.empty\<rparr>"

definition TicketService_Issue ::
  "string result \<Rightarrow> int \<Rightarrow> int \<Rightarrow> string \<Rightarrow> TicketService \<Rightarrow> TicketService \<times> string result" where
  "TicketService_Issue rnd now userID role s =
     (case rnd of
        Inl err \<Rightarrow> (s, Inl err)
      | Inr b \<Rightarrow>
          (let ticket = hex_EncodeToString b
           in (s\<lparr>tickets := (tickets s)(ticket \<mapsto>
                 \<lparr>te_userID = userID, te_role = role, te_expiresAt = now + TicketTTL\<rparr>)\<rparr>,
               Inr ticket)))"

definition TicketService_Redeem :: "int \<Rightarrow> string \<Rightarrow> TicketService \<Rightarrow> TicketService \<times> (int \<times> string) option" where
  "TicketService_Redeem now ticket s =
     (case tickets s ticket of
        None \<Rightarrow> (s, None)
      | Some entry \<Rightarrow>
          (let s1 = s\<lparr>tickets := (tickets s)(ticket := None)\<rparr>
           in if now > te_expiresAt entry then (s1, None)
              else (s1, Some (te_userID entry, te_role entry))))"

definition TicketService_reapOnce :: "int \<Rightarrow> TicketService \<Rightarrow> TicketService" where
  "TicketService_reapOnce now s =
     s\<lparr>tickets := (\<lambda>t. case tickets s t of
         None \<Rightarrow> None | Some e \<Rightarrow> if now > te_expiresAt e then None else Some e)\<rparr>"

section \<open>ticket_controller.go\<close>

record TicketResponse =
  tr_Ticket :: string
  tr_ExpiresIn :: int

definition TicketController_Issue ::
  "string result \<Rightarrow> int \<Rightarrow> echo_context \<Rightarrow> TicketService \<Rightarrow> TicketService \<times> TicketResponse response" where
  "TicketController_Issue rnd now cx s =
     (case cx_user_id cx of
        None \<Rightarrow> (s, reply cx 401 (JSON_error ''unauthorized''))
      | Some userID \<Rightarrow>
          (case TicketService_Issue rnd now userID (cx_role cx) s of
             (s', Inl err) \<Rightarrow> (s', reply cx 500 (JSON_error ''failed to issue ticket''))
           | (s', Inr ticket) \<Rightarrow>
               (s', reply cx 201 (JSON \<lparr>tr_Ticket = ticket, tr_ExpiresIn = TicketTTL div 10 ^ 9\<rparr>))))"

section \<open>ws_ticket.go\<close>

definition WSTicketMiddleware ::
  "jwt_package \<Rightarrow> string \<Rightarrow> int \<Rightarrow> int \<Rightarrow> echo_context \<Rightarrow> TicketService \<Rightarrow> TicketService \<times> (reject + echo_context)" where
  "WSTicketMiddleware J jwtSecret now unix cx s =
     (let ticket = Values_Get (req_query (cx_req cx)) ''ticket''
      in if ticket = '''' then (s, Inl (401, ''missing ticket''))
         else case TicketService_Redeem now ticket s of
                (s', None) \<Rightarrow> (s', Inl (401, ''invalid or expired ticket''))
              | (s', Some (userID, role)) \<Rightarrow>
                  (case GenerateToken J jwtSecret unix userID role of
                     Inl err \<Rightarrow> (s', Inl (500, ''failed to authorize connection''))
                   | Inr token \<Rightarrow>
                       (let r = cx_req cx;
                            r1 = r\<lparr>req_header := Header_Set (req_header r) ''Authorization'' (''Bearer '' @ token)\<rparr>;
                            r2 = r1\<lparr>req_query := Values_Del (req_query r1) ''ticket''\<rparr>
                        in (s', Inr (cx\<lparr>cx_req := r2\<rparr>)))))"

section \<open>The events of the ticket store\<close>

text \<open>
  The store's life is a sequence of issues, redemptions and sweeps at non-decreasing times.
  \<open>redeemed t es s\<close> counts the successful redemptions of ticket \<open>t\<close>.
\<close>

datatype ticket_event =
    EvIssue string int int string
  | EvRedeem int string
  | EvReap int

primrec ticket_step :: "ticket_event \<Rightarrow> TicketService \<Rightarrow> TicketService" where
  "ticket_step (EvIssue b now uid role) s = fst (TicketService_Issue (Inr b) now uid role s)"
| "ticket_step (EvRedeem now t) s = fst (TicketService_Redeem now t s)"
| "ticket_step (EvReap now) s = TicketService_reapOnce now s"

primrec redeems :: "string \<Rightarrow> ticket_event \<Rightarrow> TicketService \<Rightarrow> bool" where
  "redeems t (EvIssue b now uid role) s = False"
| "redeems t (EvRedeem now t') s \<longleftrightarrow> t' = t \<and> snd (TicketService_Redeem now t' s) \<noteq> None"
| "redeems t (EvReap now) s = False"

primrec redeemed :: "string \<Rightarrow> ticket_event list \<Rightarrow> TicketService \<Rightarrow> nat" where
  "redeemed t [] s = 0"
| "redeemed t (e # es) s = (if redeems t e s then 1 else 0) + redeemed t es (ticket_step e s)"

primrec issues :: "string \<Rightarrow> ticket_event \<Rightarrow> bool" where
  "issues t (EvIssue b now uid role) \<longleftrightarrow> hex_EncodeToString b = t"
| "issues t (EvRedeem now t') = False"
| "issues t (EvReap now) = False"

lemma redeemed_unknown:
  "tickets s t = None \<Longrightarrow> \<forall>e \<in> set es. \<not> issues t e \<Longrightarrow> redeemed t es s = 0"
proof (induction es arbitrary: s)
  case (Cons e es)
  have "tickets (ticket_step e s) t = None" "\<not> redeems t e s"
    using Cons.prems by (cases e; auto simp: TicketService_Issue_def TicketService_Redeem_def
        TicketService_reapOnce_def Let_def split: option.splits)+
  with Cons show ?case by simp
qed simp

lemma redeem_deletes: "tickets (fst (TicketService_Redeem now t s)) t = None"
  by (auto simp: TicketService_Redeem_def Let_def split: option.splits)

lemma redeemed_at_most_once:
  "\<forall>e \<in> set es. \<not> issues t e \<Longrightarrow> redeemed t es s \<le> 1"
proof (induction es arbitrary: s)
  case (Cons e es)
  show ?case
  proof (cases "redeems t e s")
    case True
    then obtain now where e: "e = EvRedeem now t" by (cases e) auto
    have "redeemed t es (ticket_step e s) = 0"
      using Cons.prems by (intro redeemed_unknown) (auto simp: e redeem_deletes)
    then show ?thesis by simp
  qed (use Cons in simp)
qed simp

lemma Redeem_fresh:
  assumes "TicketService_Issue (Inr b) now uid role s = (s', Inr t)"
  shows "TicketService_Redeem now' t s' =
    (s'\<lparr>tickets := (tickets s')(t := None)\<rparr>, if now' > now + TicketTTL then None else Some (uid, role))"
  using assms by (auto simp: TicketService_Issue_def TicketService_Redeem_def Let_def)

text \<open>Other tickets, sweeps of live tickets and the rest of the traffic do not touch a live ticket.\<close>

primrec disturbs :: "int \<Rightarrow> string \<Rightarrow> ticket_event \<Rightarrow> bool" where
  "disturbs until t (EvIssue b now uid role) \<longleftrightarrow> hex_EncodeToString b = t"
| "disturbs until t (EvRedeem now t') \<longleftrightarrow> t' = t"
| "disturbs until t (EvReap now) \<longleftrightarrow> now > until"

lemma undisturbed_entry:
  "tickets s t = Some e \<Longrightarrow> \<forall>ev \<in> set evs. \<not> disturbs (te_expiresAt e) t ev \<Longrightarrow>
     tickets (fold ticket_step evs s) t = Some e"
proof (induction evs arbitrary: s)
  case (Cons ev evs)
  have "tickets (ticket_step ev s) t = Some e"
    using Cons.prems by (cases ev) (auto simp: TicketService_Issue_def TicketService_Redeem_def
        TicketService_reapOnce_def Let_def split: option.splits)
  with Cons show ?case by simp
qed simp

text \<open>
  C11: a ticket buys at most one connection.  Once issued, a ticket is redeemed successfully at
  most once, whatever redemptions, sweeps and issues of other tickets follow; and a sequence
  in which it was never issued redeems it never.
\<close>

theorem ticket_single_use:
  assumes "\<forall>e \<in> set es. \<not> issues t e"
  shows "redeemed t es (fst (TicketService_Issue rnd now uid role s)) \<le> 1 \<and>
    (tickets s t = None \<longrightarrow> redeemed t es s = 0)"
  using redeemed_at_most_once [OF assms] redeemed_unknown [OF _ assms] by blast

theorem ticket_single_use_witness:
  "redeemed ''6162'' [EvRedeem 5 ''6162'', EvReap 6, EvRedeem 7 ''6162'']
     (fst (TicketService_Issue (Inr ''ab'') 0 42 ''user'' NewTicketService)) \<le> 1"
  using ticket_single_use [of "[EvRedeem 5 ''6162'', EvReap 6, EvRedeem 7 ''6162'']" "''6162''" "Inr ''ab''" 0 42 "''user''" NewTicketService]
  by (simp del: redeemed.simps)

text \<open>
  A fresh ticket works for 30 seconds and returns the identity it was issued for.  Whatever
  other traffic the store sees in between (no sweep after its expiry), redeeming it at most 30
  seconds after its issue gives back the user id and role; after that it gives nothing; in
  both cases the ticket is gone.
\<close>

theorem ticket_expiry:
  assumes "TicketService_Issue (Inr b) now uid role s = (s1, Inr t)"
    and "\<forall>ev \<in> set evs. \<not> disturbs (now + TicketTTL) t ev"
  shows "snd (TicketService_Redeem now' t (fold ticket_step evs s1)) =
      (if now' \<le> now + 30 * 10 ^ 9 then Some (uid, role) else None) \<and>
    tickets (fst (TicketService_Redeem now' t (fold ticket_step evs s1))) t = None"
proof -
  have "tickets s1 t = Some \<lparr>te_userID = uid, te_role = role, te_expiresAt = now + TicketTTL\<rparr>"
    using assms(1) by (auto simp: TicketService_Issue_def Let_def)
  from undisturbed_entry [OF this, of evs] assms(2)
  have "tickets (fold ticket_step evs s1) t = Some \<lparr>te_userID = uid, te_role = role, te_expiresAt = now + TicketTTL\<rparr>"
    by simp
  then show ?thesis
    using redeem_deletes [of now' t "fold ticket_step evs s1"]
    by (simp add: TicketService_Redeem_def Let_def TicketTTL_def not_le)
qed

theorem ticket_expiry_witness:
  "snd (TicketService_Redeem (2 * 10 ^ 9) ''6162''
     (fold ticket_step [EvReap (10 ^ 9)] (fst (TicketService_Issue (Inr ''ab'') 0 42 ''user'' NewTicketService)))) = Some (42, ''user'')"
proof -
  have i: "TicketService_Issue (Inr ''ab'') 0 42 ''user'' NewTicketService =
      (fst (TicketService_Issue (Inr ''ab'') 0 42 ''user'' NewTicketService), Inr ''6162'')"
  proof -
    have "hex_EncodeToString ''ab'' = ''6162''" by code_simp
    then show ?thesis by (simp add: TicketService_Issue_def Let_def)
  qed
  show ?thesis
    using ticket_expiry [OF i, of "[EvReap (10 ^ 9)]" "2 * 10 ^ 9"] by (simp add: TicketTTL_def)
qed

text \<open>
  The handshake carries the identity, not the ticket.  Redeeming a live ticket hands the
  proxied request a Bearer header that chat-service accepts as the user and role the ticket was
  issued for (id below \<^verbatim>\<open>2^53\<close>, within the token's 24 hours), the ticket parameter is gone from the
  query, and every other query parameter is unchanged.
\<close>

theorem ws_ticket_handshake:
  assumes "jwt_sound J" "tickets s t = Some e" "now \<le> te_expiresAt e" "\<bar>te_userID e\<bar> < 2 ^ 53"
    and "Values_Get (req_query (cx_req cx)) ''ticket'' = t" "t \<noteq> ''''"
    and "GenerateToken J secret unix (te_userID e) (te_role e) = Inr tok" "unix' < unix + 86400"
  shows "\<exists>cx'. snd (WSTicketMiddleware J secret now unix cx s) = Inr cx' \<and>
    chat_JWTMiddleware J secret unix' cx' = Inr (cx'\<lparr>cx_user_id := Some (te_userID e), cx_role := te_role e\<rparr>) \<and>
    Values_Get (req_query (cx_req cx')) ''ticket'' = '''' \<and>
    (\<forall>k. k \<noteq> ''ticket'' \<longrightarrow> req_query (cx_req cx') k = req_query (cx_req cx) k) \<and>
    tickets (fst (WSTicketMiddleware J secret now unix cx s)) t = None"
proof -
  let ?r = "(cx_req cx)\<lparr>req_header := Header_Set (req_header (cx_req cx)) ''Authorization'' (''Bearer '' @ tok),
             req_query := Values_Del (req_query (cx_req cx)) ''ticket''\<rparr>"
  let ?cx = "cx\<lparr>cx_req := ?r\<rparr>"
  have w: "WSTicketMiddleware J secret now unix cx s = (s\<lparr>tickets := (tickets s)(t := None)\<rparr>, Inr ?cx)"
    using assms(2,3,5,6,7) by (simp add: WSTicketMiddleware_def TicketService_Redeem_def Let_def)
  have "''Bearer '' @ tok \<noteq> tok" by (metis append_self_conv2 list.discI)
  then have "chat_JWTMiddleware J secret unix' ?cx = Inr (?cx\<lparr>cx_user_id := Some (te_userID e), cx_role := te_role e\<rparr>)"
    using ValidateToken_signed [OF assms(1,7,8)] int64_of_float_exact [OF assms(4)]
      TrimPrefix_append [of "''Bearer ''" tok]
    by (simp add: chat_JWTMiddleware_def Let_def)
  then show ?thesis by (intro exI [of _ ?cx]) (simp add: w Values_Del_def Values_Get_def)
qed

definition ws_context :: "string \<Rightarrow> echo_context" where
  "ws_context t =
     \<lparr>cx_req = \<lparr>req_method = ''GET'', req_path = ''/ws'',
                req_query = (\<lambda>_. [])(''ticket'' := [t], ''room'' := [''general'']), req_header = no_headers\<rparr>,
      cx_param = (\<lambda>_. ''''), cx_resp = no_headers, cx_request_id = ''r1'', cx_user_id = None, cx_role = ''''\<rparr>"

theorem ws_ticket_handshake_witness:
  "\<exists>cx'. snd (WSTicketMiddleware (one_token \<lparr>cl_user_id = 42, cl_role = ''user'', cl_exp = 86500\<rparr> ''k'') ''k'' 5 100
     (ws_context ''aa'') \<lparr>tickets = [''aa'' \<mapsto> \<lparr>te_userID = 42, te_role = ''user'', te_expiresAt = 9\<rparr>]\<rparr>) = Inr cx'"
  using ws_ticket_handshake [OF one_token_sound,
      of "\<lparr>tickets = [''aa'' \<mapsto> \<lparr>te_userID = 42, te_role = ''user'', te_expiresAt = 9\<rparr>]\<rparr>" "''aa''"
        "\<lparr>te_userID = 42, te_role = ''user'', te_expiresAt = 9\<rparr>" 5 "ws_context ''aa''"
        "\<lparr>cl_user_id = 42, cl_role = ''user'', cl_exp = 86500\<rparr>" "''k''" "''k''" 100 "''tok''" 200]
  by (simp add: GenerateToken_def one_token_def ws_context_def Values_Get_def) blast

end
