(* ===== verification/Users.thy ===== *)
theory Users
  imports Auth
begin

text \<open>
  Accounts: \<^verbatim>\<open>gateway/internal/service/user_service.go\<close>, \<^verbatim>\<open>repository/user_repository.go\<close>,
  \<^verbatim>\<open>controller/auth_controller.go\<close> and \<^verbatim>\<open>domain/user.go\<close>.  The table \<^verbatim>\<open>users\<close> of \<^verbatim>\<open>db/schema.sql\<close> is a list of
  rows with an \<^verbatim>\<open>AUTO_INCREMENT\<close> counter and a unique key on \<^verbatim>\<open>email\<close> under the column's collation, the
  parameter \<open>coll\<close>.  bcrypt and \<^verbatim>\<open>mail.ParseAddress\<close> are parameters, and so is a failure of the
  connection (\<open>down\<close>).
\<close>

section \<open>user.go and user_repository.go\<close>

record User =
  u_ID :: int
  u_Email :: string
  u_PasswordHash :: string
  u_Role :: string
  u_CreatedAt :: int

record users_table =
  ut_rows :: "User list"
  ut_next :: int

datatype sql_error = ErrNoRows | ErrDuplicate | ErrConn

text \<open>The context of a query: the collation of the email column, the clock, and whether the connection fails.\<close>

record db_ctx =
  dx_coll :: "string \<Rightarrow> string"
  dx_now :: int
  dx_down :: bool

definition UserRepository_Create :: "db_ctx \<Rightarrow> User \<Rightarrow> users_table \<Rightarrow> users_table \<times> (sql_error + User)" where
  "UserRepository_Create dx user t =
     (if dx_down dx then (t, Inl ErrConn)
      else if \<exists>r \<in> set (ut_rows t). dx_coll dx (u_Email r) = dx_coll dx (u_Email user) then (t, Inl ErrDuplicate)
      else (let i = ut_next t
            in (t\<lparr>ut_rows := ut_rows t @ [user\<lparr>u_ID := i, u_CreatedAt := dx_now dx\<rparr>], ut_next := i + 1\<rparr>,
                Inr (user\<lparr>u_ID := i\<rparr>))))"

definition first_row :: "(User \<Rightarrow> bool) \<Rightarrow> users_table \<Rightarrow> sql_error + User" where
  "first_row P t = (case filter P (ut_rows t) of [] \<Rightarrow> Inl ErrNoRows | r # _ \<Rightarrow> Inr r)"

definition UserRepository_GetByEmail :: "db_ctx \<Rightarrow> string \<Rightarrow> users_table \<Rightarrow> sql_error + User" where
  "UserRepository_GetByEmail dx email t =
     (if dx_down dx then Inl ErrConn else first_row (\<lambda>r. dx_coll dx (u_Email r) = dx_coll dx email) t)"

definition UserRepository_GetByID :: "db_ctx \<Rightarrow> int \<Rightarrow> users_table \<Rightarrow> sql_error + User" where
  "UserRepository_GetByID dx i t = (if dx_down dx then Inl ErrConn else first_row (\<lambda>r. u_ID r = i) t)"

section \<open>user_service.go\<close>

record bcrypt =
  bc_Generate :: "string \<Rightarrow> string option"
  bc_Compare :: "string \<Rightarrow> string \<Rightarrow> bool"

datatype user_error = Msg string | Sql sql_error | Bcrypt

definition validateEmail :: "(string \<Rightarrow> bool) \<Rightarrow> string \<Rightarrow> user_error + unit" where
  "validateEmail parses email =
     (if length email > 255 then Inl (Msg ''email must be at most 255 characters'')
      else if \<not> parses email then Inl (Msg ''invalid email format'')
      else Inr ())"

definition validatePassword :: "string \<Rightarrow> user_error + unit" where
  "validatePassword password =
     (if length password < 8 then Inl (Msg ''password must be at least 8 characters'')
      else if length password > 128 then Inl (Msg ''password must be at most 128 characters'')
      else Inr ())"

definition UserService_Register ::
  "(string \<Rightarrow> bool) \<Rightarrow> bcrypt \<Rightarrow> db_ctx \<Rightarrow> string \<Rightarrow> string \<Rightarrow> users_table \<Rightarrow> users_table \<times> (user_error + User)" where
  "UserService_Register parses bc dx email password t =
     (case validateEmail parses email of
        Inl e \<Rightarrow> (t, Inl e)
      | Inr _ \<Rightarrow>
     case validatePassword password of
        Inl e \<Rightarrow> (t, Inl e)
      | Inr _ \<Rightarrow>
     case UserRepository_GetByEmail dx email t of
        Inr existing \<Rightarrow> (t, Inl (Msg ''email already exists''))
      | Inl err \<Rightarrow>
          if err \<noteq> ErrNoRows then (t, Inl (Sql err))
          else case bc_Generate bc password of
                 None \<Rightarrow> (t, Inl Bcrypt)
               | Some hash \<Rightarrow>
                   (case UserRepository_Create dx
                           \<lparr>u_ID = 0, u_Email = email, u_PasswordHash = hash, u_Role = ''user'', u_CreatedAt = 0\<rparr> t of
                      (t', Inl e) \<Rightarrow> (t', Inl (Sql e))
                    | (t', Inr user) \<Rightarrow> (t', Inr user)))"

definition UserService_Login :: "bcrypt \<Rightarrow> db_ctx \<Rightarrow> string \<Rightarrow> string \<Rightarrow> users_table \<Rightarrow> user_error + User" where
  "UserService_Login bc dx email password t =
     (case UserRepository_GetByEmail dx email t of
        Inl err \<Rightarrow> Inl (Msg ''invalid email or password'')
      | Inr user \<Rightarrow>
          if \<not> bc_Compare bc (u_PasswordHash user) password then Inl (Msg ''invalid email or password'')
          else Inr user)"

definition UserService_GetByID :: "db_ctx \<Rightarrow> int \<Rightarrow> users_table \<Rightarrow> sql_error + User" where
  "UserService_GetByID dx i t = UserRepository_GetByID dx i t"

section \<open>auth_controller.go\<close>

record credentials =
  cr_Email :: string
  cr_Password :: string

text \<open>The JSON of a user omits the password hash (\<^verbatim>\<open>json:"-"\<close>).\<close>

datatype auth_json = UserJSON int string string int | TokenJSON string

definition user_json :: "User \<Rightarrow> auth_json" where
  "user_json u = UserJSON (u_ID u) (u_Email u) (u_Role u) (u_CreatedAt u)"

definition user_error_text :: "user_error \<Rightarrow> string" where
  "user_error_text e =
     (case e of Msg m \<Rightarrow> m | Sql ErrNoRows \<Rightarrow> ''sql: no rows in result set'' | Sql ErrDuplicate \<Rightarrow> ''Error 1062''
      | Sql ErrConn \<Rightarrow> ''connection'' | Bcrypt \<Rightarrow> ''bcrypt'')"

text \<open>\<open>bind\<close> is the result of \<^verbatim>\<open>c.Bind\<close>: \<open>None\<close> when the body does not parse.\<close>

definition AuthController_Register ::
  "(string \<Rightarrow> bool) \<Rightarrow> bcrypt \<Rightarrow> db_ctx \<Rightarrow> credentials option \<Rightarrow> echo_context \<Rightarrow> users_table \<Rightarrow> users_table \<times> auth_json response" where
  "AuthController_Register parses bc dx bind cx t =
     (case bind of
        None \<Rightarrow> (t, reply cx 400 (JSON_error ''invalid request body''))
      | Some req \<Rightarrow>
          if cr_Email req = '''' \<or> cr_Password req = '''' then (t, reply cx 400 (JSON_error ''email and password are required''))
          else case UserService_Register parses bc dx (cr_Email req) (cr_Password req) t of
                 (t', Inl err) \<Rightarrow> (t', reply cx 400 (JSON_error (user_error_text err)))
               | (t', Inr user) \<Rightarrow> (t', reply cx 201 (JSON (user_json user))))"

definition AuthController_Login ::
  "jwt_package \<Rightarrow> string \<Rightarrow> int \<Rightarrow> bcrypt \<Rightarrow> db_ctx \<Rightarrow> credentials option \<Rightarrow> echo_context \<Rightarrow> users_table \<Rightarrow> auth_json response" where
  "AuthController_Login J jwtSecret now bc dx bind cx t =
     (case bind of
        None \<Rightarrow> reply cx 400 (JSON_error ''invalid request body'')
      | Some req \<Rightarrow>
          if cr_Email req = '''' \<or> cr_Password req = '''' then reply cx 400 (JSON_error ''email and password are required'')
          else case UserService_Login bc dx (cr_Email req) (cr_Password req) t of
                 Inl err \<Rightarrow> reply cx 401 (JSON_error (user_error_text err))
               | Inr user \<Rightarrow>
                   (case GenerateToken J jwtSecret now (u_ID user) (u_Role user) of
                      Inl err \<Rightarrow> reply cx 500 (JSON_error ''failed to generate token'')
                    | Inr token \<Rightarrow> reply cx 200 (JSON (TokenJSON token))))"

definition AuthController_Me :: "db_ctx \<Rightarrow> echo_context \<Rightarrow> users_table \<Rightarrow> auth_json response" where
  "AuthController_Me dx cx t =
     (case cx_user_id cx of
        None \<Rightarrow> reply cx 401 (JSON_error ''unauthorized'')
      | Some userID \<Rightarrow>
          (case UserService_GetByID dx userID t of
             Inl err \<Rightarrow> reply cx 404 (JSON_error ''user not found'')
           | Inr user \<Rightarrow> reply cx 200 (JSON (user_json user))))"

section \<open>The table invariant\<close>

definition users_inv :: "(string \<Rightarrow> string) \<Rightarrow> users_table \<Rightarrow> bool" where
  "users_inv coll t \<longleftrightarrow>
     distinct (map u_ID (ut_rows t)) \<and> distinct (map (\<lambda>r. coll (u_Email r)) (ut_rows t)) \<and>
     (\<forall>r \<in> set (ut_rows t). u_ID r < ut_next t)"

definition empty_users :: users_table where
  "empty_users = \<lparr>ut_rows = [], ut_next = 1\<rparr>"

lemma users_inv_Create:
  assumes "users_inv (dx_coll dx) t"
  shows "users_inv (dx_coll dx) (fst (UserRepository_Create dx user t))"
  using assms by (auto simp: users_inv_def UserRepository_Create_def Let_def less_Suc_eq intro: less_trans)

lemma Register_table:
  "fst (UserService_Register parses bc dx email password t) \<in>
     insert t (range (\<lambda>user. fst (UserRepository_Create dx user t)))"
proof -
  have "fst (case p of (t', Inl e) \<Rightarrow> (t', Inl (Sql e)) | (t', Inr user) \<Rightarrow> (t', Inr user)) = fst p"
    for p :: "users_table \<times> (sql_error + User)"
    by (cases p; cases "snd p") auto
  then show ?thesis
    by (simp add: UserService_Register_def split: sum.split option.split)
qed

lemma users_inv_Register:
  "users_inv (dx_coll dx) t \<Longrightarrow> users_inv (dx_coll dx) (fst (UserService_Register parses bc dx email password t))"
  using Register_table [of parses bc dx email password t] users_inv_Create [of dx t] by auto

lemma first_row_unique:
  assumes "r \<in> set (ut_rows t)" "P r" "\<And>r'. r' \<in> set (ut_rows t) \<Longrightarrow> P r' \<Longrightarrow> r' = r"
  shows "first_row P t = Inr r"
proof -
  have mem: "r \<in> set (filter P (ut_rows t))" using assms(1,2) by simp
  then obtain x xs where x: "filter P (ut_rows t) = x # xs" by (cases "filter P (ut_rows t)") auto
  then have "x \<in> set (filter P (ut_rows t))" by simp
  then have "x = r" by (intro assms(3)) simp_all
  with x show ?thesis by (simp add: first_row_def)
qed

lemma Register_ok:
  assumes "UserService_Register parses bc dx email password t = (t', Inr user)"
  shows "\<exists>hash. bc_Generate bc password = Some hash \<and> \<not> dx_down dx \<and>
    user = \<lparr>u_ID = ut_next t, u_Email = email, u_PasswordHash = hash, u_Role = ''user'', u_CreatedAt = 0\<rparr> \<and>
    t' = t\<lparr>ut_rows := ut_rows t @ [user\<lparr>u_CreatedAt := dx_now dx\<rparr>], ut_next := ut_next t + 1\<rparr>"
  using assms
  by (auto simp: UserService_Register_def UserRepository_Create_def Let_def
      split: sum.splits option.splits prod.splits if_splits)

section \<open>Properties\<close>

text \<open>
  C39: register, then log in.  After a successful registration the same email and password log in
  (database reachable, bcrypt accepting its own hash), as the user just created: a fresh id, the
  role \<^verbatim>\<open>user\<close>; emails and ids stay unique in the table; and registering the email again fails.
\<close>

theorem register_then_login:
  assumes "users_inv (dx_coll dx) t" "UserService_Register parses bc dx email password t = (t', Inr user)"
    and "\<forall>h. bc_Generate bc password = Some h \<longrightarrow> bc_Compare bc h password"
    and "dx_coll dx' = dx_coll dx" "\<not> dx_down dx'"
  shows "users_inv (dx_coll dx) t' \<and>
    UserService_Login bc dx' email password t' = Inr (user\<lparr>u_CreatedAt := dx_now dx\<rparr>) \<and>
    u_Role user = ''user'' \<and> u_ID user \<notin> u_ID ` set (ut_rows t) \<and>
    (\<forall>pw. \<exists>e. UserService_Register parses bc dx' email pw t' = (t', Inl e))"
proof -
  obtain hash where h: "bc_Generate bc password = Some hash"
      "user = \<lparr>u_ID = ut_next t, u_Email = email, u_PasswordHash = hash, u_Role = ''user'', u_CreatedAt = 0\<rparr>"
      "t' = t\<lparr>ut_rows := ut_rows t @ [user\<lparr>u_CreatedAt := dx_now dx\<rparr>], ut_next := ut_next t + 1\<rparr>"
    using Register_ok [OF assms(2)] by blast
  have inv': "users_inv (dx_coll dx) t'"
    using users_inv_Register [OF assms(1), of parses bc email password] assms(2) by simp
  let ?u = "user\<lparr>u_CreatedAt := dx_now dx\<rparr>"
  have found: "UserRepository_GetByEmail dx' email t' = Inr ?u"
  proof -
    have "first_row (\<lambda>r. dx_coll dx (u_Email r) = dx_coll dx email) t' = Inr ?u"
    proof (rule first_row_unique)
      show "?u \<in> set (ut_rows t')" "dx_coll dx (u_Email ?u) = dx_coll dx email" by (simp_all add: h)
      show "r' = ?u" if "r' \<in> set (ut_rows t')" "dx_coll dx (u_Email r') = dx_coll dx email" for r'
      proof -
        have "inj_on (\<lambda>r. dx_coll dx (u_Email r)) (set (ut_rows t'))"
          using inv' by (simp add: users_inv_def distinct_map)
        then show ?thesis by (rule inj_onD) (use that in \<open>simp_all add: h\<close>)
      qed
    qed
    then show ?thesis using assms(4,5) by (simp add: UserRepository_GetByEmail_def)
  qed
  have "bc_Compare bc (u_PasswordHash ?u) password" using assms(3) h(1,2) by simp
  then have "UserService_Login bc dx' email password t' = Inr ?u" by (simp add: UserService_Login_def found)
  moreover have "\<exists>e. UserService_Register parses bc dx' email pw t' = (t', Inl e)" for pw
    by (simp add: UserService_Register_def found split: sum.split)
  moreover have "u_ID user \<notin> u_ID ` set (ut_rows t)" using assms(1) h(2) by (force simp: users_inv_def)
  ultimately show ?thesis using inv' h(2) by simp
qed

definition plain_bcrypt :: bcrypt where
  "plain_bcrypt = \<lparr>bc_Generate = (\<lambda>p. if length p \<le> 72 then Some (CHR ''h'' # p) else None),
                   bc_Compare = (\<lambda>h p. h = CHR ''h'' # p)\<rparr>"

definition up :: db_ctx where
  "up = \<lparr>dx_coll = id, dx_now = 7, dx_down = False\<rparr>"

theorem register_then_login_witness:
  "\<exists>u. UserService_Login plain_bcrypt up ''a@b.c'' ''password''
     (fst (UserService_Register (\<lambda>_. True) plain_bcrypt up ''a@b.c'' ''password'' empty_users)) = Inr u \<and> u_ID u = 1"
proof -
  have inv: "users_inv (dx_coll up) empty_users" by (simp add: users_inv_def empty_users_def)
  let ?u = "\<lparr>u_ID = 1, u_Email = ''a@b.c'', u_PasswordHash = ''hpassword'', u_Role = ''user'', u_CreatedAt = 0\<rparr>"
  have r: "UserService_Register (\<lambda>_. True) plain_bcrypt up ''a@b.c'' ''password'' empty_users =
      (fst (UserService_Register (\<lambda>_. True) plain_bcrypt up ''a@b.c'' ''password'' empty_users), Inr ?u)"
    by (simp add: UserService_Register_def validateEmail_def validatePassword_def UserRepository_GetByEmail_def
        first_row_def empty_users_def up_def plain_bcrypt_def UserRepository_Create_def Let_def)
  show ?thesis
    using register_then_login [OF inv r, of up] by (auto simp: plain_bcrypt_def up_def)
qed

text \<open>
  A failed login does not tell which half was wrong.  Every failed login with both fields
  present gets the same 401 body, whether the email is unknown, the password wrong or the
  database unreachable; it changes nothing.
\<close>

theorem login_failure_uniform:
  assumes "UserService_Login bc dx (cr_Email req) (cr_Password req) t = Inl e" "cr_Email req \<noteq> ''''" "cr_Password req \<noteq> ''''"
  shows "AuthController_Login J secret now bc dx (Some req) cx t = reply cx 401 (JSON_error ''invalid email or password'')"
  using assms
  by (auto simp: AuthController_Login_def UserService_Login_def user_error_text_def split: sum.splits if_splits)

theorem login_failure_uniform_witness:
  "AuthController_Login (one_token \<lparr>cl_user_id = 1, cl_role = '''', cl_exp = 0\<rparr> '''') ''k'' 0 plain_bcrypt up
     (Some \<lparr>cr_Email = ''a@b.c'', cr_Password = ''nope''\<rparr>) (bearer_context ''t'') empty_users =
     reply (bearer_context ''t'') 401 (JSON_error ''invalid email or password'')"
  by (rule login_failure_uniform [where e = "Msg ''invalid email or password''"])
    (simp_all add: UserService_Login_def UserRepository_GetByEmail_def first_row_def empty_users_def up_def)

end
