(* ===== verification/Config.thy ===== *)
theory Config
  imports Validation
begin

text \<open>
  The five \<^verbatim>\<open>config.go\<close>: how each service reads its environment.  The environment is a map; \<^verbatim>\<open>log.Fatalf\<close>
  ends the process and is the left value \<open>Fatal key\<close>.  The helpers differ between the services:
  gateway, notification and media refuse a non-positive integer, chat and presence accept it.
\<close>

type_synonym env = "string \<rightharpoonup> string"

datatype fatal = Fatal string

section \<open>The helpers\<close>

definition requireEnv :: "env \<Rightarrow> string \<Rightarrow> fatal + string" where
  "requireEnv env key =
     (case env key of None \<Rightarrow> Inl (Fatal key) | Some v \<Rightarrow> if v = '''' then Inl (Fatal key) else Inr v)"

definition getEnv :: "env \<Rightarrow> string \<Rightarrow> string \<Rightarrow> string" where
  "getEnv env key fallback = (case env key of None \<Rightarrow> fallback | Some v \<Rightarrow> v)"

text \<open>\<^verbatim>\<open>strconv.Atoi\<close> on a 64-bit platform accepts what \<^verbatim>\<open>ParseInt(s, 10, 64)\<close> accepts.\<close>

definition gateway_getEnvInt :: "env \<Rightarrow> string \<Rightarrow> int \<Rightarrow> int" where
  "gateway_getEnvInt env key fallback =
     (case env key of
        None \<Rightarrow> fallback
      | Some v \<Rightarrow> (case ParseInt v of
                    None \<Rightarrow> fallback
                  | Some parsed \<Rightarrow> if parsed \<le> 0 then fallback else parsed))"

definition chat_getEnvInt :: "env \<Rightarrow> string \<Rightarrow> int \<Rightarrow> int" where
  "chat_getEnvInt env key fallback =
     (case env key of
        None \<Rightarrow> fallback
      | Some v \<Rightarrow> (case ParseInt v of None \<Rightarrow> fallback | Some parsed \<Rightarrow> parsed))"

definition presence_getEnvInt :: "env \<Rightarrow> string \<Rightarrow> int \<Rightarrow> int" where
  "presence_getEnvInt env key fallback =
     (case env key of
        None \<Rightarrow> fallback
      | Some v \<Rightarrow> (case ParseInt v of None \<Rightarrow> fallback | Some parsed \<Rightarrow> parsed))"

definition notification_getEnvInt :: "env \<Rightarrow> string \<Rightarrow> int \<Rightarrow> int" where
  "notification_getEnvInt env key fallback =
     (case env key of
        None \<Rightarrow> fallback
      | Some v \<Rightarrow> (case ParseInt v of
                    None \<Rightarrow> fallback
                  | Some parsed \<Rightarrow> if parsed \<le> 0 then fallback else parsed))"

definition media_getEnvInt64 :: "env \<Rightarrow> string \<Rightarrow> int \<Rightarrow> int" where
  "media_getEnvInt64 env key fallback =
     (case env key of
        None \<Rightarrow> fallback
      | Some v \<Rightarrow> (case ParseInt v of
                    None \<Rightarrow> fallback
                  | Some parsed \<Rightarrow> if parsed \<le> 0 then fallback else parsed))"

text \<open>\<^verbatim>\<open>strings.SplitSeq(value, ",")\<close> and \<^verbatim>\<open>strings.TrimSpace\<close> (the ASCII white space).\<close>

fun split_at :: "char \<Rightarrow> string \<Rightarrow> string list" where
  "split_at sep [] = [[]]"
| "split_at sep (c # cs) =
     (if c = sep then [] # split_at sep cs
      else case split_at sep cs of [] \<Rightarrow> [[c]] | p # ps \<Rightarrow> (c # p) # ps)"

definition is_space :: "char \<Rightarrow> bool" where
  "is_space c \<longleftrightarrow> byte_of c \<in> {9, 10, 11, 12, 13, 32}"

definition TrimSpace :: "string \<Rightarrow> string" where
  "TrimSpace s = rev (dropWhile is_space (rev (dropWhile is_space s)))"

definition getEnvList :: "env \<Rightarrow> string \<Rightarrow> string list \<Rightarrow> string list" where
  "getEnvList env key fallback =
     (case env key of
        None \<Rightarrow> fallback
      | Some v \<Rightarrow> filter (\<lambda>p. p \<noteq> '''') (map TrimSpace (split_at (CHR '','') v)))"

section \<open>The services' configurations\<close>

record gateway_Config =
  g_DBHost :: string
  g_DBPort :: string
  g_DBUser :: string
  g_DBPassword :: string
  g_DBName :: string
  g_JWTSecret :: string
  g_ServerPort :: string
  g_ChatServiceURLs :: "string list"
  g_PresenceServiceURL :: string
  g_NotificationServiceURL :: string
  g_MediaServiceURL :: string
  g_LBHealthIntervalSecs :: int
  g_GatewayKey :: string
  g_EdgeCacheMaxBytes :: int
  g_EdgeCacheMaxObject :: int

definition gateway_LoadConfig :: "env \<Rightarrow> fatal + gateway_Config" where
  "gateway_LoadConfig env =
     bind_result (requireEnv env ''JWT_SECRET'') (\<lambda>jwt.
     bind_result (requireEnv env ''GATEWAY_SHARED_KEY'') (\<lambda>key.
       Inr \<lparr>g_DBHost = getEnv env ''DB_HOST'' ''localhost'', g_DBPort = getEnv env ''DB_PORT'' ''3307'',
            g_DBUser = getEnv env ''DB_USER'' ''root'', g_DBPassword = getEnv env ''DB_PASSWORD'' ''root'',
            g_DBName = getEnv env ''DB_NAME'' ''chat_gateway_db'', g_JWTSecret = jwt,
            g_ServerPort = getEnv env ''SERVER_PORT'' ''8000'',
            g_ChatServiceURLs = getEnvList env ''CHAT_SERVICE_URLS'' [''http://localhost:8001''],
            g_PresenceServiceURL = getEnv env ''PRESENCE_SERVICE_URL'' ''http://localhost:8002'',
            g_NotificationServiceURL = getEnv env ''NOTIFICATION_SERVICE_URL'' ''http://localhost:8003'',
            g_MediaServiceURL = getEnv env ''MEDIA_SERVICE_URL'' ''http://localhost:8004'',
            g_LBHealthIntervalSecs = gateway_getEnvInt env ''LB_HEALTH_INTERVAL_SECONDS'' 5,
            g_GatewayKey = key,
            g_EdgeCacheMaxBytes = gateway_getEnvInt env ''EDGE_CACHE_MAX_BYTES'' (64 * 2 ^ 20),
            g_EdgeCacheMaxObject = gateway_getEnvInt env ''EDGE_CACHE_MAX_OBJECT_BYTES'' (5 * 2 ^ 20)\<rparr>))"

record chat_Config =
  c_DBHost :: string
  c_DBPort :: string
  c_DBUser :: string
  c_DBPassword :: string
  c_DBName :: string
  c_JWTSecret :: string
  c_ServerPort :: string
  c_InstanceID :: string
  c_PresenceServiceURL :: string
  c_PresenceAPIKey :: string
  c_PresenceHeartbeatSecs :: int
  c_NotificationServiceURL :: string
  c_NotificationAPIKey :: string
  c_WSAllowedOrigins :: "string list"

definition chat_LoadConfig :: "env \<Rightarrow> fatal + chat_Config" where
  "chat_LoadConfig env =
     (let serverPort = getEnv env ''SERVER_PORT'' ''8001'';
          instanceID = getEnv env ''INSTANCE_ID'' (''chat-'' @ serverPort)
      in if \<not> ValidInstanceID instanceID then Inl (Fatal ''INSTANCE_ID'')
         else
           bind_result (requireEnv env ''JWT_SECRET'') (\<lambda>jwt.
           bind_result (requireEnv env ''PRESENCE_API_KEY'') (\<lambda>pk.
           bind_result (requireEnv env ''NOTIFICATION_API_KEY'') (\<lambda>nk.
             Inr \<lparr>c_DBHost = getEnv env ''DB_HOST'' ''localhost'', c_DBPort = getEnv env ''DB_PORT'' ''3307'',
            c_DBUser = getEnv env ''DB_USER'' ''root'', c_DBPassword = getEnv env ''DB_PASSWORD'' ''root'',
            c_DBName = getEnv env ''DB_NAME'' ''chat_service_db'', c_JWTSecret = jwt,
                  c_ServerPort = serverPort, c_InstanceID = instanceID,
                  c_PresenceServiceURL = getEnv env ''PRESENCE_SERVICE_URL'' ''http://localhost:8002'',
                  c_PresenceAPIKey = pk,
                  c_PresenceHeartbeatSecs = chat_getEnvInt env ''PRESENCE_HEARTBEAT_SECONDS'' 30,
                  c_NotificationServiceURL = getEnv env ''NOTIFICATION_SERVICE_URL'' ''http://localhost:8003'',
                  c_NotificationAPIKey = nk,
                  c_WSAllowedOrigins = getEnvList env ''WS_ALLOWED_ORIGINS''
                    [''http://localhost:3000'', ''http://localhost:8000'']\<rparr>))))"

record presence_Config =
  p_RedisAddr :: string
  p_JWTSecret :: string
  p_PresenceAPIKey :: string
  p_ServerPort :: string
  p_PresenceTTLSec :: int

definition presence_LoadConfig :: "env \<Rightarrow> fatal + presence_Config" where
  "presence_LoadConfig env =
     bind_result (requireEnv env ''JWT_SECRET'') (\<lambda>jwt.
     bind_result (requireEnv env ''PRESENCE_API_KEY'') (\<lambda>pk.
       Inr \<lparr>p_RedisAddr = getEnv env ''REDIS_ADDR'' ''localhost:6380'', p_JWTSecret = jwt,
            p_PresenceAPIKey = pk, p_ServerPort = getEnv env ''SERVER_PORT'' ''8002'',
            p_PresenceTTLSec = presence_getEnvInt env ''PRESENCE_TTL_SECONDS'' 90\<rparr>))"

record notification_Config =
  n_DBHost :: string
  n_DBPort :: string
  n_DBUser :: string
  n_DBPassword :: string
  n_DBName :: string
  n_ServerPort :: string
  n_GatewayKey :: string
  n_NotificationAPIKey :: string
  n_PresenceServiceURL :: string
  n_PresenceAPIKey :: string
  n_DeliveryWorkers :: int

definition notification_LoadConfig :: "env \<Rightarrow> fatal + notification_Config" where
  "notification_LoadConfig env =
     bind_result (requireEnv env ''GATEWAY_SHARED_KEY'') (\<lambda>gk.
     bind_result (requireEnv env ''NOTIFICATION_API_KEY'') (\<lambda>nk.
     bind_result (requireEnv env ''PRESENCE_API_KEY'') (\<lambda>pk.
       Inr \<lparr>n_DBHost = getEnv env ''DB_HOST'' ''localhost'', n_DBPort = getEnv env ''DB_PORT'' ''3307'',
            n_DBUser = getEnv env ''DB_USER'' ''root'', n_DBPassword = getEnv env ''DB_PASSWORD'' ''root'',
            n_DBName = getEnv env ''DB_NAME'' ''notification_service_db'',
            n_ServerPort = getEnv env ''SERVER_PORT'' ''8003'', n_GatewayKey = gk, n_NotificationAPIKey = nk,
            n_PresenceServiceURL = getEnv env ''PRESENCE_SERVICE_URL'' ''http://localhost:8002'',
            n_PresenceAPIKey = pk,
            n_DeliveryWorkers = notification_getEnvInt env ''DELIVERY_WORKERS'' 4\<rparr>)))"

record media_Config =
  m_ServerPort :: string
  m_MediaDir :: string
  m_GatewayKey :: string
  m_MaxUploadByte :: int

definition media_LoadConfig :: "env \<Rightarrow> fatal + media_Config" where
  "media_LoadConfig env =
     bind_result (requireEnv env ''GATEWAY_SHARED_KEY'') (\<lambda>gk.
       Inr \<lparr>m_ServerPort = getEnv env ''SERVER_PORT'' ''8004'', m_MediaDir = getEnv env ''MEDIA_DIR'' ''./data/media'',
            m_GatewayKey = gk, m_MaxUploadByte = media_getEnvInt64 env ''MAX_UPLOAD_BYTES'' (5 * 2 ^ 20)\<rparr>)"

section \<open>database.go and redis.go\<close>

text \<open>
  Connecting to MySQL: \<^verbatim>\<open>sql.Open\<close> and \<^verbatim>\<open>Ping\<close> are parameters, the data source name is what the code formats.  A database is
  what it holds.  \<^verbatim>\<open>NewRedis\<close> pings the client it made.
\<close>

definition dataSourceName :: "string \<Rightarrow> string \<Rightarrow> string \<Rightarrow> string \<Rightarrow> string \<Rightarrow> string" where
  "dataSourceName user password host port name =
     user @ '':'' @ password @ ''@tcp('' @ host @ '':'' @ port @ '')/'' @ name @ ''?parseTime=true''"

definition connect :: "(string \<Rightarrow> 'db result) \<Rightarrow> ('db \<Rightarrow> unit result) \<Rightarrow> string \<Rightarrow> fatal + 'db" where
  "connect sql_Open ping dsn =
     (case sql_Open dsn of
        Inl err \<Rightarrow> Inl (Fatal (err_text err))
      | Inr db \<Rightarrow> (case ping db of Inl err \<Rightarrow> Inl (Fatal (err_text err)) | Inr _ \<Rightarrow> Inr db))"

definition gateway_NewDatabase :: "(string \<Rightarrow> 'db result) \<Rightarrow> ('db \<Rightarrow> unit result) \<Rightarrow> gateway_Config \<Rightarrow> fatal + 'db" where
  "gateway_NewDatabase sql_Open ping cfg =
     connect sql_Open ping (dataSourceName (g_DBUser cfg) (g_DBPassword cfg) (g_DBHost cfg) (g_DBPort cfg) (g_DBName cfg))"

definition chat_NewDatabase :: "(string \<Rightarrow> 'db result) \<Rightarrow> ('db \<Rightarrow> unit result) \<Rightarrow> chat_Config \<Rightarrow> fatal + 'db" where
  "chat_NewDatabase sql_Open ping cfg =
     connect sql_Open ping (dataSourceName (c_DBUser cfg) (c_DBPassword cfg) (c_DBHost cfg) (c_DBPort cfg) (c_DBName cfg))"

definition notification_NewDatabase :: "(string \<Rightarrow> 'db result) \<Rightarrow> ('db \<Rightarrow> unit result) \<Rightarrow> notification_Config \<Rightarrow> fatal + 'db" where
  "notification_NewDatabase sql_Open ping cfg =
     connect sql_Open ping (dataSourceName (n_DBUser cfg) (n_DBPassword cfg) (n_DBHost cfg) (n_DBPort cfg) (n_DBName cfg))"

definition NewRedis :: "(string \<Rightarrow> 'db) \<Rightarrow> ('db \<Rightarrow> unit result) \<Rightarrow> presence_Config \<Rightarrow> fatal + 'db" where
  "NewRedis NewClient ping cfg =
     (let client = NewClient (p_RedisAddr cfg)
      in case ping client of Inl err \<Rightarrow> Inl (Fatal (err_text err)) | Inr _ \<Rightarrow> Inr client)"

section \<open>Properties\<close>

lemma requireEnv_Inr_iff [ok_iff]: "requireEnv env key = Inr v \<longleftrightarrow> env key = Some v \<and> v \<noteq> ''''"
  by (auto simp: requireEnv_def split: option.splits)

lemma gateway_getEnvInt_pos:
  "0 < fallback \<Longrightarrow> int64_range fallback \<Longrightarrow> 0 < gateway_getEnvInt env key fallback \<and> int64_range (gateway_getEnvInt env key fallback)"
  by (auto simp: gateway_getEnvInt_def ParseInt_range split: option.splits)

text \<open>
  No service starts with an empty shared secret, and the services that share a key read the same
  one.  Every configuration that loads has non-empty secrets; in one environment the gateway's
  key is the one notification-service and media-service compare against, and the three services that
  check tokens use the same signing secret.
\<close>

theorem config_secrets:
  assumes "gateway_LoadConfig env = Inr g" "chat_LoadConfig env = Inr c" "presence_LoadConfig env = Inr p"
    "notification_LoadConfig env = Inr n" "media_LoadConfig env = Inr m"
  shows "g_JWTSecret g \<noteq> '''' \<and> c_JWTSecret c = g_JWTSecret g \<and> p_JWTSecret p = g_JWTSecret g \<and>
    g_GatewayKey g \<noteq> '''' \<and> n_GatewayKey n = g_GatewayKey g \<and> m_GatewayKey m = g_GatewayKey g \<and>
    c_PresenceAPIKey c \<noteq> '''' \<and> p_PresenceAPIKey p = c_PresenceAPIKey c \<and> n_PresenceAPIKey n = c_PresenceAPIKey c \<and>
    c_NotificationAPIKey c \<noteq> '''' \<and> n_NotificationAPIKey n = c_NotificationAPIKey c"
  using assms
  by (auto simp: gateway_LoadConfig_def chat_LoadConfig_def presence_LoadConfig_def notification_LoadConfig_def
      media_LoadConfig_def Let_def ok_iff split: if_splits)

definition all_keys :: env where
  "all_keys = [''JWT_SECRET'' \<mapsto> ''s'', ''GATEWAY_SHARED_KEY'' \<mapsto> ''g'', ''PRESENCE_API_KEY'' \<mapsto> ''p'',
               ''NOTIFICATION_API_KEY'' \<mapsto> ''n'', ''INSTANCE_ID'' \<mapsto> ''chat-1'']"

theorem config_secrets_witness:
  "\<exists>g c p n m. gateway_LoadConfig all_keys = Inr g \<and> chat_LoadConfig all_keys = Inr c \<and>
     presence_LoadConfig all_keys = Inr p \<and> notification_LoadConfig all_keys = Inr n \<and>
     media_LoadConfig all_keys = Inr m \<and> m_GatewayKey m = g_GatewayKey g"
proof -
  have v: "ValidInstanceID ''chat-1''" by code_simp
  have req: "requireEnv all_keys ''JWT_SECRET'' = Inr ''s''" "requireEnv all_keys ''GATEWAY_SHARED_KEY'' = Inr ''g''"
    "requireEnv all_keys ''PRESENCE_API_KEY'' = Inr ''p''" "requireEnv all_keys ''NOTIFICATION_API_KEY'' = Inr ''n''"
    "getEnv all_keys ''INSTANCE_ID'' x = ''chat-1''" for x
    by (simp_all add: requireEnv_def all_keys_def getEnv_def)
  obtain g where g: "gateway_LoadConfig all_keys = Inr g" by (simp add: gateway_LoadConfig_def req)
  obtain c where c: "chat_LoadConfig all_keys = Inr c" by (simp add: chat_LoadConfig_def req v)
  obtain p where p: "presence_LoadConfig all_keys = Inr p" by (simp add: presence_LoadConfig_def req)
  obtain n where n: "notification_LoadConfig all_keys = Inr n" by (simp add: notification_LoadConfig_def req)
  obtain m where m: "media_LoadConfig all_keys = Inr m" by (simp add: media_LoadConfig_def req)
  show ?thesis using config_secrets [OF g c p n m] g c p n m by blast
qed

text \<open>
  The numeric settings.  The gateway's health interval and cache limits, the number of delivery
  workers and the upload limit are positive \<^verbatim>\<open>int64\<close> values whatever the environment holds; the
  presence TTL and the heartbeat interval are not protected: an environment exists in which
  they load as zero.
\<close>

theorem config_numbers:
  "(\<forall>env g. gateway_LoadConfig env = Inr g \<longrightarrow> 0 < g_LBHealthIntervalSecs g \<and> 0 < g_EdgeCacheMaxBytes g \<and>
      0 < g_EdgeCacheMaxObject g \<and> int64_range (g_EdgeCacheMaxBytes g) \<and> int64_range (g_EdgeCacheMaxObject g)) \<and>
   (\<forall>env n. notification_LoadConfig env = Inr n \<longrightarrow> 0 < n_DeliveryWorkers n) \<and>
   (\<forall>env m. media_LoadConfig env = Inr m \<longrightarrow> 0 < m_MaxUploadByte m) \<and>
   (\<exists>env c p. chat_LoadConfig env = Inr c \<and> presence_LoadConfig env = Inr p \<and>
      c_PresenceHeartbeatSecs c = 0 \<and> p_PresenceTTLSec p = 0)"
proof (intro conjI allI impI)
  fix env g assume "gateway_LoadConfig env = Inr g"
  then have g: "g_LBHealthIntervalSecs g = gateway_getEnvInt env ''LB_HEALTH_INTERVAL_SECONDS'' 5"
    "g_EdgeCacheMaxBytes g = gateway_getEnvInt env ''EDGE_CACHE_MAX_BYTES'' (64 * 2 ^ 20)"
    "g_EdgeCacheMaxObject g = gateway_getEnvInt env ''EDGE_CACHE_MAX_OBJECT_BYTES'' (5 * 2 ^ 20)"
    by (auto simp: gateway_LoadConfig_def ok_iff)
  note pos = gateway_getEnvInt_pos [of 5] gateway_getEnvInt_pos [of "64 * 2 ^ 20"] gateway_getEnvInt_pos [of "5 * 2 ^ 20"]
  show "0 < g_LBHealthIntervalSecs g" "0 < g_EdgeCacheMaxBytes g" "0 < g_EdgeCacheMaxObject g"
    "int64_range (g_EdgeCacheMaxBytes g)" "int64_range (g_EdgeCacheMaxObject g)"
    unfolding g using pos by (simp_all add: int64_range_def)
next
  fix env n assume "notification_LoadConfig env = Inr n"
  then show "0 < n_DeliveryWorkers n"
    by (auto simp: notification_LoadConfig_def notification_getEnvInt_def ok_iff split: option.splits)
next
  fix env m assume "media_LoadConfig env = Inr m"
  then show "0 < m_MaxUploadByte m"
    by (auto simp: media_LoadConfig_def media_getEnvInt64_def ok_iff split: option.splits)
next
  let ?env = "all_keys(''PRESENCE_HEARTBEAT_SECONDS'' \<mapsto> ''0'', ''PRESENCE_TTL_SECONDS'' \<mapsto> ''0'')"
  have v: "ValidInstanceID ''chat-1''" "ParseInt ''0'' = Some 0" by code_simp+
  have req: "requireEnv ?env ''JWT_SECRET'' = Inr ''s''" "requireEnv ?env ''PRESENCE_API_KEY'' = Inr ''p''"
    "requireEnv ?env ''NOTIFICATION_API_KEY'' = Inr ''n''" "getEnv ?env ''INSTANCE_ID'' x = ''chat-1''" for x
    by (simp_all add: requireEnv_def all_keys_def getEnv_def)
  show "\<exists>env c p. chat_LoadConfig env = Inr c \<and> presence_LoadConfig env = Inr p \<and>
      c_PresenceHeartbeatSecs c = 0 \<and> p_PresenceTTLSec p = 0"
    by (intro exI [of _ ?env])
      (simp add: chat_LoadConfig_def presence_LoadConfig_def req v chat_getEnvInt_def presence_getEnvInt_def)
qed

theorem config_numbers_witness:
  "\<exists>g. gateway_LoadConfig all_keys = Inr g \<and> 0 < g_EdgeCacheMaxBytes g"
proof -
  have req: "requireEnv all_keys ''JWT_SECRET'' = Inr ''s''" "requireEnv all_keys ''GATEWAY_SHARED_KEY'' = Inr ''g''"
    by (simp_all add: requireEnv_def all_keys_def)
  obtain g where "gateway_LoadConfig all_keys = Inr g" by (simp add: gateway_LoadConfig_def req)
  then show ?thesis using config_numbers by blast
qed

end
