(* ===== verification/Gateway.thy ===== *)
theory Gateway
  imports Routes Proxy Tickets Users EdgeHandler Config
begin

text \<open>
  \<^verbatim>\<open>gateway/cmd/gateway/main.go\<close>: how the gateway is put together and how it serves a request.  Start-up reads
  the configuration and builds the pool, the balancing strategies, the proxies and the edge cache, or exits;
  afterwards a request goes through the request-id middleware, the route table of theory \<^theory_text>\<open>Routes\<close>, the route's
  guards and the handlers of the components.  The state of the process is the record \<open>gateway\<close>; what lies
  outside it at the time of a request (clock, randomness, database, token package, upstream services) is a \<open>world\<close>.
\<close>

section \<open>The process\<close>

datatype 'v gw_json =
    AuthJSON auth_json
  | TicketJSON TicketResponse
  | EdgeJSON Stats
  | StatusJSON string
  | BackendsJSON "(string \<times> bool) list"
  | UpstreamJSON 'v

datatype upstream = ToChat nat | ToPresence | ToNotification | ToMedia

record 'v gateway =
  gw_cfg :: gateway_Config
  gw_users :: users_table
  gw_tickets :: TicketService
  gw_pool :: Pool
  gw_rr :: RoundRobin
  gw_ring :: ConsistentHash
  gw_presence :: "'v proxy_handler"
  gw_notification :: "'v proxy_handler"
  gw_mediaUpload :: "'v proxy_handler"
  gw_edge :: Handler

datatype startup_exit = ConfigExit fatal | PoolExit pool_error | ProxyExit string

text \<open>
  \<^verbatim>\<open>main\<close> up to \<^verbatim>\<open>echo.New\<close>.  \<open>host\<close> and \<open>target\<close> are \<^verbatim>\<open>url.Parse\<close> as the pool and the proxies use it, \<open>probe_all\<close>
  the health endpoints at the pool's first synchronous check, \<open>sql_Open\<close> and \<open>ping\<close> the database driver.
\<close>

definition gateway_start ::
  "env \<Rightarrow> (string \<Rightarrow> users_table result) \<Rightarrow> (users_table \<Rightarrow> unit result) \<Rightarrow> (string \<Rightarrow> string result) \<Rightarrow> (string \<Rightarrow> string result) \<Rightarrow>
   (ringPoint list \<Rightarrow> ringPoint list) \<Rightarrow> (Backend \<Rightarrow> nat result) \<Rightarrow> startup_exit + 'v gateway" where
  "gateway_start env sql_Open ping host target srt probe_all =
     (case gateway_LoadConfig env of
        Inl e \<Rightarrow> Inl (ConfigExit e)
      | Inr cfg \<Rightarrow>
     case gateway_NewDatabase sql_Open ping cfg of
        Inl e \<Rightarrow> Inl (ConfigExit e)
      | Inr users \<Rightarrow>
     case NewPool host (g_ChatServiceURLs cfg) of
        Inl e \<Rightarrow> Inl (PoolExit e)
      | Inr pool \<Rightarrow>
     (let chatPool = Pool_Start probe_all [] pool in
     case NewServiceProxy target (g_PresenceServiceURL cfg) of
        Inl e \<Rightarrow> Inl (ProxyExit ''presence-service'')
      | Inr presenceProxy \<Rightarrow>
     case NewTrustedProxy target (g_NotificationServiceURL cfg) (g_GatewayKey cfg) of
        Inl e \<Rightarrow> Inl (ProxyExit ''notification-service'')
      | Inr notificationProxy \<Rightarrow>
     case NewTrustedProxy target (g_MediaServiceURL cfg) (g_GatewayKey cfg) of
        Inl e \<Rightarrow> Inl (ProxyExit ''media-service'')
      | Inr mediaUploadProxy \<Rightarrow>
          Inr \<lparr>gw_cfg = cfg, gw_users = users, gw_tickets = NewTicketService, gw_pool = chatPool,
               gw_rr = \<lparr>rr_next = 0\<rparr>, gw_ring = NewConsistentHash srt chatPool RoomKey,
               gw_presence = presenceProxy, gw_notification = notificationProxy, gw_mediaUpload = mediaUploadProxy,
               gw_edge = NewHandler (Cache_New (g_EdgeCacheMaxBytes cfg) (g_EdgeCacheMaxObject cfg)) (g_MediaServiceURL cfg)\<rparr>))"

section \<open>Serving requests\<close>

record 'v world =
  w_jwt :: jwt_package
  w_now :: int
  w_rid :: string
  w_rand :: "string result"
  w_parses :: "string \<Rightarrow> bool"
  w_bcrypt :: bcrypt
  w_db :: db_ctx
  w_bind :: "credentials option"
  w_up :: "upstream \<Rightarrow> request \<Rightarrow> 'v response result"
  w_origin :: origin

definition w_unix :: "'v world \<Rightarrow> int" where
  "w_unix w = w_now w div 10 ^ 9"

abbreviation gw_secret :: "'v gateway \<Rightarrow> string" where
  "gw_secret g \<equiv> g_JWTSecret (gw_cfg g)"

definition gateway_guard :: "'v world \<Rightarrow> guard \<Rightarrow> echo_context \<Rightarrow> 'v gateway \<Rightarrow> 'v gateway \<times> (reject + echo_context)" where
  "gateway_guard w x cx g =
     (case x of
        JWTMiddleware \<Rightarrow> (g, gateway_JWTMiddleware (w_jwt w) (gw_secret g) (w_unix w) cx)
      | WSTicket \<Rightarrow>
          (case WSTicketMiddleware (w_jwt w) (gw_secret g) (w_now w) (w_unix w) cx (gw_tickets g) of
             (s, res) \<Rightarrow> (g\<lparr>gw_tickets := s\<rparr>, res))
      | _ \<Rightarrow> (g, Inr cx))"

type_synonym 'v outcome = "(upstream \<times> request) option \<times> 'v gw_json response"

definition forwarded :: "upstream \<Rightarrow> request \<times> 'v response \<Rightarrow> 'v outcome" where
  "forwarded u x = (Some (u, fst x), lift_response UpstreamJSON (snd x))"

definition chatHistoryProxy :: "'v world \<Rightarrow> echo_context \<Rightarrow> 'v gateway \<Rightarrow> 'v gateway \<times> 'v outcome" where
  "chatHistoryProxy w cx g =
     (case BalancedProxy RoundRobin_Pick (length (backends (gw_pool g))) (\<lambda>i. w_up w (ToChat i)) (gw_rr g) (gw_pool g) cx of
        (rr, sent, resp) \<Rightarrow> (g\<lparr>gw_rr := rr\<rparr>, map_option (\<lambda>(i, r). (ToChat i, r)) sent, lift_response UpstreamJSON resp))"

definition chatWSProxy :: "'v world \<Rightarrow> echo_context \<Rightarrow> 'v gateway \<Rightarrow> 'v gateway \<times> 'v outcome" where
  "chatWSProxy w cx g =
     (case BalancedProxy ConsistentHash_Pick (length (backends (gw_pool g))) (\<lambda>i. w_up w (ToChat i)) (gw_ring g) (gw_pool g) cx of
        (ring, sent, resp) \<Rightarrow> (g\<lparr>gw_ring := ring\<rparr>, map_option (\<lambda>(i, r). (ToChat i, r)) sent, lift_response UpstreamJSON resp))"

definition gateway_handle :: "'v world \<Rightarrow> gateway_handler \<Rightarrow> echo_context \<Rightarrow> 'v gateway \<Rightarrow> 'v gateway \<times> 'v outcome" where
  "gateway_handle w h cx g =
     (case h of
        GHealth \<Rightarrow> (g, None, reply cx 200 (JSON (StatusJSON ''ok'')))
      | GRegister \<Rightarrow>
          (case AuthController_Register (w_parses w) (w_bcrypt w) (w_db w) (w_bind w) cx (gw_users g) of
             (t, r) \<Rightarrow> (g\<lparr>gw_users := t\<rparr>, None, lift_response AuthJSON r))
      | GLogin \<Rightarrow>
          (g, None, lift_response AuthJSON
             (AuthController_Login (w_jwt w) (gw_secret g) (w_unix w) (w_bcrypt w) (w_db w) (w_bind w) cx (gw_users g)))
      | GMe \<Rightarrow> (g, None, lift_response AuthJSON (AuthController_Me (w_db w) cx (gw_users g)))
      | GTicketIssue \<Rightarrow>
          (case TicketController_Issue (w_rand w) (w_now w) cx (gw_tickets g) of
             (s, r) \<Rightarrow> (g\<lparr>gw_tickets := s\<rparr>, None, lift_response TicketJSON r))
      | GHealthBackends \<Rightarrow>
          (g, None, reply cx 200 (JSON (BackendsJSON (map (\<lambda>b. (be_Host b, be_healthy b)) (backends (gw_pool g))))))
      | GChatHistory \<Rightarrow> chatHistoryProxy w cx g
      | GChatWS \<Rightarrow> chatWSProxy w cx g
      | GPresence \<Rightarrow> (g, forwarded ToPresence (gw_presence g (w_up w ToPresence) cx))
      | GNotification \<Rightarrow> (g, forwarded ToNotification (gw_notification g (w_up w ToNotification) cx))
      | GMediaUpload \<Rightarrow> (g, forwarded ToMedia (gw_mediaUpload g (w_up w ToMedia) cx))
      | GMediaEdge \<Rightarrow>
          (case Serve (w_origin w) (gw_edge g) cx of (h', r) \<Rightarrow> (g\<lparr>gw_edge := h'\<rparr>, None, lift_response EdgeJSON r))
      | GEdgeStats \<Rightarrow> (g, None, lift_response EdgeJSON (Handler_Stats (gw_edge g) cx)))"

definition gateway_serve ::
  "router \<Rightarrow> (echo_context \<Rightarrow> 'v gw_json response) \<Rightarrow> 'v world \<Rightarrow> echo_context \<Rightarrow> 'v gateway \<Rightarrow> 'v gateway \<times> 'v outcome" where
  "gateway_serve rfind unrouted w cx g =
     serve_routes rfind gateway_routes (gateway_guard w) (gateway_handle w)
       (\<lambda>cx rej. (None, reply cx (fst rej) (JSON_error (snd rej)))) (\<lambda>cx. (None, unrouted cx))
       (RequestIDMiddleware (w_rid w) cx) g"

text \<open>Between requests the health checker and the ticket reaper run.\<close>

definition gateway_health_tick :: "(Backend \<Rightarrow> nat result) \<Rightarrow> 'v gateway \<Rightarrow> 'v gateway" where
  "gateway_health_tick probe_all g = g\<lparr>gw_pool := Pool_Check probe_all (gw_pool g)\<rparr>"

definition gateway_reap_tick :: "int \<Rightarrow> 'v gateway \<Rightarrow> 'v gateway" where
  "gateway_reap_tick now g = g\<lparr>gw_tickets := TicketService_reapOnce now (gw_tickets g)\<rparr>"

section \<open>The state a running gateway is in\<close>

text \<open>
  \<open>gateway_reach\<close>: everything a gateway can become after start-up, by requests in any order (against any
  state of the world, with the database's collation fixed), health sweeps and ticket sweeps.
\<close>

inductive gateway_reach ::
  "env \<Rightarrow> (string \<Rightarrow> string result) \<Rightarrow> (string \<Rightarrow> string result) \<Rightarrow> (ringPoint list \<Rightarrow> ringPoint list) \<Rightarrow>
   (string \<Rightarrow> string) \<Rightarrow> router \<Rightarrow> 'v gateway \<Rightarrow> bool" for env host target srt coll rfind where
  started: "gateway_start env sql_Open ping host target srt probe_all = Inr g \<Longrightarrow> users_inv coll (gw_users g) \<Longrightarrow>
    gateway_reach env host target srt coll rfind g"
| served: "gateway_reach env host target srt coll rfind g \<Longrightarrow> dx_coll (w_db w) = coll \<Longrightarrow>
    gateway_reach env host target srt coll rfind (fst (gateway_serve rfind unrouted w cx g))"
| health: "gateway_reach env host target srt coll rfind g \<Longrightarrow> gateway_reach env host target srt coll rfind (gateway_health_tick probe_all g)"
| reaped: "gateway_reach env host target srt coll rfind g \<Longrightarrow> gateway_reach env host target srt coll rfind (gateway_reap_tick now g)"

definition gateway_inv :: "env \<Rightarrow> (string \<Rightarrow> string result) \<Rightarrow> (string \<Rightarrow> string) \<Rightarrow> 'v gateway \<Rightarrow> bool" where
  "gateway_inv env target coll g \<longleftrightarrow>
     gateway_LoadConfig env = Inr (gw_cfg g) \<and>
     backends (gw_pool g) \<noteq> [] \<and> distinct (map be_Host (backends (gw_pool g))) \<and>
     ch_inv (gw_ring g) (gw_pool g) \<and> ch_key (gw_ring g) = RoomKey \<and>
     NewServiceProxy target (g_PresenceServiceURL (gw_cfg g)) = Inr (gw_presence g) \<and>
     NewTrustedProxy target (g_NotificationServiceURL (gw_cfg g)) (g_GatewayKey (gw_cfg g)) = Inr (gw_notification g) \<and>
     NewTrustedProxy target (g_MediaServiceURL (gw_cfg g)) (g_GatewayKey (gw_cfg g)) = Inr (gw_mediaUpload g) \<and>
     users_inv coll (gw_users g) \<and>
     (g_EdgeCacheMaxBytes (gw_cfg g) < 2 ^ 62 \<longrightarrow>
        cache_inv (h_cache (gw_edge g)) \<and> c_maxBytes (h_cache (gw_edge g)) = g_EdgeCacheMaxBytes (gw_cfg g))"

text \<open>A request changes the users, the tickets, the round-robin counter and the edge cache, and nothing else.\<close>

definition same_wiring :: "'v gateway \<Rightarrow> 'v gateway \<Rightarrow> bool" where
  "same_wiring g' g \<longleftrightarrow> gw_cfg g' = gw_cfg g \<and> gw_pool g' = gw_pool g \<and> gw_ring g' = gw_ring g \<and>
     gw_presence g' = gw_presence g \<and> gw_notification g' = gw_notification g \<and> gw_mediaUpload g' = gw_mediaUpload g"

lemma ConsistentHash_Pick_state: "fst (ConsistentHash_Pick s p r) = s"
  by (simp add: ConsistentHash_Pick_def Let_def split: option.split)

lemma chatWSProxy_state: "fst (chatWSProxy w cx g) = g"
proof -
  have "fst (BalancedProxy ConsistentHash_Pick n fwd s p cx) = s" for n p cx and fwd :: "nat \<Rightarrow> request \<Rightarrow> 'a response result" and s
    using ConsistentHash_Pick_state [of s p "set_request_id cx"]
    by (auto simp: BalancedProxy_def Let_def split: prod.splits sum.splits)
  then show ?thesis by (simp add: chatWSProxy_def split_beta)
qed

lemma gateway_handle_wiring: "same_wiring (fst (gateway_handle w h cx g)) g"
proof (cases h)
  case GChatWS
  then show ?thesis using chatWSProxy_state [of w cx g] by (simp add: gateway_handle_def same_wiring_def)
qed (simp_all add: gateway_handle_def same_wiring_def chatHistoryProxy_def split_beta)

lemma gateway_guard_keeps:
  assumes "gateway_guard w x cx g = (g', res)"
  shows "\<exists>s. g' = g\<lparr>gw_tickets := s\<rparr>"
proof -
  have "g' = g \<or> (\<exists>s. g' = g\<lparr>gw_tickets := s\<rparr>)"
    using assms by (cases x) (auto simp: gateway_guard_def split: prod.splits)
  then show ?thesis
  proof
    assume "g' = g"
    then have "g' = g\<lparr>gw_tickets := gw_tickets g\<rparr>" by simp
    then show ?thesis by blast
  qed
qed

lemma run_guards_keep:
  "run_guards (gateway_guard w) xs cx g = (g', res) \<Longrightarrow> \<exists>s. g' = g\<lparr>gw_tickets := s\<rparr>"
proof (induction xs arbitrary: cx g)
  case Nil
  then have "g' = g\<lparr>gw_tickets := gw_tickets g\<rparr>" by simp
  then show ?case by blast
next
  case (Cons x xs)
  then show ?case using gateway_guard_keeps [of w x cx g] by (fastforce split: prod.splits sum.splits)
qed

lemma gateway_serve_state:
  obtains (kept) s where "fst (gateway_serve rfind unrouted w cx g) = g\<lparr>gw_tickets := s\<rparr>"
  | (handled) s h cx' where "fst (gateway_serve rfind unrouted w cx g) = fst (gateway_handle w h cx' (g\<lparr>gw_tickets := s\<rparr>))"
proof -
  let ?cx = "RequestIDMiddleware (w_rid w) cx"
  show thesis
  proof (cases "rfind (keys gateway_routes) (req_method (cx_req ?cx)) (req_path (cx_req ?cx))")
    case None
    then show ?thesis by (intro kept [of "gw_tickets g"]) (simp add: gateway_serve_def serve_routes_def)
  next
    case (Some a)
    obtain i ps where a: "a = (i, ps)" by fastforce
    obtain g1 res where g1: "run_guards (gateway_guard w) (rt_guards (gateway_routes ! i)) (?cx\<lparr>cx_param := ps\<rparr>) g = (g1, res)" by fastforce
    then obtain s where s: "g1 = g\<lparr>gw_tickets := s\<rparr>" using run_guards_keep by blast
    show ?thesis
      using kept [of s] handled [of "rt_handler (gateway_routes ! i)" _ s] Some a g1 s
      by (cases res) (auto simp: gateway_serve_def serve_routes_def split_beta)
  qed
qed

lemma Serve_cache_inv:
  assumes "cache_inv (h_cache h)"
  shows "cache_inv (h_cache (fst (Serve do h cx))) \<and> c_maxBytes (h_cache (fst (Serve do h cx))) = c_maxBytes (h_cache h)"
proof -
  have put: "cache_inv (fst (Cache_Put c k e)) \<and> c_maxBytes (fst (Cache_Put c k e)) = c_maxBytes c" if "cache_inv c" for c k e
    using edge.put_inv [OF that] Cache_Put_sel(1) [of c k e] that by (simp add: cache_inv_def)
  have once: "cache_inv (h_cache (fst (fetchOnce do h1 hash rid))) \<and>
      c_maxBytes (h_cache (fst (fetchOnce do h1 hash rid))) = c_maxBytes (h_cache h1)" if "cache_inv (h_cache h1)" for h1 hash rid
    using that put [OF that] by (simp add: fetchOnce_def split_beta Let_def split: option.split)
  show ?thesis
    using edge.get_inv [OF assms, of "cx_param cx ''hash''"] once [of "h\<lparr>h_cache := fst (Cache_Get (h_cache h) (cx_param cx ''hash''))\<rparr>"]
    by (auto simp: Serve_def split_beta Let_def split: option.split)
qed

lemma AuthController_Register_inv:
  "users_inv (dx_coll dx) t \<Longrightarrow> users_inv (dx_coll dx) (fst (AuthController_Register parses bc dx bind cx t))"
  using users_inv_Register [of dx t parses bc]
  by (auto simp: AuthController_Register_def split: option.split prod.split sum.split) (metis fst_conv)+

lemma gateway_inv_state:
  assumes "gateway_inv env target coll g" "same_wiring g' g" "users_inv coll (gw_users g')"
    "cache_inv (h_cache (gw_edge g)) \<Longrightarrow>
       cache_inv (h_cache (gw_edge g')) \<and> c_maxBytes (h_cache (gw_edge g')) = c_maxBytes (h_cache (gw_edge g))"
  shows "gateway_inv env target coll g'"
  using assms by (simp add: gateway_inv_def same_wiring_def)

lemma gateway_inv_handle:
  assumes "gateway_inv env target (dx_coll (w_db w)) g"
  shows "gateway_inv env target (dx_coll (w_db w)) (fst (gateway_handle w h cx g))"
proof (rule gateway_inv_state [OF assms gateway_handle_wiring])
  have u: "users_inv (dx_coll (w_db w)) (gw_users g)" using assms by (simp add: gateway_inv_def)
  show "users_inv (dx_coll (w_db w)) (gw_users (fst (gateway_handle w h cx g)))"
    using u AuthController_Register_inv [OF u, of "w_parses w" "w_bcrypt w" "w_bind w" cx] chatWSProxy_state [of w cx g]
    by (cases h) (simp_all add: gateway_handle_def chatHistoryProxy_def split_beta)
  assume c: "cache_inv (h_cache (gw_edge g))"
  show "cache_inv (h_cache (gw_edge (fst (gateway_handle w h cx g)))) \<and>
      c_maxBytes (h_cache (gw_edge (fst (gateway_handle w h cx g)))) = c_maxBytes (h_cache (gw_edge g))"
    using c Serve_cache_inv [OF c, of "w_origin w" cx] chatWSProxy_state [of w cx g]
    by (cases h) (simp_all add: gateway_handle_def chatHistoryProxy_def split_beta)
qed

lemma gateway_inv_start:
  assumes "gateway_start env sql_Open ping host target srt probe_all = Inr g" "users_inv coll (gw_users g)" "sorts_ring srt"
  shows "gateway_inv env target coll g"
proof -
  obtain cfg users pool pp np mp where c: "gateway_LoadConfig env = Inr cfg" "NewPool host (g_ChatServiceURLs cfg) = Inr pool"
      "NewServiceProxy target (g_PresenceServiceURL cfg) = Inr pp"
      "NewTrustedProxy target (g_NotificationServiceURL cfg) (g_GatewayKey cfg) = Inr np"
      "NewTrustedProxy target (g_MediaServiceURL cfg) (g_GatewayKey cfg) = Inr mp"
    and g: "g = \<lparr>gw_cfg = cfg, gw_users = users, gw_tickets = NewTicketService, gw_pool = Pool_Start probe_all [] pool,
       gw_rr = \<lparr>rr_next = 0\<rparr>, gw_ring = NewConsistentHash srt (Pool_Start probe_all [] pool) RoomKey,
       gw_presence = pp, gw_notification = np, gw_mediaUpload = mp,
       gw_edge = NewHandler (Cache_New (g_EdgeCacheMaxBytes cfg) (g_EdgeCacheMaxObject cfg)) (g_MediaServiceURL cfg)\<rparr>"
    using assms(1) by (auto simp: gateway_start_def Let_def split: sum.splits)
  have hosts: "map be_Host (backends (Pool_Start probe_all [] pool)) = map be_Host (backends pool)"
    by (simp add: Pool_Start_def)
  then have ne: "backends (Pool_Start probe_all [] pool) \<noteq> []" using NewPool_ok(1) [OF c(2)] by auto
  have "0 < g_EdgeCacheMaxBytes cfg" using config_numbers c(1) by blast
  then have "g_EdgeCacheMaxBytes cfg < 2 ^ 62 \<longrightarrow> cache_inv (Cache_New (g_EdgeCacheMaxBytes cfg) (g_EdgeCacheMaxObject cfg))"
    using cache_inv_New [of "g_EdgeCacheMaxBytes cfg" "g_EdgeCacheMaxObject cfg"] by simp
  then show ?thesis
    using c ne hosts NewPool_ok(3) [OF c(2)] ch_inv_NewConsistentHash [OF assms(3) ne, of RoomKey] assms(2)
    by (simp add: gateway_inv_def g NewHandler_def Cache_New_def)
qed

lemma ch_inv_hosts: "map be_Host (backends p') = map be_Host (backends p) \<Longrightarrow> ch_inv s p \<Longrightarrow> ch_inv s p'"
  by (metis ch_inv_def length_map)

lemma gateway_reach_inv:
  assumes "gateway_reach env host target srt coll rfind g" "sorts_ring srt"
  shows "gateway_inv env target coll g"
  using assms
proof induction
  case (started sql_Open ping probe_all g)
  then show ?case using gateway_inv_start by blast
next
  case (served g w unrouted cx)
  have t: "gateway_inv env target coll (g\<lparr>gw_tickets := s\<rparr>)" for s
    using served by (simp add: gateway_inv_def)
  show ?case
    using gateway_serve_state [of rfind unrouted w cx g] t gateway_inv_handle [of env target w] served.hyps(2) by metis
next
  case (health g probe_all)
  then have "gateway_inv env target coll g" by simp
  moreover have "backends (Pool_Check probe_all (gw_pool g)) \<noteq> []" if "backends (gw_pool g) \<noteq> []"
    using that by (simp add: Pool_Check_eq)
  ultimately show ?case
    using ch_inv_hosts [OF hosts_Pool_Check, of "gw_ring g" "gw_pool g" probe_all]
    by (simp add: gateway_inv_def gateway_health_tick_def)
next
  case (reaped g now)
  then show ?case by (simp add: gateway_inv_def gateway_reap_tick_def)
qed

section \<open>Who a request acts for\<close>

text \<open>The claims of a request's Bearer token, if the token check accepts it.\<close>

definition bearer :: "jwt_package \<Rightarrow> string \<Rightarrow> int \<Rightarrow> request \<Rightarrow> Claims option" where
  "bearer J secret now r =
     (let authHeader = Header_Get (req_header r) ''Authorization'';
          tokenString = TrimPrefix authHeader ''Bearer ''
      in if authHeader = '''' \<or> tokenString = authHeader then None
         else case chat_ValidateToken J secret now tokenString of Inl e \<Rightarrow> None | Inr c \<Rightarrow> Some c)"

lemma gateway_JWT_bearer:
  "gateway_JWTMiddleware J secret now cx = Inr cx' \<longleftrightarrow>
     (\<exists>c. bearer J secret now (cx_req cx) = Some c \<and> cx' = cx\<lparr>cx_user_id := Some (UserID c), cx_role := Role c\<rparr>)"
  unfolding gateway_JWT_ValidateToken by (auto simp: bearer_def Let_def split: sum.splits if_splits)

lemma bearer_int64: "bearer J secret now r = Some c \<Longrightarrow> int64_range (UserID c)"
  by (auto simp: bearer_def Let_def chat_ValidateToken_def int64_of_float_def int64_range_def split: if_splits sum.splits option.splits)

lemma gateway_JWT_reject: "gateway_JWTMiddleware J secret now cx = Inl rej \<Longrightarrow> fst rej = 401"
  by (auto simp: gateway_JWTMiddleware_def Let_def split: if_splits sum.splits option.splits)

definition with_claims :: "'v world \<Rightarrow> echo_context \<Rightarrow> (string \<Rightarrow> string) \<Rightarrow> Claims \<Rightarrow> echo_context" where
  "with_claims w cx ps c = (RequestIDMiddleware (w_rid w) cx)\<lparr>cx_param := ps, cx_user_id := Some (UserID c), cx_role := Role c\<rparr>"

lemma RequestID_sel [simp]:
  "cx_req (RequestIDMiddleware rnd cx) = cx_req cx" "cx_user_id (RequestIDMiddleware rnd cx) = cx_user_id cx"
  "cx_param (RequestIDMiddleware rnd cx) = cx_param cx"
  by (simp_all add: RequestIDMiddleware_def Let_def)

lemma with_claims_sel [simp]:
  "cx_req (with_claims w cx ps c) = cx_req cx" "cx_user_id (with_claims w cx ps c) = Some (UserID c)"
  "cx_role (with_claims w cx ps c) = Role c" "cx_param (with_claims w cx ps c) = ps"
  by (simp_all add: with_claims_def)

lemma gateway_serve_routed:
  assumes "routed rfind gateway_routes (cx_req cx) rt ps"
  shows "gateway_serve rfind unrouted w cx g =
    (case run_guards (gateway_guard w) (rt_guards rt) ((RequestIDMiddleware (w_rid w) cx)\<lparr>cx_param := ps\<rparr>) g of
       (g', Inl (cx', rej)) \<Rightarrow> (g', None, reply cx' (fst rej) (JSON_error (snd rej)))
     | (g', Inr cx') \<Rightarrow> gateway_handle w (rt_handler rt) cx' g')"
proof -
  have "routed rfind gateway_routes (cx_req (RequestIDMiddleware (w_rid w) cx)) rt ps" using assms by simp
  then show ?thesis unfolding gateway_serve_def by (rule serve_routed)
qed

text \<open>A request on a guarded route: refused with a 401 that changes nothing, or handled with the token's claims.\<close>

lemma serve_guarded:
  assumes "routed rfind gateway_routes (cx_req cx) rt ps" "rt_guards rt = [JWTMiddleware]"
  shows "case bearer (w_jwt w) (gw_secret g) (w_unix w) (cx_req cx) of
      None \<Rightarrow> \<exists>resp. gateway_serve rfind unrouted w cx g = (g, None, resp) \<and> resp_status resp = 401
    | Some c \<Rightarrow> gateway_serve rfind unrouted w cx g = gateway_handle w (rt_handler rt) (with_claims w cx ps c) g"
proof -
  let ?cx = "(RequestIDMiddleware (w_rid w) cx)\<lparr>cx_param := ps\<rparr>"
  let ?m = "gateway_JWTMiddleware (w_jwt w) (gw_secret g) (w_unix w) ?cx"
  have s: "gateway_serve rfind unrouted w cx g =
      (case ?m of Inl rej \<Rightarrow> (g, None, reply ?cx (fst rej) (JSON_error (snd rej))) | Inr cx' \<Rightarrow> gateway_handle w (rt_handler rt) cx' g)"
    unfolding gateway_serve_routed [OF assms(1)] assms(2) by (simp add: gateway_guard_def split: sum.split)
  show ?thesis
  proof (cases ?m)
    case (Inl rej)
    then have "bearer (w_jwt w) (gw_secret g) (w_unix w) (cx_req cx) = None"
      using gateway_JWT_bearer [of "w_jwt w" "gw_secret g" "w_unix w" ?cx]
      by (cases "bearer (w_jwt w) (gw_secret g) (w_unix w) (cx_req cx)") auto
    with Inl s gateway_JWT_reject [OF Inl] show ?thesis by simp
  next
    case (Inr cx')
    then show ?thesis using s gateway_JWT_bearer [of "w_jwt w" "gw_secret g" "w_unix w" ?cx cx'] by (auto simp: with_claims_def)
  qed
qed

lemma serve_open:
  assumes "routed rfind gateway_routes (cx_req cx) rt ps" "rt_guards rt = []"
  shows "gateway_serve rfind unrouted w cx g = gateway_handle w (rt_handler rt) ((RequestIDMiddleware (w_rid w) cx)\<lparr>cx_param := ps\<rparr>) g"
  unfolding gateway_serve_routed [OF assms(1)] assms(2) by simp

lemma serve_ws:
  assumes "routed rfind gateway_routes (cx_req cx) rt ps" "rt_guards rt = [WSTicket]" "rt_handler rt = GChatWS"
    and "WSTicketMiddleware (w_jwt w) (gw_secret g) (w_now w) (w_unix w) ((RequestIDMiddleware (w_rid w) cx)\<lparr>cx_param := ps\<rparr>) (gw_tickets g) = (s, res)"
  shows "gateway_serve rfind unrouted w cx g =
    (case res of
       Inl rej \<Rightarrow> (g\<lparr>gw_tickets := s\<rparr>, None, reply ((RequestIDMiddleware (w_rid w) cx)\<lparr>cx_param := ps\<rparr>) (fst rej) (JSON_error (snd rej)))
     | Inr cx' \<Rightarrow> chatWSProxy w cx' (g\<lparr>gw_tickets := s\<rparr>))"
  unfolding gateway_serve_routed [OF assms(1)] assms(2,3) using assms(4)
  by (simp add: gateway_guard_def gateway_handle_def split: sum.split)

lemma route_kinds:
  assumes "rt \<in> set gateway_routes"
  obtains (ws) "rt = on ''GET'' ''/ws'' [WSTicket] GChatWS"
  | (anyone) "rt_handler rt \<in> set public_handlers" "rt_guards rt = []"
  | (guarded) "rt_handler rt \<noteq> GChatWS" "rt_handler rt \<notin> set public_handlers" "rt_guards rt = [JWTMiddleware]"
  using assms public_or_guarded unfolding gateway_routes_def list_all_iff by (auto simp: public_handlers_def)

lemma public_forward_nothing:
  "h \<in> set public_handlers \<Longrightarrow> fst (snd (gateway_handle w h cx g)) = None"
  by (auto simp: public_handlers_def gateway_handle_def split_beta)

section \<open>What leaves the gateway\<close>

lemma BalancedProxy_sent:
  assumes "fst (snd (BalancedProxy Pick n fwd s pool cx)) = Some (i, r)"
  shows "r = set_request_id cx"
proof -
  obtain s1 res where "Pick s pool (set_request_id cx) = (s1, res)" by fastforce
  with assms show ?thesis by (cases res) (auto simp: BalancedProxy_def Let_def split: if_splits)
qed

lemma set_request_id_line [simp]:
  "req_method (set_request_id cx) = req_method (cx_req cx)" "req_path (set_request_id cx) = req_path (cx_req cx)"
  by (simp_all add: set_request_id_def Let_def)

definition goes_to :: "gateway_handler \<Rightarrow> upstream \<Rightarrow> bool" where
  "goes_to h dst \<longleftrightarrow>
     (case dst of ToChat i \<Rightarrow> h = GChatHistory \<or> h = GChatWS | ToPresence \<Rightarrow> h = GPresence
      | ToNotification \<Rightarrow> h = GNotification | ToMedia \<Rightarrow> h = GMediaUpload)"

lemma handle_forwards:
  assumes "gateway_handle w h cx g = (g', Some (dst, r), resp)" "gateway_inv env target coll g"
  shows "goes_to h dst" "req_method r = req_method (cx_req cx)" "req_path r = req_path (cx_req cx)"
    "h \<in> {GNotification, GMediaUpload} \<Longrightarrow> req_header r = trusted_headers (g_GatewayKey (gw_cfg g)) cx"
    "h \<notin> {GNotification, GMediaUpload} \<Longrightarrow> r = set_request_id cx"
proof -
  have np: "NewTrustedProxy target (g_NotificationServiceURL (gw_cfg g)) (g_GatewayKey (gw_cfg g)) = Inr (gw_notification g)"
    and mp: "NewTrustedProxy target (g_MediaServiceURL (gw_cfg g)) (g_GatewayKey (gw_cfg g)) = Inr (gw_mediaUpload g)"
    and pp: "NewServiceProxy target (g_PresenceServiceURL (gw_cfg g)) = Inr (gw_presence g)"
    using assms(2) by (simp_all add: gateway_inv_def)
  have tn: "req_header (fst (gw_notification g fwd cx)) = trusted_headers (g_GatewayKey (gw_cfg g)) cx"
      "req_method (fst (gw_notification g fwd cx)) = req_method (cx_req cx)" "req_path (fst (gw_notification g fwd cx)) = req_path (cx_req cx)" for fwd
    using trusted_forwards [OF np, of fwd cx] by (metis prod.collapse)+
  have tm: "req_header (fst (gw_mediaUpload g fwd cx)) = trusted_headers (g_GatewayKey (gw_cfg g)) cx"
      "req_method (fst (gw_mediaUpload g fwd cx)) = req_method (cx_req cx)" "req_path (fst (gw_mediaUpload g fwd cx)) = req_path (cx_req cx)" for fwd
    using trusted_forwards [OF mp, of fwd cx] by (metis prod.collapse)+
  have tp: "fst (gw_presence g fwd cx) = set_request_id cx" for fwd
    using service_forwards [OF pp, of fwd cx] by (metis prod.collapse)
  have "goes_to h dst \<and> (case h of GNotification \<Rightarrow> r = fst (gw_notification g (w_up w ToNotification) cx)
      | GMediaUpload \<Rightarrow> r = fst (gw_mediaUpload g (w_up w ToMedia) cx) | _ \<Rightarrow> r = set_request_id cx)"
    using assms(1) tp
    by (cases h) (auto simp: gateway_handle_def goes_to_def forwarded_def chatHistoryProxy_def chatWSProxy_def split_beta
        dest!: BalancedProxy_sent)
  then show "goes_to h dst" "req_method r = req_method (cx_req cx)" "req_path r = req_path (cx_req cx)"
    "h \<in> {GNotification, GMediaUpload} \<Longrightarrow> req_header r = trusted_headers (g_GatewayKey (gw_cfg g)) cx"
    "h \<notin> {GNotification, GMediaUpload} \<Longrightarrow> r = set_request_id cx"
    using tn tm by (cases h; simp)+
qed

lemma WSTicket_ok:
  assumes "WSTicketMiddleware J secret now unix cx s = (s', Inr cx')"
  shows "\<exists>e tok. tickets s (Values_Get (req_query (cx_req cx)) ''ticket'') = Some e \<and> now \<le> te_expiresAt e \<and>
    GenerateToken J secret unix (te_userID e) (te_role e) = Inr tok \<and>
    s' = s\<lparr>tickets := (tickets s)(Values_Get (req_query (cx_req cx)) ''ticket'' := None)\<rparr> \<and>
    cx' = cx\<lparr>cx_req := (cx_req cx)\<lparr>req_header := Header_Set (req_header (cx_req cx)) ''Authorization'' (''Bearer '' @ tok),
      req_query := Values_Del (req_query (cx_req cx)) ''ticket''\<rparr>\<rparr>"
  using assms
  by (auto simp: WSTicketMiddleware_def TicketService_Redeem_def Let_def split: if_splits option.splits sum.splits prod.splits)

lemma forwarded_cases [consumes 2, case_names user ticket]:
  assumes "echo_router rfind" "gateway_serve rfind unrouted w cx g = (g', Some (dst, r), resp)"
  obtains (user) rt ps c where "routed rfind gateway_routes (cx_req cx) rt ps" "rt_guards rt = [JWTMiddleware]"
      "bearer (w_jwt w) (gw_secret g) (w_unix w) (cx_req cx) = Some c"
      "gateway_handle w (rt_handler rt) (with_claims w cx ps c) g = (g', Some (dst, r), resp)"
  | (ticket) ps s cx' where "routed rfind gateway_routes (cx_req cx) (on ''GET'' ''/ws'' [WSTicket] GChatWS) ps"
      "WSTicketMiddleware (w_jwt w) (gw_secret g) (w_now w) (w_unix w) ((RequestIDMiddleware (w_rid w) cx)\<lparr>cx_param := ps\<rparr>) (gw_tickets g) = (s, Inr cx')"
      "chatWSProxy w cx' (g\<lparr>gw_tickets := s\<rparr>) = (g', Some (dst, r), resp)"
proof -
  have "rfind (keys gateway_routes) (req_method (cx_req cx)) (req_path (cx_req cx)) \<noteq> None"
    using assms(2) by (intro notI) (simp add: gateway_serve_def serve_routes_def)
  then obtain rt ps where rt: "routed rfind gateway_routes (cx_req cx) rt ps"
    using echo_router.routed_some [OF assms(1) tables_no_wildcards(1), of "cx_req cx"] by auto
  then have "rt \<in> set gateway_routes" using echo_router.routed_matches [OF assms(1) tables_no_wildcards(1) rt] by blast
  then show thesis
  proof (cases rule: route_kinds)
    case ws
    obtain s res where m: "WSTicketMiddleware (w_jwt w) (gw_secret g) (w_now w) (w_unix w)
        ((RequestIDMiddleware (w_rid w) cx)\<lparr>cx_param := ps\<rparr>) (gw_tickets g) = (s, res)" by fastforce
    with serve_ws [OF rt _ _ m] ws assms(2) rt show ?thesis by (cases res) (auto intro: ticket)
  next
    case anyone
    then show ?thesis using serve_open [OF rt] public_forward_nothing [of "rt_handler rt"] assms(2) by (metis fst_conv option.discI snd_conv)
  next
    case guarded
    then show ?thesis
      using serve_guarded [OF rt guarded(3), where w = w and g = g and unrouted = unrouted] assms(2) rt by (auto split: option.splits intro: user)
  qed
qed

text \<open>For every proxied gateway route the service behind it has the same route, with the guard that fits.\<close>

definition serves_as :: "'h route list \<Rightarrow> guard list \<Rightarrow> gateway_handler route \<Rightarrow> bool" where
  "serves_as T gs rt \<longleftrightarrow> list_ex (\<lambda>x. rt_method x = rt_method rt \<and> rt_path x = rt_path rt \<and> rt_guards x = gs) T"

lemma behind_the_gateway:
  "list_all (\<lambda>rt. case rt_handler rt of
      GPresence \<Rightarrow> serves_as presence_routes [JWTMiddleware] rt
    | GNotification \<Rightarrow> serves_as notification_routes [GatewayAuth] rt
    | GMediaUpload \<Rightarrow> serves_as media_routes [GatewayAuth, BodyLimit] rt
    | GChatHistory \<Rightarrow> serves_as chat_routes [JWTMiddleware] rt
    | GChatWS \<Rightarrow> serves_as chat_routes [] rt
    | _ \<Rightarrow> True) gateway_routes"
  by code_simp

lemma lands_on:
  assumes "echo_router rfind" "echo_router rfind'" "no_wildcards (keys T)" "unambiguous (keys T)"
    and "routed rfind gateway_routes r0 rt ps" "serves_as T gs rt" "req_method r = req_method r0" "req_path r = req_path r0"
    and "routed rfind' T r rt' ps'"
  shows "rt_guards rt' = gs \<and> rt_path rt' = rt_path rt"
proof -
  obtain x where x: "x \<in> set T" "rt_method x = rt_method rt" "rt_path x = rt_path rt" "rt_guards x = gs"
    using assms(6) by (auto simp: serves_as_def list_ex_iff)
  have "rt' = x"
    by (rule same_route [OF assms(1,2) tables_no_wildcards(1) assms(3,4,5,9,7,8) x(1-3)])
  with x show ?thesis by simp
qed

section \<open>The life of a ticket\<close>

text \<open>
  What the gateway may do between the issue of ticket \<open>t\<close> and its use: serve requests that neither present
  \<open>t\<close> nor draw the same random bytes again, probe the backends, and sweep the tickets no later than \<open>until\<close>.
\<close>

definition spares :: "string \<Rightarrow> 'v world \<Rightarrow> echo_context \<Rightarrow> bool" where
  "spares t w cx \<longleftrightarrow> Values_Get (req_query (cx_req cx)) ''ticket'' \<noteq> t \<and>
     (case w_rand w of Inl _ \<Rightarrow> True | Inr b \<Rightarrow> hex_EncodeToString b \<noteq> t)"

inductive quiet :: "router \<Rightarrow> string \<Rightarrow> int \<Rightarrow> 'v gateway \<Rightarrow> 'v gateway \<Rightarrow> bool" for rfind t until g0 where
  at_once: "quiet rfind t until g0 g0"
| other_request: "quiet rfind t until g0 g \<Longrightarrow> spares t w cx \<Longrightarrow> quiet rfind t until g0 (fst (gateway_serve rfind unrouted w cx g))"
| probed: "quiet rfind t until g0 g \<Longrightarrow> quiet rfind t until g0 (gateway_health_tick probe_all g)"
| swept: "quiet rfind t until g0 g \<Longrightarrow> now \<le> until \<Longrightarrow> quiet rfind t until g0 (gateway_reap_tick now g)"

lemma guard_spares:
  assumes "spares t w cx" "gateway_guard w x cx g = (g', res)"
  shows "tickets (gw_tickets g') t = tickets (gw_tickets g) t"
  using assms
  by (cases x) (auto simp: gateway_guard_def spares_def WSTicketMiddleware_def TicketService_Redeem_def Let_def
      split: prod.splits if_splits option.splits sum.splits)

lemma run_guards_spare:
  assumes "spares t w cx" "run_guards (gateway_guard w) xs cx g = (g', res)" "length xs \<le> 1"
  shows "tickets (gw_tickets g') t = tickets (gw_tickets g) t"
proof (cases xs)
  case (Cons x ys)
  then show ?thesis using assms guard_spares [OF assms(1), of x g] by (auto split: prod.splits sum.splits)
qed (use assms in simp)

lemma handle_spares:
  assumes "spares t w cx0"
  shows "tickets (gw_tickets (fst (gateway_handle w h cx g))) t = tickets (gw_tickets g) t"
  using assms chatWSProxy_state [of w cx g]
  by (cases h) (auto simp: gateway_handle_def chatHistoryProxy_def TicketController_Issue_def TicketService_Issue_def spares_def Let_def
      split: prod.splits option.splits sum.splits)

lemma one_guard: "rt \<in> set gateway_routes \<Longrightarrow> length (rt_guards rt) \<le> 1"
  by (auto simp: gateway_routes_def)

lemma serve_spares:
  assumes "echo_router rfind" "spares t w cx"
  shows "tickets (gw_tickets (fst (gateway_serve rfind unrouted w cx g))) t = tickets (gw_tickets g) t"
proof (cases "rfind (keys gateway_routes) (req_method (cx_req cx)) (req_path (cx_req cx))")
  case None
  then show ?thesis by (simp add: gateway_serve_def serve_routes_def)
next
  case (Some a)
  then obtain rt ps where rt: "routed rfind gateway_routes (cx_req cx) rt ps"
    using echo_router.routed_some [OF assms(1) tables_no_wildcards(1), of "cx_req cx"] by auto
  let ?cx = "(RequestIDMiddleware (w_rid w) cx)\<lparr>cx_param := ps\<rparr>"
  have sp: "spares t w ?cx" using assms(2) by (simp add: spares_def)
  obtain g1 res where g1: "run_guards (gateway_guard w) (rt_guards rt) ?cx g = (g1, res)" by fastforce
  have t: "tickets (gw_tickets g1) t = tickets (gw_tickets g) t" by (rule run_guards_spare [OF sp g1 one_guard [OF routed_mem [OF rt]]])
  show ?thesis
    using t handle_spares [OF sp, of "rt_handler rt" _ g1] unfolding gateway_serve_routed [OF rt] g1 by (simp add: split_beta split: sum.split)
qed

lemma gateway_serve_wiring: "same_wiring (fst (gateway_serve rfind unrouted w cx g)) g"
proof (cases rule: gateway_serve_state [of rfind unrouted w cx g])
  case (kept s)
  then show ?thesis by (simp add: same_wiring_def)
next
  case (handled s h cx')
  have "same_wiring (fst (gateway_handle w h cx' (g\<lparr>gw_tickets := s\<rparr>))) (g\<lparr>gw_tickets := s\<rparr>)" by (rule gateway_handle_wiring)
  then show ?thesis using handled by (simp add: same_wiring_def)
qed

lemma quiet_keeps:
  assumes "quiet rfind t until g0 g" "echo_router rfind" "tickets (gw_tickets g0) t = Some e" "until \<le> te_expiresAt e"
  shows "tickets (gw_tickets g) t = Some e \<and> gw_cfg g = gw_cfg g0 \<and> gw_ring g = gw_ring g0 \<and>
    map be_Host (backends (gw_pool g)) = map be_Host (backends (gw_pool g0))"
  using assms(1)
proof induction
  case at_once
  show ?case using assms(3) by simp
next
  case (other_request g w cx unrouted)
  have k: "tickets (gw_tickets (fst (gateway_serve rfind unrouted w cx g))) t = tickets (gw_tickets g) t"
    by (rule serve_spares [OF assms(2) other_request.hyps(2)])
  have "same_wiring (fst (gateway_serve rfind unrouted w cx g)) g" by (rule gateway_serve_wiring)
  then show ?case using k other_request.IH by (simp add: same_wiring_def)
next
  case (probed g probe_all)
  then show ?case using hosts_Pool_Check [of probe_all "gw_pool g"] by (simp add: gateway_health_tick_def)
next
  case (swept g now)
  then show ?case using assms(4) by (simp add: gateway_reap_tick_def TicketService_reapOnce_def)
qed

text \<open>The two requests of a session: drawing a ticket and presenting it.\<close>

lemma issue_serves:
  assumes "echo_router rfind" "req_method (cx_req cx) = ''POST''" "req_path (cx_req cx) = ''/ws-ticket''"
    and "bearer (w_jwt w) (gw_secret g) (w_unix w) (cx_req cx) = Some c" "w_rand w = Inr b"
  shows "\<exists>resp. gateway_serve rfind unrouted w cx g =
      (g\<lparr>gw_tickets := (gw_tickets g)\<lparr>tickets := (tickets (gw_tickets g))(hex_EncodeToString b \<mapsto>
         \<lparr>te_userID = UserID c, te_role = Role c, te_expiresAt = w_now w + TicketTTL\<rparr>)\<rparr>\<rparr>, None, resp) \<and>
    resp_status resp = 201 \<and> resp_body resp = JSON (TicketJSON \<lparr>tr_Ticket = hex_EncodeToString b, tr_ExpiresIn = 30\<rparr>)"
proof -
  let ?rt = "on ''POST'' ''/ws-ticket'' [JWTMiddleware] GTicketIssue"
  obtain ps where rt: "routed rfind gateway_routes (cx_req cx) ?rt ps"
    using echo_router.routed_static [OF assms(1) tables_no_wildcards(1) tables_unambiguous(1), of ?rt "cx_req cx"] assms(2,3)
    by (auto simp: gateway_routes_def)
  have "gateway_serve rfind unrouted w cx g = gateway_handle w GTicketIssue (with_claims w cx ps c) g"
    using serve_guarded [OF rt, where w = w and g = g and unrouted = unrouted] assms(4) by simp
  then show ?thesis
    by (simp add: gateway_handle_def TicketController_Issue_def TicketService_Issue_def Let_def assms(5) TicketTTL_def lift_response_def reply_def respond_def)
qed

lemma ws_serves:
  assumes "echo_router rfind" "req_method (cx_req cx) = ''GET''" "req_path (cx_req cx) = ''/ws''"
    and "Values_Get (req_query (cx_req cx)) ''ticket'' = t" "t \<noteq> ''''" "tickets (gw_tickets g) t = Some e" "w_now w \<le> te_expiresAt e"
    and "GenerateToken (w_jwt w) (gw_secret g) (w_unix w) (te_userID e) (te_role e) = Inr tok"
    and "ch_key (gw_ring g) = RoomKey" "lookup (gw_ring g) (RoomKey (cx_req cx)) = Some i" "i < length (backends (gw_pool g))"
  shows "\<exists>sent resp. gateway_serve rfind unrouted w cx g =
      (g\<lparr>gw_tickets := (gw_tickets g)\<lparr>tickets := (tickets (gw_tickets g))(t := None)\<rparr>\<rparr>, sent, resp) \<and>
    (if be_healthy (backends (gw_pool g) ! i)
     then \<exists>r. sent = Some (ToChat i, r) \<and> req_method r = ''GET'' \<and> req_path r = ''/ws'' \<and>
       Header_Get (req_header r) ''Authorization'' = ''Bearer '' @ tok \<and> req_query r = Values_Del (req_query (cx_req cx)) ''ticket'' \<and>
       Header_Get (req_header r) ''Origin'' = Header_Get (req_header (cx_req cx)) ''Origin''
     else sent = None \<and> resp_status resp = 503)"
proof -
  let ?rt = "on ''GET'' ''/ws'' [WSTicket] GChatWS"
  obtain ps where rt: "routed rfind gateway_routes (cx_req cx) ?rt ps"
    using echo_router.routed_static [OF assms(1) tables_no_wildcards(1) tables_unambiguous(1), of ?rt "cx_req cx"] assms(2,3)
    by (auto simp: gateway_routes_def)
  let ?cx = "(RequestIDMiddleware (w_rid w) cx)\<lparr>cx_param := ps\<rparr>"
  let ?s = "(gw_tickets g)\<lparr>tickets := (tickets (gw_tickets g))(t := None)\<rparr>"
  let ?r = "(cx_req cx)\<lparr>req_header := Header_Set (req_header (cx_req cx)) ''Authorization'' (''Bearer '' @ tok),
      req_query := Values_Del (req_query (cx_req cx)) ''ticket''\<rparr>"
  define cx' where "cx' = ?cx\<lparr>cx_req := ?r\<rparr>"
  have m: "WSTicketMiddleware (w_jwt w) (gw_secret g) (w_now w) (w_unix w) ?cx (gw_tickets g) = (?s, Inr cx')"
    using assms(4-8) by (simp add: WSTicketMiddleware_def TicketService_Redeem_def Let_def cx'_def)
  have serve: "gateway_serve rfind unrouted w cx g = chatWSProxy w cx' (g\<lparr>gw_tickets := ?s\<rparr>)"
    using serve_ws [OF rt _ _ m] by simp
  have key: "RoomKey (set_request_id cx') = RoomKey (cx_req cx)" by (simp add: cx'_def RoomKey_def Values_Del_def Values_Get_def)
  have pick: "ConsistentHash_Pick (gw_ring g) (gw_pool g) (set_request_id cx') =
      (gw_ring g, if be_healthy (backends (gw_pool g) ! i) then Inr i else Inl (ErrBackendDown (RoomKey (cx_req cx)) i))"
    by (simp add: ConsistentHash_Pick_def assms(9,10) key Let_def)
  have canon: "CanonicalHeaderKey ''X-Request-ID'' \<noteq> CanonicalHeaderKey ''Authorization''"
    "CanonicalHeaderKey ''X-Request-ID'' \<noteq> CanonicalHeaderKey ''Origin''" "CanonicalHeaderKey ''Authorization'' \<noteq> CanonicalHeaderKey ''Origin''"
    by code_simp+
  have hd: "Header_Get (req_header (set_request_id cx')) ''Authorization'' = ''Bearer '' @ tok"
    "Header_Get (req_header (set_request_id cx')) ''Origin'' = Header_Get (req_header (cx_req cx)) ''Origin''"
    using canon by (simp_all add: set_request_id_def Let_def Header_Get_def Header_Set_def cx'_def)
  have line: "req_method (cx_req cx') = ''GET''" "req_path (cx_req cx') = ''/ws''" "req_query (cx_req cx') = Values_Del (req_query (cx_req cx)) ''ticket''"
    using assms(2,3) by (simp_all add: cx'_def)
  show ?thesis
    unfolding serve using assms(11) hd line by (simp add: chatWSProxy_def BalancedProxy_def pick Let_def respondUnavailable_def)
qed

lemma forwarded_route:
  assumes "echo_router rfind" "gateway_inv env target coll g" "gateway_serve rfind unrouted w cx g = (g', Some (dst, r), resp)"
  obtains rt ps where "routed rfind gateway_routes (cx_req cx) rt ps" "rt \<in> set gateway_routes" "goes_to (rt_handler rt) dst"
      "req_method r = req_method (cx_req cx)" "req_path r = req_path (cx_req cx)"
  using assms(1,3)
proof (cases rule: forwarded_cases)
  case (user rt ps c)
  then show ?thesis
    using that [of rt ps] handle_forwards [OF user(4) assms(2)] routed_mem [OF user(1)] by simp
next
  case (ticket ps s cx')
  let ?rt = "on ''GET'' ''/ws'' [WSTicket] GChatWS"
  have inv': "gateway_inv env target coll (g\<lparr>gw_tickets := s\<rparr>)" using assms(2) by (simp add: gateway_inv_def)
  have h: "gateway_handle w GChatWS cx' (g\<lparr>gw_tickets := s\<rparr>) = (g', Some (dst, r), resp)" using ticket(3) by (simp add: gateway_handle_def)
  have "req_method (cx_req cx') = req_method (cx_req cx)" "req_path (cx_req cx') = req_path (cx_req cx)"
    using WSTicket_ok [OF ticket(2)] by auto
  then show ?thesis using that [of ?rt ps] handle_forwards [OF h inv'] routed_mem [OF ticket(1)] ticket(1) by simp
qed

text \<open>Where a forwarded request lands in the service it goes to.\<close>

lemma forwarded_lands:
  assumes "echo_router rfind" "echo_router rfind'" "gateway_inv env target coll g"
    and "gateway_serve rfind unrouted w cx g = (g', Some (dst, r), resp)"
  shows "case dst of
      ToPresence \<Rightarrow> \<forall>rt ps. routed rfind' presence_routes r rt ps \<longrightarrow> rt_guards rt = [JWTMiddleware] \<and> rt_handler rt \<in> {PGetRoom, PListRooms}
    | ToNotification \<Rightarrow> \<forall>rt ps. routed rfind' notification_routes r rt ps \<longrightarrow> rt_guards rt = [GatewayAuth] \<and> rt_handler rt \<noteq> NMessage
    | ToMedia \<Rightarrow> \<forall>rt ps. routed rfind' media_routes r rt ps \<longrightarrow> rt_handler rt = MUpload \<and> rt_guards rt = [GatewayAuth, BodyLimit]
    | ToChat i \<Rightarrow> \<forall>rt ps. routed rfind' chat_routes r rt ps \<longrightarrow> rt_handler rt \<in> {CListByRoom, CServe}"
proof -
  have tables: "\<And>x. x \<in> set presence_routes \<Longrightarrow> rt_guards x = [JWTMiddleware] \<Longrightarrow> rt_handler x \<in> {PGetRoom, PListRooms}"
    "\<And>x. x \<in> set notification_routes \<Longrightarrow> rt_guards x = [GatewayAuth] \<Longrightarrow> rt_handler x \<noteq> NMessage"
    "\<And>x. x \<in> set media_routes \<Longrightarrow> rt_guards x = [GatewayAuth, BodyLimit] \<Longrightarrow> rt_handler x = MUpload"
    "\<And>x. x \<in> set chat_routes \<Longrightarrow> rt_path x \<in> {''/rooms/:room/messages'', ''/ws''} \<Longrightarrow> rt_handler x \<in> {CListByRoom, CServe}"
    by (auto simp: presence_routes_def notification_routes_def media_routes_def chat_routes_def)
  obtain rt ps where rt: "routed rfind gateway_routes (cx_req cx) rt ps" "rt \<in> set gateway_routes" "goes_to (rt_handler rt) dst"
      "req_method r = req_method (cx_req cx)" "req_path r = req_path (cx_req cx)"
    by (rule forwarded_route [OF assms(1,3,4)])
  note same = rt(4,5)
  note land = lands_on [OF assms(1,2) _ _ rt(1) _ same]
  have sv: "case rt_handler rt of
      GPresence \<Rightarrow> serves_as presence_routes [JWTMiddleware] rt
    | GNotification \<Rightarrow> serves_as notification_routes [GatewayAuth] rt
    | GMediaUpload \<Rightarrow> serves_as media_routes [GatewayAuth, BodyLimit] rt
    | GChatHistory \<Rightarrow> serves_as chat_routes [JWTMiddleware] rt
    | GChatWS \<Rightarrow> serves_as chat_routes [] rt
    | _ \<Rightarrow> True"
    using behind_the_gateway rt(2) unfolding list_all_iff by blast
  have chat: "rt_path rt \<in> {''/rooms/:room/messages'', ''/ws''}" if "rt_handler rt = GChatHistory \<or> rt_handler rt = GChatWS"
    using rt(2) that by (auto simp: gateway_routes_def)
  show ?thesis
  proof (cases dst)
    case (ToChat i)
    then have h: "rt_handler rt = GChatHistory \<or> rt_handler rt = GChatWS" using rt(3) by (simp add: goes_to_def)
    then have "\<exists>gs. serves_as chat_routes gs rt" using sv by auto
    then have "rt_path rt' = rt_path rt" if "routed rfind' chat_routes r rt' ps'" for rt' ps'
      using land [OF tables_no_wildcards(2) tables_unambiguous(2) _ that] by blast
    then show ?thesis using ToChat tables(4) [OF routed_mem] chat [OF h] by auto
  next
    case ToPresence
    then have "serves_as presence_routes [JWTMiddleware] rt" using rt(3) sv by (simp add: goes_to_def)
    then show ?thesis
      using ToPresence land [OF tables_no_wildcards(3) tables_unambiguous(3)] tables(1) [OF routed_mem] by auto
  next
    case ToNotification
    then have "serves_as notification_routes [GatewayAuth] rt" using rt(3) sv by (simp add: goes_to_def)
    then show ?thesis
      using ToNotification land [OF tables_no_wildcards(4) tables_unambiguous(4)] tables(2) [OF routed_mem] by auto
  next
    case ToMedia
    then have "serves_as media_routes [GatewayAuth, BodyLimit] rt" using rt(3) sv by (simp add: goes_to_def)
    then show ?thesis
      using ToMedia land [OF tables_no_wildcards(5) tables_unambiguous(5)] tables(3) [OF routed_mem] by auto
  qed
qed

section \<open>Properties\<close>

text \<open>
  C25: every state of a running gateway is well formed.  After start-up and any requests, health sweeps and ticket sweeps,
  in any order: the pool is not empty and names no host twice, every room key has an instance of the pool on the ring,
  user ids and (collated) emails are unique, both secrets are non-empty, and the edge cache keeps within its configured
  bytes (a limit below \<^verbatim>\<open>2^62\<close>).
\<close>

theorem gateway_well_formed:
  assumes "gateway_reach env host target srt coll rfind g" "sorts_ring srt"
  shows "backends (gw_pool g) \<noteq> [] \<and> distinct (map be_Host (backends (gw_pool g))) \<and>
    (\<forall>key. \<exists>i < length (backends (gw_pool g)). lookup (gw_ring g) key = Some i) \<and>
    distinct (map u_ID (ut_rows (gw_users g))) \<and> distinct (map (\<lambda>r. coll (u_Email r)) (ut_rows (gw_users g))) \<and>
    gw_secret g \<noteq> '''' \<and> g_GatewayKey (gw_cfg g) \<noteq> '''' \<and>
    (g_EdgeCacheMaxBytes (gw_cfg g) < 2 ^ 62 \<longrightarrow>
      lru_size (cache_abs (h_cache (gw_edge g))) \<le> g_EdgeCacheMaxBytes (gw_cfg g))"
proof -
  note I = gateway_reach_inv [OF assms, unfolded gateway_inv_def]
  have "\<exists>i < length (backends (gw_pool g)). lookup (gw_ring g) key = Some i" for key
    using I lookup_Some [of "gw_ring g" key] by (auto simp: ch_inv_def)
  moreover have "g_JWTSecret cfg \<noteq> '''' \<and> g_GatewayKey cfg \<noteq> ''''" if "gateway_LoadConfig env = Inr cfg" for cfg
    using that by (auto simp: gateway_LoadConfig_def ok_iff)
  moreover have "lru_size (cache_abs (h_cache (gw_edge g))) \<le> g_EdgeCacheMaxBytes (gw_cfg g)" if "g_EdgeCacheMaxBytes (gw_cfg g) < 2 ^ 62"
    using I that cache_wf_used [of "h_cache (gw_edge g)"] by (auto simp: cache_inv_def)
  ultimately show ?thesis using I by (simp add: users_inv_def)
qed

text \<open>
  C5: whoever reaches a service through the gateway has authenticated.  Whatever state the gateway is in and
  whatever the request looks like, if serving it forwards a request to a service behind the gateway, then
  the incoming request carried a Bearer token the gateway's check accepts, or it is the WebSocket route and presented
  a ticket that was issued, not yet redeemed and not expired; in the second case it goes to chat-service.
\<close>

theorem forwarded_authenticated:
  assumes "echo_router rfind" "gateway_serve rfind unrouted w cx g = (g', Some (dst, r), resp)"
  shows "(\<exists>c. bearer (w_jwt w) (gw_secret g) (w_unix w) (cx_req cx) = Some c) \<or>
    (\<exists>i e. dst = ToChat i \<and> req_method (cx_req cx) = ''GET'' \<and> req_path (cx_req cx) = ''/ws'' \<and>
       tickets (gw_tickets g) (Values_Get (req_query (cx_req cx)) ''ticket'') = Some e \<and> w_now w \<le> te_expiresAt e \<and>
       tickets (gw_tickets g') (Values_Get (req_query (cx_req cx)) ''ticket'') = None)"
  using assms
proof (cases rule: forwarded_cases)
  case (ticket ps s cx')
  have line: "req_method (cx_req cx) = ''GET''" "req_path (cx_req cx) = ''/ws''"
    using echo_router.routed_matches [OF assms(1) tables_no_wildcards(1) ticket(1)] by (auto simp: expand.simps)
  have "g' = g\<lparr>gw_tickets := s\<rparr>" using chatWSProxy_state [of w cx' "g\<lparr>gw_tickets := s\<rparr>"] ticket(3) by simp
  moreover have "\<exists>i. dst = ToChat i" using ticket(3) by (auto simp: chatWSProxy_def split: prod.splits)
  ultimately show ?thesis using line WSTicket_ok [OF ticket(2)] by auto
qed simp

text \<open>
  C8: the internal endpoints cannot be reached from outside.  A request the gateway forwards, whatever its path
  and parameters, is only ever served by the end-user routes of the service it goes to: at
  presence-service behind the token check (never \<^verbatim>\<open>/events\<close>, \<^verbatim>\<open>/heartbeat\<close> or \<^verbatim>\<open>/internal/presence/:room\<close>), at
  notification-service and media-service behind the gateway key (never \<^verbatim>\<open>/events/message\<close>), at chat-service the
  history and the WebSocket route, and always on the pattern the gateway itself matched.
\<close>

theorem internal_routes_unreachable:
  assumes "echo_router rfind" "echo_router rfind'" "gateway_reach env host target srt coll rfind g" "sorts_ring srt"
    and "gateway_serve rfind unrouted w cx g = (g', Some (dst, r), resp)"
  shows "case dst of
      ToPresence \<Rightarrow> \<forall>rt ps. routed rfind' presence_routes r rt ps \<longrightarrow> rt_guards rt = [JWTMiddleware] \<and> rt_handler rt \<in> {PGetRoom, PListRooms}
    | ToNotification \<Rightarrow> \<forall>rt ps. routed rfind' notification_routes r rt ps \<longrightarrow> rt_guards rt = [GatewayAuth] \<and> rt_handler rt \<noteq> NMessage
    | ToMedia \<Rightarrow> \<forall>rt ps. routed rfind' media_routes r rt ps \<longrightarrow> rt_handler rt = MUpload \<and> rt_guards rt = [GatewayAuth, BodyLimit]
    | ToChat i \<Rightarrow> \<forall>rt ps. routed rfind' chat_routes r rt ps \<longrightarrow> rt_handler rt \<in> {CListByRoom, CServe}"
  using forwarded_lands [OF assms(1,2) gateway_reach_inv [OF assms(3,4)] assms(5)] .

text \<open>A gateway with its default upstreams, one user's token, and a world to serve requests in.\<close>

definition ex_start :: "startup_exit + nat gateway" where
  "ex_start = gateway_start all_keys (\<lambda>dsn. Inr empty_users) (\<lambda>db. Inr ()) (\<lambda>u. Inr u) (\<lambda>u. Inr u) (sort_key rp_hash) (\<lambda>b. Inr 200)"

definition ex_gateway :: "nat gateway" where
  "ex_gateway = (case ex_start of Inr g \<Rightarrow> g)"

definition ex_world :: "nat world" where
  "ex_world =
     \<lparr>w_jwt = one_token \<lparr>cl_user_id = 42, cl_role = ''user'', cl_exp = 86500\<rparr> ''s'', w_now = 100 * 10 ^ 9, w_rid = ''b'', w_rand = Inr ''ab'',
      w_parses = (\<lambda>_. True), w_bcrypt = plain_bcrypt, w_db = up, w_bind = None,
      w_up = (\<lambda>u r. Inr (respond 200 NoBody)), w_origin = (\<lambda>n u r. Inl (External ''down''))\<rparr>"

definition ex_request :: "string \<Rightarrow> string \<Rightarrow> echo_context" where
  "ex_request m p =
     (bearer_context ''tok'')\<lparr>cx_req := (cx_req (bearer_context ''tok''))\<lparr>req_method := m, req_path := p\<rparr>\<rparr>"

lemma ex_started: "ex_start = Inr ex_gateway" "gw_secret ex_gateway = ''s''" "list_all be_healthy (backends (gw_pool ex_gateway))" "gw_users ex_gateway = empty_users"
proof -
  have req: "requireEnv all_keys ''JWT_SECRET'' = Inr ''s''" "requireEnv all_keys ''GATEWAY_SHARED_KEY'' = Inr ''g''"
    "all_keys ''CHAT_SERVICE_URLS'' = None" by (simp_all add: requireEnv_def all_keys_def)
  obtain g where g: "ex_start = Inr g" "gw_secret g = ''s''" "list_all be_healthy (backends (gw_pool g))" "gw_users g = empty_users"
    by (simp add: ex_start_def gateway_start_def gateway_LoadConfig_def req getEnvList_def NewPool_def NewBackend_def
        NewServiceProxy_def NewTrustedProxy_def gateway_NewDatabase_def connect_def Let_def Pool_Start_def Pool_Check_eq checked_def probe_def list_all_iff)
  have e: "ex_gateway = g" unfolding ex_gateway_def g(1) by simp
  show "ex_start = Inr ex_gateway" "gw_secret ex_gateway = ''s''" "list_all be_healthy (backends (gw_pool ex_gateway))" "gw_users ex_gateway = empty_users"
    unfolding e by (rule g)+
qed

lemma ex_users: "users_inv id (gw_users ex_gateway)"
  by (simp add: ex_started users_inv_def empty_users_def)

lemma ex_reach: "gateway_reach all_keys (\<lambda>u. Inr u) (\<lambda>u. Inr u) (sort_key rp_hash) id rfind ex_gateway"
  by (rule gateway_reach.started [OF ex_started(1) [unfolded ex_start_def] ex_users])

lemma ex_bearer: "bearer (w_jwt ex_world) ''s'' (w_unix ex_world) (cx_req (ex_request m p)) = Some \<lparr>UserID = 42, Role = ''user''\<rparr>"
proof -
  have tok: "TrimPrefix ''Bearer tok'' ''Bearer '' = ''tok''" using TrimPrefix_append [of "''Bearer ''" "''tok''"] by simp
  have "GenerateToken (w_jwt ex_world) ''s'' 100 42 ''user'' = Inr ''tok''"
    by (simp add: GenerateToken_def ex_world_def one_token_def)
  then have "chat_ValidateToken (w_jwt ex_world) ''s'' (w_unix ex_world) ''tok'' = Inr \<lparr>UserID = int64_of_float (float64_of_int 42), Role = ''user''\<rparr>"
    using ValidateToken_signed [of "w_jwt ex_world" "''s''" 100 42 "''user''" "''tok''" "w_unix ex_world"] one_token_sound
    by (simp add: ex_world_def w_unix_def)
  then show ?thesis
    by (simp add: bearer_def ex_request_def bearer_context_def Let_def tok int64_of_float_exact)
qed

lemma ex_forward:
  "\<exists>r resp. gateway_serve first_match (\<lambda>cx. respond 404 NoBody) ex_world (ex_request ''GET'' ''/rooms'') ex_gateway =
     (ex_gateway, Some (ToPresence, r), resp) \<and> req_path r = ''/rooms'' \<and> req_method r = ''GET''"
proof -
  let ?rt = "on ''GET'' ''/rooms'' [JWTMiddleware] GPresence"
  have line: "req_method (cx_req (ex_request ''GET'' ''/rooms'')) = ''GET''" "req_path (cx_req (ex_request ''GET'' ''/rooms'')) = ''/rooms''"
    by (simp_all add: ex_request_def)
  obtain ps where rt: "routed first_match gateway_routes (cx_req (ex_request ''GET'' ''/rooms'')) ?rt ps"
    using fm.routed_static [OF tables_no_wildcards(1) tables_unambiguous(1), of ?rt "cx_req (ex_request ''GET'' ''/rooms'')"] line
    by (auto simp: gateway_routes_def)
  let ?c = "\<lparr>UserID = 42, Role = ''user''\<rparr>"
  have s: "gateway_serve first_match (\<lambda>cx. respond 404 NoBody) ex_world (ex_request ''GET'' ''/rooms'') ex_gateway =
      gateway_handle ex_world GPresence (with_claims ex_world (ex_request ''GET'' ''/rooms'') ps ?c) ex_gateway"
    using serve_guarded [OF rt, where w = ex_world and g = ex_gateway and unrouted = "\<lambda>cx. respond 404 NoBody"] by (simp add: ex_started ex_bearer)
  obtain r resp where h: "gateway_handle ex_world GPresence (with_claims ex_world (ex_request ''GET'' ''/rooms'') ps ?c) ex_gateway =
      (ex_gateway, Some (ToPresence, r), resp)" by (simp add: gateway_handle_def forwarded_def)
  have "gateway_inv all_keys (\<lambda>u. Inr u) id ex_gateway" by (rule gateway_reach_inv [OF ex_reach sorts_ring_sort_key])
  from handle_forwards(2,3) [OF h this] s h line show ?thesis by simp
qed

theorem forwarded_authenticated_witness:
  "\<exists>c. bearer (w_jwt ex_world) (gw_secret ex_gateway) (w_unix ex_world) (cx_req (ex_request ''GET'' ''/rooms'')) = Some c"
proof -
  obtain r resp where "gateway_serve first_match (\<lambda>cx. respond 404 NoBody) ex_world (ex_request ''GET'' ''/rooms'') ex_gateway =
     (ex_gateway, Some (ToPresence, r), resp)" using ex_forward by blast
  from forwarded_authenticated [OF fm.echo_router_axioms this] show ?thesis by auto
qed

theorem internal_routes_unreachable_witness:
  "\<exists>r rt ps. req_path r = ''/rooms'' \<and> routed first_match presence_routes r rt ps \<and> rt_guards rt = [JWTMiddleware]"
proof -
  obtain r resp where f: "gateway_serve first_match (\<lambda>cx. respond 404 NoBody) ex_world (ex_request ''GET'' ''/rooms'') ex_gateway =
     (ex_gateway, Some (ToPresence, r), resp)" and line: "req_path r = ''/rooms''" "req_method r = ''GET''" using ex_forward by blast
  obtain ps where "routed first_match presence_routes r (on ''GET'' ''/rooms'' [JWTMiddleware] PListRooms) ps"
    using fm.routed_static [OF tables_no_wildcards(3) tables_unambiguous(3), of "on ''GET'' ''/rooms'' [JWTMiddleware] PListRooms" r] line
    by (auto simp: presence_routes_def)
  with internal_routes_unreachable [OF fm.echo_router_axioms fm.echo_router_axioms ex_reach sorts_ring_sort_key f] line
  show ?thesis by auto
qed

theorem gateway_well_formed_witness:
  "backends (gw_pool ex_gateway) \<noteq> [] \<and> (\<exists>i < length (backends (gw_pool ex_gateway)). lookup (gw_ring ex_gateway) ''general'' = Some i)"
  using gateway_well_formed [OF ex_reach sorts_ring_sort_key] by blast

end
