(* ===== verification/Presence.thy ===== *)
theory Presence
  imports Validation "HOL-Library.AList" "HOL-Library.Char_ord" "HOL-Library.List_Lexorder"
begin

text \<open>
  presence-service: \<^verbatim>\<open>repository/presence_repository.go\<close>, \<^verbatim>\<open>service/presence_service.go\<close>,
  \<^verbatim>\<open>controller/presence_controller.go\<close> and \<^verbatim>\<open>domain/presence.go\<close>.  The Redis commands the repository sends
  are given their documented meaning on a store of sorted sets: members with integer scores
  (milliseconds) and an optional expiry time of the whole key.  Time is an argument in milliseconds;
  the TTL is in seconds.  A failure of Redis itself is the argument \<open>down\<close>.
\<close>

section \<open>Sorted sets with expiry\<close>

record zkey =
  zk_members :: "(string \<times> int) list"
  zk_expire :: "int option"

type_synonym redis = "string \<Rightarrow> zkey"

definition no_key :: zkey where
  "no_key = \<lparr>zk_members = [], zk_expire = None\<rparr>"

definition key_expired :: "int \<Rightarrow> zkey \<Rightarrow> bool" where
  "key_expired now z \<longleftrightarrow> (case zk_expire z of None \<Rightarrow> False | Some t \<Rightarrow> t \<le> now)"

text \<open>The key as a command at time \<open>now\<close> sees it: an expired or empty key does not exist.\<close>

definition zget :: "int \<Rightarrow> redis \<Rightarrow> string \<Rightarrow> zkey" where
  "zget now db key = (if key_expired now (db key) \<or> zk_members (db key) = [] then no_key else db key)"

definition ZADD :: "int \<Rightarrow> string \<Rightarrow> (string \<times> int) list \<Rightarrow> redis \<Rightarrow> redis" where
  "ZADD now key ms db =
     (let z = zget now db key
      in db(key := z\<lparr>zk_members := fold (\<lambda>(m, sc). AList.update m sc) ms (zk_members z)\<rparr>))"

definition EXPIRE :: "int \<Rightarrow> string \<Rightarrow> int \<Rightarrow> redis \<Rightarrow> redis" where
  "EXPIRE now key secs db =
     (let z = zget now db key
      in if zk_members z = [] then db(key := z)
         else if secs \<le> 0 then db(key := no_key)
         else db(key := z\<lparr>zk_expire := Some (now + secs * 1000)\<rparr>))"

definition ZREM :: "int \<Rightarrow> string \<Rightarrow> string \<Rightarrow> redis \<Rightarrow> redis" where
  "ZREM now key m db =
     (let z = zget now db key in db(key := z\<lparr>zk_members := AList.delete m (zk_members z)\<rparr>))"

definition ZCARD :: "int \<Rightarrow> string \<Rightarrow> redis \<Rightarrow> nat" where
  "ZCARD now key db = length (zk_members (zget now db key))"

text \<open>\<^verbatim>\<open>ZREMRANGEBYSCORE key -inf (max\<close> and \<^verbatim>\<open>ZRANGEBYSCORE key min +inf\<close>.\<close>

definition ZREMRANGEBYSCORE_below :: "int \<Rightarrow> string \<Rightarrow> int \<Rightarrow> redis \<Rightarrow> redis" where
  "ZREMRANGEBYSCORE_below now key lim db =
     (let z = zget now db key in db(key := z\<lparr>zk_members := filter (\<lambda>x. \<not> snd x < lim) (zk_members z)\<rparr>))"

definition ZRANGEBYSCORE_from :: "int \<Rightarrow> string \<Rightarrow> int \<Rightarrow> redis \<Rightarrow> string list" where
  "ZRANGEBYSCORE_from now key lim db =
     map fst (sort_key snd (filter (\<lambda>x. lim \<le> snd x) (zk_members (zget now db key))))"

section \<open>presence_repository.go\<close>

definition member :: "int \<Rightarrow> string \<Rightarrow> string" where
  "member userID instanceID = FormatInt userID @ '':'' @ instanceID"

definition roomKey :: "string \<Rightarrow> string" where
  "roomKey room = ''presence:room:'' @ room"

definition roomsIndexKey :: string where
  "roomsIndexKey = ''presence:rooms''"

definition expiryMillis :: "int \<Rightarrow> int \<Rightarrow> int" where
  "expiryMillis ttl now = now + ttl * 1000"

definition touchRoomIndex :: "int \<Rightarrow> int \<Rightarrow> string \<Rightarrow> int \<Rightarrow> redis \<Rightarrow> redis" where
  "touchRoomIndex ttl now room expiry db =
     EXPIRE now roomsIndexKey (2 * ttl) (ZADD now roomsIndexKey [(room, expiry)] db)"

text \<open>A failed pipeline changes nothing: it is one \<^verbatim>\<open>MULTI/EXEC\<close> transaction.\<close>

definition SetOnline :: "bool \<Rightarrow> int \<Rightarrow> int \<Rightarrow> string \<Rightarrow> int \<Rightarrow> string \<Rightarrow> redis \<Rightarrow> redis \<times> unit result" where
  "SetOnline down ttl now room userID instanceID db =
     (if down then (db, Inl (External ''redis''))
      else
        (let key = roomKey room;
             expiry = expiryMillis ttl now;
             db1 = ZADD now key [(member userID instanceID, expiry)] db;
             db2 = EXPIRE now key (2 * ttl) db1
         in (touchRoomIndex ttl now room expiry db2, Inr ())))"

definition SetOffline :: "bool \<Rightarrow> int \<Rightarrow> int \<Rightarrow> string \<Rightarrow> int \<Rightarrow> string \<Rightarrow> redis \<Rightarrow> redis \<times> unit result" where
  "SetOffline down ttl now room userID instanceID db =
     (if down then (db, Inl (External ''redis''))
      else
        (let db1 = ZREM now (roomKey room) (member userID instanceID) db
         in if ZCARD now (roomKey room) db1 = 0 then (ZREM now roomsIndexKey room db1, Inr ())
            else (EXPIRE now (roomKey room) (2 * ttl) db1, Inr ())))"

definition Refresh :: "bool \<Rightarrow> int \<Rightarrow> int \<Rightarrow> string \<Rightarrow> string \<Rightarrow> int list \<Rightarrow> redis \<Rightarrow> redis \<times> unit result" where
  "Refresh down ttl now room instanceID userIDs db =
     (if userIDs = [] then (db, Inr ())
      else if down then (db, Inl (External ''redis''))
      else
        (let key = roomKey room;
             expiry = expiryMillis ttl now;
             db1 = ZADD now key (map (\<lambda>u. (member u instanceID, expiry)) userIDs) db;
             db2 = EXPIRE now key (2 * ttl) db1
         in (touchRoomIndex ttl now room expiry db2, Inr ())))"

definition pruneAndRead :: "int \<Rightarrow> string \<Rightarrow> redis \<Rightarrow> redis \<times> string list" where
  "pruneAndRead now key db =
     (let db1 = ZREMRANGEBYSCORE_below now key now db in (db1, ZRANGEBYSCORE_from now key now db1))"

fun collapse_loop :: "string list \<Rightarrow> int list \<Rightarrow> int list result" where
  "collapse_loop [] userIDs = Inr userIDs"
| "collapse_loop (m # ms) userIDs =
     (case ParseInt (Cut_before m (CHR '':'')) of
        None \<Rightarrow> Inl (Errorf ''malformed presence member'')
      | Some userID \<Rightarrow>
          if userID \<in> set userIDs then collapse_loop ms userIDs else collapse_loop ms (userIDs @ [userID]))"

definition collapseUsers :: "string list \<Rightarrow> int list result" where
  "collapseUsers raw = bind_result (collapse_loop raw []) (\<lambda>ids. Inr (sort ids))"

definition ListOnline :: "bool \<Rightarrow> int \<Rightarrow> string \<Rightarrow> redis \<Rightarrow> redis \<times> int list result" where
  "ListOnline down now room db =
     (if down then (db, Inl (External ''redis''))
      else (let (db1, raw) = pruneAndRead now (roomKey room) db in (db1, collapseUsers raw)))"

record RoomCount =
  rc_Name :: string
  rc_Count :: nat

fun read_rooms :: "int \<Rightarrow> string list \<Rightarrow> redis \<Rightarrow> redis \<times> (string \<times> string list) list" where
  "read_rooms now [] db = (db, [])"
| "read_rooms now (room # rest) db =
     (let (db1, raw) = pruneAndRead now (roomKey room) db; (db2, more) = read_rooms now rest db1
      in (db2, (room, raw) # more))"

definition count_room :: "string \<times> string list \<Rightarrow> RoomCount list" where
  "count_room x =
     (case collapseUsers (snd x) of
        Inl e \<Rightarrow> []
      | Inr users \<Rightarrow> if users = [] then [] else [\<lparr>rc_Name = fst x, rc_Count = length users\<rparr>])"

definition ListRooms :: "bool \<Rightarrow> int \<Rightarrow> redis \<Rightarrow> redis \<times> RoomCount list result" where
  "ListRooms down now db =
     (if down then (db, Inl (External ''redis''))
      else
        (let (db1, rooms) = pruneAndRead now roomsIndexKey db
         in if rooms = [] then (db1, Inr [])
            else (let (db2, raws) = read_rooms now rooms db1
                  in (db2, Inr (sort_key rc_Name (concat (map count_room raws)))))))"

section \<open>presence_service.go\<close>

text \<open>The repository interface the service holds.\<close>

record 's presence_repo =
  pr_SetOnline :: "string \<Rightarrow> int \<Rightarrow> string \<Rightarrow> 's \<Rightarrow> 's \<times> unit result"
  pr_SetOffline :: "string \<Rightarrow> int \<Rightarrow> string \<Rightarrow> 's \<Rightarrow> 's \<times> unit result"
  pr_Refresh :: "string \<Rightarrow> string \<Rightarrow> int list \<Rightarrow> 's \<Rightarrow> 's \<times> unit result"
  pr_ListOnline :: "string \<Rightarrow> 's \<Rightarrow> 's \<times> int list result"
  pr_ListRooms :: "'s \<Rightarrow> 's \<times> RoomCount list result"

definition redis_repo :: "bool \<Rightarrow> int \<Rightarrow> int \<Rightarrow> redis presence_repo" where
  "redis_repo down ttl now =
     \<lparr>pr_SetOnline = SetOnline down ttl now, pr_SetOffline = SetOffline down ttl now, pr_Refresh = Refresh down ttl now,
      pr_ListOnline = ListOnline down now, pr_ListRooms = ListRooms down now\<rparr>"

record PresenceEvent =
  pe_UserID :: int
  pe_Room :: string
  pe_Status :: string
  pe_InstanceID :: string

definition RecordEvent :: "'s presence_repo \<Rightarrow> PresenceEvent \<Rightarrow> 's \<Rightarrow> 's \<times> unit result" where
  "RecordEvent repo event s =
     (case presence_validateRoom (pe_Room event) of
        Inl e \<Rightarrow> (s, Inl e)
      | Inr _ \<Rightarrow>
     case presence_validateInstanceID (pe_InstanceID event) of
        Inl e \<Rightarrow> (s, Inl e)
      | Inr _ \<Rightarrow>
          if pe_UserID event \<le> 0 then (s, Inl (Validation ''user_id must be positive''))
          else if pe_Status event = ''online''
          then pr_SetOnline repo (pe_Room event) (pe_UserID event) (pe_InstanceID event) s
          else if pe_Status event = ''offline''
          then pr_SetOffline repo (pe_Room event) (pe_UserID event) (pe_InstanceID event) s
          else (s, Inl (Validation ''status must be online or offline'')))"

definition Heartbeat :: "'s presence_repo \<Rightarrow> string \<Rightarrow> string \<Rightarrow> int list \<Rightarrow> 's \<Rightarrow> 's \<times> unit result" where
  "Heartbeat repo room instanceID userIDs s =
     (case presence_validateRoom room of
        Inl e \<Rightarrow> (s, Inl e)
      | Inr _ \<Rightarrow>
     case presence_validateInstanceID instanceID of
        Inl e \<Rightarrow> (s, Inl e)
      | Inr _ \<Rightarrow>
          if list_ex (\<lambda>u. u \<le> 0) userIDs then (s, Inl (Validation ''user_id must be positive''))
          else pr_Refresh repo room instanceID userIDs s)"

definition PresenceService_ListRooms :: "'s presence_repo \<Rightarrow> 's \<Rightarrow> 's \<times> RoomCount list result" where
  "PresenceService_ListRooms repo s =
     (case pr_ListRooms repo s of
        (s', Inl e) \<Rightarrow> (s', Inl e)
      | (s', Inr rooms) \<Rightarrow> (s', Inr (map (\<lambda>r. \<lparr>rc_Name = rc_Name r, rc_Count = rc_Count r\<rparr>) rooms)))"

record RoomPresence =
  rp_Room :: string
  rp_Users :: "int list"
  rp_Count :: nat

definition GetRoom :: "'s presence_repo \<Rightarrow> string \<Rightarrow> 's \<Rightarrow> 's \<times> RoomPresence result" where
  "GetRoom repo room s =
     (case presence_validateRoom room of
        Inl e \<Rightarrow> (s, Inl e)
      | Inr _ \<Rightarrow>
          (case pr_ListOnline repo room s of
             (s', Inl e) \<Rightarrow> (s', Inl e)
           | (s', Inr userIDs) \<Rightarrow> (s', Inr \<lparr>rp_Room = room, rp_Users = userIDs, rp_Count = length userIDs\<rparr>)))"

section \<open>presence_controller.go\<close>

datatype presence_json = MessageJSON string | RoomsJSON "RoomCount list" | PresenceJSON RoomPresence

definition presence_error_text :: "goerror \<Rightarrow> string" where
  "presence_error_text e = (case e of Errorf m \<Rightarrow> m | Validation m \<Rightarrow> ''validation: '' @ m | External m \<Rightarrow> m)"

definition presence_respondError :: "echo_context \<Rightarrow> goerror \<Rightarrow> string \<Rightarrow> presence_json response" where
  "presence_respondError cx err genericMessage =
     (case err of
        Validation m \<Rightarrow> reply cx 400 (JSON_error (presence_error_text err))
      | _ \<Rightarrow> reply cx 500 (JSON_error genericMessage))"

definition Controller_RecordEvent ::
  "'s presence_repo \<Rightarrow> PresenceEvent option \<Rightarrow> echo_context \<Rightarrow> 's \<Rightarrow> 's \<times> presence_json response" where
  "Controller_RecordEvent repo bind cx s =
     (case bind of
        None \<Rightarrow> (s, reply cx 400 (JSON_error ''invalid request body''))
      | Some event \<Rightarrow>
          (case RecordEvent repo event s of
             (s', Inl e) \<Rightarrow> (s', presence_respondError cx e ''failed to record presence event'')
           | (s', Inr _) \<Rightarrow> (s', reply cx 202 (JSON (MessageJSON ''recorded'')))))"

record HeartbeatRequest =
  hr_Room :: string
  hr_InstanceID :: string
  hr_UserIDs :: "int list"

definition Controller_Heartbeat ::
  "'s presence_repo \<Rightarrow> HeartbeatRequest option \<Rightarrow> echo_context \<Rightarrow> 's \<Rightarrow> 's \<times> presence_json response" where
  "Controller_Heartbeat repo bind cx s =
     (case bind of
        None \<Rightarrow> (s, reply cx 400 (JSON_error ''invalid request body''))
      | Some req \<Rightarrow>
          (case Heartbeat repo (hr_Room req) (hr_InstanceID req) (hr_UserIDs req) s of
             (s', Inl e) \<Rightarrow> (s', presence_respondError cx e ''failed to refresh presence'')
           | (s', Inr _) \<Rightarrow> (s', reply cx 202 (JSON (MessageJSON ''refreshed'')))))"

definition Controller_ListRooms :: "'s presence_repo \<Rightarrow> echo_context \<Rightarrow> 's \<Rightarrow> 's \<times> presence_json response" where
  "Controller_ListRooms repo cx s =
     (case PresenceService_ListRooms repo s of
        (s', Inl e) \<Rightarrow> (s', presence_respondError cx e ''failed to list rooms'')
      | (s', Inr rooms) \<Rightarrow> (s', reply cx 200 (JSON (RoomsJSON rooms))))"

definition Controller_GetRoom :: "'s presence_repo \<Rightarrow> echo_context \<Rightarrow> 's \<Rightarrow> 's \<times> presence_json response" where
  "Controller_GetRoom repo cx s =
     (case GetRoom repo (cx_param cx ''room'') s of
        (s', Inl e) \<Rightarrow> (s', presence_respondError cx e ''failed to fetch presence'')
      | (s', Inr p) \<Rightarrow> (s', reply cx 200 (JSON (PresenceJSON p))))"

section \<open>Live members of a key\<close>

text \<open>
  \<open>zok T now z\<close>: what every key the service writes satisfies, \<open>T\<close> being the TTL in milliseconds.  No
  score is more than \<open>T\<close> ahead, and the key outlives every score by at least \<open>T\<close>, so the key-level
  expiry can only ever reclaim dead members.
\<close>

definition zok :: "int \<Rightarrow> int \<Rightarrow> zkey \<Rightarrow> bool" where
  "zok T now z \<longleftrightarrow> distinct (map fst (zk_members z)) \<and>
     (\<forall>x \<in> set (zk_members z). snd x \<le> now + T \<and> (\<exists>t. zk_expire z = Some t \<and> snd x + T \<le> t))"

definition zlive :: "int \<Rightarrow> zkey \<Rightarrow> string \<rightharpoonup> int" where
  "zlive now z m = (case map_of (zk_members z) m of None \<Rightarrow> None | Some e \<Rightarrow> if now \<le> e then Some e else None)"

lemma zlive_Some: "zok T now z \<Longrightarrow> zlive now z m = Some e \<longleftrightarrow> (m, e) \<in> set (zk_members z) \<and> now \<le> e"
proof -
  assume "zok T now z"
  then have "(m, e) \<in> set (zk_members z) \<longleftrightarrow> map_of (zk_members z) m = Some e"
    by (simp add: zok_def map_of_eq_Some_iff)
  then show ?thesis by (auto simp: zlive_def split: option.split)
qed

lemma zok_later: "zok T now z \<Longrightarrow> now \<le> now' \<Longrightarrow> zok T now' z"
  unfolding zok_def by force

lemma zlive_later: "now \<le> now' \<Longrightarrow> zlive now' z m = (case zlive now z m of None \<Rightarrow> None | Some e \<Rightarrow> if now' \<le> e then Some e else None)"
  by (auto simp: zlive_def split: option.split)

lemma no_key_sel [simp]: "zk_members no_key = []" "zk_expire no_key = None"
  by (simp_all add: no_key_def)

lemma zok_no_key [simp]: "zok T now no_key"
  by (simp add: zok_def)

lemma zlive_no_key [simp]: "zlive now no_key = Map.empty"
  by (simp add: zlive_def fun_eq_iff)

lemma zget_upd: "zget now (db(key := z)) key = (if key_expired now z \<or> zk_members z = [] then no_key else z)"
  by (simp add: zget_def)

lemma zget_ok:
  assumes "zok T now (db key)"
  shows "zok T now (zget now db key)"
  using assms by (simp add: zget_def)

lemma zlive_zget:
  assumes "zok T now (db key)" "0 < T"
  shows "zlive now (zget now db key) = zlive now (db key)"
proof (cases "key_expired now (db key)")
  case True
  then obtain t where t: "zk_expire (db key) = Some t" "t \<le> now" by (auto simp: key_expired_def split: option.splits)
  have "\<not> now \<le> e" if "(m, e) \<in> set (zk_members (db key))" for m e
    using assms that t unfolding zok_def by force
  then have "zlive now (db key) m = None" for m
    using zlive_Some [OF assms(1), of m] by (cases "zlive now (db key) m") auto
  with True show ?thesis by (simp add: zget_def fun_eq_iff)
next
  case False
  then show ?thesis by (auto simp: zget_def zlive_def fun_eq_iff)
qed

text \<open>Stamping: the \<^verbatim>\<open>ZADD\<close> and \<^verbatim>\<open>EXPIRE\<close> pair of \<^verbatim>\<open>SetOnline\<close>, \<^verbatim>\<open>Refresh\<close> and \<^verbatim>\<open>touchRoomIndex\<close>.\<close>

lemma map_of_fold_update:
  "map_of (fold (\<lambda>(m, sc). AList.update m sc) (map (\<lambda>m. (m, e)) ms) al) k =
     (if k \<in> set ms then Some e else map_of al k)"
  by (induction ms arbitrary: al) (auto simp: AList.update_conv')

lemma distinct_fold_update:
  "distinct (map fst al) \<Longrightarrow> distinct (map fst (fold (\<lambda>(m, sc). AList.update m sc) ms al))"
  by (induction ms arbitrary: al) (auto simp: AList.distinct_update)

definition stamp :: "int \<Rightarrow> int \<Rightarrow> string \<Rightarrow> string list \<Rightarrow> redis \<Rightarrow> redis" where
  "stamp ttl now key ms db = EXPIRE now key (2 * ttl) (ZADD now key (map (\<lambda>m. (m, now + ttl * 1000)) ms) db)"

lemma stamp_key:
  assumes "zok (ttl * 1000) now (db key)" "0 < ttl" "ms \<noteq> []"
  shows "zok (ttl * 1000) now (stamp ttl now key ms db key)"
    and "zlive now (stamp ttl now key ms db key) m = (if m \<in> set ms then Some (now + ttl * 1000) else zlive now (db key) m)"
proof -
  let ?T = "ttl * 1000"
  let ?z = "zget now db key"
  let ?al = "fold (\<lambda>(m, sc). AList.update m sc) (map (\<lambda>m. (m, now + ?T)) ms) (zk_members ?z)"
  have zok: "zok ?T now ?z" by (rule zget_ok) (rule assms(1))
  have map: "map_of ?al k = (if k \<in> set ms then Some (now + ?T) else map_of (zk_members ?z) k)" for k
    by (rule map_of_fold_update)
  have ne: "?al \<noteq> []" using map [of "hd ms"] assms(3) by (auto simp: fun_eq_iff)
  have live: "\<not> key_expired now (?z\<lparr>zk_members := ?al\<rparr>)"
    using assms(1) by (auto simp: zget_def key_expired_def split: option.splits)
  then have z': "zget now (ZADD now key (map (\<lambda>m. (m, now + ?T)) ms) db) key = ?z\<lparr>zk_members := ?al\<rparr>"
    using ne unfolding ZADD_def Let_def zget_upd by simp
  then have st: "stamp ttl now key ms db key = ?z\<lparr>zk_members := ?al, zk_expire := Some (now + 2 * ?T)\<rparr>"
    using ne assms(2) by (simp add: stamp_def EXPIRE_def Let_def)
  have d: "distinct (map fst ?al)" using zok by (intro distinct_fold_update) (simp add: zok_def)
  have bound: "e \<le> now + ?T" if "(k, e) \<in> set ?al" for k e
  proof -
    have "map_of ?al k = Some e" using that d by (simp only: map_of_eq_Some_iff)
    then have "e = now + ?T \<or> map_of (zk_members ?z) k = Some e" unfolding map by (auto split: if_splits)
    then show ?thesis using zok unfolding zok_def by (auto dest!: map_of_SomeD)
  qed
  show "zok ?T now (stamp ttl now key ms db key)"
    unfolding st zok_def using d bound by fastforce
  have "zlive now (stamp ttl now key ms db key) m = (if m \<in> set ms then Some (now + ?T) else zlive now ?z m)"
    using assms(2) by (simp add: st zlive_def map)
  then show "zlive now (stamp ttl now key ms db key) m = (if m \<in> set ms then Some (now + ?T) else zlive now (db key) m)"
    using zlive_zget [of "ttl * 1000" now db key] assms(1,2) by simp
qed

lemma stamp_other [simp]: "key' \<noteq> key \<Longrightarrow> stamp ttl now key ms db key' = db key'"
  by (simp add: stamp_def EXPIRE_def ZADD_def Let_def)

lemma ZREM_key:
  assumes "zok T now (db key)" "0 < T"
  shows "zok T now (ZREM now key m db key)"
    and "zlive now (ZREM now key m db key) m' = (if m' = m then None else zlive now (db key) m')"
proof -
  let ?z = "zget now db key"
  have "zok T now ?z" by (rule zget_ok) (rule assms(1))
  moreover have "set (AList.delete m (zk_members ?z)) \<subseteq> set (zk_members ?z)" by (auto simp: AList.delete_eq)
  ultimately show "zok T now (ZREM now key m db key)"
    by (auto simp: ZREM_def Let_def zok_def intro: AList.distinct_delete)
  have "zlive now (ZREM now key m db key) m' = (if m' = m then None else zlive now ?z m')"
    by (simp add: ZREM_def Let_def zlive_def AList.delete_conv')
  then show "zlive now (ZREM now key m db key) m' = (if m' = m then None else zlive now (db key) m')"
    using zlive_zget [of T now db key] assms by simp
qed

lemma EXPIRE_key:
  assumes "zok (ttl * 1000) now (db key)" "0 < ttl"
  shows "zok (ttl * 1000) now (EXPIRE now key (2 * ttl) db key)"
    and "zlive now (EXPIRE now key (2 * ttl) db key) = zlive now (db key)"
proof -
  have z: "zok (ttl * 1000) now (zget now db key)" by (rule zget_ok) (rule assms(1))
  have l: "zlive now (zget now db key) = zlive now (db key)" using zlive_zget [of "ttl * 1000" now db key] assms(1,2) by simp
  show "zok (ttl * 1000) now (EXPIRE now key (2 * ttl) db key)"
    using z assms(2) by (fastforce simp: EXPIRE_def Let_def zok_def)
  show "zlive now (EXPIRE now key (2 * ttl) db key) = zlive now (db key)"
    using l assms(2) by (auto simp: EXPIRE_def Let_def zlive_def fun_eq_iff)
qed

lemma prune_key:
  assumes "zok T now (db key)" "0 < T" "pruneAndRead now key db = (db', raw)"
  shows "zok T now (db' key)" "zlive now (db' key) = zlive now (db key)" "set raw = dom (zlive now (db key))"
    "distinct raw" "key' \<noteq> key \<Longrightarrow> db' key' = db key'"
proof -
  let ?z = "zget now db key"
  let ?ms = "filter (\<lambda>x. \<not> snd x < now) (zk_members ?z)"
  have zok: "zok T now ?z" by (rule zget_ok) (rule assms(1))
  have db': "db' = db(key := ?z\<lparr>zk_members := ?ms\<rparr>)" and raw: "raw = ZRANGEBYSCORE_from now key now db'"
    using assms(3) by (auto simp: pruneAndRead_def ZREMRANGEBYSCORE_below_def Let_def)
  have d: "distinct (map fst ?ms)" using zok by (auto simp: zok_def intro: distinct_map_filterI)
  then show z': "zok T now (db' key)" using zok by (auto simp: db' zok_def)
  have "zlive now (db' key) m = Some e \<longleftrightarrow> zlive now ?z m = Some e" for m e
    using zlive_Some [OF z', of m e] zlive_Some [OF zok, of m e] by (auto simp: db')
  then have "zlive now (db' key) = zlive now ?z" by (metis not_None_eq ext)
  then show l: "zlive now (db' key) = zlive now (db key)" using zlive_zget [of T now db key] assms(1,2) by simp
  show "key' \<noteq> key \<Longrightarrow> db' key' = db key'" by (simp add: db')
  have gz: "zok T now (zget now db' key)" by (rule zget_ok) (rule z')
  have "distinct (map fst (filter (\<lambda>x. now \<le> snd x) (zk_members (zget now db' key))))"
    using gz by (intro distinct_map_filterI) (simp add: zok_def)
  then show "distinct raw" by (simp add: raw ZRANGEBYSCORE_from_def distinct_map)
  have "m \<in> set raw \<longleftrightarrow> (\<exists>e. zlive now (zget now db' key) m = Some e)" for m
    using zlive_Some [OF gz, of m] by (force simp: raw ZRANGEBYSCORE_from_def)
  then show "set raw = dom (zlive now (db key))"
    using zlive_zget [of T now db' key] z' assms(2) l by auto
qed

section \<open>The abstract presence table\<close>

text \<open>
  What the service promises: for each room, until when each instance last vouched for each user.  A
  user is online in a room while some instance's entry has not run out.
\<close>

type_synonym pspec = "string \<Rightarrow> (int \<times> string) \<rightharpoonup> int"

definition spec_refresh :: "int \<Rightarrow> int \<Rightarrow> string \<Rightarrow> string \<Rightarrow> int list \<Rightarrow> pspec \<Rightarrow> pspec" where
  "spec_refresh ttl now room inst us S =
     S(room := (\<lambda>p. if fst p \<in> set us \<and> snd p = inst then Some (now + ttl * 1000) else S room p))"

definition spec_online :: "int \<Rightarrow> int \<Rightarrow> string \<Rightarrow> int \<Rightarrow> string \<Rightarrow> pspec \<Rightarrow> pspec" where
  "spec_online ttl now room u inst S = S(room := (S room)((u, inst) \<mapsto> now + ttl * 1000))"

definition spec_offline :: "string \<Rightarrow> int \<Rightarrow> string \<Rightarrow> pspec \<Rightarrow> pspec" where
  "spec_offline room u inst S = S(room := (S room)((u, inst) := None))"

definition spec_users :: "int \<Rightarrow> string \<Rightarrow> pspec \<Rightarrow> int set" where
  "spec_users now room S = {u. \<exists>inst e. S room (u, inst) = Some e \<and> now \<le> e}"

definition slive :: "int \<Rightarrow> pspec \<Rightarrow> string \<Rightarrow> (int \<times> string) \<rightharpoonup> int" where
  "slive now S room p = (case S room p of None \<Rightarrow> None | Some e \<Rightarrow> if now \<le> e then Some e else None)"

definition presence_rep :: "int \<Rightarrow> int \<Rightarrow> redis \<Rightarrow> pspec \<Rightarrow> bool" where
  "presence_rep ttl now db S \<longleftrightarrow> 0 < ttl \<and>
     (\<forall>room. zok (ttl * 1000) now (db (roomKey room))) \<and> zok (ttl * 1000) now (db roomsIndexKey) \<and>
     (\<forall>room m e. zlive now (db (roomKey room)) m = Some e \<longrightarrow>
        (\<exists>u i. int64_range u \<and> m = member u i \<and> slive now S room (u, i) = Some e)) \<and>
     (\<forall>room u i e. slive now S room (u, i) = Some e \<longrightarrow>
        int64_range u \<and> zlive now (db (roomKey room)) (member u i) = Some e) \<and>
     (\<forall>room m e. zlive now (db (roomKey room)) m = Some e \<longrightarrow>
        (\<exists>e'. zlive now (db roomsIndexKey) room = Some e' \<and> e \<le> e'))"

lemma append_colon_inj: "CHR '':'' \<notin> set a \<Longrightarrow> CHR '':'' \<notin> set b \<Longrightarrow> a @ '':'' @ x = b @ '':'' @ y \<longleftrightarrow> a = b \<and> x = y"
  by (metis Cut_before_append append_Cons append_Nil same_append_eq list.inject)

lemma member_inj: "int64_range u \<Longrightarrow> int64_range v \<Longrightarrow> member u i = member v j \<longleftrightarrow> u = v \<and> i = j"
  unfolding member_def using append_colon_inj [of "FormatInt u" "FormatInt v"] FormatInt_inj by auto

lemma ParseInt_member: "int64_range u \<Longrightarrow> ParseInt (Cut_before (member u i) (CHR '':'')) = Some u"
  by (simp add: member_def ParseInt_FormatInt)

lemma roomKey_inj [simp]: "roomKey a = roomKey b \<longleftrightarrow> a = b"
  by (simp add: roomKey_def)

lemma roomKey_index [simp]: "roomKey a \<noteq> roomsIndexKey" "roomsIndexKey \<noteq> roomKey a"
  by (auto simp: roomKey_def roomsIndexKey_def)

lemma presence_repD:
  assumes "presence_rep ttl now db S"
  shows "0 < ttl" "\<And>room. zok (ttl * 1000) now (db (roomKey room))" "zok (ttl * 1000) now (db roomsIndexKey)"
    "\<And>room m e. zlive now (db (roomKey room)) m = Some e \<Longrightarrow> \<exists>u i. int64_range u \<and> m = member u i \<and> slive now S room (u, i) = Some e"
    "\<And>room u i e. slive now S room (u, i) = Some e \<Longrightarrow> int64_range u \<and> zlive now (db (roomKey room)) (member u i) = Some e"
    "\<And>room m e. zlive now (db (roomKey room)) m = Some e \<Longrightarrow> \<exists>e'. zlive now (db roomsIndexKey) room = Some e' \<and> e \<le> e'"
  using assms unfolding presence_rep_def by blast+

lemma slive_Some: "slive now S room p = Some e \<longleftrightarrow> S room p = Some e \<and> now \<le> e"
  by (auto simp: slive_def split: option.split)

lemma slive_later: "now \<le> now' \<Longrightarrow> slive now' S room p = (case slive now S room p of None \<Rightarrow> None | Some e \<Rightarrow> if now' \<le> e then Some e else None)"
  by (auto simp: slive_def split: option.split)

lemma presence_rep_later:
  assumes "presence_rep ttl now db S" "now \<le> now'"
  shows "presence_rep ttl now' db S"
proof -
  note D = presence_repD [OF assms(1)]
  have zl: "zlive now' z m = Some e \<longleftrightarrow> zlive now z m = Some e \<and> now' \<le> e" for z m e
    unfolding zlive_later [OF assms(2), of z m] by (auto split: option.splits)
  have sl: "slive now' S room p = Some e \<longleftrightarrow> slive now S room p = Some e \<and> now' \<le> e" for room p e
    unfolding slive_later [OF assms(2), of S room p] by (auto split: option.splits)
  show ?thesis
    unfolding presence_rep_def
  proof (intro conjI allI impI)
    show "0 < ttl" by (rule D(1))
    show "zok (ttl * 1000) now' (db (roomKey r))" for r by (rule zok_later [OF D(2) assms(2)])
    show "zok (ttl * 1000) now' (db roomsIndexKey)" by (rule zok_later [OF D(3) assms(2)])
    show "\<exists>u i. int64_range u \<and> m = member u i \<and> slive now' S r (u, i) = Some e" if "zlive now' (db (roomKey r)) m = Some e" for r m e
      using that D(4) [of r m e] by (simp add: zl sl)
    show "int64_range u" "zlive now' (db (roomKey r)) (member u i) = Some e" if "slive now' S r (u, i) = Some e" for r u i e
      using that D(5) [of r u i e] by (simp_all add: zl sl)
    show "\<exists>e'. zlive now' (db roomsIndexKey) r = Some e' \<and> e \<le> e'" if "zlive now' (db (roomKey r)) m = Some e" for r m e
      using that D(6) [of r m e] by (auto simp: zl)
  qed
qed

text \<open>
  A write to a room's key, followed by one to the index, keeps the representation when the live
  members of the room become those of the new table and the index covers them.
\<close>

lemma presence_rep_write:
  assumes rep: "presence_rep ttl now db S"
    and frame: "\<And>r. r \<noteq> room \<Longrightarrow> db' (roomKey r) = db (roomKey r)" "\<And>r. r \<noteq> room \<Longrightarrow> S' r = S r"
    and ok: "zok (ttl * 1000) now (db' (roomKey room))" "zok (ttl * 1000) now (db' roomsIndexKey)"
    and live: "\<And>m e. zlive now (db' (roomKey room)) m = Some e \<Longrightarrow> \<exists>u i. int64_range u \<and> m = member u i \<and> slive now S' room (u, i) = Some e"
      "\<And>u i e. slive now S' room (u, i) = Some e \<Longrightarrow> int64_range u \<and> zlive now (db' (roomKey room)) (member u i) = Some e"
    and index: "\<And>r. r \<noteq> room \<Longrightarrow> zlive now (db' roomsIndexKey) r = zlive now (db roomsIndexKey) r"
      "\<And>m e. zlive now (db' (roomKey room)) m = Some e \<Longrightarrow> \<exists>e'. zlive now (db' roomsIndexKey) room = Some e' \<and> e \<le> e'"
  shows "presence_rep ttl now db' S'"
proof -
  note D = presence_repD [OF rep]
  have sl: "slive now S' r = slive now S r" if "r \<noteq> room" for r
    using frame(2) [OF that] by (simp add: slive_def fun_eq_iff)
  show ?thesis
    unfolding presence_rep_def
  proof (intro conjI allI impI)
    show "0 < ttl" by (rule D(1))
    show "zok (ttl * 1000) now (db' roomsIndexKey)" by (rule ok(2))
    show "zok (ttl * 1000) now (db' (roomKey r))" for r using ok(1) D(2) frame(1) by (cases "r = room") auto
    show "\<exists>u i. int64_range u \<and> m = member u i \<and> slive now S' r (u, i) = Some e" if "zlive now (db' (roomKey r)) m = Some e" for r m e
      using that live(1) D(4) frame(1) sl by (cases "r = room") auto
    show "int64_range u" "zlive now (db' (roomKey r)) (member u i) = Some e" if "slive now S' r (u, i) = Some e" for r u i e
      using that live(2) D(5) frame(1) sl by (cases "r = room"; auto)+
    show "\<exists>e'. zlive now (db' roomsIndexKey) r = Some e' \<and> e \<le> e'" if "zlive now (db' (roomKey r)) m = Some e" for r m e
      using that index D(6) frame(1) by (cases "r = room") auto
  qed
qed

lemma presence_rep_stamp:
  assumes rep: "presence_rep ttl now db S" and us: "us \<noteq> []" "\<forall>u \<in> set us. int64_range u"
  shows "presence_rep ttl now (stamp ttl now roomsIndexKey [room] (stamp ttl now (roomKey room) (map (\<lambda>u. member u inst) us) db))
    (spec_refresh ttl now room inst us S)"
proof -
  let ?T = "ttl * 1000"
  let ?ms = "map (\<lambda>u. member u inst) us"
  let ?db1 = "stamp ttl now (roomKey room) ?ms db"
  let ?db2 = "stamp ttl now roomsIndexKey [room] ?db1"
  let ?S = "spec_refresh ttl now room inst us S"
  note D = presence_repD [OF rep]
  have ne: "?ms \<noteq> []" using us(1) by simp
  note st1 = stamp_key [of ttl now db "roomKey room" ?ms, OF D(2) D(1) ne]
  have ix: "zok ?T now (?db1 roomsIndexKey)" using D(3) by simp
  note st2 = stamp_key [of ttl now ?db1 roomsIndexKey "[room]", OF ix D(1) not_Cons_self2]
  have l1: "zlive now (?db2 (roomKey room)) m = (if m \<in> set ?ms then Some (now + ?T) else zlive now (db (roomKey room)) m)" for m
    using st1(2) [of m] by simp
  have l2: "zlive now (?db2 roomsIndexKey) r = (if r = room then Some (now + ?T) else zlive now (db roomsIndexKey) r)" for r
    using st2(2) [of r] by simp
  have sl: "slive now ?S room (u, i) = (if u \<in> set us \<and> i = inst then Some (now + ?T) else slive now S room (u, i))" for u i
    using D(1) by (simp add: slive_def spec_refresh_def)
  have ms: "member u i \<in> set ?ms \<longleftrightarrow> u \<in> set us \<and> i = inst" if "int64_range u" for u i
    using us(2) member_inj [OF that] by auto
  show ?thesis
  proof (rule presence_rep_write [OF rep, where room = room])
    show "\<exists>u i. int64_range u \<and> m = member u i \<and> slive now ?S room (u, i) = Some e" if "zlive now (?db2 (roomKey room)) m = Some e" for m e
    proof (cases "m \<in> set ?ms")
      case True
      then obtain u where "u \<in> set us" "m = member u inst" by auto
      then show ?thesis using that True l1 [of m] us(2) sl by auto
    next
      case False
      then have "zlive now (db (roomKey room)) m = Some e" using that l1 [of m] by simp
      then obtain u i where u: "int64_range u" "m = member u i" "slive now S room (u, i) = Some e"
        using D(4) by blast
      then have "\<not> (u \<in> set us \<and> i = inst)" using False by auto
      then have "slive now ?S room (u, i) = Some e" using u(3) sl [of u i] by auto
      with u(1,2) show ?thesis by blast
    qed
    show "int64_range u \<and> zlive now (?db2 (roomKey room)) (member u i) = Some e" if "slive now ?S room (u, i) = Some e" for u i e
      using that l1 [of "member u i"] us(2) sl [of u i] ms [of u i] D(5) [of room u i e] by (auto split: if_splits)
    show "zok ?T now (?db2 (roomKey room))" using st1(1) by simp
    show "zok ?T now (?db2 roomsIndexKey)" by (rule st2(1))
    show "\<exists>e'. zlive now (?db2 roomsIndexKey) room = Some e' \<and> e \<le> e'" if "zlive now (?db2 (roomKey room)) m = Some e" for m e
      using zlive_Some [OF st1(1), of m e] that st1(1) by (auto simp: l2 zok_def)
  qed (simp_all add: spec_refresh_def l2)
qed

lemma Refresh_stamp:
  "us \<noteq> [] \<Longrightarrow> Refresh False ttl now room inst us db =
     (stamp ttl now roomsIndexKey [room] (stamp ttl now (roomKey room) (map (\<lambda>u. member u inst) us) db), Inr ())"
  by (simp add: Refresh_def Let_def stamp_def touchRoomIndex_def expiryMillis_def comp_def)

lemma SetOnline_Refresh: "SetOnline down ttl now room u inst db = Refresh down ttl now room inst [u] db"
  by (simp add: SetOnline_def Refresh_def)

lemma presence_rep_Refresh:
  assumes "presence_rep ttl now db S" "\<forall>u \<in> set us. int64_range u"
  shows "presence_rep ttl now (fst (Refresh False ttl now room inst us db)) (spec_refresh ttl now room inst us S)"
proof (cases "us = []")
  case True
  then have "spec_refresh ttl now room inst us S = S" by (simp add: spec_refresh_def)
  with True assms(1) show ?thesis by (simp add: Refresh_def)
qed (use presence_rep_stamp [OF assms(1) _ assms(2)] Refresh_stamp in simp)

lemma ZCARD_empty:
  assumes "zok T now (db key)" "0 < T" "ZCARD now key db = 0"
  shows "zlive now (db key) m = None"
proof -
  have "zlive now (zget now db key) m = None" using assms(3) by (simp add: ZCARD_def zlive_def)
  then show ?thesis using zlive_zget [of T now db key] assms(1,2) by simp
qed

lemma presence_rep_SetOffline:
  assumes rep: "presence_rep ttl now db S" and u: "int64_range u"
  shows "presence_rep ttl now (fst (SetOffline False ttl now room u inst db)) (spec_offline room u inst S)"
proof -
  let ?T = "ttl * 1000"
  let ?S = "spec_offline room u inst S"
  let ?db1 = "ZREM now (roomKey room) (member u inst) db"
  let ?db2 = "fst (SetOffline False ttl now room u inst db)"
  note D = presence_repD [OF rep]
  have T: "0 < ?T" using D(1) by simp
  note r1 = ZREM_key [of ?T now db "roomKey room", OF D(2) T]
  have other: "?db1 k = db k" if "k \<noteq> roomKey room" for k using that by (simp add: ZREM_def Let_def)
  have ix: "zok ?T now (?db1 roomsIndexKey)" using D(3) other by simp
  note r2 = ZREM_key [of ?T now ?db1 roomsIndexKey, OF ix T]
  note x1 = EXPIRE_key [of ttl now ?db1 "roomKey room", OF r1(1) D(1)]
  have sl: "slive now ?S room (v, i) = (if v = u \<and> i = inst then None else slive now S room (v, i))" for v i
    by (auto simp: slive_def spec_offline_def)
  have room: "zok ?T now (?db2 (roomKey room))" "zlive now (?db2 (roomKey room)) = zlive now (?db1 (roomKey room))"
    using r1(1) x1 by (auto simp: SetOffline_def Let_def ZREM_def)
  have frame: "?db2 (roomKey r) = db (roomKey r)" if "r \<noteq> room" for r
    using that by (auto simp: SetOffline_def Let_def ZREM_def EXPIRE_def)
  have index: "zok ?T now (?db2 roomsIndexKey)" "zlive now (?db2 roomsIndexKey) r =
      (if r = room \<and> ZCARD now (roomKey room) ?db1 = 0 then None else zlive now (db roomsIndexKey) r)" for r
    using r2 ix other [of roomsIndexKey] by (auto simp: SetOffline_def Let_def EXPIRE_def)
  show ?thesis
  proof (rule presence_rep_write [OF rep, where room = room])
    show "\<exists>v i. int64_range v \<and> m = member v i \<and> slive now ?S room (v, i) = Some e" if "zlive now (?db2 (roomKey room)) m = Some e" for m e
    proof -
      have m: "m \<noteq> member u inst" "zlive now (db (roomKey room)) m = Some e"
        using that r1(2) [of "member u inst" m] by (simp_all add: room split: if_splits)
      then obtain v i where v: "int64_range v" "m = member v i" "slive now S room (v, i) = Some e" using D(4) by blast
      then have "slive now ?S room (v, i) = Some e" using m(1) sl by auto
      with v show ?thesis by blast
    qed
    show "int64_range v \<and> zlive now (?db2 (roomKey room)) (member v i) = Some e" if "slive now ?S room (v, i) = Some e" for v i e
    proof -
      have ne: "\<not> (v = u \<and> i = inst)" and s: "slive now S room (v, i) = Some e" using that sl [of v i] by (auto split: if_splits)
      have v: "int64_range v" "zlive now (db (roomKey room)) (member v i) = Some e" using D(5) [OF s] by auto
      then show ?thesis using ne member_inj [OF v(1) u, of i inst] r1(2) [of "member u inst" "member v i"] by (simp add: room)
    qed
    show "\<exists>e'. zlive now (?db2 roomsIndexKey) room = Some e' \<and> e \<le> e'" if z: "zlive now (?db2 (roomKey room)) m = Some e" for m e
    proof -
      have z1: "zlive now (?db1 (roomKey room)) m = Some e" using z room by simp
      then have "ZCARD now (roomKey room) ?db1 \<noteq> 0" using ZCARD_empty [of ?T now ?db1 "roomKey room" m, OF r1(1) T] by auto
      moreover have "zlive now (db (roomKey room)) m = Some e" using z1 r1(2) [of "member u inst" m] by (auto split: if_splits)
      ultimately show ?thesis using D(6) index(2) [of room] by simp
    qed
  qed (simp_all add: frame room index spec_offline_def)
qed

lemma presence_rep_prune:
  assumes rep: "presence_rep ttl now db S" and p: "pruneAndRead now key db = (db', raw)"
    and key: "key = roomsIndexKey \<or> (\<exists>room. key = roomKey room)"
  shows "presence_rep ttl now db' S"
proof -
  note D = presence_repD [OF rep]
  have T: "0 < ttl * 1000" using D(1) by simp
  have ok: "zok (ttl * 1000) now (db key)" using key D(2,3) by auto
  note P = prune_key [of "ttl * 1000" now db key, OF ok T p]
  have same: "zok (ttl * 1000) now (db' k) = zok (ttl * 1000) now (db k)" "zlive now (db' k) = zlive now (db k)" for k
    using P(1,2,5) ok by (cases "k = key"; simp)+
  show ?thesis using rep unfolding presence_rep_def same .
qed

text \<open>Reading a room: the members, read back, are exactly the users some instance still vouches for.\<close>

lemma collapse_loop_members:
  assumes "\<forall>m \<in> set ms. \<exists>u i. int64_range u \<and> m = member u i" "distinct acc"
  shows "\<exists>ids. collapse_loop ms acc = Inr ids \<and> distinct ids \<and>
    set ids = set acc \<union> {u. int64_range u \<and> (\<exists>i. member u i \<in> set ms)}"
  using assms
proof (induction ms arbitrary: acc)
  case (Cons m ms)
  obtain u i where u: "int64_range u" "m = member u i" using Cons.prems(1) by auto
  have users: "{v. int64_range v \<and> (\<exists>j. member v j \<in> set (m # ms))} = insert u {v. int64_range v \<and> (\<exists>j. member v j \<in> set ms)}"
    using u by (auto simp: member_inj)
  let ?acc = "if u \<in> set acc then acc else acc @ [u]"
  have "\<exists>ids. collapse_loop ms ?acc = Inr ids \<and> distinct ids \<and>
      set ids = set ?acc \<union> {v. int64_range v \<and> (\<exists>i. member v i \<in> set ms)}"
    using Cons.prems by (intro Cons.IH) auto
  moreover have "collapse_loop (m # ms) acc = collapse_loop ms ?acc"
    using u by (simp add: ParseInt_member)
  ultimately show ?case unfolding users by (auto split: if_splits)
qed simp

lemma presence_room_read:
  assumes rep: "presence_rep ttl now db S" and p: "pruneAndRead now (roomKey room) db = (db', raw)"
  shows "\<exists>ids. collapseUsers raw = Inr ids \<and> sorted ids \<and> distinct ids \<and> set ids = spec_users now room S"
proof -
  note D = presence_repD [OF rep]
  have T: "0 < ttl * 1000" using D(1) by simp
  have raw: "set raw = dom (zlive now (db (roomKey room)))"
    by (rule prune_key(3) [of "ttl * 1000" now db "roomKey room", OF D(2) T p])
  have mem: "\<forall>m \<in> set raw. \<exists>u i. int64_range u \<and> m = member u i" using D(4) unfolding raw by blast
  have "{u. int64_range u \<and> (\<exists>i. member u i \<in> set raw)} = spec_users now room S" (is "?A = ?B")
  proof (intro set_eqI iffI)
    fix u assume "u \<in> ?A"
    then obtain i e where u: "int64_range u" "zlive now (db (roomKey room)) (member u i) = Some e" unfolding raw by blast
    then obtain v j where "int64_range v" "member u i = member v j" "slive now S room (v, j) = Some e" using D(4) by blast
    with u(1) show "u \<in> ?B" by (auto simp: member_inj spec_users_def slive_Some)
  next
    fix u assume "u \<in> ?B"
    then obtain i e where "slive now S room (u, i) = Some e" by (auto simp: spec_users_def slive_Some)
    then show "u \<in> ?A" using D(5) unfolding raw by blast
  qed
  with collapse_loop_members [OF mem, of "[]"] show ?thesis by (auto simp: collapseUsers_def)
qed

lemma ListOnline_users:
  assumes "presence_rep ttl now db S"
  obtains db' ids where "ListOnline False now room db = (db', Inr ids)" "presence_rep ttl now db' S"
    "sorted ids" "distinct ids" "set ids = spec_users now room S"
proof -
  obtain db' raw where p: "pruneAndRead now (roomKey room) db = (db', raw)" by fastforce
  obtain ids where "collapseUsers raw = Inr ids" "sorted ids" "distinct ids" "set ids = spec_users now room S"
    using presence_room_read [OF assms p] by blast
  with p presence_rep_prune [OF assms p] show thesis by (intro that) (auto simp: ListOnline_def)
qed

lemma read_rooms_counts:
  assumes "presence_rep ttl now db S" "read_rooms now rooms db = (db', raws)"
  shows "presence_rep ttl now db' S \<and> concat (map count_room raws) =
    map (\<lambda>r. \<lparr>rc_Name = r, rc_Count = card (spec_users now r S)\<rparr>) (filter (\<lambda>r. spec_users now r S \<noteq> {}) rooms)"
  using assms
proof (induction rooms arbitrary: db db' raws)
  case (Cons room rooms)
  obtain db1 raw where p: "pruneAndRead now (roomKey room) db = (db1, raw)" by fastforce
  obtain db2 rest where r: "read_rooms now rooms db1 = (db2, rest)" by fastforce
  have rep: "presence_rep ttl now db1 S" using presence_rep_prune [OF Cons.prems(1) p] by blast
  obtain ids where ids: "collapseUsers raw = Inr ids" "distinct ids" "set ids = spec_users now room S"
    using presence_room_read [OF Cons.prems(1) p] by blast
  have "count_room (room, raw) = (if spec_users now room S = {} then [] else
      [\<lparr>rc_Name = room, rc_Count = card (spec_users now room S)\<rparr>])"
    using ids distinct_card [OF ids(2)] by (auto simp: count_room_def)
  with Cons.IH [OF rep r] Cons.prems(2) p r show ?case
    by (cases "spec_users now room S = {}") auto
qed simp

lemma ListRooms_counts:
  assumes rep: "presence_rep ttl now db S"
  obtains db' rs where "ListRooms False now db = (db', Inr rs)" "presence_rep ttl now db' S"
    "sorted (map rc_Name rs)" "distinct (map rc_Name rs)"
    "set rs = {\<lparr>rc_Name = r, rc_Count = card (spec_users now r S)\<rparr> | r. spec_users now r S \<noteq> {}}"
proof -
  obtain db1 rooms where p: "pruneAndRead now roomsIndexKey db = (db1, rooms)" by fastforce
  obtain db2 raws where r: "read_rooms now rooms db1 = (db2, raws)" by fastforce
  note D = presence_repD [OF rep]
  have T: "0 < ttl * 1000" using D(1) by simp
  note P = prune_key [of "ttl * 1000" now db roomsIndexKey, OF D(3) T p]
  have rep1: "presence_rep ttl now db1 S" using presence_rep_prune [OF rep p] by simp
  let ?f = "\<lambda>r. \<lparr>rc_Name = r, rc_Count = card (spec_users now r S)\<rparr>"
  let ?live = "filter (\<lambda>r. spec_users now r S \<noteq> {}) rooms"
  let ?rs = "sort_key rc_Name (map ?f ?live)"
  have rr: "presence_rep ttl now db2 S" "concat (map count_room raws) = map ?f ?live"
    using read_rooms_counts [OF rep1 r] by auto
  have "r \<in> set rooms" if live: "spec_users now r S \<noteq> {}" for r
  proof -
    obtain u i e where "slive now S r (u, i) = Some e" using live by (auto simp: spec_users_def slive_Some)
    then have "zlive now (db (roomKey r)) (member u i) = Some e" using D(5) by blast
    then show ?thesis using D(6) unfolding P(3) by blast
  qed
  then have set: "set ?rs = {?f r | r. spec_users now r S \<noteq> {}}" by auto
  have "mset (map rc_Name ?rs) = mset (map (rc_Name \<circ> ?f) ?live)" by (simp add: multiset.map_comp)
  then have names: "mset (map rc_Name ?rs) = mset ?live" by (simp add: comp_def)
  have dist: "distinct (map rc_Name ?rs)" using P(4) by (subst mset_eq_imp_distinct_iff [OF names]) simp
  have "fst (ListRooms False now db) = (if rooms = [] then db1 else db2)" "snd (ListRooms False now db) = Inr ?rs"
    using p r rr by (auto simp: ListRooms_def)
  then have "ListRooms False now db = (if rooms = [] then db1 else db2, Inr ?rs)" by (simp add: prod_eq_iff)
  then show thesis by (rule that) (use rr(1) rep1 dist set in \<open>simp_all split: if_split\<close>)
qed

section \<open>The store interface and the service on it\<close>

text \<open>
  The contract \<^verbatim>\<open>PresenceService\<close> relies on: a repository that keeps the presence table, for calls at
  non-decreasing times.  The service is proved against the contract; the Redis repository meets it.
\<close>

locale presence_store =
  fixes repo :: "int \<Rightarrow> 's presence_repo"
    and rep :: "int \<Rightarrow> 's \<Rightarrow> pspec \<Rightarrow> bool"
    and ttl :: int
  assumes later: "rep now s S \<Longrightarrow> now \<le> now' \<Longrightarrow> rep now' s S"
    and online: "rep now s S \<Longrightarrow> int64_range u \<Longrightarrow> \<exists>s'. pr_SetOnline (repo now) room u inst s = (s', Inr ()) \<and> rep now s' (spec_refresh ttl now room inst [u] S)"
    and offline: "rep now s S \<Longrightarrow> int64_range u \<Longrightarrow> \<exists>s'. pr_SetOffline (repo now) room u inst s = (s', Inr ()) \<and> rep now s' (spec_offline room u inst S)"
    and refresh: "rep now s S \<Longrightarrow> \<forall>u \<in> set us. int64_range u \<Longrightarrow> \<exists>s'. pr_Refresh (repo now) room inst us s = (s', Inr ()) \<and> rep now s' (spec_refresh ttl now room inst us S)"
    and users: "rep now s S \<Longrightarrow> \<exists>s' ids. pr_ListOnline (repo now) room s = (s', Inr ids) \<and> rep now s' S \<and>
      sorted ids \<and> distinct ids \<and> set ids = spec_users now room S"
    and rooms: "rep now s S \<Longrightarrow> \<exists>s' rs. pr_ListRooms (repo now) s = (s', Inr rs) \<and> rep now s' S \<and>
      sorted (map rc_Name rs) \<and> distinct (map rc_Name rs) \<and>
      set rs = {\<lparr>rc_Name = r, rc_Count = card (spec_users now r S)\<rparr> | r. spec_users now r S \<noteq> {}}"

text \<open>The calls a client makes of the service, each at its time, and what they do to the table.\<close>

datatype pcall = CallEvent PresenceEvent | CallHeartbeat HeartbeatRequest | CallGetRoom string | CallListRooms

definition run_call :: "(int \<Rightarrow> 's presence_repo) \<Rightarrow> int \<times> pcall \<Rightarrow> 's \<Rightarrow> 's" where
  "run_call repo c s =
     (case snd c of
        CallEvent ev \<Rightarrow> fst (RecordEvent (repo (fst c)) ev s)
      | CallHeartbeat r \<Rightarrow> fst (Heartbeat (repo (fst c)) (hr_Room r) (hr_InstanceID r) (hr_UserIDs r) s)
      | CallGetRoom room \<Rightarrow> fst (GetRoom (repo (fst c)) room s)
      | CallListRooms \<Rightarrow> fst (PresenceService_ListRooms (repo (fst c)) s))"

definition valid_event :: "PresenceEvent \<Rightarrow> bool" where
  "valid_event ev \<longleftrightarrow> presence_validateRoom (pe_Room ev) = Inr () \<and>
     presence_validateInstanceID (pe_InstanceID ev) = Inr () \<and> 0 < pe_UserID ev \<and>
     (pe_Status ev = ''online'' \<or> pe_Status ev = ''offline'')"

definition valid_beat :: "HeartbeatRequest \<Rightarrow> bool" where
  "valid_beat r \<longleftrightarrow> presence_validateRoom (hr_Room r) = Inr () \<and>
     presence_validateInstanceID (hr_InstanceID r) = Inr () \<and> (\<forall>u \<in> set (hr_UserIDs r). 0 < u)"

definition spec_call :: "int \<Rightarrow> int \<times> pcall \<Rightarrow> pspec \<Rightarrow> pspec" where
  "spec_call ttl c S =
     (case snd c of
        CallEvent ev \<Rightarrow>
          if \<not> valid_event ev then S
          else if pe_Status ev = ''online''
          then spec_refresh ttl (fst c) (pe_Room ev) (pe_InstanceID ev) [pe_UserID ev] S
          else spec_offline (pe_Room ev) (pe_UserID ev) (pe_InstanceID ev) S
      | CallHeartbeat r \<Rightarrow>
          if valid_beat r then spec_refresh ttl (fst c) (hr_Room r) (hr_InstanceID r) (hr_UserIDs r) S else S
      | CallGetRoom _ \<Rightarrow> S
      | CallListRooms \<Rightarrow> S)"

text \<open>User ids reach the service decoded into an \<^verbatim>\<open>int64\<close>.\<close>

definition call_ids :: "pcall \<Rightarrow> int set" where
  "call_ids c = (case c of CallEvent ev \<Rightarrow> {pe_UserID ev} | CallHeartbeat r \<Rightarrow> set (hr_UserIDs r) | _ \<Rightarrow> {})"

lemma RecordEvent_invalid: "\<not> valid_event ev \<Longrightarrow> \<exists>m. RecordEvent repo ev s = (s, Inl (Validation m))"
  by (auto simp: valid_event_def RecordEvent_def presence_validateRoom_def presence_validateInstanceID_def split: sum.splits)

lemma RecordEvent_valid:
  "valid_event ev \<Longrightarrow> RecordEvent repo ev s =
     (if pe_Status ev = ''online'' then pr_SetOnline repo else pr_SetOffline repo) (pe_Room ev) (pe_UserID ev) (pe_InstanceID ev) s"
  by (auto simp: valid_event_def RecordEvent_def)

lemma Heartbeat_invalid:
  "\<not> valid_beat r \<Longrightarrow> \<exists>m. Heartbeat repo (hr_Room r) (hr_InstanceID r) (hr_UserIDs r) s = (s, Inl (Validation m))"
  by (auto simp: valid_beat_def Heartbeat_def presence_validateRoom_def presence_validateInstanceID_def list_ex_iff split: sum.splits)

lemma Heartbeat_valid:
  "valid_beat r \<Longrightarrow> Heartbeat repo (hr_Room r) (hr_InstanceID r) (hr_UserIDs r) s = pr_Refresh repo (hr_Room r) (hr_InstanceID r) (hr_UserIDs r) s"
  by (fastforce simp: valid_beat_def Heartbeat_def list_ex_iff)

context presence_store
begin

lemma call_keeps:
  assumes rep: "rep now s S" and ids: "\<forall>u \<in> call_ids c. int64_range u"
  shows "rep now (run_call repo (now, c) s) (spec_call ttl (now, c) S)"
proof (cases c)
  case (CallEvent ev)
  show ?thesis
  proof (cases "valid_event ev")
    case True
    have u: "int64_range (pe_UserID ev)" using ids CallEvent by (simp add: call_ids_def)
    show ?thesis using True CallEvent
        online [OF rep u, of "pe_Room ev" "pe_InstanceID ev"] offline [OF rep u, of "pe_Room ev" "pe_InstanceID ev"]
      by (auto simp: run_call_def spec_call_def RecordEvent_valid)
  next
    case False
    then show ?thesis using rep CallEvent RecordEvent_invalid [OF False, of "repo now" s]
      by (auto simp: run_call_def spec_call_def)
  qed
next
  case (CallHeartbeat r)
  show ?thesis
  proof (cases "valid_beat r")
    case True
    have u: "\<forall>u \<in> set (hr_UserIDs r). int64_range u" using ids CallHeartbeat by (simp add: call_ids_def)
    show ?thesis using True CallHeartbeat refresh [OF rep u, of "hr_Room r" "hr_InstanceID r"]
      by (auto simp: run_call_def spec_call_def Heartbeat_valid)
  next
    case False
    then show ?thesis using rep CallHeartbeat Heartbeat_invalid [OF False, of "repo now" s]
      by (auto simp: run_call_def spec_call_def)
  qed
next
  case (CallGetRoom room)
  then show ?thesis using users [OF rep, of room] rep
    by (auto simp: run_call_def spec_call_def GetRoom_def split: sum.splits)
next
  case CallListRooms
  then show ?thesis using rooms [OF rep]
    by (auto simp: run_call_def spec_call_def PresenceService_ListRooms_def)
qed

lemma calls_keep:
  assumes "rep t0 s S" "sorted (t0 # map fst cs @ [now])" "\<forall>c \<in> set cs. \<forall>u \<in> call_ids (snd c). int64_range u"
  shows "rep now (fold (run_call repo) cs s) (fold (spec_call ttl) cs S)"
  using assms
proof (induction cs arbitrary: t0 s S)
  case Nil
  then show ?case using later by simp
next
  case (Cons c cs)
  obtain t k where c: "c = (t, k)" by fastforce
  have "rep t s S" using Cons.prems c later by simp
  then have "rep t (run_call repo c s) (spec_call ttl c S)" using call_keeps Cons.prems(3) c by simp
  then show ?case using Cons.IH Cons.prems c by simp
qed

lemma GetRoom_users:
  assumes "rep now s S" "presence_validateRoom room = Inr ()"
  shows "\<exists>ids. snd (GetRoom (repo now) room s) = Inr \<lparr>rp_Room = room, rp_Users = ids, rp_Count = length ids\<rparr> \<and>
    sorted ids \<and> distinct ids \<and> set ids = spec_users now room S"
  using users [OF assms(1), of room] assms(2) by (auto simp: GetRoom_def)

lemma ListRooms_live:
  assumes "rep now s S"
  shows "\<exists>rs. snd (PresenceService_ListRooms (repo now) s) = Inr rs \<and> sorted (map rc_Name rs) \<and> distinct (map rc_Name rs) \<and>
    set rs = {\<lparr>rc_Name = r, rc_Count = card (spec_users now r S)\<rparr> | r. spec_users now r S \<noteq> {}}"
proof -
  have "map (\<lambda>r. \<lparr>rc_Name = rc_Name r, rc_Count = rc_Count r\<rparr>) rs = rs" for rs :: "RoomCount list"
    by (simp add: map_idI)
  then show ?thesis using rooms [OF assms] by (fastforce simp: PresenceService_ListRooms_def)
qed

end

interpretation redis_presence: presence_store "redis_repo False ttl" "presence_rep ttl" ttl for ttl
proof unfold_locales
  fix now s S u room inst
  assume rep: "presence_rep ttl now s S" and u: "int64_range u"
  show "\<exists>s'. pr_SetOnline (redis_repo False ttl now) room u inst s = (s', Inr ()) \<and>
      presence_rep ttl now s' (spec_refresh ttl now room inst [u] S)"
    using presence_rep_Refresh [OF rep, of "[u]" room inst] u by (simp add: redis_repo_def SetOnline_Refresh Refresh_stamp)
  show "\<exists>s'. pr_SetOffline (redis_repo False ttl now) room u inst s = (s', Inr ()) \<and>
      presence_rep ttl now s' (spec_offline room u inst S)"
    using presence_rep_SetOffline [OF rep u, of room inst] by (auto simp: redis_repo_def SetOffline_def Let_def split: if_splits)
next
  fix now s S us room inst
  assume "presence_rep ttl now s S" "\<forall>u \<in> set us. int64_range u"
  then show "\<exists>s'. pr_Refresh (redis_repo False ttl now) room inst us s = (s', Inr ()) \<and>
      presence_rep ttl now s' (spec_refresh ttl now room inst us S)"
    using presence_rep_Refresh [of ttl now s S us room inst] by (auto simp: redis_repo_def Refresh_def Let_def split: if_splits)
next
  fix now s S now' assume "presence_rep ttl now s S" "now \<le> now'"
  then show "presence_rep ttl now' s S" by (rule presence_rep_later)
next
  fix now s S room assume "presence_rep ttl now s S"
  then show "\<exists>s' ids. pr_ListOnline (redis_repo False ttl now) room s = (s', Inr ids) \<and> presence_rep ttl now s' S \<and>
      sorted ids \<and> distinct ids \<and> set ids = spec_users now room S"
    by (rule ListOnline_users [where room = room]) (auto simp: redis_repo_def)
next
  fix now s S assume "presence_rep ttl now s S"
  then show "\<exists>s' rs. pr_ListRooms (redis_repo False ttl now) s = (s', Inr rs) \<and> presence_rep ttl now s' S \<and>
      sorted (map rc_Name rs) \<and> distinct (map rc_Name rs) \<and>
      set rs = {\<lparr>rc_Name = r, rc_Count = card (spec_users now r S)\<rparr> | r. spec_users now r S \<noteq> {}}"
    by (rule ListRooms_counts) (auto simp: redis_repo_def)
qed

section \<open>Properties\<close>

definition empty_redis :: redis where
  "empty_redis = (\<lambda>_. no_key)"

lemma presence_rep_empty: "0 < ttl \<Longrightarrow> presence_rep ttl now empty_redis (\<lambda>_. Map.empty)"
  by (simp add: presence_rep_def empty_redis_def slive_def)

text \<open>
  C2: The Redis-backed presence service implements the presence table.  After any sequence of events,
  heartbeats and reads at non-decreasing times on an empty Redis, \<^verbatim>\<open>GET /presence/:room\<close> answers with
  exactly the users for whom some chat instance's entry has been refreshed less than a TTL ago and not
  withdrawn by that instance, in ascending order and without duplicates.
\<close>

theorem presence_refines_table:
  assumes "0 < ttl" "sorted (map fst cs @ [now])" "\<forall>c \<in> set cs. \<forall>u \<in> call_ids (snd c). int64_range u"
    and "presence_validateRoom room = Inr ()"
  shows "\<exists>ids. snd (GetRoom (redis_repo False ttl now) room (fold (run_call (redis_repo False ttl)) cs empty_redis)) =
      Inr \<lparr>rp_Room = room, rp_Users = ids, rp_Count = length ids\<rparr> \<and> sorted ids \<and> distinct ids \<and>
    set ids = spec_users now room (fold (spec_call ttl) cs (\<lambda>_. Map.empty))"
proof -
  let ?t0 = "hd (map fst cs @ [now])"
  have "presence_rep ttl now (fold (run_call (redis_repo False ttl)) cs empty_redis) (fold (spec_call ttl) cs (\<lambda>_. Map.empty))"
    by (rule redis_presence.calls_keep [OF presence_rep_empty [OF assms(1)], of ?t0])
      (use assms(2,3) in \<open>cases cs; simp\<close>)+
  then show ?thesis by (rule redis_presence.GetRoom_users [OF _ assms(4)])
qed

definition ex_online :: "int \<Rightarrow> string \<Rightarrow> pcall" where
  "ex_online u inst = CallEvent \<lparr>pe_UserID = u, pe_Room = ''r'', pe_Status = ''online'', pe_InstanceID = inst\<rparr>"

definition ex_offline :: "int \<Rightarrow> string \<Rightarrow> pcall" where
  "ex_offline u inst = CallEvent \<lparr>pe_UserID = u, pe_Room = ''r'', pe_Status = ''offline'', pe_InstanceID = inst\<rparr>"

lemmas presence_example = ex_online_def ex_offline_def call_ids_def spec_call_def valid_event_def spec_refresh_def spec_offline_def
  spec_users_def

lemma ex_names [simp]: "presence_validateRoom ''r'' = Inr ()" "presence_validateInstanceID ''a'' = Inr ()"
  "presence_validateInstanceID ''b'' = Inr ()"
  by code_simp+

lemma ex_call:
  assumes "0 < u" "presence_validateInstanceID inst = Inr ()"
  shows "spec_call ttl (t, ex_online u inst) S = spec_refresh ttl t ''r'' inst [u] S"
    "spec_call ttl (t, ex_offline u inst) S = spec_offline ''r'' u inst S"
  using assms by (simp_all add: spec_call_def ex_online_def ex_offline_def valid_event_def)

theorem presence_refines_table_witness:
  "\<exists>ids. snd (GetRoom (redis_repo False 30 9000) ''r''
      (fold (run_call (redis_repo False 30)) [(1000, ex_online 7 ''a''), (2000, ex_online 7 ''b''), (3000, ex_offline 7 ''a'')] empty_redis)) =
      Inr \<lparr>rp_Room = ''r'', rp_Users = ids, rp_Count = length ids\<rparr> \<and> set ids = {7}"
proof -
  let ?cs = "[(1000, ex_online 7 ''a''), (2000, ex_online 7 ''b''), (3000, ex_offline 7 ''a'')]"
  let ?S = "fold (spec_call 30) ?cs (\<lambda>_. Map.empty)"
  have S: "?S = spec_offline ''r'' 7 ''a'' (spec_refresh 30 2000 ''r'' ''b'' [7] (spec_refresh 30 1000 ''r'' ''a'' [7] (\<lambda>_. Map.empty)))"
    by (simp add: ex_call)
  have "?S ''r'' p = (if p = (7, ''b'') then Some 32000 else None)" for p
    unfolding S spec_offline_def spec_refresh_def by (cases p) simp
  then have "spec_users 9000 ''r'' ?S = {7}" unfolding spec_users_def by simp
  moreover have "\<forall>c \<in> set ?cs. \<forall>u \<in> call_ids (snd c). int64_range u"
    by (simp add: ex_online_def ex_offline_def call_ids_def int64_range_def)
  moreover have "sorted (map fst ?cs @ [9000 :: int])" by simp
  ultimately show ?thesis using presence_refines_table [of 30 ?cs 9000 "''r''"] ex_names(1) by (metis zero_less_numeral)
qed

text \<open>
  C38: The room list is exact too: after any sequence of calls, \<^verbatim>\<open>GET /rooms\<close> lists precisely the rooms
  with at least one online user, each once, in name order, with the number of distinct online users;
  an index entry that outlived its room is never shown.
\<close>

theorem presence_rooms_exact:
  assumes "0 < ttl" "sorted (map fst cs @ [now])" "\<forall>c \<in> set cs. \<forall>u \<in> call_ids (snd c). int64_range u"
    and "S = fold (spec_call ttl) cs (\<lambda>_. Map.empty)"
  shows "\<exists>rs. snd (PresenceService_ListRooms (redis_repo False ttl now) (fold (run_call (redis_repo False ttl)) cs empty_redis)) = Inr rs \<and>
    sorted (map rc_Name rs) \<and> distinct (map rc_Name rs) \<and>
    set rs = {\<lparr>rc_Name = r, rc_Count = card (spec_users now r S)\<rparr> | r. spec_users now r S \<noteq> {}}"
proof -
  let ?t0 = "hd (map fst cs @ [now])"
  have "presence_rep ttl now (fold (run_call (redis_repo False ttl)) cs empty_redis) S"
    unfolding assms(4) by (rule redis_presence.calls_keep [OF presence_rep_empty [OF assms(1)], of ?t0])
      (use assms(2,3) in \<open>cases cs; simp\<close>)+
  then show ?thesis by (rule redis_presence.ListRooms_live)
qed

theorem presence_rooms_exact_witness:
  "snd (PresenceService_ListRooms (redis_repo False 30 40000)
      (fold (run_call (redis_repo False 30)) [(1000, ex_online 7 ''a'')] empty_redis)) = Inr []"
proof -
  have "spec_users 40000 r (fold (spec_call 30) [(1000, ex_online 7 ''a'')] (\<lambda>_. Map.empty)) = {}" for r
    by (auto simp: presence_example)
  then show ?thesis using presence_rooms_exact [of 30 "[(1000, ex_online 7 ''a'')]" 40000, OF _ _ _ refl]
    by (auto simp: presence_example int64_range_def)
qed

text \<open>
  Every branch of the event endpoint.  An unreadable body or an invalid event is a 400 and changes
  nothing; a Redis failure is a 500 with the generic message, so no internals leak, and changes nothing;
  otherwise the answer is 202.
\<close>

theorem presence_event_statuses:
  "case Controller_RecordEvent (redis_repo down ttl now) bind cx db of (db', r) \<Rightarrow>
     (if (case bind of None \<Rightarrow> True | Some ev \<Rightarrow> \<not> valid_event ev) then db' = db \<and> resp_status r = 400
      else if down then db' = db \<and> r = reply cx 500 (JSON_error ''failed to record presence event'')
      else r = reply cx 202 (JSON (MessageJSON ''recorded'')))"
proof (cases bind)
  case None
  then show ?thesis by (simp add: Controller_RecordEvent_def reply_def)
next
  case (Some ev)
  show ?thesis
  proof (cases "valid_event ev")
    case True
    then show ?thesis using Some
      by (auto simp: Controller_RecordEvent_def RecordEvent_valid redis_repo_def SetOnline_def SetOffline_def
          presence_respondError_def Let_def)
  next
    case False
    obtain m where "RecordEvent (redis_repo down ttl now) ev db = (db, Inl (Validation m))" using RecordEvent_invalid [OF False, of "redis_repo down ttl now" db] by blast
    with False Some show ?thesis by (simp add: Controller_RecordEvent_def presence_respondError_def reply_def)
  qed
qed

end
