(* ===== verification/PresenceMain.thy ===== *)
theory PresenceMain
  imports Routes Presence Config
begin

text \<open>
  \<^verbatim>\<open>presence-service/cmd/presence/main.go\<close>: the routes of theory \<^theory_text>\<open>Routes\<close> over the controllers of theory \<^theory_text>\<open>Presence\<close>.  The
  state is the Redis database; a \<open>pworld\<close> is what a request meets: clock (milliseconds), randomness for the request
  id, whether Redis is reachable, and the decoded bodies of the two writing routes.
\<close>

section \<open>The process\<close>

record pworld =
  pw_jwt :: jwt_package
  pw_now :: int
  pw_rid :: string
  pw_down :: bool
  pw_event :: "PresenceEvent option"
  pw_beat :: "HeartbeatRequest option"

text \<open>Start-up: the configuration and the Redis it names, or an exit.\<close>

definition presence_start :: "env \<Rightarrow> (string \<Rightarrow> redis) \<Rightarrow> (redis \<Rightarrow> unit result) \<Rightarrow> fatal + (presence_Config \<times> redis)" where
  "presence_start env NewClient ping =
     (case presence_LoadConfig env of
        Inl e \<Rightarrow> Inl e
      | Inr cfg \<Rightarrow> (case NewRedis NewClient ping cfg of Inl e \<Rightarrow> Inl e | Inr db \<Rightarrow> Inr (cfg, db)))"

definition presence_guard :: "presence_Config \<Rightarrow> pworld \<Rightarrow> guard \<Rightarrow> echo_context \<Rightarrow> redis \<Rightarrow> redis \<times> (reject + echo_context)" where
  "presence_guard cfg w x cx db =
     (db, case x of
            JWTMiddleware \<Rightarrow> presence_JWTMiddleware (pw_jwt w) (p_JWTSecret cfg) (pw_now w div 1000) cx
          | APIKey \<Rightarrow> presence_APIKeyMiddleware (p_PresenceAPIKey cfg) cx
          | _ \<Rightarrow> Inr cx)"

definition presence_handle ::
  "presence_Config \<Rightarrow> pworld \<Rightarrow> presence_handler \<Rightarrow> echo_context \<Rightarrow> redis \<Rightarrow> redis \<times> presence_json served_json response" where
  "presence_handle cfg w h cx db =
     (let repo = redis_repo (pw_down w) (p_PresenceTTLSec cfg) (pw_now w) in
      case h of
        PHealth \<Rightarrow> (db, reply cx 200 (JSON (Status ''ok'')))
      | PRecordEvent \<Rightarrow> map_prod id (lift_response Served) (Controller_RecordEvent repo (pw_event w) cx db)
      | PHeartbeat \<Rightarrow> map_prod id (lift_response Served) (Controller_Heartbeat repo (pw_beat w) cx db)
      | PGetRoom \<Rightarrow> map_prod id (lift_response Served) (Controller_GetRoom repo cx db)
      | PListRooms \<Rightarrow> map_prod id (lift_response Served) (Controller_ListRooms repo cx db))"

definition presence_serve ::
  "router \<Rightarrow> (echo_context \<Rightarrow> presence_json served_json response) \<Rightarrow> presence_Config \<Rightarrow> pworld \<Rightarrow> echo_context \<Rightarrow> redis \<Rightarrow>
   redis \<times> presence_json served_json response" where
  "presence_serve rfind unrouted cfg w cx db =
     serve_routes rfind presence_routes (presence_guard cfg w) (presence_handle cfg w)
       (\<lambda>cx rej. reply cx (fst rej) (JSON_error (snd rej))) unrouted (RequestIDMiddleware (pw_rid w) cx) db"

section \<open>What a request does to the table\<close>

lemma Controllers_run:
  "fst (Controller_RecordEvent (repo t) bind cx s) = (case bind of None \<Rightarrow> s | Some ev \<Rightarrow> run_call repo (t, CallEvent ev) s)"
  "fst (Controller_Heartbeat (repo t) bind' cx s) = (case bind' of None \<Rightarrow> s | Some hb \<Rightarrow> run_call repo (t, CallHeartbeat hb) s)"
  "fst (Controller_GetRoom (repo t) cx s) = run_call repo (t, CallGetRoom (cx_param cx ''room'')) s"
  "fst (Controller_ListRooms (repo t) cx s) = run_call repo (t, CallListRooms) s"
  by (simp_all add: run_call_def Controller_RecordEvent_def Controller_Heartbeat_def Controller_GetRoom_def Controller_ListRooms_def
      split: option.split prod.split sum.split)

definition presence_key :: "presence_Config \<Rightarrow> request \<Rightarrow> bool" where
  "presence_key cfg r \<longleftrightarrow> Header_Get (req_header r) ''X-Presence-Key'' = p_PresenceAPIKey cfg"

text \<open>The effect of a handler on the table, and who may cause it.\<close>

definition asked :: "pworld \<Rightarrow> presence_handler \<Rightarrow> pcall" where
  "asked w h =
     (case h of
        PRecordEvent \<Rightarrow> (case pw_event w of None \<Rightarrow> CallListRooms | Some ev \<Rightarrow> CallEvent ev)
      | PHeartbeat \<Rightarrow> (case pw_beat w of None \<Rightarrow> CallListRooms | Some hb \<Rightarrow> CallHeartbeat hb)
      | _ \<Rightarrow> CallListRooms)"

lemma presence_handle_rep:
  assumes "presence_rep (p_PresenceTTLSec cfg) (pw_now w) db S" "\<not> pw_down w" "\<forall>u \<in> call_ids (asked w h). int64_range u"
  shows "presence_rep (p_PresenceTTLSec cfg) (pw_now w) (fst (presence_handle cfg w h cx db))
    (spec_call (p_PresenceTTLSec cfg) (pw_now w, asked w h) S)"
proof -
  let ?ttl = "p_PresenceTTLSec cfg"
  have keep: "presence_rep ?ttl (pw_now w) (run_call (redis_repo False ?ttl) (pw_now w, c) db) (spec_call ?ttl (pw_now w, c) S)"
    if "\<forall>u \<in> call_ids c. int64_range u" for c
    by (rule redis_presence.call_keeps [OF assms(1) that])
  have none: "call_ids (CallGetRoom room) = {}" "call_ids CallListRooms = {}"
    "spec_call ?ttl (t, CallGetRoom room) S = S" "spec_call ?ttl (t, CallListRooms) S = S" for t room
    by (simp_all add: call_ids_def spec_call_def)
  show ?thesis
    using assms keep [of "CallGetRoom (cx_param cx ''room'')"] keep [of CallListRooms] keep [of "asked w h"]
    by (cases h) (simp_all add: presence_handle_def Let_def Controllers_run asked_def none split: option.splits)
qed

lemma presence_serve_cases:
  assumes "echo_router rfind"
  obtains (same) "fst (presence_serve rfind unrouted cfg w cx db) = db"
  | (ran) rt ps cx' where "routed rfind presence_routes (cx_req cx) rt ps" "presence_serve rfind unrouted cfg w cx db = presence_handle cfg w (rt_handler rt) cx' db"
      "rt_guards rt = [APIKey] \<Longrightarrow> presence_key cfg (cx_req cx)"
proof (cases "rfind (keys presence_routes) (req_method (cx_req cx)) (req_path (cx_req cx)) = None")
  case True
  then have "fst (presence_serve rfind unrouted cfg w cx db) = db"
    by (simp add: presence_serve_def serve_routes_def RequestIDMiddleware_def Let_def)
  then show thesis by (rule same)
next
  case False
  obtain rt ps where rt: "routed rfind presence_routes (cx_req cx) rt ps"
    using echo_router.routed_some [OF assms tables_no_wildcards(3) False] by auto
  let ?cx = "(RequestIDMiddleware (pw_rid w) cx)\<lparr>cx_param := ps\<rparr>"
  have req: "cx_req (RequestIDMiddleware (pw_rid w) cx) = cx_req cx" by (simp add: RequestIDMiddleware_def Let_def)
  then have s: "presence_serve rfind unrouted cfg w cx db =
      (case run_guards (presence_guard cfg w) (rt_guards rt) ?cx db of
         (db', Inl (cx', rej)) \<Rightarrow> (db', reply cx' (fst rej) (JSON_error (snd rej)))
       | (db', Inr cx') \<Rightarrow> presence_handle cfg w (rt_handler rt) cx' db')"
    unfolding presence_serve_def by (intro serve_routed) (simp add: rt)
  have "rt_guards rt \<in> {[], [APIKey], [JWTMiddleware]}" using routed_mem [OF rt] by (auto simp: presence_routes_def)
  then consider "rt_guards rt = []" | "rt_guards rt = [APIKey]" | "rt_guards rt = [JWTMiddleware]" by auto
  then show thesis
  proof cases
    case 1
    then show ?thesis using ran [OF rt] s by simp
  next
    case 2
    then show ?thesis
      using ran [OF rt] same s req
      by (cases "presence_key cfg (cx_req cx)") (simp_all add: presence_guard_def presence_APIKeyMiddleware_def presence_key_def)
  next
    case 3
    show ?thesis
      using ran [OF rt] same s 3
      by (cases "presence_JWTMiddleware (pw_jwt w) (p_JWTSecret cfg) (pw_now w div 1000) ?cx") (simp_all add: presence_guard_def)
  qed
qed

section \<open>Properties\<close>

lemma asked_guarded: "rt \<in> set presence_routes \<Longrightarrow> asked w (rt_handler rt) \<noteq> CallListRooms \<Longrightarrow> rt_guards rt = [APIKey]"
  by (auto simp: presence_routes_def asked_def)

lemma asked_cases:
  "asked w h = CallListRooms \<or> (\<exists>ev. pw_event w = Some ev \<and> asked w h = CallEvent ev) \<or> (\<exists>hb. pw_beat w = Some hb \<and> asked w h = CallHeartbeat hb)"
  by (cases h) (auto simp: asked_def split: option.splits)

text \<open>
  C12: presence can only be written with the service key.  Whatever HTTP request presence-service gets, its
  Redis afterwards represents either the same presence table as before, or, if the request carried the presence API
  key, the table changed by exactly the event or heartbeat of its body.  In particular a request without the key (anything
  from the gateway or from a browser) changes nobody's presence, whatever it is routed to.
\<close>

theorem presence_writes_need_key:
  assumes "echo_router rfind" "presence_rep (p_PresenceTTLSec cfg) (pw_now w) db S" "\<not> pw_down w"
    and "\<forall>ev. pw_event w = Some ev \<longrightarrow> int64_range (pe_UserID ev)"
    and "\<forall>hb. pw_beat w = Some hb \<longrightarrow> (\<forall>u \<in> set (hr_UserIDs hb). int64_range u)"
  shows "\<exists>S'. presence_rep (p_PresenceTTLSec cfg) (pw_now w) (fst (presence_serve rfind unrouted cfg w cx db)) S' \<and>
    (S' = S \<or>
     presence_key cfg (cx_req cx) \<and>
       ((\<exists>ev. pw_event w = Some ev \<and> S' = spec_call (p_PresenceTTLSec cfg) (pw_now w, CallEvent ev) S) \<or>
        (\<exists>hb. pw_beat w = Some hb \<and> S' = spec_call (p_PresenceTTLSec cfg) (pw_now w, CallHeartbeat hb) S)))"
proof (cases rule: presence_serve_cases [OF assms(1), of unrouted cfg w cx db, case_names same ran])
  case same
  then show ?thesis using assms(2) by auto
next
  case (ran rt ps cx')
  let ?S' = "spec_call (p_PresenceTTLSec cfg) (pw_now w, asked w (rt_handler rt)) S"
  have ids: "\<forall>u \<in> call_ids (asked w (rt_handler rt)). int64_range u"
    using asked_cases [of w "rt_handler rt"] assms(4,5) by (auto simp: call_ids_def)
  have rep: "presence_rep (p_PresenceTTLSec cfg) (pw_now w) (fst (presence_serve rfind unrouted cfg w cx db)) ?S'"
    unfolding ran(2) by (rule presence_handle_rep [OF assms(2,3) ids])
  show ?thesis
  proof (cases "asked w (rt_handler rt) = CallListRooms")
    case True
    then have "?S' = S" by (simp add: spec_call_def)
    with rep show ?thesis by auto
  next
    case False
    then have "presence_key cfg (cx_req cx)" using ran(3) asked_guarded [OF routed_mem [OF ran(1)]] by blast
    with rep False asked_cases [of w "rt_handler rt"] show ?thesis by (intro exI [of _ ?S']) auto
  qed
qed

definition ex_pworld :: pworld where
  "ex_pworld =
     \<lparr>pw_jwt = one_token \<lparr>cl_user_id = 42, cl_role = ''user'', cl_exp = 86500\<rparr> ''s'', pw_now = 200000, pw_rid = ''b'', pw_down = False,
      pw_event = Some \<lparr>pe_UserID = 7, pe_Room = ''r'', pe_Status = ''online'', pe_InstanceID = ''chat-1''\<rparr>, pw_beat = None\<rparr>"

definition ex_pconfig :: presence_Config where
  "ex_pconfig = \<lparr>p_RedisAddr = ''r'', p_JWTSecret = ''s'', p_PresenceAPIKey = ''p'', p_ServerPort = ''8002'', p_PresenceTTLSec = 90\<rparr>"

theorem presence_writes_need_key_witness:
  "presence_rep 90 200000 (fst (presence_serve first_match (\<lambda>cx. respond 404 NoBody) ex_pconfig ex_pworld (bearer_context ''tok'') empty_redis)) (\<lambda>_. Map.empty)"
proof -
  have rep: "presence_rep (p_PresenceTTLSec ex_pconfig) (pw_now ex_pworld) empty_redis (\<lambda>_. Map.empty)"
    by (rule presence_rep_empty) (simp add: ex_pconfig_def)
  have canon: "CanonicalHeaderKey ''X-Presence-Key'' \<noteq> CanonicalHeaderKey ''Authorization''" by code_simp
  have "\<not> presence_key ex_pconfig (cx_req (bearer_context ''tok''))"
    using canon by (simp add: presence_key_def ex_pconfig_def bearer_context_def Header_Get_def Header_Set_def no_headers_def)
  with presence_writes_need_key [OF fm.echo_router_axioms rep, of "\<lambda>cx. respond 404 NoBody" "bearer_context ''tok''"]
  show ?thesis by (auto simp: ex_pworld_def ex_pconfig_def int64_range_def)
qed

text \<open>Who is online, asked with a token.\<close>

lemma presence_answers_online:
  assumes "echo_router rfind" "presence_rep (p_PresenceTTLSec cfg) (pw_now w) db S" "\<not> pw_down w"
    and "room_name room" "req_method (cx_req cx) = ''GET''" "req_path (cx_req cx) = ''/presence/'' @ room"
    and "\<And>cx'. cx_req cx' = cx_req cx \<Longrightarrow> \<exists>u role. presence_JWTMiddleware (pw_jwt w) (p_JWTSecret cfg) (pw_now w div 1000) cx' = Inr (cx'\<lparr>cx_user_id := u, cx_role := role\<rparr>)"
  shows "\<exists>ids. resp_status (snd (presence_serve rfind unrouted cfg w cx db)) = 200 \<and>
    resp_body (snd (presence_serve rfind unrouted cfg w cx db)) = JSON (Served (PresenceJSON \<lparr>rp_Room = room, rp_Users = ids, rp_Count = length ids\<rparr>)) \<and>
    sorted ids \<and> distinct ids \<and> set ids = spec_users (pw_now w) room S"
proof -
  let ?rt = "on ''GET'' ''/presence/:room'' [JWTMiddleware] PGetRoom"
  have mem: "?rt \<in> set presence_routes" by (simp add: presence_routes_def)
  have path: "expand (\<lambda>_. room) ''/presence/:room'' = ''/presence/'' @ room" "param_names ''/presence/:room'' = [''room'']"
    by (simp_all add: expand.simps param_names.simps)
  have plain: "plain_params (rt_path ?rt) (\<lambda>_. room)" using plain_room [OF assms(4)] by (simp add: plain_params_def path)
  obtain ps where rt: "routed rfind presence_routes (cx_req cx) ?rt ps" and ps: "ps ''room'' = room"
    using echo_router.routed_to [OF assms(1) tables_no_wildcards(3) tables_unambiguous(3) mem plain, of "cx_req cx"] assms(5,6)
    by (auto simp: path)
  let ?cx = "(RequestIDMiddleware (pw_rid w) cx)\<lparr>cx_param := ps\<rparr>"
  have req: "cx_req ?cx = cx_req cx" "cx_req (RequestIDMiddleware (pw_rid w) cx) = cx_req cx"
    by (simp_all add: RequestIDMiddleware_def Let_def)
  obtain u role where jwt: "presence_JWTMiddleware (pw_jwt w) (p_JWTSecret cfg) (pw_now w div 1000) ?cx = Inr (?cx\<lparr>cx_user_id := u, cx_role := role\<rparr>)"
    using assms(7) [OF req(1)] by blast
  let ?cx' = "?cx\<lparr>cx_user_id := u, cx_role := role\<rparr>"
  have rt': "routed rfind presence_routes (cx_req (RequestIDMiddleware (pw_rid w) cx)) ?rt ps" using rt req by simp
  have s: "presence_serve rfind unrouted cfg w cx db = presence_handle cfg w PGetRoom ?cx' db"
    unfolding presence_serve_def serve_routed [OF rt'] by (simp add: presence_guard_def jwt)
  obtain ids where ids: "snd (GetRoom (redis_repo False (p_PresenceTTLSec cfg) (pw_now w)) room db) =
      Inr \<lparr>rp_Room = room, rp_Users = ids, rp_Count = length ids\<rparr>" "sorted ids" "distinct ids" "set ids = spec_users (pw_now w) room S"
    using redis_presence.GetRoom_users [OF assms(2)] assms(4) by (auto simp: presence_validateRoom_iff)
  obtain db' where g: "GetRoom (redis_repo False (p_PresenceTTLSec cfg) (pw_now w)) room db = (db', Inr \<lparr>rp_Room = room, rp_Users = ids, rp_Count = length ids\<rparr>)"
    using ids(1) by (metis prod.collapse)
  then show ?thesis
    using ids(2-4) assms(3) ps by (intro exI [of _ ids]) (simp add: s presence_handle_def Let_def Controller_GetRoom_def)
qed

end
