(* ===== verification/Webhooks.thy ===== *)
theory Webhooks
  imports Auth Validation "HOL-Library.Sublist" "HOL-Library.Char_ord" "HOL-Library.List_Lexorder"
begin

text \<open>
  Webhook registration and room subscriptions of notification-service: \<^verbatim>\<open>service/ssrf.go\<close>,
  \<^verbatim>\<open>service/validation.go\<close>, \<^verbatim>\<open>service/signer.go\<close>, \<^verbatim>\<open>service/webhook_service.go\<close>,
  \<^verbatim>\<open>service/subscription_service.go\<close>, their repositories and controllers, and the data of
  \<^verbatim>\<open>domain/notification.go\<close>.  Parsing of URLs and IP literals, name resolution, dialling and the HMAC are
  parameters; the database context carries the collation of the room column, the clock and whether the
  connection fails.
\<close>

section \<open>net.IP\<close>

text \<open>
  An address is its byte sequence, 4 or 16 bytes.  The methods follow the standard library: a 16-byte
  address with the prefix \<^verbatim>\<open>::ffff:0:0/96\<close> is treated as the IPv4 address it embeds, and a mask of leading bits is a
  division.
\<close>

type_synonym ip = "nat list"

definition To4 :: "ip \<Rightarrow> ip option" where
  "To4 ip =
     (if length ip = 4 then Some ip
      else if length ip = 16 \<and> take 12 ip = replicate 10 0 @ [255, 255] then Some (drop 12 ip)
      else None)"

definition IsLoopback :: "ip \<Rightarrow> bool" where
  "IsLoopback ip = (case To4 ip of Some a \<Rightarrow> a ! 0 = 127 | None \<Rightarrow> ip = replicate 15 0 @ [1])"

definition IsPrivate :: "ip \<Rightarrow> bool" where
  "IsPrivate ip =
     (case To4 ip of
        Some a \<Rightarrow> a ! 0 = 10 \<or> (a ! 0 = 172 \<and> a ! 1 div 16 = 1) \<or> (a ! 0 = 192 \<and> a ! 1 = 168)
      | None \<Rightarrow> length ip = 16 \<and> ip ! 0 div 2 = 126)"

definition IsLinkLocalUnicast :: "ip \<Rightarrow> bool" where
  "IsLinkLocalUnicast ip =
     (case To4 ip of
        Some a \<Rightarrow> a ! 0 = 169 \<and> a ! 1 = 254
      | None \<Rightarrow> length ip = 16 \<and> ip ! 0 = 254 \<and> ip ! 1 div 64 = 2)"

definition IsLinkLocalMulticast :: "ip \<Rightarrow> bool" where
  "IsLinkLocalMulticast ip =
     (case To4 ip of
        Some a \<Rightarrow> a ! 0 = 224 \<and> a ! 1 = 0 \<and> a ! 2 = 0
      | None \<Rightarrow> length ip = 16 \<and> ip ! 0 = 255 \<and> ip ! 1 mod 16 = 2)"

definition IsInterfaceLocalMulticast :: "ip \<Rightarrow> bool" where
  "IsInterfaceLocalMulticast ip \<longleftrightarrow> length ip = 16 \<and> ip ! 0 = 255 \<and> ip ! 1 mod 16 = 1"

definition IsMulticast :: "ip \<Rightarrow> bool" where
  "IsMulticast ip =
     (case To4 ip of Some a \<Rightarrow> a ! 0 div 16 = 14 | None \<Rightarrow> length ip = 16 \<and> ip ! 0 = 255)"

definition IsUnspecified :: "ip \<Rightarrow> bool" where
  "IsUnspecified ip \<longleftrightarrow> To4 ip = Some [0, 0, 0, 0] \<or> ip = replicate 16 0"

section \<open>ssrf.go\<close>

definition forbiddenIP :: "ip \<Rightarrow> bool \<Rightarrow> bool" where
  "forbiddenIP ip allowLoopback =
     (if IsLoopback ip then \<not> allowLoopback
      else IsPrivate ip \<or> IsLinkLocalUnicast ip \<or> IsLinkLocalMulticast ip \<or>
        IsUnspecified ip \<or> IsMulticast ip \<or> IsInterfaceLocalMulticast ip)"

text \<open>
  The dialer of the delivery transport.  \<open>split\<close> is \<^verbatim>\<open>net.SplitHostPort\<close>, \<open>resolve\<close> the resolver and \<open>dial\<close> the
  connection attempt; the result also lists the addresses a connection was attempted to.
\<close>

datatype dial_error = ForbiddenDestination string | DialFailed string

fun dial_loop :: "(ip \<Rightarrow> string \<Rightarrow> dial_error option) \<Rightarrow> bool \<Rightarrow> string \<Rightarrow> ip list \<Rightarrow> dial_error \<Rightarrow> ip list \<times> (dial_error + ip)" where
  "dial_loop dial allowLoopback port [] lastErr = ([], Inl lastErr)"
| "dial_loop dial allowLoopback port (addr # rest) lastErr =
     (if forbiddenIP addr allowLoopback then dial_loop dial allowLoopback port rest lastErr
      else
        (case dial addr port of
           None \<Rightarrow> ([addr], Inr addr)
         | Some e \<Rightarrow> (let (tried, r) = dial_loop dial allowLoopback port rest e in (addr # tried, r))))"

definition safe_DialContext ::
  "(string \<Rightarrow> dial_error + string \<times> string) \<Rightarrow> (string \<Rightarrow> dial_error + ip list) \<Rightarrow> (ip \<Rightarrow> string \<Rightarrow> dial_error option) \<Rightarrow>
    bool \<Rightarrow> string \<Rightarrow> ip list \<times> (dial_error + ip)" where
  "safe_DialContext split resolve dial allowLoopback address =
     (case split address of
        Inl e \<Rightarrow> ([], Inl e)
      | Inr (host, port) \<Rightarrow>
          (case resolve host of
             Inl e \<Rightarrow> ([], Inl e)
           | Inr addrs \<Rightarrow> dial_loop dial allowLoopback port addrs (ForbiddenDestination host)))"

section \<open>validation.go: validateWebhookURL\<close>

record parsed_url =
  ur_Scheme :: string
  ur_Host :: string
  ur_Hostname :: string
  ur_hasUser :: bool

definition HasSuffix :: "string \<Rightarrow> string \<Rightarrow> bool" where
  "HasSuffix s sfx \<longleftrightarrow> length sfx \<le> length s \<and> drop (length s - length sfx) s = sfx"

text \<open>
  \<open>parse\<close> is \<^verbatim>\<open>url.ParseRequestURI\<close> and \<open>ParseIP\<close> is \<^verbatim>\<open>net.ParseIP\<close>.  \<^verbatim>\<open>strings.ToLower\<close> is its effect on ASCII: no
  other rune has a letter of \<^verbatim>\<open>localhost\<close> as its lower case.
\<close>

definition validateWebhookURL ::
  "(string \<Rightarrow> parsed_url option) \<Rightarrow> (string \<Rightarrow> ip option) \<Rightarrow> string \<Rightarrow> bool \<Rightarrow> unit result" where
  "validateWebhookURL parse ParseIP raw allowLoopback =
     (if raw = '''' then Inl (Validation ''url is required'')
      else if length raw > 2048 then Inl (Validation ''url must be at most 2048 characters'')
      else
        (case parse raw of
           None \<Rightarrow> Inl (Validation ''url must be absolute'')
         | Some parsed \<Rightarrow>
             if ur_Host parsed = '''' then Inl (Validation ''url must be absolute'')
             else if ur_Scheme parsed \<noteq> ''http'' \<and> ur_Scheme parsed \<noteq> ''https''
             then Inl (Validation ''url scheme must be http or https'')
             else if ur_hasUser parsed then Inl (Validation ''url must not carry credentials'')
             else
               (case ParseIP (ur_Hostname parsed) of
                  Some ip \<Rightarrow>
                    if forbiddenIP ip allowLoopback
                    then Inl (Validation ''url must not point at a private or local address'') else Inr ()
                | None \<Rightarrow>
                    (let lower = map lower_char (ur_Hostname parsed)
                     in if lower = ''localhost'' \<or> HasSuffix lower ''.localhost''
                        then if allowLoopback then Inr ()
                             else Inl (Validation ''url must not point at a private or local address'')
                        else Inr ()))))"

section \<open>signer.go\<close>

text \<open>\<open>hmac secret m\<close> is the raw HMAC-SHA256 of \<open>m\<close>; consecutive \<^verbatim>\<open>mac.Write\<close> calls concatenate.\<close>

definition Sign :: "(string \<Rightarrow> string \<Rightarrow> string) \<Rightarrow> string \<Rightarrow> int \<Rightarrow> string \<Rightarrow> string" where
  "Sign hmac secret timestamp body =
     ''sha256='' @ hex_EncodeToString (hmac secret (FormatInt timestamp @ ''.'' @ body))"

definition Verify :: "(string \<Rightarrow> string \<Rightarrow> string) \<Rightarrow> string \<Rightarrow> int \<Rightarrow> string \<Rightarrow> string \<Rightarrow> bool" where
  "Verify hmac secret timestamp body signature \<longleftrightarrow> Sign hmac secret timestamp body = signature"

section \<open>The repositories\<close>

record Webhook =
  wh_UserID :: int
  wh_URL :: string
  wh_Secret :: string
  wh_CreatedAt :: int
  wh_UpdatedAt :: int

record Subscription =
  sb_UserID :: int
  sb_Room :: string
  sb_CreatedAt :: int

record ndb =
  nd_coll :: "string \<Rightarrow> string"
  nd_now :: int
  nd_down :: bool

datatype nerror = NotFound | Duplicate | Failed goerror

definition db_error :: nerror where
  "db_error = Failed (External ''mysql'')"

definition Upsert :: "ndb \<Rightarrow> Webhook \<Rightarrow> Webhook list \<Rightarrow> Webhook list \<times> (nerror + unit)" where
  "Upsert db webhook ws =
     (if nd_down db then (ws, Inl db_error)
      else if \<exists>w \<in> set ws. wh_UserID w = wh_UserID webhook
      then (map (\<lambda>w. if wh_UserID w = wh_UserID webhook
                then w\<lparr>wh_URL := wh_URL webhook, wh_Secret := wh_Secret webhook, wh_UpdatedAt := nd_now db\<rparr> else w) ws, Inr ())
      else (ws @ [webhook\<lparr>wh_CreatedAt := nd_now db, wh_UpdatedAt := nd_now db\<rparr>], Inr ()))"

definition GetByUserID :: "ndb \<Rightarrow> int \<Rightarrow> Webhook list \<Rightarrow> nerror + Webhook" where
  "GetByUserID db userID ws =
     (if nd_down db then Inl db_error
      else (case filter (\<lambda>w. wh_UserID w = userID) ws of [] \<Rightarrow> Inl NotFound | w # _ \<Rightarrow> Inr w))"

definition DeleteByUserID :: "ndb \<Rightarrow> int \<Rightarrow> Webhook list \<Rightarrow> Webhook list \<times> (nerror + unit)" where
  "DeleteByUserID db userID ws =
     (if nd_down db then (ws, Inl db_error) else (filter (\<lambda>w. wh_UserID w \<noteq> userID) ws, Inr ()))"

definition ListByUserIDs :: "ndb \<Rightarrow> int list \<Rightarrow> Webhook list \<Rightarrow> nerror + Webhook list" where
  "ListByUserIDs db userIDs ws =
     (if userIDs = [] then Inr []
      else if nd_down db then Inl db_error
      else Inr (filter (\<lambda>w. wh_UserID w \<in> set userIDs) ws))"

definition same_sub :: "ndb \<Rightarrow> int \<Rightarrow> string \<Rightarrow> Subscription \<Rightarrow> bool" where
  "same_sub db userID room s \<longleftrightarrow> sb_UserID s = userID \<and> nd_coll db (sb_Room s) = nd_coll db room"

text \<open>\<^verbatim>\<open>INSERT IGNORE\<close> under the primary key \<^verbatim>\<open>(user_id, room)\<close>.\<close>

definition Subscription_Create :: "ndb \<Rightarrow> int \<Rightarrow> string \<Rightarrow> Subscription list \<Rightarrow> Subscription list \<times> (nerror + unit)" where
  "Subscription_Create db userID room ss =
     (if nd_down db then (ss, Inl db_error)
      else if \<exists>s \<in> set ss. same_sub db userID room s then (ss, Inr ())
      else (ss @ [\<lparr>sb_UserID = userID, sb_Room = room, sb_CreatedAt = nd_now db\<rparr>], Inr ()))"

definition Subscription_Delete :: "ndb \<Rightarrow> int \<Rightarrow> string \<Rightarrow> Subscription list \<Rightarrow> Subscription list \<times> (nerror + unit)" where
  "Subscription_Delete db userID room ss =
     (if nd_down db then (ss, Inl db_error) else (filter (\<lambda>s. \<not> same_sub db userID room s) ss, Inr ()))"

definition Subscription_ListByUserID :: "ndb \<Rightarrow> int \<Rightarrow> Subscription list \<Rightarrow> nerror + Subscription list" where
  "Subscription_ListByUserID db userID ss =
     (if nd_down db then Inl db_error
      else Inr (sort_key (\<lambda>s. nd_coll db (sb_Room s)) (filter (\<lambda>s. sb_UserID s = userID) ss)))"

definition ListUserIDsByRoom :: "ndb \<Rightarrow> string \<Rightarrow> Subscription list \<Rightarrow> nerror + int list" where
  "ListUserIDsByRoom db room ss =
     (if nd_down db then Inl db_error
      else Inr (map sb_UserID (filter (\<lambda>s. nd_coll db (sb_Room s) = nd_coll db room) ss)))"

section \<open>webhook\_service.go and subscription\_service.go\<close>

record WebhookService =
  ws_parse :: "string \<Rightarrow> parsed_url option"
  ws_ParseIP :: "string \<Rightarrow> ip option"
  ws_allowLoopback :: bool

record WebhookWithSecret =
  ww_Webhook :: Webhook
  ww_Secret :: string

text \<open>\<open>rnd\<close> is the outcome of \<^verbatim>\<open>rand.Read\<close> into 32 bytes.\<close>

definition newSecret :: "goerror + string \<Rightarrow> string result" where
  "newSecret rnd = bind_result rnd (\<lambda>b. Inr (hex_EncodeToString b))"

text \<open>The write and the read back are two queries; either can find the database down.\<close>

definition WebhookService_Put ::
  "WebhookService \<Rightarrow> goerror + string \<Rightarrow> ndb \<Rightarrow> ndb \<Rightarrow> int \<Rightarrow> string \<Rightarrow> Webhook list \<Rightarrow> Webhook list \<times> (nerror + WebhookWithSecret)" where
  "WebhookService_Put s rnd db db' userID rawURL ws =
     (case validateWebhookURL (ws_parse s) (ws_ParseIP s) rawURL (ws_allowLoopback s) of
        Inl e \<Rightarrow> (ws, Inl (Failed e))
      | Inr _ \<Rightarrow>
     case newSecret rnd of
        Inl e \<Rightarrow> (ws, Inl (Failed e))
      | Inr secret \<Rightarrow>
          (let webhook = \<lparr>wh_UserID = userID, wh_URL = rawURL, wh_Secret = secret, wh_CreatedAt = 0, wh_UpdatedAt = 0\<rparr>
           in case Upsert db webhook ws of
                (ws1, Inl e) \<Rightarrow> (ws1, Inl e)
              | (ws1, Inr _) \<Rightarrow>
                  (case GetByUserID db' userID ws1 of
                     Inl e \<Rightarrow> (ws1, Inl e)
                   | Inr stored \<Rightarrow> (ws1, Inr \<lparr>ww_Webhook = stored, ww_Secret = secret\<rparr>))))"

definition Subscribe :: "ndb \<Rightarrow> int \<Rightarrow> string \<Rightarrow> Subscription list \<Rightarrow> Subscription list \<times> (nerror + unit)" where
  "Subscribe db userID room ss =
     (case notification_validateRoom room of Inl e \<Rightarrow> (ss, Inl (Failed e)) | Inr _ \<Rightarrow> Subscription_Create db userID room ss)"

definition Unsubscribe :: "ndb \<Rightarrow> int \<Rightarrow> string \<Rightarrow> Subscription list \<Rightarrow> Subscription list \<times> (nerror + unit)" where
  "Unsubscribe db userID room ss =
     (case notification_validateRoom room of Inl e \<Rightarrow> (ss, Inl (Failed e)) | Inr _ \<Rightarrow> Subscription_Delete db userID room ss)"

section \<open>The controllers\<close>

text \<open>What is encoded of a webhook: the secret has the tag \<^verbatim>\<open>json:"-"\<close> and only \<^verbatim>\<open>PUT\<close> answers with it.\<close>

datatype notify_json =
    WebhookJSON int string int int
  | WebhookSecretJSON int string int int string
  | RoomJSON string
  | SubscriptionsJSON "Subscription list"
  | AckJSON string

definition webhook_json :: "Webhook \<Rightarrow> notify_json" where
  "webhook_json w = WebhookJSON (wh_UserID w) (wh_URL w) (wh_CreatedAt w) (wh_UpdatedAt w)"

definition secret_json :: "WebhookWithSecret \<Rightarrow> notify_json" where
  "secret_json w = WebhookSecretJSON (wh_UserID (ww_Webhook w)) (wh_URL (ww_Webhook w))
     (wh_CreatedAt (ww_Webhook w)) (wh_UpdatedAt (ww_Webhook w)) (ww_Secret w)"

definition userIDFrom :: "echo_context \<Rightarrow> int option" where
  "userIDFrom cx = (case cx_user_id cx of None \<Rightarrow> None | Some u \<Rightarrow> if u > 0 then Some u else None)"

definition unauthorized :: "echo_context \<Rightarrow> 'v response" where
  "unauthorized cx = reply cx 401 (JSON_error ''unauthorized'')"

definition notify_respondError :: "echo_context \<Rightarrow> nerror \<Rightarrow> string \<Rightarrow> 'v response" where
  "notify_respondError cx err genericMessage =
     (case err of
        Failed (Validation m) \<Rightarrow> reply cx 400 (JSON_error (''validation: '' @ m))
      | _ \<Rightarrow> reply cx 500 (JSON_error genericMessage))"

definition WebhookController_Put ::
  "WebhookService \<Rightarrow> goerror + string \<Rightarrow> ndb \<Rightarrow> ndb \<Rightarrow> string option \<Rightarrow> echo_context \<Rightarrow> Webhook list \<Rightarrow> Webhook list \<times> notify_json response" where
  "WebhookController_Put s rnd db db' bind cx ws =
     (case userIDFrom cx of
        None \<Rightarrow> (ws, unauthorized cx)
      | Some userID \<Rightarrow>
          (case bind of
             None \<Rightarrow> (ws, reply cx 400 (JSON_error ''invalid request body''))
           | Some url \<Rightarrow>
               (case WebhookService_Put s rnd db db' userID url ws of
                  (ws1, Inl e) \<Rightarrow> (ws1, notify_respondError cx e ''failed to register webhook'')
                | (ws1, Inr webhook) \<Rightarrow> (ws1, reply cx 200 (JSON (secret_json webhook))))))"

definition WebhookController_Get :: "ndb \<Rightarrow> echo_context \<Rightarrow> Webhook list \<Rightarrow> notify_json response" where
  "WebhookController_Get db cx ws =
     (case userIDFrom cx of
        None \<Rightarrow> unauthorized cx
      | Some userID \<Rightarrow>
          (case GetByUserID db userID ws of
             Inl NotFound \<Rightarrow> reply cx 404 (JSON_error ''no webhook registered'')
           | Inl e \<Rightarrow> notify_respondError cx e ''failed to fetch webhook''
           | Inr webhook \<Rightarrow> reply cx 200 (JSON (webhook_json webhook))))"

definition WebhookController_Delete :: "ndb \<Rightarrow> echo_context \<Rightarrow> Webhook list \<Rightarrow> Webhook list \<times> notify_json response" where
  "WebhookController_Delete db cx ws =
     (case userIDFrom cx of
        None \<Rightarrow> (ws, unauthorized cx)
      | Some userID \<Rightarrow>
          (case DeleteByUserID db userID ws of
             (ws1, Inl e) \<Rightarrow> (ws1, notify_respondError cx e ''failed to delete webhook'')
           | (ws1, Inr _) \<Rightarrow> (ws1, reply cx 204 NoBody)))"

definition SubscriptionController_Subscribe :: "ndb \<Rightarrow> string option \<Rightarrow> echo_context \<Rightarrow> Subscription list \<Rightarrow> Subscription list \<times> notify_json response" where
  "SubscriptionController_Subscribe db bind cx ss =
     (case userIDFrom cx of
        None \<Rightarrow> (ss, unauthorized cx)
      | Some userID \<Rightarrow>
          (case bind of
             None \<Rightarrow> (ss, reply cx 400 (JSON_error ''invalid request body''))
           | Some room \<Rightarrow>
               (case Subscribe db userID room ss of
                  (ss1, Inl e) \<Rightarrow> (ss1, notify_respondError cx e ''failed to subscribe'')
                | (ss1, Inr _) \<Rightarrow> (ss1, reply cx 201 (JSON (RoomJSON room))))))"

definition SubscriptionController_Unsubscribe :: "ndb \<Rightarrow> echo_context \<Rightarrow> Subscription list \<Rightarrow> Subscription list \<times> notify_json response" where
  "SubscriptionController_Unsubscribe db cx ss =
     (case userIDFrom cx of
        None \<Rightarrow> (ss, unauthorized cx)
      | Some userID \<Rightarrow>
          (case Unsubscribe db userID (cx_param cx ''room'') ss of
             (ss1, Inl e) \<Rightarrow> (ss1, notify_respondError cx e ''failed to unsubscribe'')
           | (ss1, Inr _) \<Rightarrow> (ss1, reply cx 204 NoBody)))"

definition SubscriptionController_List :: "ndb \<Rightarrow> echo_context \<Rightarrow> Subscription list \<Rightarrow> notify_json response" where
  "SubscriptionController_List db cx ss =
     (case userIDFrom cx of
        None \<Rightarrow> unauthorized cx
      | Some userID \<Rightarrow>
          (case Subscription_ListByUserID db userID ss of
             Inl e \<Rightarrow> notify_respondError cx e ''failed to list subscriptions''
           | Inr subscriptions \<Rightarrow> reply cx 200 (JSON (SubscriptionsJSON subscriptions))))"

section \<open>Which addresses are reachable\<close>

definition public_v4 :: "ip \<Rightarrow> bool" where
  "public_v4 a \<longleftrightarrow> \<not> (a ! 0 = 127 \<or> a ! 0 = 10 \<or> (a ! 0 = 172 \<and> 16 \<le> a ! 1 \<and> a ! 1 \<le> 31) \<or> (a ! 0 = 192 \<and> a ! 1 = 168) \<or>
     (a ! 0 = 169 \<and> a ! 1 = 254) \<or> (224 \<le> a ! 0 \<and> a ! 0 \<le> 239) \<or> a = [0, 0, 0, 0])"

definition mapped :: "ip \<Rightarrow> ip" where
  "mapped a = replicate 10 0 @ [255, 255] @ a"

lemma To4_v4 [simp]: "length a = 4 \<Longrightarrow> To4 a = Some a"
  by (simp add: To4_def)

lemma To4_mapped [simp]: "length a = 4 \<Longrightarrow> To4 (mapped a) = Some a"
  by (simp add: To4_def mapped_def)

lemma mapped_sel: "length (mapped a) = 12 + length a" "mapped a ! 0 = 0" "mapped a \<noteq> replicate 16 0"
proof -
  have "mapped a ! 10 = 255" by (simp add: mapped_def nth_append)
  then show "mapped a \<noteq> replicate 16 0" by (metis nth_replicate numeral_less_iff semiring_norm(76,78,81) zero_neq_numeral)
qed (simp_all add: mapped_def nth_append)

lemma forbidden_v4:
  assumes "length a = 4"
  shows "forbiddenIP a False \<longleftrightarrow> \<not> public_v4 a" "forbiddenIP (mapped a) False \<longleftrightarrow> \<not> public_v4 a"
proof -
  have d: "a ! 1 div 16 = 1 \<longleftrightarrow> 16 \<le> a ! 1 \<and> a ! 1 \<le> 31" "a ! 0 div 16 = 14 \<longleftrightarrow> 224 \<le> a ! 0 \<and> a ! 0 \<le> 239" by arith+
  have n: "a \<noteq> replicate 16 0" using assms by (metis length_replicate numeral_eq_iff semiring_norm(83,87,88))
  note F = forbiddenIP_def IsLoopback_def IsPrivate_def IsLinkLocalUnicast_def IsLinkLocalMulticast_def IsUnspecified_def
    IsMulticast_def IsInterfaceLocalMulticast_def public_v4_def
  show "forbiddenIP a False \<longleftrightarrow> \<not> public_v4 a" using assms n by (auto simp: F d)
  show "forbiddenIP (mapped a) False \<longleftrightarrow> \<not> public_v4 a" using assms mapped_sel [of a] by (auto simp: F d)
qed

lemma dial_loop_facts:
  assumes "dial_loop dial al port addrs e = (tried, r)"
  shows "subseq tried (filter (\<lambda>a. \<not> forbiddenIP a al) addrs)" "r = Inr a \<Longrightarrow> a \<in> set tried \<and> dial a port = None"
    "(\<forall>a \<in> set addrs. forbiddenIP a al) \<Longrightarrow> tried = [] \<and> r = Inl e"
    "a \<in> set addrs \<Longrightarrow> \<not> forbiddenIP a al \<Longrightarrow> dial a port = None \<Longrightarrow> \<exists>b. r = Inr b"
  using assms by (induction addrs arbitrary: tried e; force split: if_splits option.splits prod.splits)+

lemma subseq_set: "subseq xs ys \<Longrightarrow> set xs \<subseteq> set ys"
  by (induction rule: list_emb.induct) auto

section \<open>Properties\<close>



lemma FormatInt_no_dot: "CHR ''.'' \<notin> set (FormatInt i)"
  using FormatInt_chars [of "CHR ''.''" i] by (auto simp: is_digit_def)

text \<open>
  C34: a signature binds the timestamp and the body together.  A receiver's \<^verbatim>\<open>Verify\<close> accepts what \<^verbatim>\<open>Sign\<close> made,
  and accepts it for no other pair of timestamp and body, as long as the HMAC does not collide on the two
  messages: the separator cannot be moved, so a captured delivery cannot be replayed under another time.
\<close>

theorem signature_binds:
  assumes "int64_range ts" "int64_range ts'"
    and "hmac secret (FormatInt ts @ ''.'' @ body) = hmac secret (FormatInt ts' @ ''.'' @ body') \<Longrightarrow>
      FormatInt ts @ ''.'' @ body = FormatInt ts' @ ''.'' @ body'"
  shows "Verify hmac secret ts body (Sign hmac secret ts' body') \<longleftrightarrow> ts = ts' \<and> body = body'"
proof
  assume "Verify hmac secret ts body (Sign hmac secret ts' body')"
  then have "FormatInt ts @ CHR ''.'' # body = FormatInt ts' @ CHR ''.'' # body'"
    using assms(3) by (auto simp: Verify_def Sign_def dest: hex_inj)
  then have "FormatInt ts = FormatInt ts' \<and> body = body'"
    using FormatInt_no_dot [of ts] FormatInt_no_dot [of ts'] by (metis Cut_before_append same_append_eq list.inject)
  then show "ts = ts' \<and> body = body'" using FormatInt_inj assms(1,2) by blast
qed (simp add: Verify_def)

theorem signature_binds_witness:
  "Verify (\<lambda>k m. k @ m) ''s'' 1700000000 ''{}'' (Sign (\<lambda>k m. k @ m) ''s'' 1700000000 ''{}'') \<and>
   \<not> Verify (\<lambda>k m. k @ m) ''s'' 1700000001 ''{}'' (Sign (\<lambda>k m. k @ m) ''s'' 1700000000 ''{}'')"
  using signature_binds [of 1700000000 1700000000 "\<lambda>k m. k @ m" "''s''" "''{}''" "''{}''"]
    signature_binds [of 1700000001 1700000000 "\<lambda>k m. k @ m" "''s''" "''{}''" "''{}''"]
  by (simp add: int64_range_def)

lemma filter_unique: "distinct (map f xs) \<Longrightarrow> x \<in> set xs \<Longrightarrow> filter (\<lambda>y. f y = f x) xs = [x]"
proof (induction xs)
  case (Cons y ys)
  show ?case
  proof (cases "y = x")
    case True
    then have "filter (\<lambda>z. f z = f x) ys = []" using Cons.prems(1) by (auto simp: filter_empty_conv image_iff)
    with True show ?thesis by simp
  next
    case False
    then have "f y \<noteq> f x" using Cons.prems by (auto simp: image_iff)
    with False Cons show ?thesis by simp
  qed
qed simp

lemma Upsert_rows:
  assumes "distinct (map wh_UserID ws)" "Upsert db w ws = (ws', Inr ())"
  shows "distinct (map wh_UserID ws')" "filter (\<lambda>x. wh_UserID x \<noteq> wh_UserID w) ws' = filter (\<lambda>x. wh_UserID x \<noteq> wh_UserID w) ws"
    "\<exists>c. filter (\<lambda>x. wh_UserID x = wh_UserID w) ws' = [w\<lparr>wh_CreatedAt := c, wh_UpdatedAt := nd_now db\<rparr>]"
proof -
  let ?u = "wh_UserID w"
  let ?f = "\<lambda>x. if wh_UserID x = ?u then x\<lparr>wh_URL := wh_URL w, wh_Secret := wh_Secret w, wh_UpdatedAt := nd_now db\<rparr> else x"
  have map: "map wh_UserID (map ?f xs) = map wh_UserID xs" "filter (\<lambda>x. wh_UserID x \<noteq> ?u) (map ?f xs) = filter (\<lambda>x. wh_UserID x \<noteq> ?u) xs"
    "filter (\<lambda>x. wh_UserID x = ?u) (map ?f xs) = map ?f (filter (\<lambda>x. wh_UserID x = ?u) xs)" for xs
    by (induction xs) auto
  have "distinct (map wh_UserID ws') \<and> filter (\<lambda>x. wh_UserID x \<noteq> ?u) ws' = filter (\<lambda>x. wh_UserID x \<noteq> ?u) ws \<and>
    (\<exists>c. filter (\<lambda>x. wh_UserID x = ?u) ws' = [w\<lparr>wh_CreatedAt := c, wh_UpdatedAt := nd_now db\<rparr>])"
  proof (cases "\<exists>x \<in> set ws. wh_UserID x = ?u")
    case True
    then obtain x where x: "x \<in> set ws" "wh_UserID x = ?u" by blast
    have "filter (\<lambda>y. wh_UserID y = ?u) ws = [x]" using filter_unique [OF assms(1) x(1)] x(2) by simp
    moreover have ws': "ws' = map ?f ws" using assms(2) True by (auto simp: Upsert_def split: if_splits)
    moreover have "distinct (map wh_UserID ws')" unfolding ws' map(1) by (rule assms(1))
    ultimately show ?thesis using map(2,3) [of ws] x by (auto intro!: exI [of _ "wh_CreatedAt x"])
  next
    case False
    then have "ws' = ws @ [w\<lparr>wh_CreatedAt := nd_now db, wh_UpdatedAt := nd_now db\<rparr>]" using assms(2) by (auto simp: Upsert_def split: if_splits)
    then show ?thesis using assms(1) False by (auto simp: filter_empty_conv)
  qed
  then show "distinct (map wh_UserID ws')" "filter (\<lambda>x. wh_UserID x \<noteq> ?u) ws' = filter (\<lambda>x. wh_UserID x \<noteq> ?u) ws"
    "\<exists>c. filter (\<lambda>x. wh_UserID x = ?u) ws' = [w\<lparr>wh_CreatedAt := c, wh_UpdatedAt := nd_now db\<rparr>]" by blast+
qed

text \<open>
  Registering a webhook.  A \<^verbatim>\<open>PUT\<close> that succeeds leaves exactly one row for the caller, with the given
  URL (which passed validation) and the secret the answer carries, hex of the fresh random bytes, and touches nobody else's
  row; a later \<^verbatim>\<open>GET\<close> shows that URL; and what \<^verbatim>\<open>GET\<close> answers never depends on any secret.
\<close>

theorem webhook_put_get:
  assumes "distinct (map wh_UserID ws)" "WebhookController_Put s rnd db db' (Some url) cx ws = (ws', resp)" "resp_status resp = 200"
    and "\<not> nd_down db''"
  shows "\<exists>u b c. userIDFrom cx = Some u \<and> rnd = Inr b \<and>
    validateWebhookURL (ws_parse s) (ws_ParseIP s) url (ws_allowLoopback s) = Inr () \<and>
    resp_body resp = JSON (WebhookSecretJSON u url c (nd_now db) (hex_EncodeToString b)) \<and>
    filter (\<lambda>w. wh_UserID w = u) ws' =
      [\<lparr>wh_UserID = u, wh_URL = url, wh_Secret = hex_EncodeToString b, wh_CreatedAt = c, wh_UpdatedAt = nd_now db\<rparr>] \<and>
    filter (\<lambda>w. wh_UserID w \<noteq> u) ws' = filter (\<lambda>w. wh_UserID w \<noteq> u) ws \<and> distinct (map wh_UserID ws') \<and>
    WebhookController_Get db'' cx ws' = reply cx 200 (JSON (WebhookJSON u url c (nd_now db))) \<and>
    WebhookController_Get db'' cx (map (\<lambda>w. w\<lparr>wh_Secret := x\<rparr>) ws') = WebhookController_Get db'' cx ws'"
proof -
  obtain u b ws1 stored where p: "userIDFrom cx = Some u" "rnd = Inr b"
    "validateWebhookURL (ws_parse s) (ws_ParseIP s) url (ws_allowLoopback s) = Inr ()"
    "Upsert db \<lparr>wh_UserID = u, wh_URL = url, wh_Secret = hex_EncodeToString b, wh_CreatedAt = 0, wh_UpdatedAt = 0\<rparr> ws = (ws', Inr ())"
    "GetByUserID db' u ws' = Inr stored" "resp = reply cx 200 (JSON (secret_json \<lparr>ww_Webhook = stored, ww_Secret = hex_EncodeToString b\<rparr>))"
    using assms(2,3)
    by (auto simp: WebhookController_Put_def WebhookService_Put_def newSecret_def unauthorized_def notify_respondError_def bind_result_def
        split: option.splits prod.splits sum.splits nerror.splits goerror.splits)
  obtain c where c: "filter (\<lambda>w. wh_UserID w = u) ws' =
      [\<lparr>wh_UserID = u, wh_URL = url, wh_Secret = hex_EncodeToString b, wh_CreatedAt = c, wh_UpdatedAt = nd_now db\<rparr>]"
    using Upsert_rows(3) [OF assms(1) p(4)] by auto
  have sec: "filter (\<lambda>w. wh_UserID w = u) (map (\<lambda>w. w\<lparr>wh_Secret := x\<rparr>) ws') = map (\<lambda>w. w\<lparr>wh_Secret := x\<rparr>) (filter (\<lambda>w. wh_UserID w = u) ws')"
    by (simp add: filter_map comp_def)
  have get: "WebhookController_Get db'' cx ws' = reply cx 200 (JSON (WebhookJSON u url c (nd_now db)))"
    "WebhookController_Get db'' cx (map (\<lambda>w. w\<lparr>wh_Secret := x\<rparr>) ws') = WebhookController_Get db'' cx ws'"
    using p(1) assms(4) c sec by (simp_all add: WebhookController_Get_def GetByUserID_def webhook_json_def)
  have "resp_body resp = JSON (WebhookSecretJSON u url c (nd_now db) (hex_EncodeToString b))"
    using p(5,6) c by (auto simp: GetByUserID_def secret_json_def split: if_splits)
  then show ?thesis using p(1-3) c get Upsert_rows(1,2) [OF assms(1) p(4)] by auto
qed

definition ex_ndb :: ndb where
  "ex_ndb = \<lparr>nd_coll = (\<lambda>s. s), nd_now = 100, nd_down = False\<rparr>"

definition ex_service :: WebhookService where
  "ex_service = \<lparr>ws_parse = (\<lambda>u. Some \<lparr>ur_Scheme = ''https'', ur_Host = ''h'', ur_Hostname = ''h'', ur_hasUser = False\<rparr>),
     ws_ParseIP = (\<lambda>_. None), ws_allowLoopback = False\<rparr>"

definition ex_caller :: echo_context where
  "ex_caller = (bearer_context ''t'')\<lparr>cx_user_id := Some 7\<rparr>"

theorem webhook_put_get_witness:
  "\<exists>ws'. WebhookController_Put ex_service (Inr ''abc'') ex_ndb ex_ndb (Some ''https://h/'') ex_caller [] =
      (ws', reply ex_caller 200 (JSON (WebhookSecretJSON 7 ''https://h/'' 100 100 ''616263''))) \<and> distinct (map wh_UserID ws')"
proof -
  let ?w = "\<lparr>wh_UserID = 7, wh_URL = ''https://h/'', wh_Secret = ''616263'', wh_CreatedAt = 100, wh_UpdatedAt = 100\<rparr>"
  have hex: "hex_EncodeToString ''abc'' = ''616263''" by code_simp
  have "HasSuffix ''h'' ''.localhost'' = False" "lower_char (CHR ''h'') = CHR ''h''" by code_simp+
  then have put: "WebhookController_Put ex_service (Inr ''abc'') ex_ndb ex_ndb (Some ''https://h/'') ex_caller [] =
      ([?w], reply ex_caller 200 (JSON (WebhookSecretJSON 7 ''https://h/'' 100 100 ''616263'')))"
    by (simp add: WebhookController_Put_def WebhookService_Put_def ex_service_def ex_ndb_def ex_caller_def userIDFrom_def
        validateWebhookURL_def newSecret_def hex Upsert_def GetByUserID_def secret_json_def Let_def)
  from webhook_put_get [OF _ put, of ex_ndb] put show ?thesis by (simp add: ex_ndb_def)
qed

text \<open>The subscriptions as a set of pairs, rooms up to the collation.\<close>

definition sub_key :: "ndb \<Rightarrow> Subscription \<Rightarrow> int \<times> string" where
  "sub_key db s = (sb_UserID s, nd_coll db (sb_Room s))"

lemma same_sub_key: "same_sub db u room s \<longleftrightarrow> sub_key db s = (u, nd_coll db room)"
  by (auto simp: same_sub_def sub_key_def)

text \<open>
  Subscriptions are a set.  With the database up, subscribing to a valid room adds the pair of user and room
  and unsubscribing removes it, both without error however often they are repeated; an invalid room is rejected
  and changes nothing; no pair is ever stored twice; and the fan-out read of a room returns each of its
  subscribers exactly once.
\<close>

theorem subscriptions_are_a_set:
  assumes "distinct (map (sub_key db) ss)" "\<not> nd_down db"
  shows "(case Subscribe db u room ss of (ss', r) \<Rightarrow> distinct (map (sub_key db) ss') \<and>
      (if room_name room then r = Inr () \<and> set (map (sub_key db) ss') = insert (u, nd_coll db room) (set (map (sub_key db) ss))
       else ss' = ss \<and> (\<exists>m. r = Inl (Failed (Validation m))))) \<and>
    (case Unsubscribe db u room ss of (ss', r) \<Rightarrow> distinct (map (sub_key db) ss') \<and>
      (if room_name room then r = Inr () \<and> set (map (sub_key db) ss') = set (map (sub_key db) ss) - {(u, nd_coll db room)}
       else ss' = ss \<and> (\<exists>m. r = Inl (Failed (Validation m))))) \<and>
    (\<exists>ids. ListUserIDsByRoom db room ss = Inr ids \<and> distinct ids \<and> set ids = {v. (v, nd_coll db room) \<in> set (map (sub_key db) ss)})"
proof -
  have bad: "\<exists>m. notification_validateRoom room = Inl (Validation m)" if "\<not> room_name room"
    using that notification_validateRoom_iff [of room] notification_validateRoom_error by (cases "notification_validateRoom room") auto
  have good: "notification_validateRoom room = Inr ()" if "room_name room" using that by (simp add: ok_iff)
  have d: "distinct (map (sub_key db) (filter P ss))" for P using assms(1) by (rule distinct_map_filterI)
  have "map sb_UserID (filter (\<lambda>s. nd_coll db (sb_Room s) = nd_coll db room) ss) =
      map fst (filter (\<lambda>k. snd k = nd_coll db room) (map (sub_key db) ss))"
    by (simp add: filter_map comp_def sub_key_def)
  moreover have "inj_on fst (set (filter (\<lambda>k. snd k = nd_coll db room) (map (sub_key db) ss)))"
    by (auto simp: inj_on_def)
  ultimately have "distinct (map sb_UserID (filter (\<lambda>s. nd_coll db (sb_Room s) = nd_coll db room) ss))"
    using assms(1) by (simp add: distinct_map)
  then have ids: "\<exists>ids. ListUserIDsByRoom db room ss = Inr ids \<and> distinct ids \<and> set ids = {v. (v, nd_coll db room) \<in> set (map (sub_key db) ss)}"
    using assms(2) by (auto simp: ListUserIDsByRoom_def sub_key_def)
  show ?thesis
  proof (cases "room_name room")
    case True
    then show ?thesis using assms good ids d
      by (auto simp: Subscribe_def Unsubscribe_def Subscription_Create_def Subscription_Delete_def same_sub_key sub_key_def [of _ "\<lparr>sb_UserID = _, sb_Room = _, sb_CreatedAt = _\<rparr>"]
          intro: rev_image_eqI)
  next
    case False
    then show ?thesis using assms(1) bad ids by (auto simp: Subscribe_def Unsubscribe_def)
  qed
qed

theorem subscriptions_are_a_set_witness:
  "\<exists>ids. ListUserIDsByRoom ex_ndb ''r'' [\<lparr>sb_UserID = 7, sb_Room = ''r'', sb_CreatedAt = 1\<rparr>, \<lparr>sb_UserID = 8, sb_Room = ''r'', sb_CreatedAt = 1\<rparr>] = Inr ids \<and>
     distinct ids \<and> set ids = {7, 8}"
  using subscriptions_are_a_set [of ex_ndb "[\<lparr>sb_UserID = 7, sb_Room = ''r'', sb_CreatedAt = 1\<rparr>, \<lparr>sb_UserID = 8, sb_Room = ''r'', sb_CreatedAt = 1\<rparr>]" "''r''"]
  by (simp add: ex_ndb_def sub_key_def ListUserIDsByRoom_def insert_commute)

end
