(* ===== verification/Room.thy ===== *)
theory Room
  imports Auth Validation
begin

text \<open>
  A chat room: \<^verbatim>\<open>chat-service/internal/ws/room.go\<close> and the channel of \<^verbatim>\<open>client.go\<close>, with
  \<^verbatim>\<open>domain/message.go\<close> and \<^verbatim>\<open>domain/presence_event.go\<close>.  \<^verbatim>\<open>run()\<close> is one goroutine, so each case of its
  \<^verbatim>\<open>select\<close> is one operation on the room.  A \<^verbatim>\<open>*Client\<close> is a number into a store that holds its user, the
  contents of its buffered \<^verbatim>\<open>send\<close> channel and whether that channel is closed; a send on a closed channel or a
  second close is a \<open>panic\<close> value.  Map iteration order is the argument \<open>perm\<close>, any rearrangement.
  Presence notifications and archived messages are the list \<open>r_out\<close>, in the order of the calls.
\<close>

section \<open>domain and client.go\<close>

record Message =
  msg_Type :: string
  msg_Room :: string
  msg_UserID :: int
  msg_Content :: string
  msg_Timestamp :: int

datatype PresenceStatus = Online | Offline

datatype effect = Notify string int PresenceStatus | Archive string int string int

definition send_capacity :: nat where
  "send_capacity = 16"

record Client =
  cl_userID :: int
  cl_send :: "Message list"
  cl_closed :: bool
  cl_written :: "Message list"

definition NewClient :: "int \<Rightarrow> Client" where
  "NewClient userID = \<lparr>cl_userID = userID, cl_send = [], cl_closed = False, cl_written = []\<rparr>"

section \<open>room.go\<close>

record Room =
  r_name :: string
  r_clients :: "nat list"
  r_store :: "nat \<Rightarrow> Client"
  r_out :: "effect list"

datatype panic = SendOnClosed | CloseOfClosed

definition NewRoom :: "string \<Rightarrow> (nat \<Rightarrow> int) \<Rightarrow> Room" where
  "NewRoom name uid = \<lparr>r_name = name, r_clients = [], r_store = (\<lambda>c. NewClient (uid c)), r_out = []\<rparr>"

definition emit :: "effect \<Rightarrow> Room \<Rightarrow> Room" where
  "emit e r = r\<lparr>r_out := r_out r @ [e]\<rparr>"

definition close_send :: "nat \<Rightarrow> Room \<Rightarrow> panic + Room" where
  "close_send c r =
     (if cl_closed (r_store r c) then Inl CloseOfClosed
      else Inr (r\<lparr>r_store := (r_store r)(c := (r_store r c)\<lparr>cl_closed := True\<rparr>)\<rparr>))"

text \<open>One turn of the fan-out loop: a non-blocking send, or the eviction of a slow consumer.\<close>

definition fan_out_one :: "Message \<Rightarrow> nat \<Rightarrow> Room \<times> nat list \<Rightarrow> panic + Room \<times> nat list" where
  "fan_out_one out c s =
     (case s of (r, evicted) \<Rightarrow>
        if cl_closed (r_store r c) then Inl SendOnClosed
        else if length (cl_send (r_store r c)) < send_capacity
        then Inr (r\<lparr>r_store := (r_store r)(c := (r_store r c)\<lparr>cl_send := cl_send (r_store r c) @ [out]\<rparr>)\<rparr>, evicted)
        else bind_result (close_send c r) (\<lambda>r1.
               Inr (r1\<lparr>r_clients := remove1 c (r_clients r1)\<rparr>, evicted @ [c])))"

primrec fan_out :: "Message \<Rightarrow> nat list \<Rightarrow> Room \<times> nat list \<Rightarrow> panic + Room \<times> nat list" where
  "fan_out out [] s = Inr s"
| "fan_out out (c # cs) s = bind_result (fan_out_one out c s) (fan_out out cs)"

definition broadcastEvent ::
  "(nat list \<Rightarrow> nat list) \<Rightarrow> int \<Rightarrow> string \<Rightarrow> int \<Rightarrow> string \<Rightarrow> Room \<Rightarrow> panic + Room" where
  "broadcastEvent perm timestamp msgType userID content r =
     (let out = \<lparr>msg_Type = msgType, msg_Room = r_name r, msg_UserID = userID, msg_Content = content,
                 msg_Timestamp = timestamp\<rparr>
      in bind_result (fan_out out (perm (r_clients r)) (r, [])) (\<lambda>(r1, evicted).
           Inr (r1\<lparr>r_out := r_out r1 @ map (\<lambda>c. Notify (r_name r1) (cl_userID (r_store r1 c)) Offline) evicted\<rparr>)))"

definition run_register :: "(nat list \<Rightarrow> nat list) \<Rightarrow> int \<Rightarrow> nat \<Rightarrow> Room \<Rightarrow> panic + Room" where
  "run_register perm now client r =
     (let r1 = r\<lparr>r_clients := (if client \<in> set (r_clients r) then r_clients r else r_clients r @ [client])\<rparr>;
          userID = cl_userID (r_store r client);
          r2 = emit (Notify (r_name r) userID Online) r1
      in broadcastEvent perm now ''join'' userID '''' r2)"

definition run_unregister :: "(nat list \<Rightarrow> nat list) \<Rightarrow> int \<Rightarrow> nat \<Rightarrow> Room \<Rightarrow> panic + Room" where
  "run_unregister perm now client r =
     (if client \<in> set (r_clients r)
      then
        (let userID = cl_userID (r_store r client)
         in bind_result (close_send client (r\<lparr>r_clients := remove1 client (r_clients r)\<rparr>)) (\<lambda>r1.
            bind_result (broadcastEvent perm now ''leave'' userID '''' r1) (\<lambda>r2.
              Inr (emit (Notify (r_name r2) userID Offline) r2))))
      else Inr r)"

text \<open>\<open>unmarshal\<close> is \<^verbatim>\<open>json.Unmarshal\<close> into a \<^verbatim>\<open>domain.Message\<close>: its type and content, or a failure.\<close>

definition run_broadcast ::
  "(string \<Rightarrow> (string \<times> string) option) \<Rightarrow> (nat list \<Rightarrow> nat list) \<Rightarrow> int \<Rightarrow> nat \<Rightarrow> string \<Rightarrow> Room \<Rightarrow> panic + Room" where
  "run_broadcast unmarshal perm now from payload r =
     (case unmarshal payload of
        None \<Rightarrow> Inr r
      | Some (ty, content) \<Rightarrow>
          (let userID = cl_userID (r_store r from)
           in if ty = ''typing'' then broadcastEvent perm now ''typing'' userID '''' r
              else if content = '''' then Inr r
              else bind_result (broadcastEvent perm now ''chat'' userID content r) (\<lambda>r1.
                     Inr (emit (Archive (r_name r1) userID content now) r1))))"

definition UserIDs :: "(nat list \<Rightarrow> nat list) \<Rightarrow> Room \<Rightarrow> int list" where
  "UserIDs perm r = rev (fold (\<lambda>c ids. let u = cl_userID (r_store r c) in if u \<in> set ids then ids else u # ids)
                          (perm (r_clients r)) [])"

definition ClientCount :: "Room \<Rightarrow> nat" where
  "ClientCount r = length (r_clients r)"

text \<open>\<^verbatim>\<open>writePump\<close> takes the next frame; on a closed and drained channel it sends the close frame and returns.\<close>

definition writePump_take :: "nat \<Rightarrow> Room \<Rightarrow> Room" where
  "writePump_take c r =
     (case cl_send (r_store r c) of
        [] \<Rightarrow> r
      | m # ms \<Rightarrow> r\<lparr>r_store := (r_store r)(c := (r_store r c)\<lparr>cl_send := ms, cl_written := cl_written (r_store r c) @ [m]\<rparr>)\<rparr>)"

section \<open>The room as a state machine\<close>

definition is_order :: "(nat list \<Rightarrow> nat list) \<Rightarrow> bool" where
  "is_order perm \<longleftrightarrow> (\<forall>xs. mset (perm xs) = mset xs)"

definition fresh_client :: "nat \<Rightarrow> Room \<Rightarrow> bool" where
  "fresh_client c r \<longleftrightarrow> c \<notin> set (r_clients r) \<and> r_store r c = NewClient (cl_userID (r_store r c))"

inductive room_step :: "(string \<Rightarrow> (string \<times> string) option) \<Rightarrow> Room \<Rightarrow> panic + Room \<Rightarrow> bool" for unmarshal where
  register: "fresh_client c r \<Longrightarrow> is_order perm \<Longrightarrow> room_step unmarshal r (run_register perm now c r)"
| unregister: "is_order perm \<Longrightarrow> room_step unmarshal r (run_unregister perm now c r)"
| broadcast: "is_order perm \<Longrightarrow> room_step unmarshal r (run_broadcast unmarshal perm now c payload r)"
| wrote: "room_step unmarshal r (Inr (writePump_take c r))"

inductive room_reach :: "(string \<Rightarrow> (string \<times> string) option) \<Rightarrow> Room \<Rightarrow> panic + Room \<Rightarrow> bool" for unmarshal r0 where
  start: "room_reach unmarshal r0 (Inr r0)"
| step: "room_reach unmarshal r0 (Inr r) \<Longrightarrow> room_step unmarshal r r' \<Longrightarrow> room_reach unmarshal r0 r'"

section \<open>Invariant\<close>

definition count_effect :: "effect \<Rightarrow> effect list \<Rightarrow> nat" where
  "count_effect e es = length (filter (\<lambda>x. x = e) es)"

definition connections :: "int \<Rightarrow> Room \<Rightarrow> nat" where
  "connections u r = length (filter (\<lambda>c. cl_userID (r_store r c) = u) (r_clients r))"

text \<open>
  The ledger: for every user the onlines reported exceed the offlines reported by the number of
  connections the user has in the room, and by what is still owed in the middle of an unregister.
\<close>

definition ledger :: "(int \<Rightarrow> nat) \<Rightarrow> Room \<Rightarrow> bool" where
  "ledger owed r \<longleftrightarrow> (\<forall>u. count_effect (Notify (r_name r) u Online) (r_out r) =
     count_effect (Notify (r_name r) u Offline) (r_out r) + connections u r + owed u)"

definition room_shape :: "Room \<Rightarrow> bool" where
  "room_shape r \<longleftrightarrow> distinct (r_clients r) \<and> (\<forall>c \<in> set (r_clients r). \<not> cl_closed (r_store r c)) \<and>
     (\<forall>c. length (cl_send (r_store r c)) \<le> send_capacity)"

lemma count_effect_append [simp]: "count_effect e (xs @ ys) = count_effect e xs + count_effect e ys"
  by (simp add: count_effect_def)

lemma count_effect_single [simp]: "count_effect e [] = 0" "count_effect e [x] = (if x = e then 1 else 0)"
  by (simp_all add: count_effect_def)

text \<open>
  What the fan-out loop does when it is run over distinct open clients: it never panics, the
  frame is appended for those with room, and the others are closed, removed and listed.
\<close>

definition full :: "Room \<Rightarrow> nat \<Rightarrow> bool" where
  "full r c \<longleftrightarrow> \<not> length (cl_send (r_store r c)) < send_capacity"

definition fanned_client :: "Message \<Rightarrow> Client \<Rightarrow> Client" where
  "fanned_client m cl = (if length (cl_send cl) < send_capacity then cl\<lparr>cl_send := cl_send cl @ [m]\<rparr> else cl\<lparr>cl_closed := True\<rparr>)"

definition fanned :: "Message \<Rightarrow> nat list \<Rightarrow> Room \<Rightarrow> Room" where
  "fanned m cs r = r\<lparr>r_store := (\<lambda>c. if c \<in> set cs then fanned_client m (r_store r c) else r_store r c),
                     r_clients := filter (\<lambda>c. \<not> (c \<in> set cs \<and> full r c)) (r_clients r)\<rparr>"

lemma fan_out_eq:
  assumes "distinct cs" "\<forall>c \<in> set cs. \<not> cl_closed (r_store r c)" "distinct (r_clients r)"
  shows "fan_out m cs (r, ev) = Inr (fanned m cs r, ev @ filter (full r) cs)"
  using assms
proof (induction cs arbitrary: r ev)
  case Nil
  have "fanned m [] r = r" by (simp add: fanned_def)
  then show ?case by simp
next
  case (Cons c cs)
  have open_c: "\<not> cl_closed (r_store r c)" using Cons.prems(2) by simp
  let ?r1 = "fanned m [c] r"
  have one: "fan_out_one m c (r, ev) = Inr (?r1, ev @ filter (full r) [c])"
  proof -
    have store: "(\<lambda>x. if x \<in> set [c] then fanned_client m (r_store r x) else r_store r x) =
        (r_store r)(c := fanned_client m (r_store r c))" by auto
    have rem: "remove1 c (r_clients r) = filter (\<lambda>x. x \<noteq> c) (r_clients r)"
      using Cons.prems(3) by (simp add: distinct_remove1_removeAll removeAll_filter_not_eq eq_commute)
    show ?thesis
      using open_c unfolding fanned_def store
      by (cases "full r c") (auto simp: fan_out_one_def close_send_def fanned_client_def full_def rem intro!: filter_cong)
  qed
  have st: "r_store ?r1 x = r_store r x" if "x \<in> set cs" for x
    using that Cons.prems(1) by (auto simp: fanned_def)
  have "fan_out m cs (?r1, ev @ filter (full r) [c]) = Inr (fanned m cs ?r1, (ev @ filter (full r) [c]) @ filter (full ?r1) cs)"
    using Cons.prems st by (intro Cons.IH) (auto simp: fanned_def)
  moreover have "filter (full ?r1) cs = filter (full r) cs"
    by (rule filter_cong) (simp_all add: full_def st)
  moreover have "fanned m cs ?r1 = fanned m (c # cs) r"
  proof (rule Room.equality)
    show "r_store (fanned m cs ?r1) = r_store (fanned m (c # cs) r)"
      using Cons.prems(1) by (auto simp: fanned_def fun_eq_iff)
    show "r_clients (fanned m cs ?r1) = r_clients (fanned m (c # cs) r)"
      using Cons.prems(1) by (auto simp: fanned_def full_def intro!: filter_cong)
  qed (simp_all add: fanned_def)
  ultimately show ?case by (simp add: one)
qed

lemma fanned_sel [simp]:
  "r_name (fanned m cs r) = r_name r" "r_out (fanned m cs r) = r_out r"
  "cl_userID (r_store (fanned m cs r) c) = cl_userID (r_store r c)"
  by (simp_all add: fanned_def fanned_client_def)

lemma order_facts:
  assumes "is_order perm" "distinct xs"
  shows "distinct (perm xs)" "set (perm xs) = set xs" "mset (filter P (perm xs)) = mset (filter P xs)"
  using assms by (metis is_order_def mset_eq_imp_distinct_iff, metis is_order_def mset_eq_setD, metis is_order_def mset_filter)

lemma broadcastEvent_eq:
  assumes "room_shape r" "is_order perm"
  shows "broadcastEvent perm ts ty u content r =
    (let m = \<lparr>msg_Type = ty, msg_Room = r_name r, msg_UserID = u, msg_Content = content, msg_Timestamp = ts\<rparr>
     in Inr ((fanned m (r_clients r) r)\<lparr>r_out := r_out r @
          map (\<lambda>c. Notify (r_name r) (cl_userID (r_store r c)) Offline) (filter (full r) (perm (r_clients r)))\<rparr>))"
proof -
  from assms(1) have d: "distinct (r_clients r)" and op: "\<forall>c \<in> set (r_clients r). \<not> cl_closed (r_store r c)"
    by (simp_all add: room_shape_def)
  note o = order_facts [OF assms(2) d]
  have f: "fanned m (perm (r_clients r)) r = fanned m (r_clients r) r" for m by (simp add: fanned_def o(2))
  show ?thesis
    using fan_out_eq [of "perm (r_clients r)" r _ "[]"] o(1,2) op d
    by (simp add: broadcastEvent_def Let_def f)
qed

lemma fanned_shape:
  assumes "room_shape r"
  shows "room_shape (fanned m (r_clients r) r)"
  using assms by (auto simp: room_shape_def fanned_def fanned_client_def full_def)

lemma connections_fanned:
  "connections u (fanned m (r_clients r) r) + length (filter (\<lambda>c. cl_userID (r_store r c) = u \<and> full r c) (r_clients r)) =
     connections u r"
proof -
  have "connections u (fanned m (r_clients r) r) = length (filter (\<lambda>c. cl_userID (r_store r c) = u \<and> \<not> full r c) (r_clients r))"
    unfolding connections_def by (simp add: fanned_def fanned_client_def conj_commute)
      (metis (no_types, lifting) filter_cong)
  moreover have "length (filter (\<lambda>c. cl_userID (r_store r c) = u \<and> \<not> full r c) xs) +
      length (filter (\<lambda>c. cl_userID (r_store r c) = u \<and> full r c) xs) = length (filter (\<lambda>c. cl_userID (r_store r c) = u) xs)" for xs
    by (induction xs) auto
  ultimately show ?thesis by (simp add: connections_def)
qed

lemma count_offline_map:
  "count_effect (Notify n u Offline) (map (\<lambda>c. Notify n (f c) Offline) cs) = length (filter (\<lambda>c. f c = u) cs)"
  "count_effect (Notify n u Online) (map (\<lambda>c. Notify n (f c) Offline) cs) = 0"
  by (induction cs) (simp_all add: count_effect_def)

lemma broadcastEvent_inv:
  assumes "room_shape r" "ledger d r" "is_order perm"
  shows "\<exists>r'. broadcastEvent perm ts ty u content r = Inr r' \<and> room_shape r' \<and> ledger d r' \<and> r_name r' = r_name r \<and>
    (\<forall>c. cl_userID (r_store r' c) = cl_userID (r_store r c)) \<and> (\<forall>c. c \<notin> set (r_clients r) \<longrightarrow> r_store r' c = r_store r c) \<and>
    set (r_clients r') \<subseteq> set (r_clients r) \<and>
    (\<exists>es. r_out r' = r_out r @ es \<and> (\<forall>e \<in> set es. \<exists>v. e = Notify (r_name r) v Offline))"
proof -
  define m where "m = \<lparr>msg_Type = ty, msg_Room = r_name r, msg_UserID = u, msg_Content = content, msg_Timestamp = ts\<rparr>"
  let ?es = "map (\<lambda>c. Notify (r_name r) (cl_userID (r_store r c)) Offline) (filter (full r) (perm (r_clients r)))"
  let ?r' = "(fanned m (r_clients r) r)\<lparr>r_out := r_out r @ ?es\<rparr>"
  have d: "distinct (r_clients r)" using assms(1) by (simp add: room_shape_def)
  have shape: "room_shape ?r'" using fanned_shape [OF assms(1), of m] by (simp add: room_shape_def)
  have evicted: "length (filter (\<lambda>c. full r c \<and> cl_userID (r_store r c) = v) (perm (r_clients r))) =
      length (filter (\<lambda>c. cl_userID (r_store r c) = v \<and> full r c) (r_clients r))" for v
    using order_facts(3) [OF assms(3) d, of "\<lambda>c. full r c \<and> cl_userID (r_store r c) = v"]
    by (simp add: conj_commute mset_eq_length)
  have conn: "connections v ?r' = connections v (fanned m (r_clients r) r)" for v by (simp add: connections_def)
  have "ledger d ?r'"
    unfolding ledger_def
  proof
    fix v
    show "count_effect (Notify (r_name ?r') v Online) (r_out ?r') =
        count_effect (Notify (r_name ?r') v Offline) (r_out ?r') + connections v ?r' + d v"
      using assms(2) connections_fanned [of v m r] unfolding ledger_def conn
      by (simp add: count_offline_map evicted)
  qed
  then show ?thesis
    using broadcastEvent_eq [OF assms(1,3), of ts ty u content] shape
    by (intro exI [of _ ?r']) (auto simp: m_def [symmetric] Let_def fanned_def fanned_client_def)
qed

section \<open>Every operation of the event loop keeps the invariant\<close>

text \<open>An offline is never reported before the online it ends: the ledger holds at every prefix.\<close>

definition ordered_ledger :: "Room \<Rightarrow> bool" where
  "ordered_ledger r \<longleftrightarrow> (\<forall>n u. count_effect (Notify (r_name r) u Offline) (take n (r_out r)) \<le>
     count_effect (Notify (r_name r) u Online) (take n (r_out r)))"

definition room_inv_owing :: "(int \<Rightarrow> nat) \<Rightarrow> Room \<Rightarrow> bool" where
  "room_inv_owing owed r \<longleftrightarrow> room_shape r \<and> ledger owed r \<and> ordered_ledger r"

abbreviation room_inv :: "Room \<Rightarrow> bool" where
  "room_inv \<equiv> room_inv_owing (\<lambda>_. 0)"

lemma ledger_le: "ledger d r \<Longrightarrow> count_effect (Notify (r_name r) u Offline) (r_out r) \<le> count_effect (Notify (r_name r) u Online) (r_out r)"
  by (simp add: ledger_def)

lemma count_effect_take_le: "count_effect e (take n xs) \<le> count_effect e xs"
  by (metis append_take_drop_id count_effect_append le_add1)

text \<open>Appending effects none of which is an online keeps the order, if the final balance is not negative.\<close>

lemma ordered_ledger_extend:
  assumes "ordered_ledger r" "ledger d r'" "r_name r' = r_name r" "r_out r' = r_out r @ es"
    and "\<forall>u. count_effect (Notify (r_name r) u Online) es = 0"
  shows "ordered_ledger r'"
  unfolding ordered_ledger_def
proof (intro allI)
  fix n u
  let ?on = "Notify (r_name r) u Online" and ?off = "Notify (r_name r) u Offline"
  show "count_effect (Notify (r_name r') u Offline) (take n (r_out r')) \<le> count_effect (Notify (r_name r') u Online) (take n (r_out r'))"
  proof (cases "n \<le> length (r_out r)")
    case True
    then show ?thesis using assms(1) by (simp add: assms(3,4) ordered_ledger_def)
  next
    case False
    have "count_effect ?off (take n (r_out r')) \<le> count_effect ?off (r_out r')" by (rule count_effect_take_le)
    also have "\<dots> \<le> count_effect ?on (r_out r')" using ledger_le [OF assms(2), of u] by (simp add: assms(3))
    also have "\<dots> = count_effect ?on (r_out r)" using assms(5) by (simp add: assms(4))
    also have "\<dots> \<le> count_effect ?on (take n (r_out r'))" using False by (simp add: assms(4))
    finally show ?thesis by (simp add: assms(3))
  qed
qed

lemma no_online: "(\<And>e. e \<in> set es \<Longrightarrow> \<exists>v. e = Notify n v Offline) \<Longrightarrow> count_effect (Notify n u Online) es = 0"
  by (induction es) (auto simp: count_effect_def)

lemma broadcastEvent_room_inv:
  assumes "room_inv_owing d r" "is_order perm"
  obtains r' where "broadcastEvent perm ts ty u content r = Inr r'" "room_inv_owing d r'" "r_name r' = r_name r"
    "\<And>c. cl_userID (r_store r' c) = cl_userID (r_store r c)" "\<And>c. c \<notin> set (r_clients r) \<Longrightarrow> r_store r' c = r_store r c"
    "set (r_clients r') \<subseteq> set (r_clients r)"
proof -
  have inv: "room_shape r" "ledger d r" "ordered_ledger r" using assms(1) by (simp_all add: room_inv_owing_def)
  obtain r' es where r': "broadcastEvent perm ts ty u content r = Inr r'" "room_shape r'" "ledger d r'" "r_name r' = r_name r"
      "\<forall>c. cl_userID (r_store r' c) = cl_userID (r_store r c)" "\<forall>c. c \<notin> set (r_clients r) \<longrightarrow> r_store r' c = r_store r c"
      "set (r_clients r') \<subseteq> set (r_clients r)"
      "r_out r' = r_out r @ es" "\<forall>e \<in> set es. \<exists>v. e = Notify (r_name r) v Offline"
    using broadcastEvent_inv [OF inv(1,2) assms(2), of ts ty u content] by blast
  have "ordered_ledger r'"
    by (rule ordered_ledger_extend [OF inv(3) r'(3,4,8)]) (use r'(9) no_online in blast)
  with r' that show thesis by (simp add: room_inv_owing_def)
qed

lemma broadcastEvent_ok:
  "room_inv_owing d r \<Longrightarrow> is_order perm \<Longrightarrow>
     \<exists>r'. broadcastEvent perm ts ty u content r = Inr r' \<and> room_inv_owing d r' \<and> r_name r' = r_name r"
  by (metis broadcastEvent_room_inv)

lemma connections_cong:
  "r_clients r' = r_clients r \<Longrightarrow> (\<And>c. cl_userID (r_store r' c) = cl_userID (r_store r c)) \<Longrightarrow> connections u r' = connections u r"
  by (simp add: connections_def)

lemma emit_sel [simp]:
  "r_name (emit e r) = r_name r" "r_clients (emit e r) = r_clients r" "r_store (emit e r) = r_store r"
  "r_out (emit e r) = r_out r @ [e]" "connections u (emit e r) = connections u r"
  by (simp_all add: emit_def connections_def)

lemma run_register_inv:
  assumes "room_inv r" "fresh_client c r" "is_order perm"
  shows "\<exists>r'. run_register perm now c r = Inr r' \<and> room_inv r'"
proof -
  let ?u = "cl_userID (r_store r c)"
  define r2 where "r2 = emit (Notify (r_name r) ?u Online) (r\<lparr>r_clients := r_clients r @ [c]\<rparr>)"
  have c: "c \<notin> set (r_clients r)" "\<not> cl_closed (r_store r c)"
    using assms(2) by (auto simp: fresh_client_def NewClient_def) (metis Client.select_convs(3))
  have sel: "r_name r2 = r_name r" "r_out r2 = r_out r @ [Notify (r_name r) ?u Online]"
    "connections v r2 = connections v r + (if v = ?u then 1 else 0)" for v
    by (simp_all add: r2_def connections_def)
  have "ledger (\<lambda>_. 0) r2" using assms(1) by (auto simp: room_inv_owing_def ledger_def sel)
  moreover have "room_shape r2" using assms(1) c by (auto simp: room_inv_owing_def room_shape_def r2_def)
  moreover have "ordered_ledger r2"
    unfolding ordered_ledger_def
  proof (intro allI)
    fix n v
    have "count_effect (Notify (r_name r) v Offline) (take n (r_out r)) \<le> count_effect (Notify (r_name r) v Online) (take n (r_out r))"
      using assms(1) by (simp add: room_inv_owing_def ordered_ledger_def)
    then show "count_effect (Notify (r_name r2) v Offline) (take n (r_out r2)) \<le> count_effect (Notify (r_name r2) v Online) (take n (r_out r2))"
      by (cases "n - length (r_out r)") (simp_all add: sel)
  qed
  ultimately have "room_inv r2" by (simp add: room_inv_owing_def)
  from broadcastEvent_ok [OF this assms(3), of now "''join''" ?u "''''"]
  obtain r' where "broadcastEvent perm now ''join'' ?u '''' r2 = Inr r'" "room_inv r'" by (elim exE conjE)
  then show ?thesis using c(1) by (simp add: run_register_def Let_def r2_def)
qed

lemma run_unregister_inv:
  assumes "room_inv r" "is_order perm"
  shows "\<exists>r'. run_unregister perm now c r = Inr r' \<and> room_inv r'"
proof (cases "c \<in> set (r_clients r)")
  case True
  let ?u = "cl_userID (r_store r c)"
  let ?d = "\<lambda>v. if v = ?u then 1 else (0 :: nat)"
  have shape: "distinct (r_clients r)" "\<not> cl_closed (r_store r c)"
    using assms(1) True by (simp_all add: room_inv_owing_def room_shape_def)
  define r1 where "r1 = r\<lparr>r_clients := remove1 c (r_clients r), r_store := (r_store r)(c := (r_store r c)\<lparr>cl_closed := True\<rparr>)\<rparr>"
  have close: "close_send c (r\<lparr>r_clients := remove1 c (r_clients r)\<rparr>) = Inr r1"
    using shape by (simp add: close_send_def r1_def)
  have conn: "connections v r = connections v r1 + ?d v" for v
  proof -
    have "cl_userID (r_store r1 x) = cl_userID (r_store r x)" for x by (simp add: r1_def)
    then have "connections v r1 = length (filter (\<lambda>x. cl_userID (r_store r x) = v) (remove1 c (r_clients r)))"
      by (simp add: connections_def) (simp add: r1_def)
    then show ?thesis
      using length_filter_remove1 [OF True, of "\<lambda>x. cl_userID (r_store r x) = v"] by (auto simp: connections_def)
  qed
  have "ledger ?d r1" using assms(1) conn by (simp add: room_inv_owing_def ledger_def r1_def)
  moreover have "room_shape r1" using assms(1) shape(1) by (auto simp: room_inv_owing_def room_shape_def r1_def)
  moreover have "ordered_ledger r1" using assms(1) by (simp add: room_inv_owing_def ordered_ledger_def r1_def)
  ultimately have "room_inv_owing ?d r1" by (simp add: room_inv_owing_def)
  from broadcastEvent_ok [OF this assms(2), of now "''leave''" ?u "''''"]
  obtain r2 where r2: "broadcastEvent perm now ''leave'' ?u '''' r1 = Inr r2" "room_inv_owing ?d r2" "r_name r2 = r_name r1"
    by (elim exE conjE)
  let ?r3 = "emit (Notify (r_name r2) ?u Offline) r2"
  have led: "ledger (\<lambda>_. 0) ?r3" using r2(2) by (auto simp: room_inv_owing_def ledger_def)
  then have "room_inv ?r3"
    using r2(2) ordered_ledger_extend [of r2 "\<lambda>_. 0" ?r3 "[Notify (r_name r2) ?u Offline]"]
    by (simp add: room_inv_owing_def room_shape_def)
  with True close r2(1) show ?thesis by (simp add: run_unregister_def Let_def)
next
  case False
  then show ?thesis using assms(1) by (simp add: run_unregister_def)
qed

lemma run_broadcast_inv:
  assumes "room_inv r" "is_order perm"
  shows "\<exists>r'. run_broadcast unmarshal perm now c payload r = Inr r' \<and> room_inv r'"
proof (cases "unmarshal payload")
  case None
  then show ?thesis using assms(1) by (simp add: run_broadcast_def)
next
  case (Some p)
  obtain ty content where p: "p = (ty, content)" by fastforce
  let ?u = "cl_userID (r_store r c)"
  obtain r1 where r1: "broadcastEvent perm now ''typing'' ?u '''' r = Inr r1" "room_inv r1"
    using broadcastEvent_ok [OF assms, of now "''typing''" ?u "''''"] by (elim exE conjE)
  obtain r2 where r2: "broadcastEvent perm now ''chat'' ?u content r = Inr r2" "room_inv r2"
    using broadcastEvent_ok [OF assms, of now "''chat''" ?u content] by (elim exE conjE)
  let ?r3 = "emit (Archive (r_name r2) ?u content now) r2"
  have "ledger (\<lambda>_. 0) ?r3" using r2(2) by (simp add: room_inv_owing_def ledger_def)
  then have "room_inv ?r3"
    using r2(2) ordered_ledger_extend [of r2 "\<lambda>_. 0" ?r3 "[Archive (r_name r2) ?u content now]"]
    by (simp add: room_inv_owing_def room_shape_def)
  with r1 r2(1) assms(1) Some p show ?thesis by (auto simp: run_broadcast_def Let_def)
qed

lemma writePump_inv:
  assumes "room_inv r"
  shows "room_inv (writePump_take c r)"
proof (cases "cl_send (r_store r c)")
  case (Cons m ms)
  have conn: "connections u (writePump_take c r) = connections u r" for u
    by (rule connections_cong) (simp_all add: writePump_take_def Cons)
  have "length ms \<le> send_capacity"
    using assms Cons unfolding room_inv_owing_def room_shape_def by (metis Suc_leD length_Cons)
  then have "room_shape (writePump_take c r)"
    using assms by (auto simp: room_inv_owing_def room_shape_def writePump_take_def Cons)
  with assms show ?thesis
    unfolding room_inv_owing_def ledger_def conn ordered_ledger_def by (simp add: writePump_take_def Cons)
qed (use assms in \<open>simp add: writePump_take_def\<close>)

lemma room_step_inv: "room_step unmarshal r s \<Longrightarrow> room_inv r \<Longrightarrow> \<exists>r'. s = Inr r' \<and> room_inv r'"
  by (induction rule: room_step.induct)
    (simp_all add: run_register_inv run_unregister_inv run_broadcast_inv writePump_inv)

lemma room_reach_inv:
  assumes "room_reach unmarshal (NewRoom name uid) s"
  shows "\<exists>r. s = Inr r \<and> room_inv r"
  using assms
proof induction
  case start
  show ?case
    by (simp add: room_inv_owing_def room_shape_def ledger_def ordered_ledger_def connections_def NewRoom_def NewClient_def)
next
  case (step r r')
  then show ?case using room_step_inv by blast
qed

section \<open>Properties\<close>

text \<open>
  C1: the event loop never panics, and presence is accounted for.  From a new room, however
  registrations, disconnects, messages and slow consumers follow each other and in whatever order
  the client map is iterated, no send on a closed channel and no double close happens; the loop only
  holds distinct clients with open channels; no client ever queues more than 16 frames; and for every
  user the onlines reported minus the offlines reported is the number of connections the user has
  in the room.
\<close>

theorem room_safe_and_balanced:
  assumes "room_reach unmarshal (NewRoom name uid) s"
  shows "\<exists>r. s = Inr r \<and> distinct (r_clients r) \<and> (\<forall>c \<in> set (r_clients r). \<not> cl_closed (r_store r c)) \<and>
    (\<forall>c. length (cl_send (r_store r c)) \<le> 16) \<and>
    (\<forall>u. count_effect (Notify (r_name r) u Online) (r_out r) =
       count_effect (Notify (r_name r) u Offline) (r_out r) + connections u r)"
  using room_reach_inv [OF assms]
  by (auto simp: room_inv_owing_def room_shape_def ledger_def send_capacity_def)

definition echo_json :: "string \<Rightarrow> (string \<times> string) option" where
  "echo_json payload = (if payload = ''bad'' then None else Some (''chat'', payload))"

lemma is_order_id [simp]: "is_order (\<lambda>xs. xs)" "is_order rev"
  by (simp_all add: is_order_def)

lemma demo_reach:
  "\<exists>r. room_reach echo_json (NewRoom ''general'' int) (Inr r) \<and> room_inv r \<and>
     run_register rev 5 3 (NewRoom ''general'' int) = Inr r"
proof -
  have fresh: "fresh_client 3 (NewRoom ''general'' int)" by (simp add: fresh_client_def NewRoom_def NewClient_def)
  obtain r where r: "run_register rev 5 3 (NewRoom ''general'' int) = Inr r" "room_inv r"
    using run_register_inv [OF _ fresh is_order_id(2), of 5] room_reach_inv [OF room_reach.start] by blast
  have "room_reach echo_json (NewRoom ''general'' int) (run_register rev 5 3 (NewRoom ''general'' int))"
    by (rule room_reach.step [OF room_reach.start room_step.register [OF fresh is_order_id(2)]])
  with r show ?thesis by auto
qed

theorem room_safe_and_balanced_witness:
  "\<exists>r. run_register rev 5 3 (NewRoom ''general'' int) = Inr r \<and> distinct (r_clients r)"
  using room_safe_and_balanced demo_reach by (metis Inr_inject)

text \<open>
  An offline is never reported before the online it ends.  In every prefix of the
  notifications a room has issued, each user has at least as many onlines as offlines: the
  eviction that a join frame can trigger is reported after the join.
\<close>

theorem presence_in_order:
  assumes "room_reach unmarshal (NewRoom name uid) (Inr r)"
  shows "count_effect (Notify (r_name r) u Offline) (take n (r_out r)) \<le>
    count_effect (Notify (r_name r) u Online) (take n (r_out r))"
  using room_reach_inv [OF assms] by (simp add: room_inv_owing_def ordered_ledger_def)

theorem presence_in_order_witness:
  "\<exists>r. run_register rev 5 3 (NewRoom ''general'' int) = Inr r \<and>
     count_effect (Notify (r_name r) 3 Offline) (take 1 (r_out r)) \<le> count_effect (Notify (r_name r) 3 Online) (take 1 (r_out r))"
  using presence_in_order demo_reach by blast

text \<open>
  C36: a chat message is delivered, stamped by the server and archived once.  A well-formed,
  non-empty chat payload reaches every connected client that has queue space, as a frame
  carrying the sender's own id, this room and the server's time; the clients without space are
  disconnected and reported offline; and exactly one archive call is made, with the same
  content and time.  What the payload claims about its sender or room is not looked at.
\<close>

theorem chat_message_delivered:
  assumes "room_reach unmarshal (NewRoom name uid) (Inr r)" "is_order perm"
    and "unmarshal payload = Some (ty, content)" "ty \<noteq> ''typing''" "content \<noteq> ''''"
  shows "\<exists>r' evicted. run_broadcast unmarshal perm now c payload r = Inr r' \<and>
    mset evicted = mset (filter (full r) (r_clients r)) \<and>
    r_clients r' = filter (\<lambda>k. \<not> full r k) (r_clients r) \<and>
    (\<forall>k \<in> set (r_clients r'). cl_send (r_store r' k) = cl_send (r_store r k) @
       [\<lparr>msg_Type = ''chat'', msg_Room = r_name r, msg_UserID = cl_userID (r_store r c), msg_Content = content, msg_Timestamp = now\<rparr>]) \<and>
    (\<forall>k \<in> set evicted. cl_closed (r_store r' k)) \<and>
    r_out r' = r_out r @ map (\<lambda>k. Notify (r_name r) (cl_userID (r_store r k)) Offline) evicted @
      [Archive (r_name r) (cl_userID (r_store r c)) content now]"
proof -
  have inv: "room_inv r" using room_reach_inv [OF assms(1)] by simp
  then have shape: "room_shape r" and d: "distinct (r_clients r)" by (simp_all add: room_inv_owing_def room_shape_def)
  let ?m = "\<lparr>msg_Type = ''chat'', msg_Room = r_name r, msg_UserID = cl_userID (r_store r c), msg_Content = content, msg_Timestamp = now\<rparr>"
  let ?ev = "filter (full r) (perm (r_clients r))"
  let ?r1 = "(fanned ?m (r_clients r) r)\<lparr>r_out := r_out r @ map (\<lambda>k. Notify (r_name r) (cl_userID (r_store r k)) Offline) ?ev\<rparr>"
  have run: "run_broadcast unmarshal perm now c payload r = Inr (emit (Archive (r_name r) (cl_userID (r_store r c)) content now) ?r1)"
    using assms(3-5) broadcastEvent_eq [OF shape assms(2), of now "''chat''" "cl_userID (r_store r c)" content]
    by (simp add: run_broadcast_def Let_def)
  have sub: "k \<in> set (r_clients r) \<and> full r k" if "k \<in> set ?ev" for k
    using that order_facts(2) [OF assms(2) d] by auto
  have cl: "r_clients ?r1 = filter (\<lambda>k. \<not> full r k) (r_clients r)"
    by (simp add: fanned_def) (rule filter_cong, simp_all)
  show ?thesis
  proof (intro exI conjI)
    show "mset ?ev = mset (filter (full r) (r_clients r))" by (rule order_facts(3) [OF assms(2) d])
    show "\<forall>k \<in> set ?ev. cl_closed (r_store (emit (Archive (r_name r) (cl_userID (r_store r c)) content now) ?r1) k)"
      using sub by (auto simp: fanned_def fanned_client_def full_def)
    show "\<forall>k \<in> set (r_clients (emit (Archive (r_name r) (cl_userID (r_store r c)) content now) ?r1)).
        cl_send (r_store (emit (Archive (r_name r) (cl_userID (r_store r c)) content now) ?r1) k) = cl_send (r_store r k) @ [?m]"
      unfolding emit_sel cl by (auto simp: fanned_def fanned_client_def full_def)
  qed (use run cl in simp_all)
qed

theorem chat_message_delivered_witness:
  "\<exists>r r'. run_register rev 5 3 (NewRoom ''general'' int) = Inr r \<and> run_broadcast echo_json rev 6 3 ''hi'' r = Inr r' \<and>
     r_clients r' = filter (\<lambda>k. \<not> full r k) (r_clients r)"
proof -
  obtain r where r: "room_reach echo_json (NewRoom ''general'' int) (Inr r)" "run_register rev 5 3 (NewRoom ''general'' int) = Inr r"
    using demo_reach by blast
  have j: "echo_json ''hi'' = Some (''chat'', ''hi'')" by (simp add: echo_json_def)
  show ?thesis using chat_message_delivered [OF r(1) is_order_id(2) j, of 6 3] r(2) by auto
qed

section \<open>Per-client order\<close>

definition stream :: "Room \<Rightarrow> nat \<Rightarrow> Message list" where
  "stream r c = cl_written (r_store r c) @ cl_send (r_store r c)"

definition extends :: "Room \<Rightarrow> Room \<Rightarrow> bool" where
  "extends r r' \<longleftrightarrow> (\<forall>c. \<exists>ms. stream r' c = stream r c @ ms)"

lemma extends_trans: "extends r1 r2 \<Longrightarrow> extends r2 r3 \<Longrightarrow> extends r1 r3"
  unfolding extends_def by (metis append.assoc)

lemma extends_refl [simp]: "extends r r"
  by (simp add: extends_def)

lemma extends_store: "(\<And>c. cl_written (r_store r' c) = cl_written (r_store r c) \<and> cl_send (r_store r' c) = cl_send (r_store r c)) \<Longrightarrow> extends r r'"
  by (simp add: extends_def stream_def)

lemma fan_out_extends: "fan_out m cs s = Inr s' \<Longrightarrow> extends (fst s) (fst s')"
proof (induction cs arbitrary: s)
  case (Cons c cs)
  then obtain s1 where s1: "fan_out_one m c s = Inr s1" "fan_out m cs s1 = Inr s'" by (auto simp: ok_iff)
  have "extends (fst s) (fst s1)"
    using s1(1) unfolding extends_def stream_def
    by (cases s) (auto simp: fan_out_one_def close_send_def split: if_splits)
  with Cons.IH [OF s1(2)] show ?case by (rule extends_trans [rotated])
qed simp

lemma broadcastEvent_extends:
  assumes "broadcastEvent perm ts ty u content r = Inr r'"
  shows "extends r r'"
proof -
  obtain r1 ev where f: "fan_out \<lparr>msg_Type = ty, msg_Room = r_name r, msg_UserID = u, msg_Content = content, msg_Timestamp = ts\<rparr>
      (perm (r_clients r)) (r, []) = Inr (r1, ev)" "r_store r' = r_store r1"
    using assms by (auto simp: broadcastEvent_def Let_def ok_iff)
  from fan_out_extends [OF f(1)] f(2) show ?thesis by (simp add: extends_def stream_def)
qed

lemma room_step_extends:
  assumes "room_step unmarshal r (Inr r')"
  shows "extends r r'"
  using assms
proof cases
  case (register c perm now)
  then have "extends (emit (Notify (r_name r) (cl_userID (r_store r c)) Online)
      (r\<lparr>r_clients := if c \<in> set (r_clients r) then r_clients r else r_clients r @ [c]\<rparr>)) r'"
    by (auto simp: run_register_def Let_def intro: broadcastEvent_extends)
  then show ?thesis by (simp add: extends_def stream_def)
next
  case (unregister perm now c)
  show ?thesis
  proof (cases "c \<in> set (r_clients r)")
    case True
    then obtain r1 r2 where s: "close_send c (r\<lparr>r_clients := remove1 c (r_clients r)\<rparr>) = Inr r1"
        "broadcastEvent perm now ''leave'' (cl_userID (r_store r c)) '''' r1 = Inr r2" "r_store r' = r_store r2"
      using unregister(1) [symmetric] by (auto simp: run_unregister_def Let_def ok_iff)
    have "extends r r1" using s(1) by (intro extends_store) (auto simp: close_send_def split: if_splits)
    from extends_trans [OF this broadcastEvent_extends [OF s(2)]] s(3) show ?thesis by (simp add: extends_def stream_def)
  next
    case False
    then show ?thesis using unregister by (simp add: run_unregister_def)
  qed
next
  case (broadcast perm now c payload)
  show ?thesis
  proof (cases "unmarshal payload")
    case None
    then show ?thesis using broadcast by (simp add: run_broadcast_def)
  next
    case (Some p)
    let ?u = "cl_userID (r_store r c)"
    show ?thesis
    proof (cases "fst p = ''typing''")
      case True
      then have "broadcastEvent perm now ''typing'' ?u '''' r = Inr r'"
        using broadcast(1) Some by (simp add: run_broadcast_def Let_def split_beta)
      then show ?thesis by (rule broadcastEvent_extends)
    next
      case nt: False
      show ?thesis
      proof (cases "snd p = ''''")
        case True
        then show ?thesis using nt broadcast(1) Some by (simp add: run_broadcast_def Let_def split_beta)
      next
        case False
        with nt Some obtain r1 where "broadcastEvent perm now ''chat'' ?u (snd p) r = Inr r1" "r_store r' = r_store r1"
          using broadcast(1) [symmetric] by (auto simp: run_broadcast_def Let_def split_beta ok_iff)
        then show ?thesis using broadcastEvent_extends by (simp add: extends_def stream_def)
      qed
    qed
  qed
next
  case (wrote c)
  then show ?thesis
    by (auto simp: extends_def stream_def writePump_take_def split: list.splits)
qed

text \<open>
  No frame is lost, duplicated or reordered on the way to a client.  The frames a client has
  been written plus those still queued for it only ever grow by appending; so what the socket
  receives is, in order, a prefix of what was queued.
\<close>

theorem client_stream_fifo:
  assumes "room_reach unmarshal r0 s" "s = Inr r"
  shows "\<exists>ms. cl_written (r_store r c) @ cl_send (r_store r c) =
    (cl_written (r_store r0 c) @ cl_send (r_store r0 c)) @ ms"
proof -
  have "extends r0 r" if "room_reach unmarshal r0 s" "s = Inr r" for s r
    using that
  proof (induction arbitrary: r rule: room_reach.induct)
    case start
    then show ?case by simp
  next
    case (step r1 s')
    then show ?case using room_step_extends extends_trans by blast
  qed
  with assms show ?thesis unfolding extends_def stream_def by blast
qed

theorem client_stream_fifo_witness:
  "\<exists>r ms. run_register rev 5 3 (NewRoom ''general'' int) = Inr r \<and> cl_written (r_store r 3) @ cl_send (r_store r 3) =
    (cl_written (r_store (NewRoom ''general'' int) 3) @ cl_send (r_store (NewRoom ''general'' int) 3)) @ ms"
  using client_stream_fifo demo_reach by blast

end
