(* ===== verification/Hub.thy ===== *)
theory Hub
  imports Room
begin

text \<open>
  \<^verbatim>\<open>chat-service/internal/ws/hub.go\<close> and \<^verbatim>\<open>handler.go\<close>: the rooms of one instance, their creation, the
  reaper of empty rooms, the snapshots, and the admission of a WebSocket handshake.  A \<^verbatim>\<open>*Room\<close> is a
  number into a store of room objects; an object has its connected clients, whether its \<^verbatim>\<open>done\<close>
  channel is closed and whether its \<^verbatim>\<open>run()\<close> goroutine is still running.  The step relation interleaves
  joins, registrations, departures, reaper sweeps and the exit of \<^verbatim>\<open>run()\<close>.
\<close>

section \<open>hub.go\<close>

record room_obj =
  ro_name :: string
  ro_clients :: "(nat \<times> int) list"
  ro_done :: bool
  ro_running :: bool

record Hub =
  hb_rooms :: "string \<rightharpoonup> nat"
  hb_objs :: "nat \<Rightarrow> room_obj"
  hb_next :: nat
  hb_panic :: bool

definition NewHub :: Hub where
  "NewHub = \<lparr>hb_rooms = Map.empty,
             hb_objs = (\<lambda>_. \<lparr>ro_name = '''', ro_clients = [], ro_done = True, ro_running = False\<rparr>),
             hb_next = 0, hb_panic = False\<rparr>"

definition GetOrCreateRoom :: "string \<Rightarrow> Hub \<Rightarrow> Hub \<times> nat" where
  "GetOrCreateRoom name h =
     (case hb_rooms h name of
        Some room \<Rightarrow> (h, room)
      | None \<Rightarrow>
          (let room = hb_next h
           in (h\<lparr>hb_objs := (hb_objs h)(room := \<lparr>ro_name = name, ro_clients = [], ro_done = False, ro_running = True\<rparr>),
                 hb_next := Suc room, hb_rooms := (hb_rooms h)(name \<mapsto> room)\<rparr>, room)))"

text \<open>\<^verbatim>\<open>Room.shutdown\<close>: closing \<^verbatim>\<open>done\<close> a second time would panic.\<close>

definition shutdown_room :: "nat \<Rightarrow> Hub \<Rightarrow> Hub" where
  "shutdown_room ob h =
     (if ro_done (hb_objs h ob) then h\<lparr>hb_panic := True\<rparr>
      else h\<lparr>hb_objs := (hb_objs h)(ob := (hb_objs h ob)\<lparr>ro_done := True\<rparr>)\<rparr>)"

definition reap_one :: "string \<Rightarrow> Hub \<Rightarrow> Hub" where
  "reap_one name h =
     (case hb_rooms h name of
        None \<Rightarrow> h
      | Some room \<Rightarrow>
          if length (ro_clients (hb_objs h room)) = 0
          then shutdown_room room (h\<lparr>hb_rooms := (hb_rooms h)(name := None)\<rparr>)
          else h)"

text \<open>One tick of \<^verbatim>\<open>reapEmptyRooms\<close>, the room names in the order the map is iterated.\<close>

definition reapEmptyRooms :: "string list \<Rightarrow> Hub \<Rightarrow> Hub" where
  "reapEmptyRooms names h = fold reap_one names h"

definition dedup_users :: "(nat \<times> int) list \<Rightarrow> int list" where
  "dedup_users cs = rev (fold (\<lambda>c ids. if snd c \<in> set ids then ids else snd c # ids) cs [])"

definition Snapshot :: "string list \<Rightarrow> Hub \<Rightarrow> (string \<times> int list) list" where
  "Snapshot names h = List.map_filter (\<lambda>n. map_option (\<lambda>ob. (n, dedup_users (ro_clients (hb_objs h ob)))) (hb_rooms h n)) names"

definition ListRooms :: "string list \<Rightarrow> Hub \<Rightarrow> (string \<times> nat) list" where
  "ListRooms names h = List.map_filter (\<lambda>n. map_option (\<lambda>ob. (n, length (ro_clients (hb_objs h ob)))) (hb_rooms h n)) names"

section \<open>handler.go\<close>

definition CheckOrigin :: "string list \<Rightarrow> request \<Rightarrow> bool" where
  "CheckOrigin allowedOrigins r =
     (let origin = Header_Get (req_header r) ''Origin''
      in if origin = '''' then True else origin \<in> set allowedOrigins)"

text \<open>
  \<^verbatim>\<open>Serve\<close> up to the upgrade: the room to join and the identity of the connection, or the refusal.
\<close>

definition Serve_admit :: "jwt_package \<Rightarrow> string \<Rightarrow> int \<Rightarrow> echo_context \<Rightarrow> reject + (string \<times> int)" where
  "Serve_admit J jwtSecret now cx =
     (let given = Values_Get (req_query (cx_req cx)) ''room'';
          roomName = (if given = '''' then ''general'' else given)
      in case ValidateRoomName roomName of
           Inl err \<Rightarrow> Inl (400, err_text err)
         | Inr _ \<Rightarrow>
             (let authHeader = Header_Get (req_header (cx_req cx)) ''Authorization'';
                  tokenString = TrimPrefix authHeader ''Bearer ''
              in if authHeader = '''' \<or> tokenString = authHeader
                 then Inl (401, ''missing or invalid authorization header'')
                 else case chat_ValidateToken J jwtSecret now tokenString of
                        Inl err \<Rightarrow> Inl (401, err_text err)
                      | Inr claims \<Rightarrow> Inr (roomName, UserID claims)))"

text \<open>
  The rest of \<^verbatim>\<open>Serve\<close>: a connection holds a pointer to its room, then offers itself on \<^verbatim>\<open>register\<close>
  until \<^verbatim>\<open>run()\<close> takes it or two seconds pass.
\<close>

datatype conn = Joining nat int | Joined nat int | Dropped

record chat =
  ch_hub :: Hub
  ch_conns :: "nat \<rightharpoonup> conn"

definition join_room :: "nat \<Rightarrow> string \<Rightarrow> int \<Rightarrow> chat \<Rightarrow> chat" where
  "join_room c name u s =
     (let (h, ob) = GetOrCreateRoom name (ch_hub s)
      in s\<lparr>ch_hub := h, ch_conns := (ch_conns s)(c \<mapsto> Joining ob u)\<rparr>)"

definition take_register :: "nat \<Rightarrow> nat \<Rightarrow> int \<Rightarrow> chat \<Rightarrow> chat" where
  "take_register c ob u s =
     s\<lparr>ch_hub := (ch_hub s)\<lparr>hb_objs := (hb_objs (ch_hub s))(ob := (hb_objs (ch_hub s) ob)\<lparr>ro_clients :=
          ro_clients (hb_objs (ch_hub s) ob) @ [(c, u)]\<rparr>)\<rparr>,
       ch_conns := (ch_conns s)(c \<mapsto> Joined ob u)\<rparr>"

definition take_unregister :: "nat \<Rightarrow> nat \<Rightarrow> int \<Rightarrow> chat \<Rightarrow> chat" where
  "take_unregister c ob u s =
     s\<lparr>ch_hub := (ch_hub s)\<lparr>hb_objs := (hb_objs (ch_hub s))(ob := (hb_objs (ch_hub s) ob)\<lparr>ro_clients :=
          remove1 (c, u) (ro_clients (hb_objs (ch_hub s) ob))\<rparr>)\<rparr>,
       ch_conns := (ch_conns s)(c \<mapsto> Dropped)\<rparr>"

inductive hub_step :: "chat \<Rightarrow> chat \<Rightarrow> bool" where
  join: "ch_conns s c = None \<Longrightarrow> hub_step s (join_room c name u s)"
| registered: "ch_conns s c = Some (Joining ob u) \<Longrightarrow> ro_running (hb_objs (ch_hub s) ob) \<Longrightarrow>
    hub_step s (take_register c ob u s)"
| gave_up: "ch_conns s c = Some (Joining ob u) \<Longrightarrow> hub_step s (s\<lparr>ch_conns := (ch_conns s)(c \<mapsto> Dropped)\<rparr>)"
| left_room: "ch_conns s c = Some (Joined ob u) \<Longrightarrow> ro_running (hb_objs (ch_hub s) ob) \<Longrightarrow>
    hub_step s (take_unregister c ob u s)"
| sweep: "set names = dom (hb_rooms (ch_hub s)) \<Longrightarrow> distinct names \<Longrightarrow>
    hub_step s (s\<lparr>ch_hub := reapEmptyRooms names (ch_hub s)\<rparr>)"
| exits: "ro_done (hb_objs (ch_hub s) ob) \<Longrightarrow>
    hub_step s (s\<lparr>ch_hub := (ch_hub s)\<lparr>hb_objs := (hb_objs (ch_hub s))(ob := (hb_objs (ch_hub s) ob)\<lparr>ro_running := False\<rparr>)\<rparr>\<rparr>)"

inductive hub_reach :: "chat \<Rightarrow> bool" where
  init: "hub_reach \<lparr>ch_hub = NewHub, ch_conns = Map.empty\<rparr>"
| step: "hub_reach s \<Longrightarrow> hub_step s s' \<Longrightarrow> hub_reach s'"

section \<open>Invariant\<close>

definition hub_inv :: "Hub \<Rightarrow> bool" where
  "hub_inv h \<longleftrightarrow> \<not> hb_panic h \<and>
     (\<forall>n ob. hb_rooms h n = Some ob \<longrightarrow> ob < hb_next h \<and> ro_name (hb_objs h ob) = n \<and>
        \<not> ro_done (hb_objs h ob) \<and> ro_running (hb_objs h ob)) \<and>
     (\<forall>ob. \<not> ro_done (hb_objs h ob) \<longrightarrow> ob < hb_next h \<and> hb_rooms h (ro_name (hb_objs h ob)) = Some ob)"

lemma hub_invI:
  "\<not> hb_panic h \<Longrightarrow>
   (\<And>n ob. hb_rooms h n = Some ob \<Longrightarrow> ob < hb_next h \<and> ro_name (hb_objs h ob) = n \<and> \<not> ro_done (hb_objs h ob) \<and> ro_running (hb_objs h ob)) \<Longrightarrow>
   (\<And>ob. \<not> ro_done (hb_objs h ob) \<Longrightarrow> ob < hb_next h \<and> hb_rooms h (ro_name (hb_objs h ob)) = Some ob) \<Longrightarrow> hub_inv h"
  by (simp add: hub_inv_def)

lemma hub_invD:
  assumes "hub_inv h"
  shows "\<not> hb_panic h"
    "\<And>n ob. hb_rooms h n = Some ob \<Longrightarrow> ob < hb_next h \<and> ro_name (hb_objs h ob) = n \<and> \<not> ro_done (hb_objs h ob) \<and> ro_running (hb_objs h ob)"
    "\<And>ob. \<not> ro_done (hb_objs h ob) \<Longrightarrow> ob < hb_next h \<and> hb_rooms h (ro_name (hb_objs h ob)) = Some ob"
  using assms unfolding hub_inv_def by blast+

lemma GetOrCreateRoom_inv:
  assumes "hub_inv h"
  shows "hub_inv (fst (GetOrCreateRoom name h))"
proof (cases "hb_rooms h name")
  case None
  let ?h = "h\<lparr>hb_objs := (hb_objs h)(hb_next h := \<lparr>ro_name = name, ro_clients = [], ro_done = False, ro_running = True\<rparr>),
              hb_next := Suc (hb_next h), hb_rooms := (hb_rooms h)(name \<mapsto> hb_next h)\<rparr>"
  have "hub_inv ?h"
  proof (rule hub_invI)
    show "\<not> hb_panic ?h" using hub_invD(1) [OF assms] by simp
  next
    fix n ob assume "hb_rooms ?h n = Some ob"
    then show "ob < hb_next ?h \<and> ro_name (hb_objs ?h ob) = n \<and> \<not> ro_done (hb_objs ?h ob) \<and> ro_running (hb_objs ?h ob)"
      using hub_invD(2) [OF assms, of n ob] by (auto split: if_splits)
  next
    fix ob assume "\<not> ro_done (hb_objs ?h ob)"
    then show "ob < hb_next ?h \<and> hb_rooms ?h (ro_name (hb_objs ?h ob)) = Some ob"
      using hub_invD(3) [OF assms, of ob] None by (cases "ob = hb_next h") auto
  qed
  with None show ?thesis by (simp add: GetOrCreateRoom_def Let_def)
qed (use assms in \<open>simp add: GetOrCreateRoom_def\<close>)

lemma GetOrCreateRoom_result:
  assumes "hub_inv h" "GetOrCreateRoom name h = (h', ob)"
  shows "hb_rooms h' name = Some ob \<and> \<not> ro_done (hb_objs h' ob) \<and> ro_name (hb_objs h' ob) = name"
proof (cases "hb_rooms h name")
  case None
  with assms(2) show ?thesis by (auto simp: GetOrCreateRoom_def Let_def)
next
  case (Some o')
  with assms(2) have "h' = h" "ob = o'" by (simp_all add: GetOrCreateRoom_def)
  with hub_invD(2) [OF assms(1) Some] Some show ?thesis by simp
qed

lemma reap_one_inv:
  assumes "hub_inv h"
  shows "hub_inv (reap_one n h)"
proof (cases "hb_rooms h n")
  case (Some o')
  note o' = hub_invD(2) [OF assms Some]
  let ?h = "h\<lparr>hb_rooms := (hb_rooms h)(n := None), hb_objs := (hb_objs h)(o' := (hb_objs h o')\<lparr>ro_done := True\<rparr>)\<rparr>"
  have "hub_inv ?h"
  proof (rule hub_invI)
    show "\<not> hb_panic ?h" using hub_invD(1) [OF assms] by simp
  next
    fix m ob assume "hb_rooms ?h m = Some ob"
    then have m: "m \<noteq> n" "hb_rooms h m = Some ob" by (auto split: if_splits)
    note ob = hub_invD(2) [OF assms m(2)]
    from m(1) ob o' have "ob \<noteq> o'" by auto
    with ob show "ob < hb_next ?h \<and> ro_name (hb_objs ?h ob) = m \<and> \<not> ro_done (hb_objs ?h ob) \<and> ro_running (hb_objs ?h ob)"
      by simp
  next
    fix ob assume "\<not> ro_done (hb_objs ?h ob)"
    then have ob: "ob \<noteq> o'" "\<not> ro_done (hb_objs h ob)" by (auto split: if_splits)
    from hub_invD(3) [OF assms ob(2)] ob(1) Some
    show "ob < hb_next ?h \<and> hb_rooms ?h (ro_name (hb_objs ?h ob)) = Some ob" by auto
  qed
  with assms o' Some show ?thesis by (simp add: reap_one_def shutdown_room_def)
qed (use assms in \<open>simp add: reap_one_def\<close>)

lemma reap_inv: "hub_inv h \<Longrightarrow> hub_inv (reapEmptyRooms names h)"
  unfolding reapEmptyRooms_def by (induction names arbitrary: h) (simp_all add: reap_one_inv)

lemma hub_inv_obj:
  assumes "hub_inv h" "ro_name x = ro_name (hb_objs h ob)" "ro_done x = ro_done (hb_objs h ob)"
    "ro_done x \<or> ro_running x = ro_running (hb_objs h ob)"
  shows "hub_inv (h\<lparr>hb_objs := (hb_objs h)(ob := x)\<rparr>)"
proof (rule hub_invI)
  show "\<not> hb_panic (h\<lparr>hb_objs := (hb_objs h)(ob := x)\<rparr>)" using hub_invD(1) [OF assms(1)] by simp
next
  fix n o' assume "hb_rooms (h\<lparr>hb_objs := (hb_objs h)(ob := x)\<rparr>) n = Some o'"
  then have "hb_rooms h n = Some o'" by simp
  from hub_invD(2) [OF assms(1) this] assms(2-4)
  show "o' < hb_next (h\<lparr>hb_objs := (hb_objs h)(ob := x)\<rparr>) \<and> ro_name (hb_objs (h\<lparr>hb_objs := (hb_objs h)(ob := x)\<rparr>) o') = n \<and>
      \<not> ro_done (hb_objs (h\<lparr>hb_objs := (hb_objs h)(ob := x)\<rparr>) o') \<and> ro_running (hb_objs (h\<lparr>hb_objs := (hb_objs h)(ob := x)\<rparr>) o')"
    by auto
next
  fix o' assume "\<not> ro_done (hb_objs (h\<lparr>hb_objs := (hb_objs h)(ob := x)\<rparr>) o')"
  then have "\<not> ro_done (hb_objs h o')" using assms(3) by (auto split: if_splits)
  from hub_invD(3) [OF assms(1) this] assms(2)
  show "o' < hb_next (h\<lparr>hb_objs := (hb_objs h)(ob := x)\<rparr>) \<and>
      hb_rooms (h\<lparr>hb_objs := (hb_objs h)(ob := x)\<rparr>) (ro_name (hb_objs (h\<lparr>hb_objs := (hb_objs h)(ob := x)\<rparr>) o')) = Some o'"
    by auto
qed

lemma hub_reach_inv: "hub_reach s \<Longrightarrow> hub_inv (ch_hub s)"
proof (induction rule: hub_reach.induct)
  case init
  show ?case by (simp add: hub_inv_def NewHub_def)
next
  case (step s s')
  from step.hyps(2) show ?case
  proof cases
    case (join c name u)
    then show ?thesis using GetOrCreateRoom_inv [OF step.IH, of name] by (simp add: join_room_def split_beta Let_def)
  next
    case (registered c ob u)
    then show ?thesis using step.IH by (simp add: take_register_def hub_inv_obj)
  next
    case (left_room c ob u)
    then show ?thesis using step.IH by (simp add: take_unregister_def hub_inv_obj)
  next
    case (sweep names)
    then show ?thesis using reap_inv [OF step.IH] by simp
  next
    case (exits ob)
    then show ?thesis using hub_inv_obj [OF step.IH] by simp
  next
    case (gave_up c ob u)
    then show ?thesis using step.IH by simp
  qed
qed

lemma reap_one_keeps:
  assumes "hub_inv h" "hb_rooms h n = Some ob" "ro_clients (hb_objs h ob) \<noteq> []"
  shows "hb_rooms (reap_one m h) n = Some ob \<and> hb_objs (reap_one m h) ob = hb_objs h ob"
proof (cases "hb_rooms h m")
  case (Some o')
  show ?thesis
  proof (cases "m = n")
    case False
    then have "o' \<noteq> ob" using hub_invD(2) [OF assms(1,2)] hub_invD(2) [OF assms(1) Some] by auto
    with assms(2) False Some show ?thesis by (simp add: reap_one_def shutdown_room_def)
  qed (use Some assms in \<open>simp add: reap_one_def\<close>)
qed (use assms in \<open>simp add: reap_one_def\<close>)

lemma reap_keeps:
  assumes "hub_inv h" "hb_rooms h n = Some ob" "ro_clients (hb_objs h ob) \<noteq> []"
  shows "hb_rooms (reapEmptyRooms names h) n = Some ob \<and> hb_objs (reapEmptyRooms names h) ob = hb_objs h ob"
  using assms unfolding reapEmptyRooms_def
proof (induction names arbitrary: h)
  case (Cons m names)
  have "hb_rooms (reap_one m h) n = Some ob \<and> hb_objs (reap_one m h) ob = hb_objs h ob"
    by (rule reap_one_keeps [OF Cons.prems])
  with Cons.IH [OF reap_one_inv [OF Cons.prems(1)]] Cons.prems(3) show ?case by simp
qed simp

section \<open>Properties\<close>



text \<open>
  The join race ends in a split room.  A connection that fetched its room before a sweep can
  still be registered in it after the sweep, because \<^verbatim>\<open>run()\<close>'s \<^verbatim>\<open>select\<close> may take \<^verbatim>\<open>register\<close> although
  \<^verbatim>\<open>done\<close> is closed: two users joined to the same name then sit in two different room objects, and the
  first one's is no longer in the hub.
\<close>

theorem zombie_room_reachable:
  "\<exists>s ob ob' c c' u u'. hub_reach s \<and> ch_conns s c = Some (Joined ob u) \<and> ch_conns s c' = Some (Joined ob' u') \<and>
     ro_name (hb_objs (ch_hub s) ob) = ro_name (hb_objs (ch_hub s) ob') \<and> ob \<noteq> ob' \<and>
     (c, u) \<in> set (ro_clients (hb_objs (ch_hub s) ob)) \<and> (c', u') \<in> set (ro_clients (hb_objs (ch_hub s) ob')) \<and>
     ro_done (hb_objs (ch_hub s) ob) \<and> hb_rooms (ch_hub s) ''general'' = Some ob'"
proof -
  define s0 where "s0 = \<lparr>ch_hub = NewHub, ch_conns = Map.empty\<rparr>"
  define s1 where "s1 = join_room 1 ''general'' 7 s0"
  define s2 where "s2 = s1\<lparr>ch_hub := reapEmptyRooms [''general''] (ch_hub s1)\<rparr>"
  define s3 where "s3 = take_register 1 0 7 s2"
  define s4 where "s4 = join_room 2 ''general'' 8 s3"
  define s5 where "s5 = take_register 2 1 8 s4"
  note defs = s0_def s1_def s2_def s3_def s4_def s5_def join_room_def GetOrCreateRoom_def NewHub_def
    reapEmptyRooms_def reap_one_def shutdown_room_def take_register_def
  have r1: "hub_reach s1" unfolding s1_def s0_def by (rule hub_reach.step [OF hub_reach.init hub_step.join]) simp
  have r2: "hub_reach s2" unfolding s2_def
    by (rule hub_reach.step [OF r1 hub_step.sweep]) (simp_all add: defs)
  have r3: "hub_reach s3" unfolding s3_def
    by (rule hub_reach.step [OF r2 hub_step.registered]) (simp_all add: defs)
  have r4: "hub_reach s4" unfolding s4_def
    by (rule hub_reach.step [OF r3 hub_step.join]) (simp add: defs)
  have r5: "hub_reach s5" unfolding s5_def
    by (rule hub_reach.step [OF r4 hub_step.registered]) (simp_all add: defs)
  show ?thesis
    by (rule exI [of _ s5], rule exI [of _ 0], rule exI [of _ 1], rule exI [of _ 1], rule exI [of _ 2])
      (use r5 in \<open>simp add: defs\<close>)
qed

text \<open>
  Who is admitted to a room.  A handshake is admitted exactly when its room (\<^verbatim>\<open>general\<close> when none
  is named) is a valid room name and its Authorization header carries a Bearer token that validates;
  the connection then speaks for the user id in that token.
\<close>

theorem serve_admits_iff:
  "Serve_admit J secret now cx = Inr (room, u) \<longleftrightarrow>
     room = (if Values_Get (req_query (cx_req cx)) ''room'' = '''' then ''general'' else Values_Get (req_query (cx_req cx)) ''room'') \<and>
     room_name room \<and>
     (\<exists>role. chat_JWTMiddleware J secret now cx = Inr (cx\<lparr>cx_user_id := Some u, cx_role := role\<rparr>))"
proof -
  have upd: "cx\<lparr>cx_user_id := Some a, cx_role := r\<rparr> = cx\<lparr>cx_user_id := Some b, cx_role := r'\<rparr> \<longleftrightarrow> a = b \<and> r = r'" for a b r r'
    by (cases cx) simp
  have val: "ValidateRoomName n = Inr x \<longleftrightarrow> room_name n" for n x by (cases x) (simp add: ok_iff)
  define n where "n = (if Values_Get (req_query (cx_req cx)) ''room'' = '''' then ''general'' else Values_Get (req_query (cx_req cx)) ''room'')"
  have split: "Serve_admit J secret now cx = (case ValidateRoomName n of Inl err \<Rightarrow> Inl (400, err_text err)
      | Inr _ \<Rightarrow> (case chat_JWTMiddleware J secret now cx of Inl r \<Rightarrow> Inl r | Inr cx' \<Rightarrow> Inr (n, the (cx_user_id cx'))))"
    by (simp add: Serve_admit_def chat_JWTMiddleware_def Let_def n_def split: sum.split)
  have jwt: "\<exists>a r. cx' = cx\<lparr>cx_user_id := Some a, cx_role := r\<rparr>" if "chat_JWTMiddleware J secret now cx = Inr cx'" for cx'
    using that by (auto simp: chat_JWTMiddleware_def Let_def split: sum.splits if_splits)
  show ?thesis
  proof (cases "ValidateRoomName n")
    case (Inl e)
    then show ?thesis using val [of n "()"] unfolding split n_def [symmetric] by auto
  next
    case (Inr x)
    then have "room_name n" using val by simp
    show ?thesis
    proof (cases "chat_JWTMiddleware J secret now cx")
      case (Inr cx')
      obtain a r where "cx' = cx\<lparr>cx_user_id := Some a, cx_role := r\<rparr>" using jwt [OF Inr] by blast
      with Inr \<open>ValidateRoomName n = Inr x\<close> \<open>room_name n\<close> show ?thesis
        unfolding split n_def [symmetric] by (auto simp: upd)
    qed (use Inr in \<open>simp add: split\<close>)
  qed
qed

end
