(* ===== verification/Outbound.thy ===== *)
theory Outbound
  imports Auth Presence Hub
begin

text \<open>
  The clients chat-service calls its neighbours with: \<^verbatim>\<open>service/presence_client.go\<close>,
  \<^verbatim>\<open>service/notification_client.go\<close> and the sweep of \<^verbatim>\<open>service/presence_heartbeat.go\<close>.  The network is a
  parameter: it decides for the \<open>n\<close>-th request how long it takes and whether it fails in transport or
  answers with a status.  The state is the clock (nanoseconds) and the log of the requests sent.  A
  JSON body is kept as the value it encodes.
\<close>

section \<open>Requests, time and the network\<close>

record 'b out_request =
  or_url :: string
  or_header :: headers
  or_body :: 'b

record 'b net =
  nw_now :: int
  nw_sent :: "'b out_request list"

record 'b outside =
  os_do :: "nat \<Rightarrow> 'b out_request \<Rightarrow> int \<times> (goerror + nat)"
  os_rand :: "nat \<Rightarrow> nat"
  os_bytes :: "nat \<Rightarrow> string"
  os_url_ok :: "string \<Rightarrow> bool"

definition send :: "'b outside \<Rightarrow> 'b out_request \<Rightarrow> 'b net \<Rightarrow> 'b net \<times> (goerror + nat)" where
  "send os rq w =
     (let (d, out) = os_do os (length (nw_sent w)) rq
      in (w\<lparr>nw_now := nw_now w + d, nw_sent := nw_sent w @ [rq]\<rparr>, out))"

text \<open>
  \<^verbatim>\<open>sleepWithBackoff\<close>: 1s, 2s, 4s plus a random extra below half of it, cut short when the context's
  deadline \<open>dl\<close> comes first.
\<close>

definition sleepWithBackoff :: "'b outside \<Rightarrow> int \<Rightarrow> nat \<Rightarrow> 'b net \<Rightarrow> 'b net \<times> unit result" where
  "sleepWithBackoff os dl attempt w =
     (let base = 2 ^ (attempt - 1) * 1000000000;
          delay = base + int (os_rand os (length (nw_sent w))) mod (base div 2)
      in if nw_now w + delay < dl then (w\<lparr>nw_now := nw_now w + delay\<rparr>, Inr ())
         else (w\<lparr>nw_now := max (nw_now w) dl\<rparr>, Inl (External ''context deadline exceeded'')))"

text \<open>
  The retry loop both clients have: \<^verbatim>\<open>for attempt := 0; attempt <= maxRetries; attempt++\<close>, a backoff before
  every attempt but the first, and a body that returns or leaves an error and continues.
\<close>

datatype attempt_end = Return "unit result" | Continue goerror

function retry_loop ::
  "('b net \<Rightarrow> 'b net \<times> attempt_end) \<Rightarrow> (nat \<Rightarrow> 'b net \<Rightarrow> 'b net \<times> unit result) \<Rightarrow> nat \<Rightarrow> nat \<Rightarrow>
    goerror option \<Rightarrow> 'b net \<Rightarrow> 'b net \<times> unit result" where
  "retry_loop body sleep maxRetries attempt lastErr w =
     (if maxRetries < attempt then (w, case lastErr of None \<Rightarrow> Inr () | Some e \<Rightarrow> Inl e)
      else
        (case (if 0 < attempt then sleep attempt w else (w, Inr ())) of
           (w1, Inl e) \<Rightarrow> (w1, Inl e)
         | (w1, Inr _) \<Rightarrow>
             (case body w1 of
                (w2, Return r) \<Rightarrow> (w2, r)
              | (w2, Continue e) \<Rightarrow> retry_loop body sleep maxRetries (Suc attempt) (Some e) w2)))"
  by pat_completeness auto
termination by (relation "measure (\<lambda>(body, sleep, mx, attempt, last, w). Suc mx - attempt)") auto

declare retry_loop.simps [simp del]

section \<open>presence\_client.go\<close>

record PresenceClient =
  pc_baseURL :: string
  pc_apiKey :: string
  pc_instanceID :: string

datatype presence_body = EventBody PresenceEvent | HeartbeatBody HeartbeatRequest

definition presenceMaxRetries :: nat where
  "presenceMaxRetries = 3"

definition heartbeatMaxRetries :: nat where
  "heartbeatMaxRetries = 0"

definition presence_request :: "PresenceClient \<Rightarrow> string \<Rightarrow> string \<Rightarrow> presence_body \<Rightarrow> presence_body out_request" where
  "presence_request s requestID path body =
     \<lparr>or_url = pc_baseURL s @ path,
      or_header = Header_Set (Header_Set (Header_Set no_headers ''Content-Type'' ''application/json'')
        ''X-Presence-Key'' (pc_apiKey s)) ''X-Request-ID'' requestID,
      or_body = body\<rparr>"

definition post_attempt :: "presence_body outside \<Rightarrow> PresenceClient \<Rightarrow> string \<Rightarrow> presence_body \<Rightarrow> presence_body net \<Rightarrow> presence_body net \<times> attempt_end" where
  "post_attempt os s path body w =
     (if \<not> os_url_ok os (pc_baseURL s @ path) then (w, Return (Inl (External ''malformed url'')))
      else
        (case send os (presence_request s (generateRequestID (os_bytes os (length (nw_sent w)))) path body) w of
           (w1, Inl e) \<Rightarrow> (w1, Continue e)
         | (w1, Inr status) \<Rightarrow>
             if status < 500
             then if 400 \<le> status
                  then (w1, Return (Inl (Errorf (''presence-service rejected the request: status='' @ FormatInt (int status)))))
                  else (w1, Return (Inr ()))
             else (w1, Continue (Errorf (''presence-service error: status='' @ FormatInt (int status))))))"

definition post :: "presence_body outside \<Rightarrow> PresenceClient \<Rightarrow> int \<Rightarrow> string \<Rightarrow> presence_body \<Rightarrow> nat \<Rightarrow> presence_body net \<Rightarrow> presence_body net \<times> unit result" where
  "post os s dl path body maxRetries w =
     retry_loop (post_attempt os s path body) (sleepWithBackoff os dl) maxRetries 0 None w"

definition SendEvent :: "presence_body outside \<Rightarrow> PresenceClient \<Rightarrow> int \<Rightarrow> PresenceEvent \<Rightarrow> presence_body net \<Rightarrow> presence_body net \<times> unit result" where
  "SendEvent os s dl event w =
     post os s dl ''/events'' (EventBody (event\<lparr>pe_InstanceID := pc_instanceID s\<rparr>)) presenceMaxRetries w"

definition SendHeartbeat :: "presence_body outside \<Rightarrow> PresenceClient \<Rightarrow> int \<Rightarrow> string \<Rightarrow> int list \<Rightarrow> presence_body net \<Rightarrow> presence_body net \<times> unit result" where
  "SendHeartbeat os s dl room userIDs w =
     post os s dl ''/heartbeat''
       (HeartbeatBody \<lparr>hr_Room = room, hr_InstanceID = pc_instanceID s, hr_UserIDs = userIDs\<rparr>) heartbeatMaxRetries w"

section \<open>notification\_client.go\<close>

record MessageEvent =
  me_EventID :: string
  me_Room :: string
  me_UserID :: int
  me_Content :: string
  me_CreatedAt :: int

record NotificationClient =
  nc_baseURL :: string
  nc_apiKey :: string

definition notificationMaxRetries :: nat where
  "notificationMaxRetries = 3"

definition message_request :: "NotificationClient \<Rightarrow> string \<Rightarrow> MessageEvent \<Rightarrow> MessageEvent out_request" where
  "message_request s requestID event =
     \<lparr>or_url = nc_baseURL s @ ''/events/message'',
      or_header = Header_Set (Header_Set (Header_Set no_headers ''Content-Type'' ''application/json'')
        ''X-Notification-Key'' (nc_apiKey s)) ''X-Request-ID'' requestID,
      or_body = event\<rparr>"

definition message_attempt :: "MessageEvent outside \<Rightarrow> NotificationClient \<Rightarrow> MessageEvent \<Rightarrow> MessageEvent net \<Rightarrow> MessageEvent net \<times> attempt_end" where
  "message_attempt os s event w =
     (if \<not> os_url_ok os (nc_baseURL s @ ''/events/message'') then (w, Return (Inl (External ''malformed url'')))
      else
        (case send os (message_request s (generateRequestID (os_bytes os (length (nw_sent w)))) event) w of
           (w1, Inl e) \<Rightarrow> (w1, Continue e)
         | (w1, Inr status) \<Rightarrow>
             if status < 500
             then if 400 \<le> status
                  then (w1, Return (Inl (Errorf (''notification-service rejected the event: status='' @ FormatInt (int status)))))
                  else (w1, Return (Inr ()))
             else (w1, Continue (Errorf (''notification-service error: status='' @ FormatInt (int status))))))"

definition SendMessageEvent :: "MessageEvent outside \<Rightarrow> NotificationClient \<Rightarrow> int \<Rightarrow> MessageEvent \<Rightarrow> MessageEvent net \<Rightarrow> MessageEvent net \<times> unit result" where
  "SendMessageEvent os s dl event w =
     retry_loop (message_attempt os s event) (sleepWithBackoff os dl) notificationMaxRetries 0 None w"

section \<open>presence\_heartbeat.go\<close>

definition heartbeatRequestTimeout :: int where
  "heartbeatRequestTimeout = 10 * 1000000000"

fun sweep :: "presence_body outside \<Rightarrow> PresenceClient \<Rightarrow> (string \<times> int list) list \<Rightarrow> presence_body net \<Rightarrow> presence_body net" where
  "sweep os s [] w = w"
| "sweep os s ((room, userIDs) # rest) w =
     (if userIDs = [] then sweep os s rest w
      else sweep os s rest (fst (SendHeartbeat os s (nw_now w + heartbeatRequestTimeout) room userIDs w)))"

section \<open>What every retrying client guarantees\<close>

text \<open>
  An outcome settles a call when it is a status below 500; it is a success below 400.  A client that
  sends \<open>mk n\<close> as its \<open>n\<close>-th request (when its URL is \<open>usable\<close>), returns on a settled outcome and continues on any other has
  the retry guarantees, whatever its messages and headers are.
\<close>

definition settled :: "goerror + nat \<Rightarrow> bool" where
  "settled out \<longleftrightarrow> (case out of Inl _ \<Rightarrow> False | Inr status \<Rightarrow> status < 500)"

definition success :: "goerror + nat \<Rightarrow> bool" where
  "success out \<longleftrightarrow> (case out of Inl _ \<Rightarrow> False | Inr status \<Rightarrow> status < 400)"

definition retried_well :: "(nat \<Rightarrow> 'b out_request) \<Rightarrow> (nat \<Rightarrow> goerror + nat) \<Rightarrow> nat \<Rightarrow> 'b net \<Rightarrow> 'b net \<times> unit result \<Rightarrow> nat \<Rightarrow> bool" where
  "retried_well mk out limit w res k \<longleftrightarrow>
     (let n = length (nw_sent w)
      in nw_sent (fst res) = nw_sent w @ map mk [n..<n + k] \<and> k \<le> limit \<and>
         (\<forall>i. n \<le> i \<and> Suc i < n + k \<longrightarrow> \<not> settled (out i)) \<and>
         (snd res = Inr () \<longleftrightarrow> 0 < k \<and> success (out (n + k - 1))))"

locale retry_client =
  fixes os :: "'b outside"
    and mk :: "nat \<Rightarrow> 'b out_request"
    and usable :: bool
    and body :: "'b net \<Rightarrow> 'b net \<times> attempt_end"
    and sleep :: "nat \<Rightarrow> 'b net \<Rightarrow> 'b net \<times> unit result"
  assumes sleep_sent: "nw_sent (fst (sleep a w)) = nw_sent w"
    and returns: "usable \<Longrightarrow> body w = (w1, Return r) \<Longrightarrow> nw_sent w1 = nw_sent w @ [mk (length (nw_sent w))] \<and>
      settled (snd (os_do os (length (nw_sent w)) (mk (length (nw_sent w))))) \<and>
      (r = Inr () \<longleftrightarrow> success (snd (os_do os (length (nw_sent w)) (mk (length (nw_sent w))))))"
    and continues: "usable \<Longrightarrow> body w = (w1, Continue e) \<Longrightarrow> nw_sent w1 = nw_sent w @ [mk (length (nw_sent w))] \<and>
      \<not> settled (snd (os_do os (length (nw_sent w)) (mk (length (nw_sent w)))))"
begin

abbreviation out :: "nat \<Rightarrow> goerror + nat" where
  "out n \<equiv> snd (os_do os n (mk n))"

lemma retried_wellI:
  assumes "nw_sent w' = nw_sent w @ map mk [length (nw_sent w)..<length (nw_sent w) + k]" "k \<le> limit"
    and "\<And>i. length (nw_sent w) \<le> i \<Longrightarrow> Suc i < length (nw_sent w) + k \<Longrightarrow> \<not> settled (out i)"
    and "r = Inr () \<longleftrightarrow> 0 < k \<and> success (out (length (nw_sent w) + k - 1))"
  shows "retried_well mk out limit w (w', r) k"
  using assms by (simp add: retried_well_def Let_def)

lemma success_settled: "success x \<Longrightarrow> settled x"
  by (auto simp: success_def settled_def split: sum.splits)

lemma retry_loop_well:
  assumes usable: usable and "attempt \<le> mx \<or> lst \<noteq> None"
  shows "\<exists>k. retried_well mk out (Suc mx - attempt) w (retry_loop body sleep mx attempt lst w) k \<and> (attempt = 0 \<longrightarrow> 0 < k)"
  using assms(2)
proof (induction "Suc mx - attempt" arbitrary: attempt lst w)
  case 0
  then have "retried_well mk out (Suc mx - attempt) w (retry_loop body sleep mx attempt lst w) 0" "attempt \<noteq> 0"
    by (auto simp: retry_loop.simps retried_well_def Let_def)
  then show ?case by blast
next
  case (Suc m)
  let ?n = "length (nw_sent w)"
  let ?res = "retry_loop body sleep mx attempt lst w"
  obtain w1 sr where sl: "(if 0 < attempt then sleep attempt w else (w, Inr ())) = (w1, sr)" by fastforce
  then have w1: "nw_sent w1 = nw_sent w" using sleep_sent [of attempt w] by (auto split: if_splits)
  have lt: "\<not> mx < attempt" using Suc.hyps(2) by simp
  consider (stopped) e where "sr = Inl e" | (returned) w2 r where "sr = Inr ()" "body w1 = (w2, Return r)"
    | (again) w2 e where "sr = Inr ()" "body w1 = (w2, Continue e)"
    by (cases sr; cases "body w1"; cases "snd (body w1)") auto
  then show ?case
  proof cases
    case stopped
    then have "?res = (w1, Inl e)" using sl lt by (simp add: retry_loop.simps [of body sleep mx attempt])
    then have "retried_well mk out (Suc mx - attempt) w ?res 0" using w1 by (auto simp: retried_well_def Let_def)
    moreover have "attempt \<noteq> 0" using sl stopped by (auto split: if_splits)
    ultimately show ?thesis by blast
  next
    case returned
    then have "?res = (w2, r)" using sl lt by (simp add: retry_loop.simps [of body sleep mx attempt])
    moreover have "retried_well mk out (Suc mx - attempt) w (w2, r) 1"
      using returns [OF usable returned(2)] w1 Suc.hyps(2) by (intro retried_wellI) simp_all
    ultimately show ?thesis by (metis zero_less_one)
  next
    case again
    then have res: "?res = retry_loop body sleep mx (Suc attempt) (Some e) w2"
      using sl lt by (simp add: retry_loop.simps [of body sleep mx attempt])
    have "m = Suc mx - Suc attempt" using Suc.hyps(2) by arith
    then obtain k where k: "retried_well mk out (Suc mx - Suc attempt) w2 ?res k"
      using Suc.hyps(1) [of "Suc attempt" "Some e" w2] unfolding res by blast
    have w2: "nw_sent w2 = nw_sent w @ [mk ?n]" "\<not> settled (out ?n)" using continues [OF usable again(2)] w1 by simp_all
    obtain w' r where wr: "?res = (w', r)" by fastforce
    have "retried_well mk out (Suc mx - attempt) w (w', r) (Suc k)"
    proof (rule retried_wellI)
      have "[?n..<?n + Suc k] = ?n # [Suc ?n..<Suc ?n + k]" by (simp add: upt_rec)
      then show "nw_sent w' = nw_sent w @ map mk [?n..<?n + Suc k]" using k wr w2 by (simp add: retried_well_def Let_def)
      have "k \<le> mx - attempt" using k by (simp add: retried_well_def Let_def)
      then show "Suc k \<le> Suc mx - attempt" using lt by simp
      show "\<not> settled (out i)" if "?n \<le> i" "Suc i < ?n + Suc k" for i
        using k that w2 by (cases "i = ?n") (auto simp: retried_well_def Let_def)
      show "r = Inr () \<longleftrightarrow> 0 < Suc k \<and> success (out (?n + Suc k - 1))"
        using k wr w2 success_settled [of "out ?n"] by (cases k) (auto simp: retried_well_def Let_def)
    qed
    then show ?thesis unfolding wr by (metis zero_less_Suc)
  qed
qed

end

lemma send_sent: "send os rq w = (w1, x) \<Longrightarrow> nw_sent w1 = nw_sent w @ [rq] \<and> x = snd (os_do os (length (nw_sent w)) rq)"
  by (auto simp: send_def split: prod.splits)

lemma sleepWithBackoff_sent: "nw_sent (fst (sleepWithBackoff os dl a w)) = nw_sent w"
  by (simp add: sleepWithBackoff_def Let_def)

lemma sleepWithBackoff_time:
  assumes "1 \<le> a" "sleepWithBackoff os dl a w = (w1, Inr ())"
  shows "2 ^ (a - 1) * 1000000000 \<le> nw_now w1 - nw_now w" "2 * (nw_now w1 - nw_now w) < 3 * (2 ^ (a - 1) * 1000000000)"
proof -
  define b :: int where "b = 2 ^ (a - 1) * 1000000000"
  define j where "j = int (os_rand os (length (nw_sent w))) mod (b div 2)"
  have "1 * 1000000000 \<le> b" unfolding b_def by (rule mult_right_mono) auto
  then have "0 < b div 2" by simp
  then have "0 \<le> j" "j < b div 2" unfolding j_def by (rule pos_mod_sign, rule pos_mod_bound)
  moreover have "2 * (b div 2) \<le> b" by simp
  moreover have "nw_now w1 = nw_now w + (b + j)"
    using assms(2) by (auto simp: sleepWithBackoff_def Let_def b_def j_def split: if_splits)
  ultimately have "b \<le> nw_now w1 - nw_now w \<and> 2 * (nw_now w1 - nw_now w) < 3 * b" by presburger
  then show "2 ^ (a - 1) * 1000000000 \<le> nw_now w1 - nw_now w" "2 * (nw_now w1 - nw_now w) < 3 * (2 ^ (a - 1) * 1000000000)"
    by (simp_all only: b_def)
qed

interpretation presence_post: retry_client os "\<lambda>n. presence_request s (generateRequestID (os_bytes os n)) path body"
    "os_url_ok os (pc_baseURL s @ path)" "post_attempt os s path body" "sleepWithBackoff os dl" for os s path body dl
  by unfold_locales
    (auto simp: sleepWithBackoff_sent post_attempt_def settled_def success_def dest!: send_sent split: prod.splits sum.splits if_splits)

interpretation message_post: retry_client os "\<lambda>n. message_request s (generateRequestID (os_bytes os n)) event"
    "os_url_ok os (nc_baseURL s @ ''/events/message'')" "message_attempt os s event" "sleepWithBackoff os dl" for os s event dl
  by unfold_locales
    (auto simp: sleepWithBackoff_sent message_attempt_def settled_def success_def dest!: send_sent split: prod.splits sum.splits if_splits)

lemma post_zero_retries:
  assumes "os_url_ok os (pc_baseURL s @ path)"
  shows "nw_sent (fst (post os s dl path body 0 w)) =
    nw_sent w @ [presence_request s (generateRequestID (os_bytes os (length (nw_sent w)))) path body]"
proof -
  obtain w1 x where "send os (presence_request s (generateRequestID (os_bytes os (length (nw_sent w)))) path body) w = (w1, x)" by fastforce
  with assms send_sent [OF this] show ?thesis
    by (auto simp: post_def retry_loop.simps post_attempt_def split: sum.split)
qed

lemma sweep_sent:
  assumes "os_url_ok os (pc_baseURL s @ ''/heartbeat'')"
  shows "\<exists>rqs. nw_sent (sweep os s snap w) = nw_sent w @ rqs \<and>
    map or_body rqs = map (\<lambda>(room, us). HeartbeatBody \<lparr>hr_Room = room, hr_InstanceID = pc_instanceID s, hr_UserIDs = us\<rparr>)
      (filter (\<lambda>(room, us). us \<noteq> []) snap)"
proof (induction snap arbitrary: w)
  case (Cons r snap)
  obtain room us where r: "r = (room, us)" by fastforce
  show ?case
  proof (cases "us = []")
    case False
    define w1 where "w1 = fst (SendHeartbeat os s (nw_now w + heartbeatRequestTimeout) room us w)"
    obtain rq where rq: "nw_sent w1 = nw_sent w @ [rq]"
      "or_body rq = HeartbeatBody \<lparr>hr_Room = room, hr_InstanceID = pc_instanceID s, hr_UserIDs = us\<rparr>"
      unfolding w1_def SendHeartbeat_def heartbeatMaxRetries_def post_zero_retries [OF assms] by (simp add: presence_request_def)
    obtain rqs where rqs: "nw_sent (sweep os s snap w1) = nw_sent w1 @ rqs"
      "map or_body rqs = map (\<lambda>(room, us). HeartbeatBody \<lparr>hr_Room = room, hr_InstanceID = pc_instanceID s, hr_UserIDs = us\<rparr>)
        (filter (\<lambda>(room, us). us \<noteq> []) snap)" using Cons.IH by blast
    have "sweep os s (r # snap) w = sweep os s snap w1" using False r by (simp add: w1_def)
    then show ?thesis using False r rq rqs by (intro exI [of _ "rq # rqs"]) simp
  qed (use Cons.IH r in simp)
qed simp

section \<open>Properties\<close>

definition event_request :: "presence_body outside \<Rightarrow> PresenceClient \<Rightarrow> PresenceEvent \<Rightarrow> nat \<Rightarrow> presence_body out_request" where
  "event_request os s ev n =
     presence_request s (generateRequestID (os_bytes os n)) ''/events'' (EventBody (ev\<lparr>pe_InstanceID := pc_instanceID s\<rparr>))"

definition notify_request :: "MessageEvent outside \<Rightarrow> NotificationClient \<Rightarrow> MessageEvent \<Rightarrow> nat \<Rightarrow> MessageEvent out_request" where
  "notify_request os s event n = message_request s (generateRequestID (os_bytes os n)) event"

lemma SendEvent_well:
  assumes "os_url_ok os (pc_baseURL s @ ''/events'')"
  shows "\<exists>k>0. retried_well (event_request os s ev) (\<lambda>n. snd (os_do os n (event_request os s ev n))) 4 w (SendEvent os s dl ev w) k"
  using presence_post.retry_loop_well [OF assms, of 0 3 None]
  by (simp add: conj_commute SendEvent_def post_def presenceMaxRetries_def event_request_def [abs_def])

lemma SendMessageEvent_well:
  assumes "os_url_ok os (nc_baseURL c @ ''/events/message'')"
  shows "\<exists>k>0. retried_well (notify_request os c me) (\<lambda>n. snd (os_do os n (notify_request os c me n))) 4 w (SendMessageEvent os c dl me w) k"
  using message_post.retry_loop_well [OF assms, of 0 3 None]
  by (simp add: conj_commute SendMessageEvent_def notificationMaxRetries_def notify_request_def [abs_def])

text \<open>
  The retry policy of both clients.  Sending an event makes between one and four requests, all with the
  service key and the same body (a presence event carries this instance's id); every request but the last
  ended in a transport failure or a 5xx, so a 4xx is never sent again; and the call succeeds exactly when the
  last request was answered below 400.
\<close>

theorem outbound_retry_policy:
  assumes "os_url_ok os (pc_baseURL s @ ''/events'')" "os_url_ok os' (nc_baseURL c @ ''/events/message'')"
  shows "(\<exists>k>0. retried_well (event_request os s ev) (\<lambda>n. snd (os_do os n (event_request os s ev n))) 4 w (SendEvent os s dl ev w) k) \<and>
    (\<exists>k>0. retried_well (notify_request os' c me) (\<lambda>n. snd (os_do os' n (notify_request os' c me n))) 4 w' (SendMessageEvent os' c dl me w') k)"
  using SendEvent_well [OF assms(1)] SendMessageEvent_well [OF assms(2)] by blast

definition flaky :: "'b outside" where
  "flaky = \<lparr>os_do = (\<lambda>n rq. (0, if n = 0 then Inr 503 else Inr 202)), os_rand = (\<lambda>_. 0), os_bytes = (\<lambda>_. ''b''), os_url_ok = (\<lambda>_. True)\<rparr>"

definition flaky_client :: PresenceClient where
  "flaky_client = \<lparr>pc_baseURL = ''http://p'', pc_apiKey = ''k'', pc_instanceID = ''chat-1''\<rparr>"

definition flaky_event :: PresenceEvent where
  "flaky_event = \<lparr>pe_UserID = 7, pe_Room = ''r'', pe_Status = ''online'', pe_InstanceID = []\<rparr>"

theorem outbound_retry_policy_witness:
  "\<exists>k>0. retried_well (event_request flaky flaky_client flaky_event) (\<lambda>n. if n = 0 then Inr 503 else Inr 202) 4 \<lparr>nw_now = 0, nw_sent = []\<rparr>
     (SendEvent flaky flaky_client 30000000000 flaky_event \<lparr>nw_now = 0, nw_sent = []\<rparr>) k"
proof -
  have url: "os_url_ok flaky u" for u by (simp add: flaky_def)
  have "(\<lambda>n. snd (os_do flaky n (rq n))) = (\<lambda>n. if n = 0 then Inr 503 else Inr 202)" for rq :: "nat \<Rightarrow> presence_body out_request"
    by (auto simp: flaky_def)
  with outbound_retry_policy [where os = flaky and os' = flaky and s = flaky_client and ev = flaky_event and dl = 30000000000
      and w = "\<lparr>nw_now = 0, nw_sent = []\<rparr>", OF url url]
  show ?thesis by simp
qed

end
