(* ===== verification/Fanout.thy ===== *)
theory Fanout
  imports Webhooks Outbound
begin

text \<open>
  Fan-out and delivery of notification-service: \<^verbatim>\<open>service/presence_client.go\<close>, \<^verbatim>\<open>service/fanout_service.go\<close>,
  \<^verbatim>\<open>service/deliverer.go\<close>, \<^verbatim>\<open>repository/delivery_repository.go\<close> and \<^verbatim>\<open>controller/delivery_controller.go\<close>.  The queries
  of one fan-out are numbered, so that each can find the database up or down; the network of a delivery is the one of
  theory \<^theory_text>\<open>Outbound\<close>; the encoding of a payload and the HMAC are parameters.
\<close>

section \<open>notification.go and delivery\_repository.go\<close>

datatype DeliveryStatus = Pending | Delivered | DeliveryFailed

record Delivery =
  dl_ID :: int
  dl_EventID :: string
  dl_UserID :: int
  dl_Room :: string
  dl_URL :: string
  dl_Status :: DeliveryStatus
  dl_Attempts :: nat
  dl_LastStatus :: "nat option"
  dl_LastError :: "string option"
  dl_CreatedAt :: int
  dl_UpdatedAt :: int

record deliveries =
  dt_rows :: "Delivery list"
  dt_next :: int

definition same_delivery :: "ndb \<Rightarrow> string \<Rightarrow> int \<Rightarrow> Delivery \<Rightarrow> bool" where
  "same_delivery db eventID userID r \<longleftrightarrow> nd_coll db (dl_EventID r) = nd_coll db eventID \<and> dl_UserID r = userID"

text \<open>The unique key \<^verbatim>\<open>(event_id, user_id)\<close> turns a second insert into \<^verbatim>\<open>ErrDuplicate\<close>.\<close>

definition Delivery_Create :: "ndb \<Rightarrow> Delivery \<Rightarrow> deliveries \<Rightarrow> deliveries \<times> (nerror + Delivery)" where
  "Delivery_Create db delivery t =
     (if nd_down db then (t, Inl db_error)
      else if \<exists>r \<in> set (dt_rows t). same_delivery db (dl_EventID delivery) (dl_UserID delivery) r then (t, Inl Duplicate)
      else
        (t\<lparr>dt_rows := dt_rows t @ [delivery\<lparr>dl_ID := dt_next t, dl_Status := Pending, dl_Attempts := 0, dl_LastStatus := None,
              dl_LastError := None, dl_CreatedAt := nd_now db, dl_UpdatedAt := nd_now db\<rparr>], dt_next := dt_next t + 1\<rparr>,
         Inr (delivery\<lparr>dl_ID := dt_next t\<rparr>)))"

definition RecordAttempt :: "ndb \<Rightarrow> int \<Rightarrow> DeliveryStatus \<Rightarrow> nat \<Rightarrow> nat option \<Rightarrow> string option \<Rightarrow> deliveries \<Rightarrow> deliveries \<times> (nerror + unit)" where
  "RecordAttempt db i status attempts lastStatus lastError t =
     (if nd_down db then (t, Inl db_error)
      else
        (t\<lparr>dt_rows := map (\<lambda>r. if dl_ID r = i
           then r\<lparr>dl_Status := status, dl_Attempts := attempts, dl_LastStatus := lastStatus, dl_LastError := lastError, dl_UpdatedAt := nd_now db\<rparr>
           else r) (dt_rows t)\<rparr>, Inr ()))"

definition Delivery_ListByUserID :: "ndb \<Rightarrow> int \<Rightarrow> nat \<Rightarrow> deliveries \<Rightarrow> nerror + Delivery list" where
  "Delivery_ListByUserID db userID limit t =
     (if nd_down db then Inl db_error
      else Inr (take limit (rev (sort_key dl_CreatedAt (sort_key dl_ID (filter (\<lambda>r. dl_UserID r = userID) (dt_rows t)))))))"

section \<open>delivery\_controller.go\<close>

definition DeliveryController_List :: "ndb \<Rightarrow> echo_context \<Rightarrow> deliveries \<Rightarrow> Delivery list response" where
  "DeliveryController_List db cx t =
     (case userIDFrom cx of
        None \<Rightarrow> unauthorized cx
      | Some userID \<Rightarrow>
          (let raw = Values_Get (req_query (cx_req cx)) ''limit'';
               limit = (if raw = '''' then Some 20
                        else (case ParseInt raw of None \<Rightarrow> None | Some parsed \<Rightarrow> if parsed \<le> 0 then None else Some (min parsed 100)))
           in case limit of
                None \<Rightarrow> reply cx 400 (JSON_error ''invalid limit parameter'')
              | Some n \<Rightarrow>
                  (case Delivery_ListByUserID db userID (nat n) t of
                     Inl e \<Rightarrow> notify_respondError cx e ''failed to list deliveries''
                   | Inr ds \<Rightarrow> reply cx 200 (JSON ds))))"

section \<open>presence\_client.go\<close>

text \<open>
  \<open>get\<close> performs the request: a transport error, or the status with the users decoded from the body (\<open>None\<close>
  when the body does not decode).
\<close>

definition OnlineUsers ::
  "(string \<Rightarrow> bool) \<Rightarrow> (unit out_request \<Rightarrow> goerror + nat \<times> int list option) \<Rightarrow> string \<Rightarrow> string \<Rightarrow> string \<Rightarrow> string \<Rightarrow> int list result" where
  "OnlineUsers url_ok get baseURL apiKey rnd room =
     (if \<not> url_ok (baseURL @ ''/internal/presence/'' @ room) then Inl (External ''malformed url'')
      else
        (case get \<lparr>or_url = baseURL @ ''/internal/presence/'' @ room,
                   or_header = Header_Set (Header_Set no_headers ''X-Presence-Key'' apiKey) ''X-Request-ID'' (generateRequestID rnd),
                   or_body = ()\<rparr> of
           Inl e \<Rightarrow> Inl e
         | Inr (status, users) \<Rightarrow>
             if status \<noteq> 200 then Inl (Errorf (''presence-service answered status='' @ FormatInt (int status)))
             else (case users of None \<Rightarrow> Inl (External ''decode'') | Some us \<Rightarrow> Inr us)))"

section \<open>fanout\_service.go\<close>

record Recipient =
  rc_Webhook :: Webhook
  rc_Delivery :: Delivery

record notify_store =
  ns_webhooks :: "Webhook list"
  ns_subs :: "Subscription list"
  ns_deliveries :: deliveries

definition ValidateEvent :: "MessageEvent \<Rightarrow> unit result" where
  "ValidateEvent event =
     bind_result (notification_validateRoom (me_Room event)) (\<lambda>_.
       if me_UserID event \<le> 0 then Inl (Validation ''user_id must be positive'')
       else if me_EventID event = '''' \<or> length (me_EventID event) > 32
       then Inl (Validation ''event_id is required and at most 32 characters'')
       else if me_Content event = '''' then Inl (Validation ''content is required'')
       else Inr ())"

definition new_delivery :: "MessageEvent \<Rightarrow> Webhook \<Rightarrow> Delivery" where
  "new_delivery event webhook =
     \<lparr>dl_ID = 0, dl_EventID = me_EventID event, dl_UserID = wh_UserID webhook, dl_Room = me_Room event, dl_URL = wh_URL webhook,
      dl_Status = Pending, dl_Attempts = 0, dl_LastStatus = None, dl_LastError = None, dl_CreatedAt = 0, dl_UpdatedAt = 0\<rparr>"

fun record_loop :: "(nat \<Rightarrow> ndb) \<Rightarrow> nat \<Rightarrow> MessageEvent \<Rightarrow> Webhook list \<Rightarrow> Recipient list \<Rightarrow> deliveries \<Rightarrow> deliveries \<times> (nerror + Recipient list)" where
  "record_loop dbs i event [] recipients t = (t, Inr recipients)"
| "record_loop dbs i event (webhook # webhooks) recipients t =
     (case Delivery_Create (dbs i) (new_delivery event webhook) t of
        (t1, Inl Duplicate) \<Rightarrow> record_loop dbs (Suc i) event webhooks recipients t1
      | (t1, Inl e) \<Rightarrow> (t1, Inl e)
      | (t1, Inr delivery) \<Rightarrow>
          record_loop dbs (Suc i) event webhooks (recipients @ [\<lparr>rc_Webhook = webhook, rc_Delivery = delivery\<rparr>]) t1)"

definition fanout_candidates :: "int list result \<Rightarrow> MessageEvent \<Rightarrow> int list \<Rightarrow> int list" where
  "fanout_candidates presence event subscribers =
     (let online = (case presence of Inl e \<Rightarrow> [] | Inr us \<Rightarrow> us)
      in filter (\<lambda>u. \<not> (u = me_UserID event \<or> u \<in> set online)) subscribers)"

definition Recipients :: "(nat \<Rightarrow> ndb) \<Rightarrow> int list result \<Rightarrow> MessageEvent \<Rightarrow> notify_store \<Rightarrow> notify_store \<times> (nerror + Recipient list)" where
  "Recipients dbs presence event st =
     (case ListUserIDsByRoom (dbs 0) (me_Room event) (ns_subs st) of
        Inl e \<Rightarrow> (st, Inl e)
      | Inr subscribers \<Rightarrow>
          (case ListByUserIDs (dbs 1) (fanout_candidates presence event subscribers) (ns_webhooks st) of
             Inl e \<Rightarrow> (st, Inl e)
           | Inr webhooks \<Rightarrow>
               (case record_loop dbs 2 event webhooks [] (ns_deliveries st) of
                  (t, r) \<Rightarrow> (st\<lparr>ns_deliveries := t\<rparr>, r))))"

section \<open>deliverer.go\<close>

definition deliveryMaxRetries :: nat where
  "deliveryMaxRetries = 3"

record WebhookPayload =
  wp_Event :: string
  wp_EventID :: string
  wp_Recipient :: int
  wp_Data :: MessageEvent

definition error_text :: "goerror \<Rightarrow> string" where
  "error_text e = (case e of Errorf m \<Rightarrow> m | Validation m \<Rightarrow> ''validation: '' @ m | External m \<Rightarrow> m)"

definition delivery_request :: "(string \<Rightarrow> string \<Rightarrow> string) \<Rightarrow> Webhook \<Rightarrow> int \<Rightarrow> string \<Rightarrow> string out_request" where
  "delivery_request hmac webhook timestamp body =
     \<lparr>or_url = wh_URL webhook,
      or_header = Header_Set (Header_Set (Header_Set (Header_Set no_headers ''Content-Type'' ''application/json'')
        ''User-Agent'' ''realtime-chat-notification/1.0'') ''X-Timestamp'' (FormatInt timestamp))
        ''X-Signature'' (Sign hmac (wh_Secret webhook) timestamp body),
      or_body = body\<rparr>"

text \<open>An attempt after the context's deadline \<open>dl\<close> (or its cancellation, a deadline that is now) fails without a request.\<close>

definition delivery_attempt :: "string outside \<Rightarrow> (string \<Rightarrow> string \<Rightarrow> string) \<Rightarrow> int \<Rightarrow> Webhook \<Rightarrow> string \<Rightarrow> string net \<Rightarrow> string net \<times> (goerror + nat)" where
  "delivery_attempt os hmac dl webhook body w =
     (if \<not> os_url_ok os (wh_URL webhook) then (w, Inl (External ''malformed url''))
      else if dl \<le> nw_now w then (w, Inl (External ''context deadline exceeded''))
      else send os (delivery_request hmac webhook (nw_now w div 1000000000) body) w)"

definition record_row :: "ndb \<Rightarrow> int \<Rightarrow> DeliveryStatus \<Rightarrow> nat \<Rightarrow> nat option \<Rightarrow> string \<Rightarrow> deliveries \<Rightarrow> deliveries" where
  "record_row db i status attempts lastStatus lastErr t =
     (let errPtr = (if lastErr = '''' then None else Some (take 512 lastErr))
      in fst (RecordAttempt db i status attempts lastStatus errPtr t))"

datatype deliver_end = Answered | GaveUp nat "nat option" string

function deliver_loop ::
  "string outside \<Rightarrow> (string \<Rightarrow> string \<Rightarrow> string) \<Rightarrow> int \<Rightarrow> (nat \<Rightarrow> string net \<Rightarrow> string net \<times> unit result) \<Rightarrow> (nat \<Rightarrow> ndb) \<Rightarrow> Webhook \<Rightarrow> int \<Rightarrow> string \<Rightarrow>
    nat \<Rightarrow> nat \<Rightarrow> nat option \<Rightarrow> string \<Rightarrow> string net \<Rightarrow> deliveries \<Rightarrow> string net \<times> deliveries \<times> deliver_end" where
  "deliver_loop os hmac dl sleep dbs webhook i body attempt attempts lastStatus lastErr w t =
     (if deliveryMaxRetries < attempt then (w, t, GaveUp attempts lastStatus lastErr)
      else
        (case (if 0 < attempt then sleep attempt w else (w, Inr ())) of
           (w1, Inl e) \<Rightarrow> (w1, t, GaveUp attempts lastStatus ''shutdown before retry'')
         | (w1, Inr _) \<Rightarrow>
             (case delivery_attempt os hmac dl webhook body w1 of
                (w2, Inl e) \<Rightarrow>
                  deliver_loop os hmac dl sleep dbs webhook i body (Suc attempt) (Suc attempts) None (error_text e) w2
                    (record_row (dbs attempt) i Pending (Suc attempts) None (error_text e) t)
              | (w2, Inr status) \<Rightarrow>
                  if 200 \<le> status \<and> status < 300
                  then (w2, record_row (dbs attempt) i Delivered (Suc attempts) (Some status) '''' t, Answered)
                  else
                    (let err = ''receiver answered status='' @ FormatInt (int status)
                     in if status < 500 then (w2, t, GaveUp (Suc attempts) (Some status) err)
                        else deliver_loop os hmac dl sleep dbs webhook i body (Suc attempt) (Suc attempts) (Some status) err w2
                               (record_row (dbs attempt) i Pending (Suc attempts) (Some status) err t)))))"
  by pat_completeness auto
termination by (relation "measure (\<lambda>(os, hmac, dl, sleep, dbs, wh, i, body, attempt, rest). Suc deliveryMaxRetries - attempt)") auto

declare deliver_loop.simps [simp del]

definition Deliver ::
  "(WebhookPayload \<Rightarrow> goerror + string) \<Rightarrow> string outside \<Rightarrow> (string \<Rightarrow> string \<Rightarrow> string) \<Rightarrow> (nat \<Rightarrow> ndb) \<Rightarrow> int \<Rightarrow> Recipient \<Rightarrow> MessageEvent \<Rightarrow>
    string net \<Rightarrow> deliveries \<Rightarrow> string net \<times> deliveries" where
  "Deliver marshal os hmac dbs dl recipient event w t =
     (let i = dl_ID (rc_Delivery recipient);
          payload = \<lparr>wp_Event = ''message.created'', wp_EventID = me_EventID event,
            wp_Recipient = wh_UserID (rc_Webhook recipient), wp_Data = event\<rparr>
      in case marshal payload of
           Inl e \<Rightarrow> (w, record_row (dbs 0) i DeliveryFailed 0 None (''encoding payload: '' @ error_text e) t)
         | Inr body \<Rightarrow>
             (case deliver_loop os hmac dl (sleepWithBackoff os dl) dbs (rc_Webhook recipient) i body 0 0 None '''' w t of
                (w1, t1, Answered) \<Rightarrow> (w1, t1)
              | (w1, t1, GaveUp attempts lastStatus lastErr) \<Rightarrow>
                  (w1, record_row (dbs (Suc deliveryMaxRetries)) i DeliveryFailed attempts lastStatus lastErr t1)))"

section \<open>Who is notified\<close>

definition had :: "(string \<Rightarrow> string) \<Rightarrow> string \<Rightarrow> deliveries \<Rightarrow> int \<Rightarrow> bool" where
  "had coll eventID t u \<longleftrightarrow> (\<exists>r \<in> set (dt_rows t). coll (dl_EventID r) = coll eventID \<and> dl_UserID r = u)"

definition row_key :: "Delivery \<Rightarrow> string \<times> int \<times> string \<times> string \<times> DeliveryStatus \<times> nat" where
  "row_key r = (dl_EventID r, dl_UserID r, dl_Room r, dl_URL r, dl_Status r, dl_Attempts r)"

definition all_up :: "(string \<Rightarrow> string) \<Rightarrow> (nat \<Rightarrow> ndb) \<Rightarrow> bool" where
  "all_up coll dbs \<longleftrightarrow> (\<forall>i. \<not> nd_down (dbs i) \<and> nd_coll (dbs i) = coll)"

lemma Delivery_Create_up:
  assumes "all_up coll dbs"
  shows "Delivery_Create (dbs i) (new_delivery event w) t =
    (if had coll (me_EventID event) t (wh_UserID w) then (t, Inl Duplicate)
     else (t\<lparr>dt_rows := dt_rows t @ [(new_delivery event w)\<lparr>dl_ID := dt_next t, dl_CreatedAt := nd_now (dbs i), dl_UpdatedAt := nd_now (dbs i)\<rparr>],
             dt_next := dt_next t + 1\<rparr>, Inr ((new_delivery event w)\<lparr>dl_ID := dt_next t\<rparr>)))"
  using assms by (simp add: Delivery_Create_def all_up_def had_def same_delivery_def new_delivery_def)

lemma record_loop_up:
  assumes "all_up coll dbs" "distinct (map wh_UserID webhooks)"
  shows "\<exists>t' rs new. record_loop dbs i event webhooks acc t = (t', Inr (acc @ rs)) \<and>
    map rc_Webhook rs = filter (\<lambda>w. \<not> had coll (me_EventID event) t (wh_UserID w)) webhooks \<and>
    dt_rows t' = dt_rows t @ new \<and> map dl_ID new = map (dl_ID \<circ> rc_Delivery) rs \<and>
    map row_key new = map (\<lambda>r. (me_EventID event, wh_UserID (rc_Webhook r), me_Room event, wh_URL (rc_Webhook r), Pending, 0)) rs"
  using assms(2)
proof (induction webhooks arbitrary: i acc t)
  case (Cons w webhooks)
  show ?case
  proof (cases "had coll (me_EventID event) t (wh_UserID w)")
    case True
    then have "record_loop dbs i event (w # webhooks) acc t = record_loop dbs (Suc i) event webhooks acc t"
      by (simp add: Delivery_Create_up [OF assms(1)])
    then show ?thesis using Cons True by auto
  next
    case False
    define row where "row = (new_delivery event w)\<lparr>dl_ID := dt_next t, dl_CreatedAt := nd_now (dbs i), dl_UpdatedAt := nd_now (dbs i)\<rparr>"
    define t1 where "t1 = t\<lparr>dt_rows := dt_rows t @ [row], dt_next := dt_next t + 1\<rparr>"
    define rc where "rc = \<lparr>rc_Webhook = w, rc_Delivery = (new_delivery event w)\<lparr>dl_ID := dt_next t\<rparr>\<rparr>"
    have step: "record_loop dbs i event (w # webhooks) acc t = record_loop dbs (Suc i) event webhooks (acc @ [rc]) t1"
      using False by (simp add: Delivery_Create_up [OF assms(1)] t1_def rc_def row_def)
    have rowf: "dl_EventID row = me_EventID event" "dl_UserID row = wh_UserID w" by (simp_all add: row_def new_delivery_def)
    have same: "filter (\<lambda>x. \<not> had coll (me_EventID event) t1 (wh_UserID x)) webhooks = filter (\<lambda>x. \<not> had coll (me_EventID event) t (wh_UserID x)) webhooks"
      using Cons.prems rowf by (intro filter_cong) (auto simp: had_def t1_def)
    obtain t' rs new where IH: "record_loop dbs (Suc i) event webhooks (acc @ [rc]) t1 = (t', Inr ((acc @ [rc]) @ rs))"
      "map rc_Webhook rs = filter (\<lambda>x. \<not> had coll (me_EventID event) t1 (wh_UserID x)) webhooks"
      "dt_rows t' = dt_rows t1 @ new" "map dl_ID new = map (dl_ID \<circ> rc_Delivery) rs"
      "map row_key new = map (\<lambda>r. (me_EventID event, wh_UserID (rc_Webhook r), me_Room event, wh_URL (rc_Webhook r), Pending, 0)) rs"
      using Cons.IH [of "Suc i" "acc @ [rc]" t1] Cons.prems by auto
    have "map dl_ID (row # new) = map (dl_ID \<circ> rc_Delivery) (rc # rs)" "dt_rows t' = dt_rows t @ row # new"
      using IH by (simp_all add: row_def rc_def t1_def)
    moreover have "map row_key (row # new) = map (\<lambda>r. (me_EventID event, wh_UserID (rc_Webhook r), me_Room event, wh_URL (rc_Webhook r), Pending, 0)) (rc # rs)"
      using IH by (simp add: row_key_def row_def rc_def new_delivery_def)
    moreover have "map rc_Webhook (rc # rs) = filter (\<lambda>x. \<not> had coll (me_EventID event) t (wh_UserID x)) (w # webhooks)"
      using IH(2) False same by (simp add: rc_def)
    ultimately show ?thesis using IH(1) step by (intro exI [of _ t'] exI [of _ "rc # rs"] exI [of _ "row # new"]) simp
  qed
qed simp

definition offline_for :: "int list result \<Rightarrow> int \<Rightarrow> bool" where
  "offline_for presence u \<longleftrightarrow> (case presence of Inl _ \<Rightarrow> True | Inr us \<Rightarrow> u \<notin> set us)"

definition wanted :: "(string \<Rightarrow> string) \<Rightarrow> int list result \<Rightarrow> MessageEvent \<Rightarrow> notify_store \<Rightarrow> Webhook \<Rightarrow> bool" where
  "wanted coll presence event st w \<longleftrightarrow>
     (\<exists>s \<in> set (ns_subs st). sb_UserID s = wh_UserID w \<and> coll (sb_Room s) = coll (me_Room event)) \<and>
     wh_UserID w \<noteq> me_UserID event \<and> offline_for presence (wh_UserID w) \<and> \<not> had coll (me_EventID event) (ns_deliveries st) (wh_UserID w)"

lemma Recipients_up:
  assumes up: "all_up coll dbs" and d: "distinct (map wh_UserID (ns_webhooks st))"
  obtains t rs new where "Recipients dbs presence event st = (st\<lparr>ns_deliveries := t\<rparr>, Inr rs)"
    "map rc_Webhook rs = filter (wanted coll presence event st) (ns_webhooks st)"
    "dt_rows t = dt_rows (ns_deliveries st) @ new" "map dl_ID new = map (dl_ID \<circ> rc_Delivery) rs"
    "map row_key new = map (\<lambda>r. (me_EventID event, wh_UserID (rc_Webhook r), me_Room event, wh_URL (rc_Webhook r), Pending, 0)) rs"
proof -
  define subs where "subs = map sb_UserID (filter (\<lambda>s. coll (sb_Room s) = coll (me_Room event)) (ns_subs st))"
  define cand where "cand = fanout_candidates presence event subs"
  define hooks where "hooks = filter (\<lambda>w. wh_UserID w \<in> set cand) (ns_webhooks st)"
  have 1: "ListUserIDsByRoom (dbs 0) (me_Room event) (ns_subs st) = Inr subs"
    using up by (simp add: ListUserIDsByRoom_def all_up_def subs_def)
  have 2: "ListByUserIDs (dbs 1) cand (ns_webhooks st) = Inr hooks"
    using up by (simp add: ListByUserIDs_def all_up_def hooks_def)
  have "distinct (map wh_UserID hooks)" unfolding hooks_def by (rule distinct_map_filterI) (rule d)
  then obtain t rs new where L: "record_loop dbs 2 event hooks [] (ns_deliveries st) = (t, Inr rs)"
    "map rc_Webhook rs = filter (\<lambda>w. \<not> had coll (me_EventID event) (ns_deliveries st) (wh_UserID w)) hooks"
    "dt_rows t = dt_rows (ns_deliveries st) @ new" "map dl_ID new = map (dl_ID \<circ> rc_Delivery) rs"
    "map row_key new = map (\<lambda>r. (me_EventID event, wh_UserID (rc_Webhook r), me_Room event, wh_URL (rc_Webhook r), Pending, 0)) rs"
    using record_loop_up [OF up, of hooks 2 event "[]" "ns_deliveries st"] by auto
  have "filter (\<lambda>w. \<not> had coll (me_EventID event) (ns_deliveries st) (wh_UserID w)) hooks = filter (wanted coll presence event st) (ns_webhooks st)"
    unfolding hooks_def filter_filter
    by (rule filter_cong) (auto simp: wanted_def cand_def fanout_candidates_def subs_def offline_for_def Let_def image_iff eq_commute split: sum.split)
  with L 1 2 show thesis by (intro that [of t rs new]) (simp_all add: Recipients_def cand_def)
qed

text \<open>
  C21: who gets a webhook call.  With the database up, the recipients of an event are exactly the
  registered webhooks of users who subscribed to the room, are not the sender, are not reported online by
  presence-service (everybody counts as offline when it cannot be asked) and have no delivery row for this event
  yet; each once, and each with a new pending row of its own, numbered like the recipient's; nothing else in
  the store changes.
\<close>

theorem fanout_recipients:
  assumes "all_up coll dbs" "distinct (map wh_UserID (ns_webhooks st))" "Recipients dbs presence event st = (st', r)"
  shows "\<exists>rs new. r = Inr rs \<and> map rc_Webhook rs = filter (wanted coll presence event st) (ns_webhooks st) \<and>
    ns_webhooks st' = ns_webhooks st \<and> ns_subs st' = ns_subs st \<and>
    dt_rows (ns_deliveries st') = dt_rows (ns_deliveries st) @ new \<and> map dl_ID new = map (dl_ID \<circ> rc_Delivery) rs \<and>
    map row_key new = map (\<lambda>r. (me_EventID event, wh_UserID (rc_Webhook r), me_Room event, wh_URL (rc_Webhook r), Pending, 0)) rs"
  by (rule Recipients_up [OF assms(1,2), of presence event]) (use assms(3) in auto)

definition ex_hook :: "int \<Rightarrow> Webhook" where
  "ex_hook u = \<lparr>wh_UserID = u, wh_URL = ''https://h/'', wh_Secret = ''s'', wh_CreatedAt = 1, wh_UpdatedAt = 1\<rparr>"

definition ex_store :: notify_store where
  "ex_store = \<lparr>ns_webhooks = [ex_hook 7, ex_hook 8, ex_hook 9],
     ns_subs = [\<lparr>sb_UserID = 7, sb_Room = ''r'', sb_CreatedAt = 1\<rparr>, \<lparr>sb_UserID = 8, sb_Room = ''r'', sb_CreatedAt = 1\<rparr>,
       \<lparr>sb_UserID = 9, sb_Room = ''r'', sb_CreatedAt = 1\<rparr>],
     ns_deliveries = \<lparr>dt_rows = [], dt_next = 1\<rparr>\<rparr>"

definition ex_message :: MessageEvent where
  "ex_message = \<lparr>me_EventID = ''e1'', me_Room = ''r'', me_UserID = 7, me_Content = ''hi'', me_CreatedAt = 5\<rparr>"

lemma ex_up: "all_up (\<lambda>s. s) (\<lambda>_. ex_ndb)"
  by (simp add: all_up_def ex_ndb_def)

lemma ex_wanted: "filter (wanted (\<lambda>s. s) (Inr [8]) ex_message ex_store) (ns_webhooks ex_store) = [ex_hook 9]"
  by (simp add: ex_store_def ex_hook_def wanted_def ex_message_def offline_for_def had_def)

theorem fanout_recipients_witness:
  "\<exists>st' rs. Recipients (\<lambda>_. ex_ndb) (Inr [8]) ex_message ex_store = (st', Inr rs) \<and> map rc_Webhook rs = [ex_hook 9]"
proof -
  obtain st' r where r: "Recipients (\<lambda>_. ex_ndb) (Inr [8]) ex_message ex_store = (st', r)" by fastforce
  have "distinct (map wh_UserID (ns_webhooks ex_store))" by (simp add: ex_store_def ex_hook_def)
  from fanout_recipients [OF ex_up this r] r show ?thesis by (auto simp: ex_wanted)
qed

text \<open>
  Nobody is notified twice of one event.  After a fan-out, a replay of the event, at any later time at
  which the rows recorded are still in the table and whatever presence, subscriptions and webhooks have become,
  has none of the first recipients among its own.
\<close>

theorem no_second_delivery:
  assumes "all_up coll dbs" "distinct (map wh_UserID (ns_webhooks st))" "Recipients dbs presence event st = (st1, Inr rs1)"
    and "all_up coll dbs'" "distinct (map wh_UserID (ns_webhooks st2))" "Recipients dbs' presence' event st2 = (st3, Inr rs2)"
    and "\<forall>r \<in> set (dt_rows (ns_deliveries st1)). \<exists>r' \<in> set (dt_rows (ns_deliveries st2)). dl_EventID r' = dl_EventID r \<and> dl_UserID r' = dl_UserID r"
  shows "(\<lambda>r. wh_UserID (rc_Webhook r)) ` set rs1 \<inter> (\<lambda>r. wh_UserID (rc_Webhook r)) ` set rs2 = {}"
proof -
  obtain t rs new where R0: "Recipients dbs presence event st = (st\<lparr>ns_deliveries := t\<rparr>, Inr rs)"
    "map rc_Webhook rs = filter (wanted coll presence event st) (ns_webhooks st)"
    "dt_rows t = dt_rows (ns_deliveries st) @ new" "map dl_ID new = map (dl_ID \<circ> rc_Delivery) rs"
    "map row_key new = map (\<lambda>r. (me_EventID event, wh_UserID (rc_Webhook r), me_Room event, wh_URL (rc_Webhook r), Pending, 0)) rs"
    by (rule Recipients_up [OF assms(1,2), of presence event])
  note R1 = R0(1,3,5)
  have rs: "rs = rs1" "st1 = st\<lparr>ns_deliveries := t\<rparr>" using R1(1) assms(3) by auto
  have R2: "map rc_Webhook rs2 = filter (wanted coll presence' event st2) (ns_webhooks st2)"
    by (rule Recipients_up [OF assms(4,5), of presence' event]) (use assms(6) in auto)
  have "had coll (me_EventID event) (ns_deliveries st2) (wh_UserID (rc_Webhook x))" if "x \<in> set rs1" for x
  proof -
    have "row_key ` set new = (\<lambda>r. (me_EventID event, wh_UserID (rc_Webhook r), me_Room event, wh_URL (rc_Webhook r), Pending, 0)) ` set rs"
      using arg_cong [OF R1(3), of set] by simp
    moreover have "(me_EventID event, wh_UserID (rc_Webhook x), me_Room event, wh_URL (rc_Webhook x), Pending, 0) \<in>
        (\<lambda>r. (me_EventID event, wh_UserID (rc_Webhook r), me_Room event, wh_URL (rc_Webhook r), Pending, 0)) ` set rs"
      using that rs(1) by (intro image_eqI [of _ _ x]) simp_all
    ultimately have "(me_EventID event, wh_UserID (rc_Webhook x), me_Room event, wh_URL (rc_Webhook x), Pending, 0) \<in> row_key ` set new" by simp
    then obtain r where k: "r \<in> set new" "(me_EventID event, wh_UserID (rc_Webhook x), me_Room event, wh_URL (rc_Webhook x), Pending, 0) = row_key r"
      by (rule imageE)
    have "dl_EventID r = me_EventID event" "dl_UserID r = wh_UserID (rc_Webhook x)" using k(2) unfolding row_key_def by simp_all
    with k(1) have "r \<in> set new" "dl_EventID r = me_EventID event" "dl_UserID r = wh_UserID (rc_Webhook x)" by simp_all
    then obtain r' where "r' \<in> set (dt_rows (ns_deliveries st2))" "dl_EventID r' = me_EventID event" "dl_UserID r' = wh_UserID (rc_Webhook x)"
      using assms(7) [rule_format, of r] R1(2) rs(2) by auto
    then show ?thesis unfolding had_def by force
  qed
  moreover have "\<not> had coll (me_EventID event) (ns_deliveries st2) (wh_UserID (rc_Webhook y))" if "y \<in> set rs2" for y
  proof -
    have "rc_Webhook y \<in> set (map rc_Webhook rs2)" using that by simp
    then show ?thesis unfolding R2 by (simp add: wanted_def)
  qed
  ultimately show ?thesis by fastforce
qed

theorem no_second_delivery_witness:
  "\<exists>st1 rs1 st2 rs2. Recipients (\<lambda>_. ex_ndb) (Inr [8]) ex_message ex_store = (st1, Inr rs1) \<and>
     Recipients (\<lambda>_. ex_ndb) (Inl (External ''down'')) ex_message st1 = (st2, Inr rs2) \<and>
     (\<lambda>r. wh_UserID (rc_Webhook r)) ` set rs1 \<inter> (\<lambda>r. wh_UserID (rc_Webhook r)) ` set rs2 = {}"
proof -
  have d: "distinct (map wh_UserID (ns_webhooks ex_store))" by (simp add: ex_store_def ex_hook_def)
  obtain t rs1 where r1: "Recipients (\<lambda>_. ex_ndb) (Inr [8]) ex_message ex_store = (ex_store\<lparr>ns_deliveries := t\<rparr>, Inr rs1)"
    by (rule Recipients_up [OF ex_up d, of "Inr [8]" ex_message])
  have d1: "distinct (map wh_UserID (ns_webhooks (ex_store\<lparr>ns_deliveries := t\<rparr>)))" using d by simp
  obtain t2 rs2 where r2: "Recipients (\<lambda>_. ex_ndb) (Inl (External ''down'')) ex_message (ex_store\<lparr>ns_deliveries := t\<rparr>) =
      (ex_store\<lparr>ns_deliveries := t\<rparr>\<lparr>ns_deliveries := t2\<rparr>, Inr rs2)"
    by (rule Recipients_up [OF ex_up d1, of "Inl (External ''down'')" ex_message])
  have "\<forall>r \<in> set (dt_rows (ns_deliveries (ex_store\<lparr>ns_deliveries := t\<rparr>))).
      \<exists>r' \<in> set (dt_rows (ns_deliveries (ex_store\<lparr>ns_deliveries := t\<rparr>))). dl_EventID r' = dl_EventID r \<and> dl_UserID r' = dl_UserID r" by blast
  from no_second_delivery [OF ex_up d r1 ex_up d1 r2 this] r1 r2 show ?thesis by blast
qed

section \<open>How a delivery ends\<close>

text \<open>What the network answered to a run of requests, the first of them being the \<open>n\<close>-th ever sent.\<close>

fun answers :: "'b outside \<Rightarrow> nat \<Rightarrow> 'b out_request list \<Rightarrow> (goerror + nat) list" where
  "answers os n [] = []"
| "answers os n (rq # rqs) = snd (os_do os n rq) # answers os (Suc n) rqs"

definition accepted :: "goerror + nat \<Rightarrow> bool" where
  "accepted a \<longleftrightarrow> (case a of Inl _ \<Rightarrow> False | Inr status \<Rightarrow> 200 \<le> status \<and> status < 300)"

definition status_of :: "goerror + nat \<Rightarrow> nat option" where
  "status_of a = (case a of Inl _ \<Rightarrow> None | Inr status \<Rightarrow> Some status)"

definition signed_for :: "(string \<Rightarrow> string \<Rightarrow> string) \<Rightarrow> Webhook \<Rightarrow> string \<Rightarrow> string out_request \<Rightarrow> bool" where
  "signed_for hmac webhook body rq \<longleftrightarrow> or_url rq = wh_URL webhook \<and> or_body rq = body \<and>
     (\<exists>ts. Header_Get (or_header rq) ''X-Timestamp'' = FormatInt ts \<and>
       Verify hmac (wh_Secret webhook) ts (or_body rq) (Header_Get (or_header rq) ''X-Signature''))"

text \<open>Only rows of one id were written to, and they ended as described.\<close>

definition only_row :: "int \<Rightarrow> deliveries \<Rightarrow> deliveries \<Rightarrow> bool" where
  "only_row i t t' \<longleftrightarrow> list_all2 (\<lambda>r r'. dl_ID r' = dl_ID r \<and> (dl_ID r = i \<or> r' = r)) (dt_rows t) (dt_rows t') \<and> dt_next t' = dt_next t"

definition ended :: "int \<Rightarrow> DeliveryStatus \<Rightarrow> nat \<Rightarrow> nat option \<Rightarrow> deliveries \<Rightarrow> bool" where
  "ended i status n last_status t \<longleftrightarrow>
     (\<forall>r \<in> set (dt_rows t). dl_ID r = i \<longrightarrow> dl_Status r = status \<and> dl_Attempts r = n \<and> dl_LastStatus r = last_status)"

lemma only_row_refl [simp, intro]: "only_row i t t"
  by (simp add: only_row_def list.rel_refl)

lemma only_row_trans:
  assumes "only_row i t t1" "only_row i t1 t2"
  shows "only_row i t t2"
proof -
  let ?P = "\<lambda>r r'. dl_ID r' = dl_ID r \<and> (dl_ID r = i \<or> r' = r)"
  have "list_all2 ?P (dt_rows t) (dt_rows t2)"
    by (rule list_all2_trans [of ?P ?P ?P "dt_rows t" "dt_rows t1"]) (use assms in \<open>auto simp: only_row_def\<close>)
  with assms show ?thesis by (simp add: only_row_def)
qed

lemma record_row_only: "only_row i t (record_row db i status n ls err t)"
  by (auto simp: record_row_def RecordAttempt_def Let_def only_row_def list_all2_map2 intro!: list.rel_refl_strong)

lemma record_row_ended:
  assumes "\<not> nd_down db"
  shows "ended i status n ls (record_row db i status n ls err t)"
proof -
  define f where "f = (\<lambda>r :: Delivery. if dl_ID r = i
      then r\<lparr>dl_Status := status, dl_Attempts := n, dl_LastStatus := ls,
        dl_LastError := (if err = '''' then None else Some (take 512 err)), dl_UpdatedAt := nd_now db\<rparr> else r)"
  have "dl_ID (f r) = i \<longrightarrow> dl_Status (f r) = status \<and> dl_Attempts (f r) = n \<and> dl_LastStatus (f r) = ls" for r
    by (simp add: f_def)
  moreover have "dt_rows (record_row db i status n ls err t) = map f (dt_rows t)"
    using assms by (simp add: record_row_def RecordAttempt_def Let_def f_def)
  ultimately show ?thesis by (auto simp: ended_def)
qed

lemma sleepWithBackoff_live: "sleepWithBackoff os dl attempt w = (w1, Inr ()) \<Longrightarrow> nw_now w1 < dl"
  by (auto simp: sleepWithBackoff_def Let_def split: if_splits)

lemma delivery_request_signed: "signed_for hmac webhook body (delivery_request hmac webhook timestamp body)"
  unfolding signed_for_def delivery_request_def
  by (intro conjI exI [of _ timestamp]) (simp_all add: Verify_def CanonicalHeaderKey_def upper_char_def lower_char_def)

lemma delivery_attempt_sent:
  assumes "os_url_ok os (wh_URL webhook)" "nw_now w < dl" "delivery_attempt os hmac dl webhook body w = (w1, x)"
  obtains rq where "nw_sent w1 = nw_sent w @ [rq]" "signed_for hmac webhook body rq" "x = snd (os_do os (length (nw_sent w)) rq)"
proof -
  define rq where "rq = delivery_request hmac webhook (nw_now w div 1000000000) body"
  have "send os rq w = (w1, x)" using assms by (simp add: delivery_attempt_def rq_def)
  moreover have "signed_for hmac webhook body rq" unfolding rq_def by (rule delivery_request_signed)
  ultimately show thesis using that send_sent by blast
qed

text \<open>
  What the loop leaves behind from any attempt on: the requests it sent, that all but the last were answered by a
  failure worth a retry, and how it ended.
\<close>

definition loop_ok ::
  "string outside \<Rightarrow> (string \<Rightarrow> string \<Rightarrow> string) \<Rightarrow> Webhook \<Rightarrow> int \<Rightarrow> string \<Rightarrow> nat \<Rightarrow> nat \<Rightarrow> string net \<Rightarrow> deliveries \<Rightarrow>
    string net \<Rightarrow> deliveries \<Rightarrow> deliver_end \<Rightarrow> nat option \<Rightarrow> string out_request list \<Rightarrow> bool" where
  "loop_ok os hmac webhook i body limit attempts w t w' t' e ls rqs \<longleftrightarrow>
     nw_sent w' = nw_sent w @ rqs \<and> length rqs \<le> limit \<and> (\<forall>rq \<in> set rqs. signed_for hmac webhook body rq) \<and>
     (\<forall>a \<in> set (butlast (answers os (length (nw_sent w)) rqs)). \<not> settled a) \<and> only_row i t t' \<and>
     (let as = answers os (length (nw_sent w)) rqs in
      case e of
        Answered \<Rightarrow> rqs \<noteq> [] \<and> accepted (last as) \<and> ended i Delivered (attempts + length rqs) (status_of (last as)) t'
      | GaveUp n ls' err \<Rightarrow> n = attempts + length rqs \<and> (rqs \<noteq> [] \<longrightarrow> \<not> accepted (last as)) \<and>
          ls' = (if rqs = [] then ls else status_of (last as)))"

lemma accepted_settled: "accepted a \<Longrightarrow> settled a"
  by (auto simp: accepted_def settled_def split: sum.splits)

lemma answers_Nil [simp]: "answers os n rqs = [] \<longleftrightarrow> rqs = []"
  by (cases rqs) auto

lemma loop_ok_Cons:
  assumes "nw_sent w1 = nw_sent w @ [rq]" "signed_for hmac webhook body rq" "\<not> settled (snd (os_do os (length (nw_sent w)) rq))"
    and "only_row i t t1"
    and "loop_ok os hmac webhook i body limit (Suc attempts) w1 t1 w' t' e (status_of (snd (os_do os (length (nw_sent w)) rq))) rqs"
  shows "loop_ok os hmac webhook i body (Suc limit) attempts w t w' t' e ls (rq # rqs)"
  using assms only_row_trans [OF assms(4), of t'] accepted_settled
  by (cases rqs) (auto simp: loop_ok_def Let_def split: deliver_end.splits)

lemma deliver_loop_ok:
  assumes ok: "os_url_ok os (wh_URL webhook)" and up: "\<And>k. \<not> nd_down (dbs k)"
    and sl: "\<And>a w. nw_sent (fst (sleep a w)) = nw_sent w" and live: "\<And>a w w1. sleep a w = (w1, Inr ()) \<Longrightarrow> nw_now w1 < dl"
    and start: "attempt = 0 \<longrightarrow> nw_now w < dl"
    and res: "deliver_loop os hmac dl sleep dbs webhook i body attempt attempts ls err w t = (w', t', e)"
  shows "\<exists>rqs. loop_ok os hmac webhook i body (Suc deliveryMaxRetries - attempt) attempts w t w' t' e ls rqs \<and> (attempt = 0 \<longrightarrow> rqs \<noteq> [])"
  using res start
proof (induction "Suc deliveryMaxRetries - attempt" arbitrary: attempt attempts ls err w t)
  case 0
  then have "e = GaveUp attempts ls err \<and> w' = w \<and> t' = t" "attempt \<noteq> 0" by (auto simp: deliver_loop.simps [of os])
  then have "loop_ok os hmac webhook i body (Suc deliveryMaxRetries - attempt) attempts w t w' t' e ls []" by (simp add: loop_ok_def)
  with \<open>attempt \<noteq> 0\<close> show ?case by blast
next
  case (Suc m)
  obtain w1 sr where s: "(if 0 < attempt then sleep attempt w else (w, Inr ())) = (w1, sr)" by fastforce
  then have w1: "nw_sent w1 = nw_sent w" using sl [of attempt w] by (auto split: if_splits)
  have lt: "\<not> deliveryMaxRetries < attempt" and m: "m = Suc deliveryMaxRetries - Suc attempt" using Suc.hyps(2) by simp_all
  note unf = deliver_loop.simps [of os hmac dl sleep dbs webhook i body attempt attempts ls err w t]
  show ?case
  proof (cases sr)
    case (Inl x)
    then have "e = GaveUp attempts ls ''shutdown before retry'' \<and> w' = w1 \<and> t' = t" using Suc.prems(1) unf lt s by simp
    then have "loop_ok os hmac webhook i body (Suc deliveryMaxRetries - attempt) attempts w t w' t' e ls []" using w1 by (simp add: loop_ok_def)
    moreover have "attempt \<noteq> 0" using s Inl by (cases attempt) auto
    ultimately show ?thesis by blast
  next
    case (Inr u)
    obtain w2 x where a: "delivery_attempt os hmac dl webhook body w1 = (w2, x)" by fastforce
    have now: "nw_now w1 < dl" using s Inr live [of attempt w w1] Suc.prems(2) by (auto split: if_splits)
    obtain rq where rq: "nw_sent w2 = nw_sent w @ [rq]" "signed_for hmac webhook body rq" "x = snd (os_do os (length (nw_sent w)) rq)"
      using delivery_attempt_sent [OF ok now a] w1 by auto
    show ?thesis
    proof (cases "settled x")
      case False
      define err' where "err' = (case x of Inl y \<Rightarrow> error_text y | Inr status \<Rightarrow> ''receiver answered status='' @ FormatInt (int status))"
      define t1 where "t1 = record_row (dbs attempt) i Pending (Suc attempts) (status_of x) err' t"
      have "deliver_loop os hmac dl sleep dbs webhook i body (Suc attempt) (Suc attempts) (status_of x) err' w2 t1 = (w', t', e)"
        using Suc.prems(1) unf lt s Inr a False
        by (cases x) (auto simp: settled_def err'_def t1_def status_of_def Let_def split: if_splits)
      from Suc.hyps(1) [OF m this] obtain rqs where "loop_ok os hmac webhook i body m (Suc attempts) w2 t1 w' t' e (status_of x) rqs"
        unfolding m by blast
      then have "loop_ok os hmac webhook i body (Suc m) attempts w t w' t' e ls (rq # rqs)"
        using rq False by (intro loop_ok_Cons [of w2 w rq]) (auto simp: t1_def intro: record_row_only)
      then show ?thesis unfolding Suc.hyps(2) by blast
    next
      case True
      then obtain status where st: "x = Inr status" "status < 500" by (auto simp: settled_def split: sum.splits)
      have "loop_ok os hmac webhook i body (Suc deliveryMaxRetries - attempt) attempts w t w' t' e ls [rq]"
      proof (cases "200 \<le> status \<and> status < 300")
        case True
        then have "w' = w2 \<and> t' = record_row (dbs attempt) i Delivered (Suc attempts) (Some status) '''' t \<and> e = Answered"
          using Suc.prems(1) unf lt s Inr a st by simp
        then show ?thesis using True rq st lt record_row_ended [OF up] record_row_only
          by (simp add: loop_ok_def accepted_def status_of_def flip: rq(3))
      next
        case False
        then have "w' = w2 \<and> t' = t \<and> e = GaveUp (Suc attempts) (Some status) (''receiver answered status='' @ FormatInt (int status))"
          using Suc.prems(1) unf lt s Inr a st by (auto simp: Let_def)
        then show ?thesis using False rq st lt by (simp add: loop_ok_def accepted_def status_of_def flip: rq(3))
      qed
      then show ?thesis by blast
    qed
  qed
qed

text \<open>
  What a delivery leaves behind.  With the database up and a webhook URL that parses, a delivery makes one to
  four requests, each to the webhook's URL with the encoded payload as its body and a signature the receiver's
  \<^verbatim>\<open>Verify\<close> accepts for the timestamp header; it goes on to the next request only after a transport failure or a
  5xx; and its row, never left pending, ends delivered exactly when the last answer is a 2xx and failed otherwise,
  with the number of requests and the last status.  No other row is touched.
\<close>

theorem deliver_outcome:
  assumes "os_url_ok os (wh_URL (rc_Webhook rc))" "\<And>k. \<not> nd_down (dbs k)" "nw_now w < dl"
    and "marshal \<lparr>wp_Event = ''message.created'', wp_EventID = me_EventID event, wp_Recipient = wh_UserID (rc_Webhook rc), wp_Data = event\<rparr> = Inr body"
    and "Deliver marshal os hmac dbs dl rc event w t = (w', t')"
  shows "\<exists>rqs. nw_sent w' = nw_sent w @ rqs \<and> rqs \<noteq> [] \<and> length rqs \<le> 4 \<and>
    (\<forall>rq \<in> set rqs. signed_for hmac (rc_Webhook rc) body rq) \<and>
    (\<forall>a \<in> set (butlast (answers os (length (nw_sent w)) rqs)). \<not> settled a) \<and>
    only_row (dl_ID (rc_Delivery rc)) t t' \<and>
    ended (dl_ID (rc_Delivery rc)) (if accepted (last (answers os (length (nw_sent w)) rqs)) then Delivered else DeliveryFailed)
      (length rqs) (status_of (last (answers os (length (nw_sent w)) rqs))) t'"
proof -
  obtain w1 t1 e where l: "deliver_loop os hmac dl (sleepWithBackoff os dl) dbs (rc_Webhook rc) (dl_ID (rc_Delivery rc)) body 0 0 None '''' w t = (w1, t1, e)"
    by (rule prod_cases3)
  have "\<exists>rqs. loop_ok os hmac (rc_Webhook rc) (dl_ID (rc_Delivery rc)) body (Suc deliveryMaxRetries - 0) 0 w t w1 t1 e None rqs \<and>
      ((0 :: nat) = 0 \<longrightarrow> rqs \<noteq> [])"
    by (rule deliver_loop_ok [OF assms(1,2) _ _ _ l]) (use sleepWithBackoff_sent sleepWithBackoff_live assms(3) in auto)
  then obtain rqs where ok: "loop_ok os hmac (rc_Webhook rc) (dl_ID (rc_Delivery rc)) body (Suc deliveryMaxRetries) 0 w t w1 t1 e None rqs" "rqs \<noteq> []"
    by auto
  show ?thesis
  proof (cases e)
    case Answered
    then have "w' = w1 \<and> t' = t1" using assms(4,5) l by (simp add: Deliver_def)
    then show ?thesis using ok Answered by (intro exI [of _ rqs]) (simp add: loop_ok_def Let_def deliveryMaxRetries_def)
  next
    case (GaveUp n ls err)
    then have "w' = w1 \<and> t' = record_row (dbs (Suc deliveryMaxRetries)) (dl_ID (rc_Delivery rc)) DeliveryFailed n ls err t1"
      using assms(4,5) l by (simp add: Deliver_def)
    then show ?thesis
      using ok GaveUp record_row_ended [OF assms(2)] only_row_trans [OF _ record_row_only]
      by (intro exI [of _ rqs]) (simp add: loop_ok_def Let_def deliveryMaxRetries_def)
  qed
qed

text \<open>
  A delivery whose context is already cancelled (or expired) fails fast: no request and no wait, one attempt on record, and the row
  ends failed.
\<close>

lemma cancelled_delivery:
  assumes "dl \<le> nw_now w" "\<And>k. \<not> nd_down (dbs k)"
    and "marshal \<lparr>wp_Event = ''message.created'', wp_EventID = me_EventID event, wp_Recipient = wh_UserID (rc_Webhook rc), wp_Data = event\<rparr> = Inr body"
    and "Deliver marshal os hmac dbs dl rc event w t = (w', t')"
  shows "nw_sent w' = nw_sent w \<and> nw_now w' = nw_now w \<and> only_row (dl_ID (rc_Delivery rc)) t t' \<and>
    ended (dl_ID (rc_Delivery rc)) DeliveryFailed 1 None t'"
proof -
  let ?i = "dl_ID (rc_Delivery rc)"
  obtain err where a: "delivery_attempt os hmac dl (rc_Webhook rc) body w = (w, Inl err)"
    using assms(1) by (cases "os_url_ok os (wh_URL (rc_Webhook rc))") (simp_all add: delivery_attempt_def)
  let ?t1 = "record_row (dbs 0) ?i Pending 1 None (error_text err) t"
  have sleep: "sleepWithBackoff os dl (Suc 0) w = (w, Inl (External ''context deadline exceeded''))"
    using assms(1) by (auto simp: sleepWithBackoff_def Let_def max_def)
  have "deliver_loop os hmac dl (sleepWithBackoff os dl) dbs (rc_Webhook rc) ?i body (Suc 0) (Suc 0) None (error_text err) w ?t1 =
      (w, ?t1, GaveUp 1 None ''shutdown before retry'')"
    by (subst deliver_loop.simps) (simp add: sleep deliveryMaxRetries_def)
  then have l: "deliver_loop os hmac dl (sleepWithBackoff os dl) dbs (rc_Webhook rc) ?i body 0 0 None '''' w t = (w, ?t1, GaveUp 1 None ''shutdown before retry'')"
    by (subst deliver_loop.simps) (simp add: a)
  have "w' = w \<and> t' = record_row (dbs (Suc deliveryMaxRetries)) ?i DeliveryFailed 1 None ''shutdown before retry'' ?t1"
    using assms(3,4) l by (simp add: Deliver_def Let_def)
  then show ?thesis using record_row_ended [OF assms(2)] only_row_trans [OF record_row_only record_row_only] by simp
qed

definition ex_recipient :: Recipient where
  "ex_recipient = \<lparr>rc_Webhook = ex_hook 9, rc_Delivery = new_delivery ex_message (ex_hook 9)\<rparr>"

text \<open>A receiver that answers 503 to the first request and 200 to the second.\<close>

definition ex_receiver :: "string outside" where
  "ex_receiver = \<lparr>os_do = (\<lambda>n rq. (1, if n = 0 then Inr 503 else Inr 200)), os_rand = (\<lambda>_. 0), os_bytes = (\<lambda>_. ''''), os_url_ok = (\<lambda>_. True)\<rparr>"

definition ex_row :: deliveries where
  "ex_row = \<lparr>dt_rows = [new_delivery ex_message (ex_hook 9)], dt_next = 1\<rparr>"

theorem deliver_outcome_witness:
  "\<exists>w' t' rqs. Deliver (\<lambda>_. Inr ''{}'') ex_receiver (\<lambda>k m. k @ m) (\<lambda>_. ex_ndb) 60000000000 ex_recipient ex_message \<lparr>nw_now = 0, nw_sent = []\<rparr> ex_row = (w', t') \<and>
     nw_sent w' = rqs \<and> length rqs \<le> 4 \<and> list_all (signed_for (\<lambda>k m. k @ m) (ex_hook 9) ''{}'') rqs \<and> only_row 0 ex_row t'"
proof -
  obtain w' t' where r: "Deliver (\<lambda>_. Inr ''{}'') ex_receiver (\<lambda>k m. k @ m) (\<lambda>_. ex_ndb) 60000000000 ex_recipient ex_message
      \<lparr>nw_now = 0, nw_sent = []\<rparr> ex_row = (w', t')" by fastforce
  have "os_url_ok ex_receiver (wh_URL (rc_Webhook ex_recipient))" "\<And>k. \<not> nd_down ((\<lambda>_ :: nat. ex_ndb) k)"
    by (simp_all add: ex_receiver_def ex_ndb_def)
  from deliver_outcome [OF this _ refl r] r show ?thesis
    by (auto simp: list_all_iff ex_recipient_def new_delivery_def)
qed

end
