(* ===== verification/Lanes.thy ===== *)
theory Lanes
  imports Prelude "HOL-Library.Sublist"
begin

text \<open>
  The queue-and-workers shape both dispatchers are built from: a buffered channel that is offered to
  without blocking, and worker goroutines that take from it until \<^verbatim>\<open>stop\<close> is closed and then drain what
  is left.  \<open>ln_accepted\<close> (everything the channel ever took) and \<open>ln_done\<close> (everything taken out, in order)
  are the history the theorems speak about; \<open>ln_stop\<close> is the closed \<^verbatim>\<open>stop\<close> channel, with the number of
  events accepted before it was closed.
\<close>

datatype worker = Running | Draining | Exited

record 'e lane =
  ln_q :: "'e list"
  ln_workers :: "worker list"
  ln_stop :: "nat option"
  ln_accepted :: "'e list"
  ln_done :: "'e list"

definition new_lane :: "nat \<Rightarrow> 'e lane" where
  "new_lane n = \<lparr>ln_q = [], ln_workers = replicate n Running, ln_stop = None, ln_accepted = [], ln_done = []\<rparr>"

text \<open>\<^verbatim>\<open>select { case q <- e: default: }\<close>.\<close>

definition offer :: "nat \<Rightarrow> 'e \<Rightarrow> 'e lane \<Rightarrow> 'e lane \<times> bool" where
  "offer cap e l =
     (if length (ln_q l) < cap then (l\<lparr>ln_q := ln_q l @ [e], ln_accepted := ln_accepted l @ [e]\<rparr>, True) else (l, False))"

text \<open>
  The three moves of a worker.  A running worker may take an event even after \<^verbatim>\<open>stop\<close> is closed, since
  \<^verbatim>\<open>select\<close> picks among the ready cases; a draining worker takes until its \<^verbatim>\<open>default\<close> case fires.
\<close>

definition take_one :: "nat \<Rightarrow> 'e lane \<Rightarrow> ('e \<times> 'e lane) option" where
  "take_one i l =
     (if i < length (ln_workers l) \<and> ln_workers l ! i \<noteq> Exited
      then (case ln_q l of [] \<Rightarrow> None | e # q \<Rightarrow> Some (e, l\<lparr>ln_q := q, ln_done := ln_done l @ [e]\<rparr>))
      else None)"

definition see_stop :: "nat \<Rightarrow> 'e lane \<Rightarrow> 'e lane option" where
  "see_stop i l =
     (if i < length (ln_workers l) \<and> ln_workers l ! i = Running \<and> ln_stop l \<noteq> None
      then Some (l\<lparr>ln_workers := (ln_workers l)[i := Draining]\<rparr>) else None)"

definition leave :: "nat \<Rightarrow> 'e lane \<Rightarrow> 'e lane option" where
  "leave i l =
     (if i < length (ln_workers l) \<and> ln_workers l ! i = Draining \<and> ln_q l = []
      then Some (l\<lparr>ln_workers := (ln_workers l)[i := Exited]\<rparr>) else None)"

text \<open>\<^verbatim>\<open>stopOnce.Do(func() { close(stop) })\<close>.\<close>

definition close_stop :: "'e lane \<Rightarrow> 'e lane" where
  "close_stop l = (case ln_stop l of None \<Rightarrow> l\<lparr>ln_stop := Some (length (ln_accepted l))\<rparr> | Some _ \<Rightarrow> l)"

inductive worker_step :: "'e lane \<Rightarrow> 'e lane \<Rightarrow> bool" where
  taken: "take_one i l = Some (e, l') \<Longrightarrow> worker_step l l'"
| stop_seen: "see_stop i l = Some l' \<Longrightarrow> worker_step l l'"
| left: "leave i l = Some l' \<Longrightarrow> worker_step l l'"

inductive lane_step :: "nat \<Rightarrow> 'e lane \<Rightarrow> 'e lane \<Rightarrow> bool" for cap where
  offered: "lane_step cap l (fst (offer cap e l))"
| worked: "worker_step l l' \<Longrightarrow> lane_step cap l l'"
| closed: "lane_step cap l (close_stop l)"

inductive_cases worker_stepE: "worker_step l l'"

definition lane_inv :: "nat \<Rightarrow> nat \<Rightarrow> 'e lane \<Rightarrow> bool" where
  "lane_inv cap n l \<longleftrightarrow> ln_done l @ ln_q l = ln_accepted l \<and> length (ln_q l) \<le> cap \<and> length (ln_workers l) = n \<and>
     (\<forall>i<n. ln_workers l ! i \<noteq> Running \<longrightarrow> ln_stop l \<noteq> None) \<and>
     (\<forall>m. ln_stop l = Some m \<longrightarrow> m \<le> length (ln_accepted l)) \<and>
     (\<forall>i<n. \<forall>m. ln_workers l ! i = Exited \<longrightarrow> ln_stop l = Some m \<longrightarrow> m \<le> length (ln_done l))"

lemma lane_inv_new: "lane_inv cap n (new_lane n)"
  by (simp add: lane_inv_def new_lane_def)

lemma lane_inv_offer: "lane_inv cap n l \<Longrightarrow> lane_inv cap n (fst (offer cap e l))"
  by (auto simp: lane_inv_def offer_def)

lemma lane_inv_close:
  assumes "lane_inv cap n l"
  shows "lane_inv cap n (close_stop l)"
proof (cases "ln_stop l")
  case None
  then have "\<forall>i<n. ln_workers l ! i = Running" using assms by (auto simp: lane_inv_def)
  with None assms show ?thesis by (auto simp: lane_inv_def close_stop_def)
qed (use assms in \<open>simp add: close_stop_def\<close>)

lemma lane_inv_take: "lane_inv cap n l \<Longrightarrow> take_one i l = Some (e, l') \<Longrightarrow> lane_inv cap n l'"
  by (auto simp: lane_inv_def take_one_def split: if_splits list.splits dest: le_SucI)

lemma lane_inv_see_stop: "lane_inv cap n l \<Longrightarrow> see_stop i l = Some l' \<Longrightarrow> lane_inv cap n l'"
  by (auto simp: lane_inv_def see_stop_def nth_list_update split: if_splits)

lemma lane_inv_leave: "lane_inv cap n l \<Longrightarrow> leave i l = Some l' \<Longrightarrow> lane_inv cap n l'"
  by (auto simp: lane_inv_def leave_def nth_list_update split: if_splits)

lemma lane_inv_step: "lane_step cap l l' \<Longrightarrow> lane_inv cap n l \<Longrightarrow> lane_inv cap n l'"
  by (cases rule: lane_step.cases) (auto elim!: worker_stepE intro: lane_inv_offer lane_inv_close lane_inv_take lane_inv_see_stop lane_inv_leave)

lemma lane_invD:
  assumes "lane_inv cap n l"
  shows "ln_done l @ ln_q l = ln_accepted l" "length (ln_q l) \<le> cap" "length (ln_workers l) = n"
    "i < n \<Longrightarrow> ln_workers l ! i = Exited \<Longrightarrow> ln_stop l = Some m \<Longrightarrow> m \<le> length (ln_done l)"
  using assms by (auto simp: lane_inv_def)

text \<open>Once \<^verbatim>\<open>stop\<close> is closed the workers finish: some move is possible until all have exited, and every move is progress.\<close>

definition worker_rank :: "worker \<Rightarrow> nat" where
  "worker_rank w = (case w of Running \<Rightarrow> 2 | Draining \<Rightarrow> 1 | Exited \<Rightarrow> 0)"

definition lane_work :: "'e lane \<Rightarrow> nat" where
  "lane_work l = length (ln_q l) + sum_list (map worker_rank (ln_workers l))"

lemma sum_list_update_less:
  "i < length xs \<Longrightarrow> f x < (f (xs ! i) :: nat) \<Longrightarrow> sum_list (map f (xs[i := x])) < sum_list (map f xs)"
proof (induction xs arbitrary: i)
  case (Cons y ys)
  then show ?case by (cases i) auto
qed simp

lemma worker_step_progress: "worker_step l l' \<Longrightarrow> lane_work l' < lane_work l"
  by (cases rule: worker_step.cases)
    (auto simp: take_one_def see_stop_def leave_def lane_work_def worker_rank_def intro!: sum_list_update_less split: if_splits list.splits)

lemma worker_step_enabled:
  assumes "ln_stop l \<noteq> None" "w \<in> set (ln_workers l)" "w \<noteq> Exited"
  shows "\<exists>l'. worker_step l l'"
proof -
  obtain i where i: "i < length (ln_workers l)" "ln_workers l ! i = w" using assms(2) by (auto simp: in_set_conv_nth)
  show ?thesis
  proof (cases "w = Running")
    case True
    then have "see_stop i l \<noteq> None" using i assms(1) by (simp add: see_stop_def)
    then show ?thesis using stop_seen by fastforce
  next
    case False
    then have "w = Draining" using assms(3) by (cases w) auto
    then have "take_one i l \<noteq> None \<or> leave i l \<noteq> None" using i by (auto simp: take_one_def leave_def split: list.split)
    then show ?thesis using taken left by fastforce
  qed
qed

lemma worker_step_keeps: "worker_step l l' \<Longrightarrow> ln_stop l' = ln_stop l \<and> length (ln_workers l') = length (ln_workers l)"
  by (cases rule: worker_step.cases) (auto simp: take_one_def see_stop_def leave_def split: if_splits list.splits)

lemma drain_terminates:
  assumes "ln_stop l \<noteq> None"
  shows "\<exists>l'. worker_step\<^sup>*\<^sup>* l l' \<and> set (ln_workers l') \<subseteq> {Exited}"
  using assms
proof (induction "lane_work l" arbitrary: l rule: less_induct)
  case less
  show ?case
  proof (cases "set (ln_workers l) \<subseteq> {Exited}")
    case False
    then obtain w where "w \<in> set (ln_workers l)" "w \<noteq> Exited" by auto
    then obtain l1 where l1: "worker_step l l1" using worker_step_enabled less.prems by blast
    then obtain l' where "worker_step\<^sup>*\<^sup>* l1 l'" "set (ln_workers l') \<subseteq> {Exited}"
      using less.hyps [OF worker_step_progress [OF l1]] worker_step_keeps [OF l1] less.prems by auto
    with l1 show ?thesis by (meson converse_rtranclp_into_rtranclp)
  qed auto
qed

lemma worker_steps_keep: "worker_step\<^sup>*\<^sup>* l l' \<Longrightarrow> ln_stop l' = ln_stop l \<and> length (ln_workers l') = length (ln_workers l)"
  by (induction rule: rtranclp_induct) (auto dest: worker_step_keeps)

lemma worker_steps_inv: "worker_step\<^sup>*\<^sup>* l l' \<Longrightarrow> lane_inv cap n l \<Longrightarrow> lane_inv cap n l'"
  by (induction rule: rtranclp_induct) (auto intro: lane_inv_step worked)

text \<open>
  What a client of a lane may rely on: the bound, first in first out, and that an exited worker means
  everything accepted before \<^verbatim>\<open>stop\<close> was closed has been taken out.
\<close>

definition lane_ok :: "nat \<Rightarrow> 'e lane \<Rightarrow> bool" where
  "lane_ok cap l \<longleftrightarrow> length (ln_q l) \<le> cap \<and> ln_done l @ ln_q l = ln_accepted l \<and>
     (if Exited \<in> set (ln_workers l)
      then (case ln_stop l of None \<Rightarrow> False | Some m \<Rightarrow> prefix (take m (ln_accepted l)) (ln_done l)) else True)"

lemma lane_inv_ok:
  assumes "lane_inv cap n l"
  shows "lane_ok cap l"
proof -
  note D = lane_invD [OF assms]
  have "\<exists>m. ln_stop l = Some m \<and> prefix (take m (ln_accepted l)) (ln_done l)" if ex: "Exited \<in> set (ln_workers l)"
  proof -
    obtain i where "i < length (ln_workers l)" "ln_workers l ! i = Exited" using ex unfolding in_set_conv_nth by blast
    then have i: "i < n" "ln_workers l ! i = Exited" using D(3) by simp_all
    then obtain m where m: "ln_stop l = Some m" using assms by (force simp: lane_inv_def)
    have "m \<le> length (ln_done l)" by (rule D(4) [OF i m])
    then show ?thesis using m unfolding D(1) [symmetric] by (simp add: take_is_prefix)
  qed
  then show ?thesis using D(1,2) by (auto simp: lane_ok_def)
qed

end
