(* ===== verification/NotifyDispatch.thy ===== *)
theory NotifyDispatch
  imports Fanout Lanes
begin

text \<open>
  notification-service's dispatcher, \<^verbatim>\<open>dispatch/dispatcher.go\<close>, and the endpoint in front of it,
  \<^verbatim>\<open>controller/event_controller.go\<close>: one fan-out worker turns queued events into delivery rows and delivery jobs,
  and a pool of workers makes the calls.  Both queues are lanes; they share the \<^verbatim>\<open>stop\<close> channel.  A worker's turn is
  one step, except that the fan-out worker offers the jobs of one event one at a time, between steps of the
  delivery workers: \<open>n_pushing\<close> holds those it has not offered yet.  \<open>n_dropped\<close> is the log of the jobs a full queue
  refused.
\<close>

section \<open>The dispatcher\<close>

definition eventQueueSize :: nat where
  "eventQueueSize = 256"

definition deliveryQueueSize :: nat where
  "deliveryQueueSize = 1024"

definition deliveryTimeout :: int where
  "deliveryTimeout = 30 * 1000000000"

record deliveryJob =
  j_recipient :: Recipient
  j_event :: MessageEvent

record NotifyDispatcher =
  n_events :: "MessageEvent lane"
  n_jobs :: "deliveryJob lane"
  n_pushing :: "deliveryJob list"
  n_dropped :: "deliveryJob list"
  n_cancelled :: bool
  n_store :: notify_store
  n_net :: "string net"

definition New_NotifyDispatcher :: "nat \<Rightarrow> notify_store \<Rightarrow> string net \<Rightarrow> NotifyDispatcher" where
  "New_NotifyDispatcher workers st w =
     \<lparr>n_events = new_lane 1, n_jobs = new_lane workers, n_pushing = [], n_dropped = [],
      n_cancelled = False, n_store = st, n_net = w\<rparr>"

definition Enqueue :: "MessageEvent \<Rightarrow> NotifyDispatcher \<Rightarrow> NotifyDispatcher \<times> bool" where
  "Enqueue event d = (case offer eventQueueSize event (n_events d) of (l, ok) \<Rightarrow> (d\<lparr>n_events := l\<rparr>, ok))"

definition Notify_Close :: "NotifyDispatcher \<Rightarrow> NotifyDispatcher" where
  "Notify_Close d = d\<lparr>n_events := close_stop (n_events d), n_jobs := close_stop (n_jobs d)\<rparr>"

text \<open>
  When the workers have not drained within \<^verbatim>\<open>Close\<close>'s timeout it cancels the context all of them work under: calls to presence-service
  and attempts fail at once, and backoff sleeps end.
\<close>

definition Notify_cancel :: "NotifyDispatcher \<Rightarrow> NotifyDispatcher" where
  "Notify_cancel d = d\<lparr>n_cancelled := True\<rparr>"

definition delivery_deadline :: "NotifyDispatcher \<Rightarrow> int" where
  "delivery_deadline d = (if n_cancelled d then nw_now (n_net d) else nw_now (n_net d) + deliveryTimeout)"

text \<open>
  \<^verbatim>\<open>fanout\<close>: the first half resolves the recipients, the second offers their jobs.  The databases the queries find
  and what presence-service answers vary from call to call.
\<close>

definition fanout_take :: "(nat \<Rightarrow> ndb) \<Rightarrow> int list result \<Rightarrow> NotifyDispatcher \<Rightarrow> NotifyDispatcher option" where
  "fanout_take dbs presence d =
     (if n_pushing d \<noteq> [] then None
      else
        (case take_one 0 (n_events d) of
           None \<Rightarrow> None
         | Some (event, l) \<Rightarrow>
             (case Recipients dbs (if n_cancelled d then Inl (External ''context canceled'') else presence) event (n_store d) of
                (st, Inl e) \<Rightarrow> Some (d\<lparr>n_events := l, n_store := st\<rparr>)
              | (st, Inr recipients) \<Rightarrow>
                  Some (d\<lparr>n_events := l, n_store := st,
                    n_pushing := map (\<lambda>r. \<lparr>j_recipient = r, j_event = event\<rparr>) recipients\<rparr>))))"

definition fanout_push :: "NotifyDispatcher \<Rightarrow> NotifyDispatcher option" where
  "fanout_push d =
     (case n_pushing d of
        [] \<Rightarrow> None
      | job # jobs \<Rightarrow>
          (case offer deliveryQueueSize job (n_jobs d) of
             (l, True) \<Rightarrow> Some (d\<lparr>n_jobs := l, n_pushing := jobs\<rparr>)
           | (l, False) \<Rightarrow> Some (d\<lparr>n_pushing := jobs, n_dropped := n_dropped d @ [job]\<rparr>)))"

definition fanout_turn :: "(nat \<Rightarrow> MessageEvent lane \<Rightarrow> MessageEvent lane option) \<Rightarrow> NotifyDispatcher \<Rightarrow> NotifyDispatcher option" where
  "fanout_turn f d = (if n_pushing d \<noteq> [] then None else map_option (\<lambda>l. d\<lparr>n_events := l\<rparr>) (f 0 (n_events d)))"

definition deliver_take ::
  "(WebhookPayload \<Rightarrow> goerror + string) \<Rightarrow> string outside \<Rightarrow> (string \<Rightarrow> string \<Rightarrow> string) \<Rightarrow> (nat \<Rightarrow> ndb) \<Rightarrow> nat \<Rightarrow>
    NotifyDispatcher \<Rightarrow> NotifyDispatcher option" where
  "deliver_take marshal os hmac dbs i d =
     (case take_one i (n_jobs d) of
        None \<Rightarrow> None
      | Some (job, l) \<Rightarrow>
          (case Deliver marshal os hmac dbs (delivery_deadline d) (j_recipient job) (j_event job) (n_net d) (ns_deliveries (n_store d)) of
             (w, t) \<Rightarrow> Some (d\<lparr>n_jobs := l, n_net := w, n_store := (n_store d)\<lparr>ns_deliveries := t\<rparr>\<rparr>)))"

definition deliver_turn :: "nat \<Rightarrow> (nat \<Rightarrow> deliveryJob lane \<Rightarrow> deliveryJob lane option) \<Rightarrow> NotifyDispatcher \<Rightarrow> NotifyDispatcher option" where
  "deliver_turn i f d = map_option (\<lambda>l. d\<lparr>n_jobs := l\<rparr>) (f i (n_jobs d))"

section \<open>event\_controller.go\<close>

definition EventController_Message :: "MessageEvent option \<Rightarrow> echo_context \<Rightarrow> NotifyDispatcher \<Rightarrow> NotifyDispatcher \<times> string response" where
  "EventController_Message bind cx d =
     (case bind of
        None \<Rightarrow> (d, reply cx 400 (JSON_error ''invalid request body''))
      | Some event \<Rightarrow>
          (case ValidateEvent event of
             Inl e \<Rightarrow> (d, notify_respondError cx (Failed e) ''failed to accept event'')
           | Inr _ \<Rightarrow>
               (case Enqueue event d of
                  (d1, False) \<Rightarrow> (d1, reply cx 503 (JSON_error ''event queue full''))
                | (d1, True) \<Rightarrow> (d1, reply cx 202 (JSON ''queued'')))))"

section \<open>Steps\<close>

text \<open>
  \<open>own_turn\<close> is a move of one of the workers.  The HTTP interface also registers webhooks and subscriptions while
  the dispatcher runs.  \<open>good\<close> says what the databases of a step may be.
\<close>

inductive own_turn ::
  "(WebhookPayload \<Rightarrow> goerror + string) \<Rightarrow> string outside \<Rightarrow> (string \<Rightarrow> string \<Rightarrow> string) \<Rightarrow> ((nat \<Rightarrow> ndb) \<Rightarrow> bool) \<Rightarrow>
    NotifyDispatcher \<Rightarrow> NotifyDispatcher \<Rightarrow> bool" for marshal os hmac good where
  fan_taken: "good dbs \<Longrightarrow> fanout_take dbs presence d = Some d' \<Longrightarrow> own_turn marshal os hmac good d d'"
| fan_pushed: "fanout_push d = Some d' \<Longrightarrow> own_turn marshal os hmac good d d'"
| fan_stops: "fanout_turn see_stop d = Some d' \<or> fanout_turn leave d = Some d' \<Longrightarrow> own_turn marshal os hmac good d d'"
| job_taken: "good dbs \<Longrightarrow> deliver_take marshal os hmac dbs i d = Some d' \<Longrightarrow> own_turn marshal os hmac good d d'"
| job_stops: "deliver_turn i see_stop d = Some d' \<or> deliver_turn i leave d = Some d' \<Longrightarrow> own_turn marshal os hmac good d d'"

inductive notify_reach ::
  "(WebhookPayload \<Rightarrow> goerror + string) \<Rightarrow> string outside \<Rightarrow> (string \<Rightarrow> string \<Rightarrow> string) \<Rightarrow> ((nat \<Rightarrow> ndb) \<Rightarrow> bool) \<Rightarrow>
    NotifyDispatcher \<Rightarrow> NotifyDispatcher \<Rightarrow> bool" for marshal os hmac good d0 where
  begun: "notify_reach marshal os hmac good d0 d0"
| own: "notify_reach marshal os hmac good d0 d \<Longrightarrow> own_turn marshal os hmac good d d' \<Longrightarrow> notify_reach marshal os hmac good d0 d'"
| enqueued: "notify_reach marshal os hmac good d0 d \<Longrightarrow> notify_reach marshal os hmac good d0 (fst (Enqueue event d))"
| shut: "notify_reach marshal os hmac good d0 d \<Longrightarrow> notify_reach marshal os hmac good d0 (Notify_Close d)"
| timed_out: "notify_reach marshal os hmac good d0 d \<Longrightarrow> ln_stop (n_events d) \<noteq> None \<Longrightarrow> notify_reach marshal os hmac good d0 (Notify_cancel d)"
| registered: "notify_reach marshal os hmac good d0 d \<Longrightarrow>
    notify_reach marshal os hmac good d0 (d\<lparr>n_store := (n_store d)\<lparr>ns_webhooks := ws, ns_subs := ss\<rparr>\<rparr>)"

section \<open>The queues\<close>

lemmas notify_defs = fanout_take_def fanout_push_def fanout_turn_def deliver_take_def deliver_turn_def Enqueue_def Notify_Close_def Notify_cancel_def

lemmas own_lane_move = lane_step.worked [OF taken] lane_step.worked [OF stop_seen] lane_step.worked [OF left]

lemma offered_lane: "offer cap e l = (l', b) \<Longrightarrow> lane_step cap l l'"
  using lane_step.offered [of cap l e] by simp

lemma own_turn_lanes:
  assumes "own_turn marshal os hmac good d d'"
  shows "n_events d' = n_events d \<or> lane_step eventQueueSize (n_events d) (n_events d')"
    and "n_jobs d' = n_jobs d \<or> lane_step deliveryQueueSize (n_jobs d) (n_jobs d')"
  using assms
  by (cases rule: own_turn.cases;
      auto simp: notify_defs split: option.splits if_splits list.splits prod.splits sum.splits bool.splits intro: own_lane_move offered_lane)+

lemma notify_lane_inv:
  assumes "notify_reach marshal os hmac good (New_NotifyDispatcher n st w) d"
  shows "lane_inv eventQueueSize 1 (n_events d) \<and> lane_inv deliveryQueueSize n (n_jobs d)"
  using assms
proof induction
  case begun
  show ?case by (simp add: New_NotifyDispatcher_def lane_inv_new)
next
  case (own d d')
  then show ?case using own_turn_lanes [OF own.hyps(2)] lane_inv_step by metis
next
  case (enqueued d event)
  then show ?case using lane_inv_offer [of eventQueueSize 1 "n_events d" event]
    by (simp add: Enqueue_def split: prod.split) (metis fst_conv)
qed (simp_all add: Notify_Close_def Notify_cancel_def lane_inv_close)

text \<open>
  The queues of notification-service are bounded, first in first out and drained.  However the endpoint,
  the workers, registrations and \<^verbatim>\<open>Close\<close> interleave, at most 256 events and 1024 jobs are queued, what was
  taken and what is still queued is exactly what was accepted, in order, and once a worker of a queue has exited
  everything that queue accepted before \<^verbatim>\<open>Close\<close> has been taken.
\<close>

theorem notify_queues:
  assumes "notify_reach marshal os hmac good (New_NotifyDispatcher n st w) d"
  shows "lane_ok 256 (n_events d) \<and> lane_ok 1024 (n_jobs d)"
  using notify_lane_inv [OF assms] unfolding eventQueueSize_def deliveryQueueSize_def by (blast intro: lane_inv_ok)

text \<open>
  What chat-service's call is answered.  A body that does not parse or an invalid event is a 400 and queues
  nothing, a full queue is a 503 (which chat-service retries) and queues nothing, and otherwise the answer is 202
  and the event is the last of the queue.
\<close>

theorem event_statuses:
  "case EventController_Message bind cx d of (d', r) \<Rightarrow>
     (if (case bind of None \<Rightarrow> True | Some event \<Rightarrow> ValidateEvent event \<noteq> Inr ()) then d' = d \<and> resp_status r = 400
      else if 256 \<le> length (ln_q (n_events d)) then d' = d \<and> resp_status r = 503
      else resp_status r = 202 \<and> ln_q (n_events d') = ln_q (n_events d) @ [the bind])"
proof (cases bind)
  case None
  then show ?thesis by (simp add: EventController_Message_def reply_def)
next
  case (Some event)
  show ?thesis
  proof (cases "ValidateEvent event")
    case (Inl e)
    then obtain m where "e = Validation m"
      by (auto simp: ValidateEvent_def notification_validateRoom_def bind_result_def split: if_splits sum.splits)
    then show ?thesis using Some Inl by (simp add: EventController_Message_def notify_respondError_def reply_def)
  next
    case (Inr u)
    then show ?thesis using Some
      by (auto simp: EventController_Message_def Enqueue_def offer_def eventQueueSize_def reply_def)
  qed
qed

section \<open>Every delivery row is accounted for\<close>

lemma Delivery_Create_cases:
  assumes c: "Delivery_Create db row t = (t1, c)"
  obtains (dup) "c = Inl Duplicate" "t1 = t" | (err) e where "c = Inl e" "e \<noteq> Duplicate" "t1 = t" "nd_down db"
    | (new) x dlv where "c = Inr dlv" "dl_ID dlv = dt_next t" "dl_ID x = dt_next t" "dl_Status x = Pending"
        "dt_rows t1 = dt_rows t @ [x]" "dt_next t1 = dt_next t + 1"
proof -
  define x where "x = row\<lparr>dl_ID := dt_next t, dl_Status := Pending, dl_Attempts := 0, dl_LastStatus := None,
      dl_LastError := None, dl_CreatedAt := nd_now db, dl_UpdatedAt := nd_now db\<rparr>"
  consider "nd_down db" | "\<not> nd_down db" "\<exists>r \<in> set (dt_rows t). same_delivery db (dl_EventID row) (dl_UserID row) r"
    | "\<not> nd_down db" "\<not> (\<exists>r \<in> set (dt_rows t). same_delivery db (dl_EventID row) (dl_UserID row) r)" by blast
  then show thesis
  proof cases
    case 1
    then show thesis using c err [of db_error] by (simp add: Delivery_Create_def db_error_def)
  next
    case 2
    then show thesis using c dup by (simp add: Delivery_Create_def)
  next
    case 3
    then have "t1 = t\<lparr>dt_rows := dt_rows t @ [x], dt_next := dt_next t + 1\<rparr>" "c = Inr (row\<lparr>dl_ID := dt_next t\<rparr>)"
      using c by (simp_all add: Delivery_Create_def x_def)
    then show thesis using new [of "row\<lparr>dl_ID := dt_next t\<rparr>" x] by (simp add: x_def)
  qed
qed

lemma record_loop_rows:
  assumes "record_loop dbs i event whs acc t = (t', r)"
  shows "\<exists>new. dt_rows t' = dt_rows t @ new \<and> dt_next t' = dt_next t + int (length new) \<and>
    map dl_ID new = map (\<lambda>k. dt_next t + int k) [0..<length new] \<and> (\<forall>x \<in> set new. dl_Status x = Pending) \<and>
    (\<forall>out. r = Inr out \<longrightarrow> (\<exists>rs. out = acc @ rs \<and> map (dl_ID \<circ> rc_Delivery) rs = map dl_ID new)) \<and>
    ((\<forall>k. \<not> nd_down (dbs k)) \<longrightarrow> \<not> isl r)"
  using assms
proof (induction whs arbitrary: i acc t)
  case (Cons wh whs)
  obtain t1 c where c: "Delivery_Create (dbs i) (new_delivery event wh) t = (t1, c)" by fastforce
  consider (dup) "c = Inl Duplicate" "t1 = t" | (err) e where "c = Inl e" "e \<noteq> Duplicate" "t1 = t" "nd_down (dbs i)"
    | (new) x dlv where "c = Inr dlv" "dl_ID dlv = dt_next t" "dl_ID x = dt_next t" "dl_Status x = Pending"
        "dt_rows t1 = dt_rows t @ [x]" "dt_next t1 = dt_next t + 1"
    by (rule Delivery_Create_cases [OF c])
  then show ?case
  proof cases
    case dup
    then have "record_loop dbs (Suc i) event whs acc t = (t', r)" using Cons.prems unfolding record_loop.simps c by simp
    then show ?thesis by (rule Cons.IH)
  next
    case err
    then have "t' = t \<and> r = Inl e" using Cons.prems unfolding record_loop.simps c by (cases e) auto
    with err show ?thesis by auto
  next
    case new
    then have "record_loop dbs (Suc i) event whs (acc @ [\<lparr>rc_Webhook = wh, rc_Delivery = dlv\<rparr>]) t1 = (t', r)"
      using Cons.prems unfolding record_loop.simps c by simp
    from Cons.IH [OF this] obtain nw where nw: "dt_rows t' = dt_rows t1 @ nw" "dt_next t' = dt_next t1 + int (length nw)"
      "map dl_ID nw = map (\<lambda>k. dt_next t1 + int k) [0..<length nw]" "\<forall>x \<in> set nw. dl_Status x = Pending"
      "\<And>out. r = Inr out \<Longrightarrow> \<exists>rs. out = (acc @ [\<lparr>rc_Webhook = wh, rc_Delivery = dlv\<rparr>]) @ rs \<and> map (dl_ID \<circ> rc_Delivery) rs = map dl_ID nw"
      "(\<forall>k. \<not> nd_down (dbs k)) \<longrightarrow> \<not> isl r" by blast
    have "map dl_ID (x # nw) = map (\<lambda>k. dt_next t + int k) [0..<length (x # nw)]"
      using nw(3) new by (simp add: upt_rec [of 0] map_Suc_upt [symmetric] comp_def algebra_simps del: upt_Suc)
    moreover have "\<exists>rs. out = acc @ rs \<and> map (dl_ID \<circ> rc_Delivery) rs = map dl_ID (x # nw)" if ro: "r = Inr out" for out
    proof -
      obtain rs where "out = (acc @ [\<lparr>rc_Webhook = wh, rc_Delivery = dlv\<rparr>]) @ rs" "map (dl_ID \<circ> rc_Delivery) rs = map dl_ID nw" using nw(5) [OF ro] by blast
      then show ?thesis using new by (intro exI [of _ "\<lparr>rc_Webhook = wh, rc_Delivery = dlv\<rparr> # rs"]) simp
    qed
    ultimately have more: "map dl_ID (x # nw) = map (\<lambda>k. dt_next t + int k) [0..<length (x # nw)]"
      "\<forall>out. r = Inr out \<longrightarrow> (\<exists>rs. out = acc @ rs \<and> map (dl_ID \<circ> rc_Delivery) rs = map dl_ID (x # nw))" by blast+
    show ?thesis by (rule exI [of _ "x # nw"], intro conjI; (rule more)?) (use nw(1,2,4,6) new in simp_all)
  qed
qed auto

lemma Recipients_rows:
  assumes "Recipients dbs presence event st = (st', r)"
  shows "\<exists>new. dt_rows (ns_deliveries st') = dt_rows (ns_deliveries st) @ new \<and>
    dt_next (ns_deliveries st') = dt_next (ns_deliveries st) + int (length new) \<and>
    map dl_ID new = map (\<lambda>k. dt_next (ns_deliveries st) + int k) [0..<length new] \<and> (\<forall>x \<in> set new. dl_Status x = Pending) \<and>
    (\<forall>rs. r = Inr rs \<longrightarrow> map (dl_ID \<circ> rc_Delivery) rs = map dl_ID new) \<and> ((\<forall>k. \<not> nd_down (dbs k)) \<longrightarrow> \<not> isl r)"
proof -
  consider (early) e where "st' = st" "r = Inl e" "\<exists>k. nd_down (dbs k)"
    | (nobody) "record_loop dbs 2 event [] [] (ns_deliveries st) = (ns_deliveries st', r)"
    | (loop) whs where "record_loop dbs 2 event whs [] (ns_deliveries st) = (ns_deliveries st', r)"
    using assms by (auto simp: Recipients_def ListUserIDsByRoom_def ListByUserIDs_def split: if_splits sum.splits prod.splits)
  then show ?thesis
  proof cases
    case early
    then show ?thesis by auto
  next
    case nobody
    from record_loop_rows [OF this] show ?thesis by auto
  next
    case loop
    from record_loop_rows [OF this] show ?thesis by auto
  qed
qed

lemma deliver_loop_settles:
  assumes up: "\<And>k. \<not> nd_down (dbs k)"
    and res: "deliver_loop os hmac dl sleep dbs webhook i body attempt attempts ls err w t = (w', t', e)"
  shows "only_row i t t' \<and> (case e of Answered \<Rightarrow> \<exists>n ls'. ended i Delivered n ls' t' | GaveUp _ _ _ \<Rightarrow> True)"
  using res
proof (induction "Suc deliveryMaxRetries - attempt" arbitrary: attempt attempts ls err w t)
  case 0
  then show ?case by (auto simp: deliver_loop.simps [of os])
next
  case (Suc m)
  have lt: "\<not> deliveryMaxRetries < attempt" and m: "m = Suc deliveryMaxRetries - Suc attempt" using Suc.hyps(2) by simp_all
  note unf = deliver_loop.simps [of os hmac dl sleep dbs webhook i body attempt attempts ls err w t]
  consider (same) n ls' err' where "t' = t" "e = GaveUp n ls' err'"
    | (sent) n ls' where "t' = record_row (dbs attempt) i Delivered n ls' '''' t" "e = Answered"
    | (again) n ls' err' w2 where "deliver_loop os hmac dl sleep dbs webhook i body (Suc attempt) n ls' err' w2
        (record_row (dbs attempt) i Pending n ls' err' t) = (w', t', e)"
    using Suc.prems unf lt by (auto simp: Let_def split: prod.splits sum.splits if_splits)
  then show ?case
  proof cases
    case same
    then show ?thesis by simp
  next
    case sent
    have "ended i Delivered n ls' t'" unfolding sent(1) by (rule record_row_ended [OF up])
    then show ?thesis using sent record_row_only by auto
  next
    case again
    from Suc.hyps(1) [OF m this] show ?thesis using only_row_trans [OF record_row_only] by auto
  qed
qed

lemma Deliver_settles:
  assumes up: "\<And>k. \<not> nd_down (dbs k)" and res: "Deliver marshal os hmac dbs dl rc event w t = (w', t')"
  shows "only_row (dl_ID (rc_Delivery rc)) t t' \<and> (\<forall>r \<in> set (dt_rows t'). dl_ID r = dl_ID (rc_Delivery rc) \<longrightarrow> dl_Status r \<noteq> Pending)"
proof -
  let ?i = "dl_ID (rc_Delivery rc)"
  have E: "\<forall>r \<in> set (dt_rows t'). dl_ID r = ?i \<longrightarrow> dl_Status r \<noteq> Pending" if "ended ?i s n ls t'" "s \<noteq> Pending" for s n ls
    using that by (auto simp: ended_def)
  consider (bad) k n ls err where "t' = record_row (dbs k) ?i DeliveryFailed n ls err t"
    | (ok) body w1 t1 where "deliver_loop os hmac dl (sleepWithBackoff os dl) dbs (rc_Webhook rc) ?i body 0 0 None '''' w t = (w1, t1, Answered)" "t' = t1"
    | (failed) body w1 t1 n ls err where "deliver_loop os hmac dl (sleepWithBackoff os dl) dbs (rc_Webhook rc) ?i body 0 0 None '''' w t = (w1, t1, GaveUp n ls err)"
        "t' = record_row (dbs (Suc deliveryMaxRetries)) ?i DeliveryFailed n ls err t1"
    using res by (auto simp: Deliver_def Let_def split: sum.splits prod.splits deliver_end.splits)
  then show ?thesis
  proof cases
    case bad
    have "ended ?i DeliveryFailed n ls t'" unfolding bad by (rule record_row_ended [OF up])
    then show ?thesis using E record_row_only bad by auto
  next
    case ok
    then show ?thesis using deliver_loop_settles [OF up ok(1)] E by auto
  next
    case failed
    have "ended ?i DeliveryFailed n ls t'" unfolding failed(2) by (rule record_row_ended [OF up])
    moreover have "only_row ?i t t'" using deliver_loop_settles [OF up failed(1)] only_row_trans [OF _ record_row_only] failed(2) by auto
    ultimately show ?thesis using E by auto
  qed
qed

definition job_id :: "deliveryJob \<Rightarrow> int" where
  "job_id j = dl_ID (rc_Delivery (j_recipient j))"

text \<open>The jobs nobody has delivered: refused by a full queue, about to be offered, queued.\<close>

definition waiting :: "NotifyDispatcher \<Rightarrow> deliveryJob list" where
  "waiting d = n_dropped d @ n_pushing d @ ln_q (n_jobs d)"

definition pending_ids :: "int \<Rightarrow> deliveries \<Rightarrow> int set" where
  "pending_ids n0 t = dl_ID ` {r \<in> set (dt_rows t). n0 \<le> dl_ID r \<and> dl_Status r = Pending}"

definition numbered :: "int \<Rightarrow> deliveries \<Rightarrow> bool" where
  "numbered n0 t \<longleftrightarrow> distinct (map dl_ID (dt_rows t)) \<and> (\<forall>r \<in> set (dt_rows t). dl_ID r < dt_next t) \<and> n0 \<le> dt_next t"

definition accounted :: "int \<Rightarrow> NotifyDispatcher \<Rightarrow> bool" where
  "accounted n0 d \<longleftrightarrow> numbered n0 (ns_deliveries (n_store d)) \<and> distinct (map job_id (waiting d)) \<and>
     pending_ids n0 (ns_deliveries (n_store d)) = job_id ` set (waiting d)"

lemma only_row_ids: "only_row i t t' \<Longrightarrow> map dl_ID (dt_rows t') = map dl_ID (dt_rows t)"
  by (auto simp: only_row_def list_all2_conv_all_nth intro: nth_equalityI)

lemma ids_numbered:
  assumes "map dl_ID (dt_rows t') = map dl_ID (dt_rows t)" "dt_next t' = dt_next t" "numbered n0 t"
  shows "numbered n0 t'"
proof -
  have "dl_ID ` set (dt_rows t') = dl_ID ` set (dt_rows t)" using assms(1) by (metis set_map)
  moreover have "\<forall>x \<in> dl_ID ` set (dt_rows t). x < dt_next t" using assms(3) by (auto simp: numbered_def)
  ultimately have "\<forall>r \<in> set (dt_rows t'). dl_ID r < dt_next t" by (metis image_eqI)
  then show ?thesis using assms by (simp add: numbered_def)
qed

lemma list_all2_partner:
  assumes "list_all2 P xs ys" "x \<in> set xs"
  shows "\<exists>y \<in> set ys. P x y"
proof -
  obtain k where "k < length xs" "xs ! k = x" using assms(2) by (auto simp: in_set_conv_nth)
  then show ?thesis using assms(1) by (intro bexI [of _ "ys ! k"]) (auto simp: list_all2_conv_all_nth)
qed

lemma only_row_pending:
  assumes "only_row i t t'" "\<forall>r \<in> set (dt_rows t'). dl_ID r = i \<longrightarrow> dl_Status r \<noteq> Pending"
  shows "pending_ids n0 t' = pending_ids n0 t - {i}"
proof -
  have A: "\<exists>r' \<in> set (dt_rows t'). dl_ID r' = dl_ID r \<and> (dl_ID r = i \<or> r' = r)" if "r \<in> set (dt_rows t)" for r
    by (rule list_all2_partner [OF _ that]) (use assms(1) in \<open>simp add: only_row_def\<close>)
  have B: "\<exists>r \<in> set (dt_rows t). dl_ID r' = dl_ID r \<and> (dl_ID r = i \<or> r' = r)" if "r' \<in> set (dt_rows t')" for r'
    by (rule list_all2_partner [OF _ that, of "\<lambda>r' r. dl_ID r' = dl_ID r \<and> (dl_ID r = i \<or> r' = r)"])
      (use assms(1) in \<open>simp add: only_row_def list_all2_conv_all_nth\<close>)
  show ?thesis
  proof (intro equalityI subsetI)
    fix x
    assume "x \<in> pending_ids n0 t'"
    then obtain r' where r': "r' \<in> set (dt_rows t')" "n0 \<le> dl_ID r'" "dl_Status r' = Pending" "x = dl_ID r'" by (auto simp: pending_ids_def)
    then have "dl_ID r' \<noteq> i" using assms(2) by blast
    moreover obtain r where "r \<in> set (dt_rows t)" "dl_ID r' = dl_ID r" "dl_ID r = i \<or> r' = r" using B [OF r'(1)] by blast
    ultimately have "r' \<in> set (dt_rows t)" by auto
    then show "x \<in> pending_ids n0 t - {i}" using r' \<open>dl_ID r' \<noteq> i\<close> unfolding pending_ids_def by blast
  next
    fix x
    assume "x \<in> pending_ids n0 t - {i}"
    then obtain r where r: "r \<in> set (dt_rows t)" "n0 \<le> dl_ID r" "dl_Status r = Pending" "x = dl_ID r" "x \<noteq> i" by (auto simp: pending_ids_def)
    then have "r \<in> set (dt_rows t')" using A [OF r(1)] by auto
    then show "x \<in> pending_ids n0 t'" using r unfolding pending_ids_def by blast
  qed
qed

lemma appended_pending:
  assumes "numbered n0 t" "dt_rows t' = dt_rows t @ new" "dt_next t' = dt_next t + int (length new)"
    and "map dl_ID new = map (\<lambda>k. dt_next t + int k) [0..<length new]" "\<forall>x \<in> set new. dl_Status x = Pending"
  shows "numbered n0 t'" "pending_ids n0 t' = pending_ids n0 t \<union> dl_ID ` set new" "pending_ids n0 t \<inter> dl_ID ` set new = {}"
proof -
  have ids: "dl_ID ` set new = (\<lambda>k. dt_next t + int k) ` {0..<length new}"
    using arg_cong [OF assms(4), of set] by simp
  have "distinct (map dl_ID new)" unfolding assms(4) by (simp add: distinct_map inj_on_def)
  moreover have range: "dt_next t \<le> x \<and> x < dt_next t + int (length new)" if "x \<in> dl_ID ` set new" for x
    using that unfolding ids by auto
  moreover have old: "x < dt_next t" if "x \<in> dl_ID ` set (dt_rows t)" for x using that assms(1) by (auto simp: numbered_def)
  ultimately show "numbered n0 t'"
    using assms(1-3) unfolding numbered_def by (fastforce simp: distinct_append)
  have "n0 \<le> dl_ID x" if "x \<in> set new" for x using range [of "dl_ID x"] that assms(1) by (auto simp: numbered_def)
  then show "pending_ids n0 t' = pending_ids n0 t \<union> dl_ID ` set new" using assms(2,5) by (auto simp: pending_ids_def)
  show "pending_ids n0 t \<inter> dl_ID ` set new = {}"
  proof (rule equals0I)
    fix x
    assume "x \<in> pending_ids n0 t \<inter> dl_ID ` set new"
    then have "x < dt_next t" "dt_next t \<le> x" using old [of x] range [of x] by (auto simp: pending_ids_def)
    then show False by simp
  qed
qed

lemma accountedD:
  assumes "accounted n0 d"
  shows "numbered n0 (ns_deliveries (n_store d))" "distinct (map job_id (waiting d))"
    "pending_ids n0 (ns_deliveries (n_store d)) = job_id ` set (waiting d)"
  using assms by (simp_all add: accounted_def)

lemma accounted_same:
  assumes "accounted n0 d" "waiting d' = waiting d" "ns_deliveries (n_store d') = ns_deliveries (n_store d)"
  shows "accounted n0 d'"
  using assms by (simp add: accounted_def)

lemma distinct_without: "distinct (xs @ x # ys) \<Longrightarrow> distinct (xs @ ys) \<and> set (xs @ ys) = set (xs @ x # ys) - {x}"
  by auto

lemma accounted_fanout:
  assumes acc: "accounted n0 d" and up: "\<And>k. \<not> nd_down (dbs k)" and st: "fanout_take dbs presence d = Some d'"
  shows "accounted n0 d'"
proof -
  obtain event l st where t: "n_pushing d = []" "take_one 0 (n_events d) = Some (event, l)"
    using st by (auto simp: fanout_take_def split: if_splits option.splits)
  obtain st' r where R: "Recipients dbs (if n_cancelled d then Inl (External ''context canceled'') else presence) event (n_store d) = (st', r)"
    by fastforce
  from Recipients_rows [OF R] up obtain new where new: "dt_rows (ns_deliveries st') = dt_rows (ns_deliveries (n_store d)) @ new"
    "dt_next (ns_deliveries st') = dt_next (ns_deliveries (n_store d)) + int (length new)"
    "map dl_ID new = map (\<lambda>k. dt_next (ns_deliveries (n_store d)) + int k) [0..<length new]" "\<forall>x \<in> set new. dl_Status x = Pending"
    "\<And>rs. r = Inr rs \<Longrightarrow> map (dl_ID \<circ> rc_Delivery) rs = map dl_ID new" "\<not> isl r" by blast
  obtain rs where rs: "r = Inr rs" using new(6) by (cases r) auto
  define jobs where "jobs = map (\<lambda>r. \<lparr>j_recipient = r, j_event = event\<rparr>) rs"
  have d': "d' = d\<lparr>n_events := l, n_store := st', n_pushing := jobs\<rparr>" using st t R rs by (simp add: fanout_take_def jobs_def)
  have ids: "map job_id jobs = map dl_ID new" using new(5) [OF rs] by (simp add: jobs_def job_id_def comp_def)
  note A = accountedD [OF acc]
  note P = appended_pending [OF A(1) new(1-4)]
  have w: "waiting d' = n_dropped d @ jobs @ ln_q (n_jobs d)" "waiting d = n_dropped d @ ln_q (n_jobs d)" using d' t by (simp_all add: waiting_def)
  have "job_id ` set jobs = dl_ID ` set new" using arg_cong [OF ids, of set] by (simp only: set_map)
  moreover have "distinct (map job_id jobs)" unfolding ids new(3) by (simp add: distinct_map inj_on_def)
  ultimately show ?thesis using P A(2,3) w d' unfolding accounted_def by (auto simp: image_Un)
qed

lemma accounted_push:
  assumes "accounted n0 d" "fanout_push d = Some d'"
  shows "accounted n0 d'"
proof -
  obtain job jobs where p: "n_pushing d = job # jobs" using assms(2) by (auto simp: fanout_push_def split: list.splits)
  have "ns_deliveries (n_store d') = ns_deliveries (n_store d) \<and>
      (waiting d' = n_dropped d @ jobs @ ln_q (n_jobs d) @ [job] \<or> waiting d' = (n_dropped d @ [job]) @ jobs @ ln_q (n_jobs d))"
    using assms(2) p by (auto simp: fanout_push_def waiting_def offer_def split: if_splits)
  then show ?thesis using assms(1) p unfolding accounted_def waiting_def [of d] by auto
qed

lemma accounted_deliver:
  assumes acc: "accounted n0 d" and up: "\<And>k. \<not> nd_down (dbs k)" and st: "deliver_take marshal os hmac dbs i d = Some d'"
  shows "accounted n0 d'"
proof -
  obtain job l where j: "take_one i (n_jobs d) = Some (job, l)" using st by (auto simp: deliver_take_def split: option.splits)
  obtain w t where D: "Deliver marshal os hmac dbs (delivery_deadline d) (j_recipient job) (j_event job) (n_net d) (ns_deliveries (n_store d)) = (w, t)"
    by fastforce
  have d': "d' = d\<lparr>n_jobs := l, n_net := w, n_store := (n_store d)\<lparr>ns_deliveries := t\<rparr>\<rparr>" using st j D by (simp add: deliver_take_def)
  have q: "ln_q (n_jobs d) = job # ln_q l" using j by (auto simp: take_one_def split: if_splits list.splits)
  note A = accountedD [OF acc]
  note S = Deliver_settles [OF up D, folded job_id_def]
  have "pending_ids n0 t = pending_ids n0 (ns_deliveries (n_store d)) - {job_id job}" using only_row_pending S by blast
  moreover have "numbered n0 t" using ids_numbered [OF only_row_ids [OF conjunct1 [OF S]]] S A(1) by (simp add: only_row_def)
  moreover have "waiting d' = n_dropped d @ n_pushing d @ ln_q l" "waiting d = n_dropped d @ n_pushing d @ job # ln_q l"
    using d' q by (simp_all add: waiting_def)
  ultimately show ?thesis using A(2,3) d' distinct_without [of "map job_id (n_dropped d @ n_pushing d)" "job_id job" "map job_id (ln_q l)"]
    unfolding accounted_def by (simp add: image_Un)
qed

lemma accounted_own:
  assumes "accounted n0 d" "own_turn marshal os hmac (\<lambda>dbs. \<forall>k. \<not> nd_down (dbs k)) d d'"
  shows "accounted n0 d'"
  using assms(2)
proof cases
  case (fan_stops)
  have "waiting d' = waiting d \<and> n_store d' = n_store d" using fan_stops by (auto simp: fanout_turn_def waiting_def split: if_splits)
  then show ?thesis using accounted_same [OF assms(1)] by simp
next
  case (job_stops i)
  have "waiting d' = waiting d \<and> n_store d' = n_store d"
    using job_stops by (auto simp: deliver_turn_def waiting_def see_stop_def leave_def split: if_splits)
  then show ?thesis using accounted_same [OF assms(1)] by simp
qed (use accounted_fanout [OF assms(1)] accounted_push [OF assms(1)] accounted_deliver [OF assms(1)] in blast)+

lemma accounted_reach:
  assumes "notify_reach marshal os hmac (\<lambda>dbs. \<forall>k. \<not> nd_down (dbs k)) d0 d" "accounted n0 d0"
  shows "accounted n0 d"
  using assms
proof induction
  case (own d d')
  then show ?case using accounted_own by blast
next
  case (enqueued d event)
  show ?case by (rule accounted_same [OF enqueued.IH]) (use enqueued.prems in \<open>auto simp: Enqueue_def waiting_def split: prod.split\<close>)
next
  case (shut d)
  show ?case by (rule accounted_same [OF shut.IH]) (use shut.prems in \<open>auto simp: Notify_Close_def close_stop_def waiting_def split: option.split\<close>)
next
  case (timed_out d)
  show ?case by (rule accounted_same [OF timed_out.IH]) (use timed_out.prems in \<open>auto simp: Notify_cancel_def waiting_def\<close>)
next
  case (registered d ws ss)
  show ?case by (rule accounted_same [OF registered.IH]) (use registered.prems in \<open>auto simp: waiting_def\<close>)
qed


text \<open>
  After \<^verbatim>\<open>Close\<close> has cancelled the context the drain is fast: a delivery worker that takes a job makes no request and waits for
  nothing, and the job's row ends failed with one attempt on record, so no row is left hanging by a slow receiver.
\<close>

theorem cancelled_jobs_settle:
  assumes "n_cancelled d" "\<And>k. \<not> nd_down (dbs k)" "deliver_take marshal os hmac dbs i d = Some d'" "\<And>p. \<not> isl (marshal p)"
  shows "\<exists>job. ln_q (n_jobs d) = job # ln_q (n_jobs d') \<and> n_net d' = n_net d \<and>
    only_row (job_id job) (ns_deliveries (n_store d)) (ns_deliveries (n_store d')) \<and>
    ended (job_id job) DeliveryFailed 1 None (ns_deliveries (n_store d'))"
proof -
  obtain job l where j: "take_one i (n_jobs d) = Some (job, l)" using assms(3) by (auto simp: deliver_take_def split: option.splits)
  obtain w t where D: "Deliver marshal os hmac dbs (delivery_deadline d) (j_recipient job) (j_event job) (n_net d) (ns_deliveries (n_store d)) = (w, t)"
    by fastforce
  have d': "d' = d\<lparr>n_jobs := l, n_net := w, n_store := (n_store d)\<lparr>ns_deliveries := t\<rparr>\<rparr>" using assms(3) j D by (simp add: deliver_take_def)
  obtain body where m: "marshal \<lparr>wp_Event = ''message.created'', wp_EventID = me_EventID (j_event job),
      wp_Recipient = wh_UserID (rc_Webhook (j_recipient job)), wp_Data = j_event job\<rparr> = Inr body" using assms(4) by (metis isl_def sum.exhaust)
  have "delivery_deadline d \<le> nw_now (n_net d)" using assms(1) by (simp add: delivery_deadline_def)
  from cancelled_delivery [OF this assms(2) m D]
  have C: "nw_sent w = nw_sent (n_net d)" "nw_now w = nw_now (n_net d)" "only_row (job_id job) (ns_deliveries (n_store d)) t"
    "ended (job_id job) DeliveryFailed 1 None t" by (simp_all add: job_id_def)
  have "w = n_net d" using C(1,2) by simp
  moreover have "ln_q (n_jobs d) = job # ln_q l" using j by (auto simp: take_one_def split: if_splits list.splits)
  ultimately show ?thesis using C(3,4) d' by (intro exI [of _ job]) simp
qed

section \<open>A run\<close>

definition ex_net :: "string net" where
  "ex_net = \<lparr>nw_now = 0, nw_sent = []\<rparr>"

definition ex_lane1 :: "worker \<Rightarrow> nat option \<Rightarrow> 'e list \<Rightarrow> 'e list \<Rightarrow> 'e lane" where
  "ex_lane1 wk stop dn q = \<lparr>ln_q = q, ln_workers = [wk], ln_stop = stop, ln_accepted = dn @ q, ln_done = dn\<rparr>"

definition ex_state :: "worker \<Rightarrow> nat option \<Rightarrow> MessageEvent list \<Rightarrow> MessageEvent list \<Rightarrow> worker \<Rightarrow> nat option \<Rightarrow> deliveryJob list \<Rightarrow> deliveryJob list \<Rightarrow> notify_store \<Rightarrow> NotifyDispatcher" where
  "ex_state wfan sf dn q wj sj p jq st =
     \<lparr>n_events = ex_lane1 wfan sf dn q, n_jobs = ex_lane1 wj sj [] jq, n_pushing = p, n_dropped = [],
       n_cancelled = False, n_store = st, n_net = ex_net\<rparr>"

abbreviation up_db :: "(nat \<Rightarrow> ndb) \<Rightarrow> bool" where
  "up_db \<equiv> \<lambda>dbs. \<forall>k. \<not> nd_down (dbs k)"

lemma ex_recipients:
  obtains t r where "Recipients (\<lambda>_. ex_ndb) (Inr [8]) ex_message ex_store = (ex_store\<lparr>ns_deliveries := t\<rparr>, Inr [r])"
proof -
  have d: "distinct (map wh_UserID (ns_webhooks ex_store))" by (simp add: ex_store_def ex_hook_def)
  show thesis by (rule Recipients_up [OF ex_up d, of "Inr [8]" ex_message]) (use that in \<open>auto simp: ex_wanted map_eq_Cons_conv\<close>)
qed

lemma ex_run:
  obtains d job where "notify_reach marshal os hmac up_db (New_NotifyDispatcher 1 ex_store ex_net) d"
    "ln_accepted (n_events d) = [ex_message]" "ln_stop (n_events d) = Some 1" "ln_workers (n_events d) = [Exited]"
    "ln_workers (n_jobs d) = [Exited]" "ln_q (n_jobs d) = [job]" "n_pushing d = []" "n_dropped d = []"
proof -
  let ?R = "notify_reach marshal os hmac up_db (New_NotifyDispatcher 1 ex_store ex_net)"
  obtain t r where rec: "Recipients (\<lambda>_. ex_ndb) (Inr [8]) ex_message ex_store = (ex_store\<lparr>ns_deliveries := t\<rparr>, Inr [r])" by (rule ex_recipients)
  define job where "job = \<lparr>j_recipient = r, j_event = ex_message\<rparr>"
  have ownI: "?R d'" if "?R d" "own_turn marshal os hmac up_db d d'" for d d' using that by (rule notify_reach.own)
  note sim = ex_state_def ex_lane1_def
  have "?R (fst (Enqueue ex_message (New_NotifyDispatcher 1 ex_store ex_net)))" by (rule enqueued [OF begun])
  then have "?R (ex_state Running None [] [ex_message] Running None [] [] ex_store)"
    by (simp add: Enqueue_def New_NotifyDispatcher_def new_lane_def offer_def eventQueueSize_def sim)
  from shut [OF this] have "?R (ex_state Running (Some 1) [] [ex_message] Running (Some 0) [] [] ex_store)"
    by (simp add: Notify_Close_def close_stop_def sim)
  then have "?R (ex_state Running (Some 1) [] [ex_message] Draining (Some 0) [] [] ex_store)"
    by (rule ownI, intro job_stops [of 0]) (simp add: deliver_turn_def see_stop_def sim)
  then have "?R (ex_state Running (Some 1) [] [ex_message] Exited (Some 0) [] [] ex_store)"
    by (rule ownI, intro job_stops [of 0]) (simp add: deliver_turn_def leave_def sim)
  then have "?R (ex_state Draining (Some 1) [] [ex_message] Exited (Some 0) [] [] ex_store)"
    by (rule ownI, intro fan_stops) (simp add: fanout_turn_def see_stop_def sim)
  then have "?R (ex_state Draining (Some 1) [ex_message] [] Exited (Some 0) [job] [] (ex_store\<lparr>ns_deliveries := t\<rparr>))"
    by (rule ownI, intro fan_taken [of _ "\<lambda>_. ex_ndb" "Inr [8]"]) (simp_all add: ex_ndb_def [THEN arg_cong, of nd_down] fanout_take_def take_one_def rec job_def sim)
  then have "?R (ex_state Draining (Some 1) [ex_message] [] Exited (Some 0) [] [job] (ex_store\<lparr>ns_deliveries := t\<rparr>))"
    by (rule ownI, intro fan_pushed) (simp add: fanout_push_def offer_def deliveryQueueSize_def sim)
  then have "?R (ex_state Exited (Some 1) [ex_message] [] Exited (Some 0) [] [job] (ex_store\<lparr>ns_deliveries := t\<rparr>))"
    by (rule ownI, intro fan_stops) (simp add: fanout_turn_def leave_def sim)
  from that [OF this, of job] show thesis by (simp add: sim)
qed

lemma ex_numbered:
  "distinct (map dl_ID (dt_rows (ns_deliveries ex_store)))"
  "list_all (\<lambda>r. dl_ID r < dt_next (ns_deliveries ex_store)) (dt_rows (ns_deliveries ex_store))"
  by (simp_all add: ex_store_def)


theorem notify_queues_witness:
  "\<exists>d :: NotifyDispatcher. lane_ok 256 (n_events d) \<and> Exited \<in> set (ln_workers (n_events d)) \<and> ln_accepted (n_events d) = [ex_message]"
proof -
  obtain d job where d: "notify_reach (\<lambda>_. Inr ''{}'') ex_receiver (\<lambda>k m. k @ m) up_db (New_NotifyDispatcher 1 ex_store ex_net) d"
    "ln_accepted (n_events d) = [ex_message]" "ln_stop (n_events d) = Some 1" "ln_workers (n_events d) = [Exited]"
    "ln_workers (n_jobs d) = [Exited]" "ln_q (n_jobs d) = [job]" "n_pushing d = []" "n_dropped d = []"
    by (rule ex_run [of "\<lambda>_. Inr ''{}''" ex_receiver "\<lambda>k m. k @ m"])
  from notify_queues [OF d(1)] d(2,4) show ?thesis by auto
qed

text \<open>
  \<^verbatim>\<open>Close\<close> can strand a delivery.  There is a run with the database up in which an event is accepted
  (202) before \<^verbatim>\<open>Close\<close>, every worker then exits on its own, and the delivery job the fan-out worker queued
  while draining is still in the queue with its row pending: the delivery workers drained an empty queue and
  left before the fan-out worker filled it.
\<close>

theorem close_strands_delivery:
  "\<exists>d job. notify_reach marshal os hmac up_db (New_NotifyDispatcher 1 ex_store ex_net) d \<and>
     ln_accepted (n_events d) = [ex_message] \<and> ln_stop (n_events d) = Some 1 \<and>
     set (ln_workers (n_events d) @ ln_workers (n_jobs d)) = {Exited} \<and>
     ln_q (n_jobs d) = [job] \<and> pending_ids 1 (ns_deliveries (n_store d)) = {job_id job}"
proof -
  obtain d job where d: "notify_reach marshal os hmac up_db (New_NotifyDispatcher 1 ex_store ex_net) d"
    "ln_accepted (n_events d) = [ex_message]" "ln_stop (n_events d) = Some 1" "ln_workers (n_events d) = [Exited]"
    "ln_workers (n_jobs d) = [Exited]" "ln_q (n_jobs d) = [job]" "n_pushing d = []" "n_dropped d = []" by (rule ex_run)
  have "accounted 1 (New_NotifyDispatcher 1 ex_store ex_net)"
    by (simp add: accounted_def numbered_def New_NotifyDispatcher_def waiting_def new_lane_def pending_ids_def ex_store_def)
  from accountedD(3) [OF accounted_reach [OF d(1) this]] d show ?thesis by (auto simp: waiting_def)
qed

section \<open>Shutdown ends\<close>

definition notify_work :: "NotifyDispatcher \<Rightarrow> nat \<times> nat \<times> nat" where
  "notify_work d = (lane_work (n_events d), length (n_pushing d), lane_work (n_jobs d))"

definition work_less :: "(NotifyDispatcher \<times> NotifyDispatcher) set" where
  "work_less = inv_image (less_than <*lex*> less_than <*lex*> less_than) notify_work"

lemma wf_work_less: "wf work_less"
  by (simp add: work_less_def wf_inv_image wf_lex_prod)

lemmas lane_progress = worker_step_progress [OF taken] worker_step_progress [OF stop_seen] worker_step_progress [OF left]

lemma own_turn_work:
  assumes "own_turn marshal os hmac good d d'"
  shows "(d', d) \<in> work_less"
  using assms
  by cases
    (auto simp: work_less_def notify_work_def notify_defs offer_def
      split: if_splits option.splits list.splits prod.splits sum.splits bool.splits intro: lane_progress)

lemma own_turn_stop:
  assumes "own_turn marshal os hmac good d d'"
  shows "ln_stop (n_events d') = ln_stop (n_events d) \<and> ln_stop (n_jobs d') = ln_stop (n_jobs d)"
  using assms
  by cases
    (auto simp: notify_defs offer_def take_one_def see_stop_def leave_def
      split: if_splits option.splits list.splits prod.splits sum.splits bool.splits)

lemma own_turn_enabled:
  assumes good: "good dbs" and stop: "ln_stop (n_events d) \<noteq> None" "ln_stop (n_jobs d) \<noteq> None" and one: "length (ln_workers (n_events d)) = 1"
    and busy: "n_pushing d \<noteq> [] \<or> \<not> set (ln_workers (n_events d) @ ln_workers (n_jobs d)) \<subseteq> {Exited}"
  shows "\<exists>d'. own_turn marshal os hmac good d d'"
proof (cases "n_pushing d")
  case (Cons job jobs)
  then have "\<exists>d'. fanout_push d = Some d'" by (auto simp: fanout_push_def split: prod.split bool.split)
  then show ?thesis using fan_pushed by blast
next
  case Nil
  consider wk where "wk \<in> set (ln_workers (n_events d))" "wk \<noteq> Exited" | wk where "wk \<in> set (ln_workers (n_jobs d))" "wk \<noteq> Exited"
    using busy Nil by auto
  then show ?thesis
  proof cases
    case 1
    then obtain l where "worker_step (n_events d) l" using worker_step_enabled stop(1) by blast
    then show ?thesis
    proof cases
      case (taken i e)
      then have "i = 0" using one by (auto simp: take_one_def split: if_splits)
      then have "\<exists>d'. fanout_take dbs (Inr []) d = Some d'" using taken Nil by (auto simp: fanout_take_def split: prod.split sum.split)
      then show ?thesis using fan_taken good by blast
    next
      case (stop_seen i)
      then have "i = 0" using one by (auto simp: see_stop_def split: if_splits)
      then have "\<exists>d'. fanout_turn see_stop d = Some d'" using stop_seen Nil by (auto simp: fanout_turn_def)
      then show ?thesis using fan_stops by blast
    next
      case (left i)
      then have "i = 0" using one by (auto simp: leave_def split: if_splits)
      then have "\<exists>d'. fanout_turn leave d = Some d'" using left Nil by (auto simp: fanout_turn_def)
      then show ?thesis using fan_stops by blast
    qed
  next
    case 2
    then obtain l where "worker_step (n_jobs d) l" using worker_step_enabled stop(2) by blast
    then show ?thesis
    proof cases
      case (taken i e)
      then have "\<exists>d'. deliver_take marshal os hmac dbs i d = Some d'" by (auto simp: deliver_take_def split: prod.split)
      then show ?thesis using job_taken good by blast
    next
      case (stop_seen i)
      then have "\<exists>d'. deliver_turn i see_stop d = Some d'" by (auto simp: deliver_turn_def)
      then show ?thesis using job_stops by blast
    next
      case (left i)
      then have "\<exists>d'. deliver_turn i leave d = Some d'" by (auto simp: deliver_turn_def)
      then show ?thesis using job_stops by blast
    qed
  qed
qed

lemma own_turns_reach:
  "(own_turn marshal os hmac good)\<^sup>*\<^sup>* d d' \<Longrightarrow> notify_reach marshal os hmac good d0 d \<Longrightarrow> notify_reach marshal os hmac good d0 d'"
  by (induction rule: rtranclp_induct) (auto intro: own)

lemma own_turns_stop:
  "(own_turn marshal os hmac good)\<^sup>*\<^sup>* d d' \<Longrightarrow> ln_stop (n_events d') = ln_stop (n_events d) \<and> ln_stop (n_jobs d') = ln_stop (n_jobs d)"
  by (induction rule: rtranclp_induct) (auto dest: own_turn_stop)

text \<open>
  C31: \<^verbatim>\<open>Close\<close> ends.  Once it has been called, in whatever reachable state and whatever the database does, the
  workers cannot go on forever, and wherever they stop all of them have exited, no job is left half offered, and every
  event accepted before \<^verbatim>\<open>Close\<close> has been taken for its fan-out.
\<close>

theorem notify_shutdown:
  assumes "notify_reach marshal os hmac (\<lambda>_. True) (New_NotifyDispatcher n st w) d" "ln_stop (n_events d) = Some m" "ln_stop (n_jobs d) \<noteq> None"
  shows "(\<nexists>f. f 0 = d \<and> (\<forall>k. own_turn marshal os hmac (\<lambda>_. True) (f k) (f (Suc k)))) \<and>
    (\<forall>d'. (own_turn marshal os hmac (\<lambda>_. True))\<^sup>*\<^sup>* d d' \<and> (\<nexists>d''. own_turn marshal os hmac (\<lambda>_. True) d' d'') \<longrightarrow>
      set (ln_workers (n_events d') @ ln_workers (n_jobs d')) \<subseteq> {Exited} \<and> n_pushing d' = [] \<and>
      prefix (take m (ln_accepted (n_events d'))) (ln_done (n_events d')))"
proof (intro conjI allI impI)
  show "\<nexists>f. f 0 = d \<and> (\<forall>k. own_turn marshal os hmac (\<lambda>_. True) (f k) (f (Suc k)))"
    using wf_work_less own_turn_work unfolding wf_iff_no_infinite_down_chain by metis
next
  fix d'
  assume e: "(own_turn marshal os hmac (\<lambda>_. True))\<^sup>*\<^sup>* d d' \<and> (\<nexists>d''. own_turn marshal os hmac (\<lambda>_. True) d' d'')"
  note I = notify_lane_inv [OF own_turns_reach [OF conjunct1 [OF e] assms(1)]]
  have stop: "ln_stop (n_events d') = Some m" "ln_stop (n_jobs d') \<noteq> None" using own_turns_stop [OF conjunct1 [OF e]] assms(2,3) by simp_all
  have one: "length (ln_workers (n_events d')) = 1" using I lane_invD(3) by blast
  have q: "set (ln_workers (n_events d') @ ln_workers (n_jobs d')) \<subseteq> {Exited}" "n_pushing d' = []"
    using own_turn_enabled [of "\<lambda>_. True" undefined d' marshal os hmac] stop one e by auto
  then show "set (ln_workers (n_events d') @ ln_workers (n_jobs d')) \<subseteq> {Exited}" "n_pushing d' = []" by auto
  have "Exited \<in> set (ln_workers (n_events d'))" using one q(1) by (cases "ln_workers (n_events d')") auto
  then show "prefix (take m (ln_accepted (n_events d'))) (ln_done (n_events d'))"
    using lane_inv_ok [OF conjunct1 [OF I]] stop(1) by (simp add: lane_ok_def)
qed

theorem notify_shutdown_witness:
  "\<exists>d :: NotifyDispatcher. ln_accepted (n_events d) = [ex_message] \<and>
    (\<nexists>f. f 0 = d \<and> (\<forall>k. own_turn (\<lambda>_. Inr ''{}'') ex_receiver (\<lambda>k m. k @ m) (\<lambda>_. True) (f k) (f (Suc k))))"
proof -
  let ?d = "Notify_Close (fst (Enqueue ex_message (New_NotifyDispatcher 1 ex_store ex_net)))"
  have r: "notify_reach (\<lambda>_. Inr ''{}'') ex_receiver (\<lambda>k m. k @ m) (\<lambda>_. True) (New_NotifyDispatcher 1 ex_store ex_net) ?d"
    by (rule shut [OF enqueued [OF begun]])
  have "ln_stop (n_events ?d) = Some 1" "ln_stop (n_jobs ?d) \<noteq> None" "ln_accepted (n_events ?d) = [ex_message]"
    by (simp_all add: Enqueue_def New_NotifyDispatcher_def new_lane_def offer_def eventQueueSize_def Notify_Close_def close_stop_def)
  with notify_shutdown [OF r] show ?thesis by blast
qed

end
