(* ===== verification/NotificationMain.thy ===== *)
theory NotificationMain
  imports Routes NotifyDispatch Config
begin

text \<open>
  \<^verbatim>\<open>notification-service/cmd/notification/main.go\<close>: the routes of theory \<^theory_text>\<open>Routes\<close> over the controllers of theories
  \<^theory_text>\<open>Webhooks\<close>, \<^theory_text>\<open>Fanout\<close> and \<^theory_text>\<open>NotifyDispatch\<close>.  The state is the dispatcher together with the tables it works on; an
  \<open>nworld\<close> is what a request meets: the database at its queries, randomness, and the decoded bodies.
\<close>

section \<open>The process\<close>

record nworld =
  xw_rid :: string
  xw_db :: ndb
  xw_db' :: ndb
  xw_rand :: "goerror + string"
  xw_url :: "string option"
  xw_room :: "string option"
  xw_event :: "MessageEvent option"

datatype notification_json = AccountJSON notify_json | DeliveriesJSON "Delivery list" | QueuedJSON string

text \<open>
  Start-up.  Loopback webhook URLs are allowed only when \<^verbatim>\<open>WEBHOOK_ALLOW_LOOPBACK\<close> is exactly \<^verbatim>\<open>true\<close>; \<open>parse\<close> and \<open>ParseIP\<close> are
  \<^verbatim>\<open>url.Parse\<close> and \<^verbatim>\<open>net.ParseIP\<close>, \<open>out\<close> the network the deliverers write to.
\<close>

definition notification_start ::
  "env \<Rightarrow> (string \<Rightarrow> notify_store result) \<Rightarrow> (notify_store \<Rightarrow> unit result) \<Rightarrow> (string \<Rightarrow> parsed_url option) \<Rightarrow> (string \<Rightarrow> ip option) \<Rightarrow>
   string net \<Rightarrow> fatal + (notification_Config \<times> WebhookService \<times> NotifyDispatcher)" where
  "notification_start env sql_Open ping parse ParseIP out =
     (case notification_LoadConfig env of
        Inl e \<Rightarrow> Inl e
      | Inr cfg \<Rightarrow>
     case notification_NewDatabase sql_Open ping cfg of
        Inl e \<Rightarrow> Inl e
      | Inr store \<Rightarrow>
     (let allowLoopback = (case env ''WEBHOOK_ALLOW_LOOPBACK'' of None \<Rightarrow> False | Some v \<Rightarrow> v = ''true'')
      in Inr (cfg, \<lparr>ws_parse = parse, ws_ParseIP = ParseIP, ws_allowLoopback = allowLoopback\<rparr>,
              New_NotifyDispatcher (nat (n_DeliveryWorkers cfg)) store out)))"

definition notification_guard ::
  "notification_Config \<Rightarrow> guard \<Rightarrow> echo_context \<Rightarrow> NotifyDispatcher \<Rightarrow> NotifyDispatcher \<times> (reject + echo_context)" where
  "notification_guard cfg x cx d =
     (d, case x of
           APIKey \<Rightarrow> notification_APIKeyMiddleware (n_NotificationAPIKey cfg) cx
         | GatewayAuth \<Rightarrow> notification_GatewayAuthMiddleware (n_GatewayKey cfg) cx
         | _ \<Rightarrow> Inr cx)"

definition on_webhooks ::
  "NotifyDispatcher \<Rightarrow> Webhook list \<times> notify_json response \<Rightarrow> NotifyDispatcher \<times> notification_json served_json response" where
  "on_webhooks d x =
     (d\<lparr>n_store := (n_store d)\<lparr>ns_webhooks := fst x\<rparr>\<rparr>, lift_response (\<lambda>v. Served (AccountJSON v)) (snd x))"

definition on_subs ::
  "NotifyDispatcher \<Rightarrow> Subscription list \<times> notify_json response \<Rightarrow> NotifyDispatcher \<times> notification_json served_json response" where
  "on_subs d x =
     (d\<lparr>n_store := (n_store d)\<lparr>ns_subs := fst x\<rparr>\<rparr>, lift_response (\<lambda>v. Served (AccountJSON v)) (snd x))"

definition notification_handle ::
  "WebhookService \<Rightarrow> nworld \<Rightarrow> notification_handler \<Rightarrow> echo_context \<Rightarrow> NotifyDispatcher \<Rightarrow> NotifyDispatcher \<times> notification_json served_json response" where
  "notification_handle svc w h cx d =
     (let ws = ns_webhooks (n_store d); ss = ns_subs (n_store d) in
      case h of
        NHealth \<Rightarrow> (d, reply cx 200 (JSON (Status ''ok'')))
      | NMessage \<Rightarrow> map_prod id (lift_response (\<lambda>v. Served (QueuedJSON v))) (EventController_Message (xw_event w) cx d)
      | NPutWebhook \<Rightarrow> on_webhooks d (WebhookController_Put svc (xw_rand w) (xw_db w) (xw_db' w) (xw_url w) cx ws)
      | NGetWebhook \<Rightarrow> (d, lift_response (\<lambda>v. Served (AccountJSON v)) (WebhookController_Get (xw_db w) cx ws))
      | NDeleteWebhook \<Rightarrow> on_webhooks d (WebhookController_Delete (xw_db w) cx ws)
      | NSubscribe \<Rightarrow> on_subs d (SubscriptionController_Subscribe (xw_db w) (xw_room w) cx ss)
      | NListSubscriptions \<Rightarrow> (d, lift_response (\<lambda>v. Served (AccountJSON v)) (SubscriptionController_List (xw_db w) cx ss))
      | NUnsubscribe \<Rightarrow> on_subs d (SubscriptionController_Unsubscribe (xw_db w) cx ss)
      | NListDeliveries \<Rightarrow>
          (d, lift_response (\<lambda>v. Served (DeliveriesJSON v)) (DeliveryController_List (xw_db w) cx (ns_deliveries (n_store d)))))"

definition notification_serve ::
  "router \<Rightarrow> (echo_context \<Rightarrow> notification_json served_json response) \<Rightarrow> notification_Config \<Rightarrow> WebhookService \<Rightarrow> nworld \<Rightarrow> echo_context \<Rightarrow>
   NotifyDispatcher \<Rightarrow> NotifyDispatcher \<times> notification_json served_json response" where
  "notification_serve rfind unrouted cfg svc w cx d =
     serve_routes rfind notification_routes (notification_guard cfg) (notification_handle svc w)
       (\<lambda>cx rej. reply cx (fst rej) (JSON_error (snd rej))) unrouted (RequestIDMiddleware (xw_rid w) cx) d"

section \<open>Whose data a request touches\<close>

definition account :: "int \<Rightarrow> NotifyDispatcher \<Rightarrow> Webhook list \<times> Subscription list" where
  "account v d =
     (filter (\<lambda>w. wh_UserID w = v) (ns_webhooks (n_store d)), filter (\<lambda>s. sb_UserID s = v) (ns_subs (n_store d)))"

lemma Upsert_foreign: "wh_UserID x \<noteq> v \<Longrightarrow> filter (\<lambda>w. wh_UserID w = v) (fst (Upsert db x ws)) = filter (\<lambda>w. wh_UserID w = v) ws"
proof -
  assume x: "wh_UserID x \<noteq> v"
  have "filter (\<lambda>w. wh_UserID w = v) (map (\<lambda>w. if wh_UserID w = wh_UserID x then f w else w) ws) = filter (\<lambda>w. wh_UserID w = v) ws"
    if "\<And>w. wh_UserID (f w) = wh_UserID w" for f
    using x that by (induction ws) auto
  then show ?thesis using x by (simp add: Upsert_def)
qed

lemma webhooks_foreign:
  assumes "cx_user_id cx = Some u" "u \<noteq> v"
  shows "filter (\<lambda>w. wh_UserID w = v) (fst (WebhookController_Put svc rnd db db' bind cx ws)) = filter (\<lambda>w. wh_UserID w = v) ws"
    and "filter (\<lambda>w. wh_UserID w = v) (fst (WebhookController_Delete db cx ws)) = filter (\<lambda>w. wh_UserID w = v) ws"
proof -
  have "filter (\<lambda>w. wh_UserID w = v) (fst (WebhookService_Put svc rnd db db' u url ws)) = filter (\<lambda>w. wh_UserID w = v) ws" for url
  proof -
    have up: "filter (\<lambda>w. wh_UserID w = v) (fst (Upsert db \<lparr>wh_UserID = u, wh_URL = url, wh_Secret = s, wh_CreatedAt = 0, wh_UpdatedAt = 0\<rparr> ws)) =
        filter (\<lambda>w. wh_UserID w = v) ws" for s
      by (rule Upsert_foreign) (simp add: assms(2))
    show ?thesis
      using up by (simp add: WebhookService_Put_def Let_def split_beta split: sum.split)
  qed
  then show "filter (\<lambda>w. wh_UserID w = v) (fst (WebhookController_Put svc rnd db db' bind cx ws)) = filter (\<lambda>w. wh_UserID w = v) ws"
    using assms(1) by (simp add: WebhookController_Put_def userIDFrom_def split_beta split: option.split sum.split)
  have "filter (\<lambda>w. wh_UserID w = v) (fst (DeleteByUserID db u ws)) = filter (\<lambda>w. wh_UserID w = v) ws"
    using assms(2) by (auto simp: DeleteByUserID_def intro: filter_cong)
  then show "filter (\<lambda>w. wh_UserID w = v) (fst (WebhookController_Delete db cx ws)) = filter (\<lambda>w. wh_UserID w = v) ws"
    using assms(1) by (simp add: WebhookController_Delete_def userIDFrom_def split_beta split: option.split sum.split)
qed

lemma subs_foreign:
  assumes "cx_user_id cx = Some u" "u \<noteq> v"
  shows "filter (\<lambda>s. sb_UserID s = v) (fst (SubscriptionController_Subscribe db bind cx ss)) = filter (\<lambda>s. sb_UserID s = v) ss"
    and "filter (\<lambda>s. sb_UserID s = v) (fst (SubscriptionController_Unsubscribe db cx ss)) = filter (\<lambda>s. sb_UserID s = v) ss"
proof -
  have c: "filter (\<lambda>s. sb_UserID s = v) (fst (Subscribe db u room ss)) = filter (\<lambda>s. sb_UserID s = v) ss" for room
    using assms(2) by (auto simp: Subscribe_def Subscription_Create_def split: sum.split)
  have "filter (\<lambda>s. sb_UserID s = v) (fst (Unsubscribe db u room ss)) = filter (\<lambda>s. sb_UserID s = v) ss" for room
    using assms(2) by (auto simp: Unsubscribe_def Subscription_Delete_def same_sub_def split: sum.split intro: filter_cong)
  with c show "filter (\<lambda>s. sb_UserID s = v) (fst (SubscriptionController_Subscribe db bind cx ss)) = filter (\<lambda>s. sb_UserID s = v) ss"
    and "filter (\<lambda>s. sb_UserID s = v) (fst (SubscriptionController_Unsubscribe db cx ss)) = filter (\<lambda>s. sb_UserID s = v) ss"
    using assms(1)
    by (simp_all add: SubscriptionController_Subscribe_def SubscriptionController_Unsubscribe_def userIDFrom_def split_beta
        split: option.split sum.split)
qed

definition gateway_user :: "notification_Config \<Rightarrow> request \<Rightarrow> int option" where
  "gateway_user cfg r =
     (if Header_Get (req_header r) ''X-Gateway-Key'' = n_GatewayKey cfg
      then (case ParseInt (Header_Get (req_header r) ''X-User-ID'') of Some u \<Rightarrow> if 0 < u then Some u else None | None \<Rightarrow> None)
      else None)"

definition notification_key :: "notification_Config \<Rightarrow> request \<Rightarrow> bool" where
  "notification_key cfg r \<longleftrightarrow> Header_Get (req_header r) ''X-Notification-Key'' = n_NotificationAPIKey cfg"

lemma GatewayAuth_user:
  "notification_GatewayAuthMiddleware (n_GatewayKey cfg) cx =
     (case gateway_user cfg (cx_req cx) of
        Some u \<Rightarrow> Inr (cx\<lparr>cx_user_id := Some u\<rparr>)
      | None \<Rightarrow> Inl (401, if Header_Get (req_header (cx_req cx)) ''X-Gateway-Key'' = n_GatewayKey cfg
                        then ''missing or invalid user identity'' else ''requests must come through the gateway''))"
  by (auto simp: notification_GatewayAuthMiddleware_def gateway_user_def split: option.split)

lemma notification_serve_routed:
  assumes "routed rfind notification_routes (cx_req cx) rt ps"
  shows "notification_serve rfind unrouted cfg svc w cx d =
    (case run_guards (notification_guard cfg) (rt_guards rt) ((RequestIDMiddleware (xw_rid w) cx)\<lparr>cx_param := ps\<rparr>) d of
       (d', Inl (cx', rej)) \<Rightarrow> (d', reply cx' (fst rej) (JSON_error (snd rej)))
     | (d', Inr cx') \<Rightarrow> notification_handle svc w (rt_handler rt) cx' d')"
proof -
  have "routed rfind notification_routes (cx_req (RequestIDMiddleware (xw_rid w) cx)) rt ps"
    using assms by (simp add: RequestIDMiddleware_def Let_def)
  then show ?thesis unfolding notification_serve_def by (rule serve_routed)
qed

lemma notification_serve_cases [consumes 1, case_names same health event user]:
  assumes "echo_router rfind"
  obtains "fst (notification_serve rfind unrouted cfg svc w cx d) = d"
  | cx' where "notification_serve rfind unrouted cfg svc w cx d = notification_handle svc w NHealth cx' d"
  | cx' where "notification_serve rfind unrouted cfg svc w cx d = notification_handle svc w NMessage cx' d" "notification_key cfg (cx_req cx)"
  | h cx' u where "h \<notin> {NHealth, NMessage}" "gateway_user cfg (cx_req cx) = Some u" "cx_user_id cx' = Some u"
      "notification_serve rfind unrouted cfg svc w cx d = notification_handle svc w h cx' d"
proof (cases "rfind (keys notification_routes) (req_method (cx_req cx)) (req_path (cx_req cx)) = None")
  case True
  then have "fst (notification_serve rfind unrouted cfg svc w cx d) = d"
    by (simp add: notification_serve_def serve_routes_def RequestIDMiddleware_def Let_def)
  then show thesis by (rule that(1))
next
  case False
  obtain rt ps where rt: "routed rfind notification_routes (cx_req cx) rt ps"
    using echo_router.routed_some [OF assms tables_no_wildcards(4) False] by auto
  note s = notification_serve_routed [OF rt, of unrouted cfg svc w d]
  have req: "cx_req ((RequestIDMiddleware (xw_rid w) cx)\<lparr>cx_param := ps\<rparr>) = cx_req cx" by (simp add: RequestIDMiddleware_def Let_def)
  have "(rt_guards rt = [] \<and> rt_handler rt = NHealth) \<or> (rt_guards rt = [APIKey] \<and> rt_handler rt = NMessage) \<or>
      (rt_guards rt = [GatewayAuth] \<and> rt_handler rt \<notin> {NHealth, NMessage})"
    using routed_mem [OF rt] by (auto simp: notification_routes_def)
  then consider (1) "rt_guards rt = []" "rt_handler rt = NHealth" | (2) "rt_guards rt = [APIKey]" "rt_handler rt = NMessage"
    | (3) "rt_guards rt = [GatewayAuth]" "rt_handler rt \<notin> {NHealth, NMessage}" by blast
  then show thesis
  proof cases
    case 1
    then show ?thesis using s by (intro that(2)) simp
  next
    case 2
    then show ?thesis
      using s that(1,3) req
      by (cases "notification_key cfg (cx_req cx)") (simp_all add: notification_guard_def notification_APIKeyMiddleware_def notification_key_def)
  next
    case 3
    show ?thesis
    proof (cases "gateway_user cfg (cx_req cx)")
      case None
      then show ?thesis using s 3(1) req by (intro that(1)) (simp add: notification_guard_def GatewayAuth_user)
    next
      case (Some u)
      then show ?thesis using s 3(1) req by (intro that(4) [OF 3(2) Some]) (simp_all add: notification_guard_def GatewayAuth_user)
    qed
  qed
qed

section \<open>Properties\<close>

text \<open>
  Users cannot touch each other's notification data.  Whatever HTTP request notification-service gets, a
  user's webhook and subscriptions are the same afterwards unless the request carried the gateway's key
  and that user's id as \<^verbatim>\<open>X-User-ID\<close>; and the queue of message events is the same unless it carried the
  notification API key.
\<close>

lemma tenant_isolation:
  assumes "echo_router rfind" "notification_serve rfind unrouted cfg svc w cx d = (d', resp)"
  shows "(account v d' = account v d \<or> gateway_user cfg (cx_req cx) = Some v) \<and>
    (n_events d' = n_events d \<or> notification_key cfg (cx_req cx))"
proof -
  have d': "d' = fst (notification_serve rfind unrouted cfg svc w cx d)" using assms(2) by simp
  show ?thesis
    using assms(1)
  proof (cases rule: notification_serve_cases [where unrouted = unrouted and cfg = cfg and svc = svc and w = w and cx = cx and d = d])
    case same
    then show ?thesis using d' by simp
  next
    case (health cx')
    then show ?thesis using d' by (simp add: notification_handle_def Let_def)
  next
    case (event cx')
    have "n_store (fst (EventController_Message bind cx' d)) = n_store d" for bind
      by (auto simp: EventController_Message_def Enqueue_def split: option.split sum.split prod.split bool.split)
    then show ?thesis using event d' by (simp add: notification_handle_def Let_def account_def)
  next
    case (user h cx' u)
    have "account v d' = account v d" if "u \<noteq> v"
      using user(1) d' webhooks_foreign [OF user(3) that] subs_foreign [OF user(3) that]
      by (cases h) (simp_all add: user(4) notification_handle_def Let_def account_def on_webhooks_def on_subs_def)
    moreover have "n_events d' = n_events d"
      using user(1) d' by (cases h) (simp_all add: user(4) notification_handle_def Let_def on_webhooks_def on_subs_def)
    ultimately show ?thesis using user(2) by auto
  qed
qed

lemma events_untouched:
  assumes "echo_router rfind" "\<And>rt ps. routed rfind notification_routes (cx_req cx) rt ps \<Longrightarrow> rt_handler rt \<noteq> NMessage"
  shows "n_events (fst (notification_serve rfind unrouted cfg svc w cx d)) = n_events d"
proof (cases "rfind (keys notification_routes) (req_method (cx_req cx)) (req_path (cx_req cx)) = None")
  case True
  then show ?thesis by (simp add: notification_serve_def serve_routes_def RequestIDMiddleware_def Let_def)
next
  case False
  obtain rt ps where rt: "routed rfind notification_routes (cx_req cx) rt ps"
    using echo_router.routed_some [OF assms(1) tables_no_wildcards(4) False] by auto
  have "fst (run_guards (notification_guard cfg) xs cx' d) = d" for xs cx'
    by (induction xs arbitrary: cx') (simp_all add: notification_guard_def split: sum.split)
  moreover have "n_events (fst (notification_handle svc w (rt_handler rt) cx' d)) = n_events d" for cx'
    using assms(2) [OF rt] by (cases "rt_handler rt") (simp_all add: notification_handle_def Let_def on_webhooks_def on_subs_def)
  ultimately show ?thesis
    unfolding notification_serve_routed [OF rt] by (auto simp: split_beta split: sum.split)
qed

text \<open>A service with one subscription, and a request body that asks for another.\<close>

definition ex_nworld :: nworld where
  "ex_nworld = \<lparr>xw_rid = ''b'', xw_db = \<lparr>nd_coll = id, nd_now = 5, nd_down = False\<rparr>, xw_db' = \<lparr>nd_coll = id, nd_now = 5, nd_down = False\<rparr>,
     xw_rand = Inr ''r'', xw_url = None, xw_room = Some ''general'', xw_event = None\<rparr>"

definition ex_nconfig :: notification_Config where
  "ex_nconfig = \<lparr>n_DBHost = ''h'', n_DBPort = ''3307'', n_DBUser = ''u'', n_DBPassword = ''w'', n_DBName = ''d'', n_ServerPort = ''8003'', n_GatewayKey = ''g'', n_NotificationAPIKey = ''n'', n_PresenceServiceURL = ''u'',
     n_PresenceAPIKey = ''p'', n_DeliveryWorkers = 4\<rparr>"

definition ex_ndispatcher :: NotifyDispatcher where
  "ex_ndispatcher = New_NotifyDispatcher 4 \<lparr>ns_webhooks = [], ns_subs = [\<lparr>sb_UserID = 7, sb_Room = ''r'', sb_CreatedAt = 1\<rparr>],
     ns_deliveries = \<lparr>dt_rows = [], dt_next = 1\<rparr>\<rparr> ex_net"

end
