(* ===== verification/Media.thy ===== *)
theory Media
  imports Auth
begin

text \<open>
  media-service: the content-addressed store \<^verbatim>\<open>storage/store.go\<close> and \<^verbatim>\<open>controller/media_controller.go\<close>.  The
  directory is a map from file names to contents; a metadata file is kept as the value it encodes.  SHA-256 and
  \<^verbatim>\<open>http.DetectContentType\<close> are parameters (\<open>sha\<close>, \<open>detect\<close>); what the disk does to one call is the argument \<open>dk\<close>.
\<close>

section \<open>store.go\<close>

record Meta =
  md_Hash :: string
  md_ContentType :: string
  md_Size :: int

datatype content = Raw string | MetaJSON Meta

datatype merror = ErrNotFound | ErrTooLarge | ErrUnsupportedType string | IOError string

record Store =
  ms_maxBytes :: int
  ms_files :: "string \<Rightarrow> content option"

text \<open>
  An \<^verbatim>\<open>io.Reader\<close>: the bytes it yields, and whether it then fails instead of ending.
\<close>

record reader =
  rd_data :: string
  rd_err :: bool

text \<open>
  The disk during one \<^verbatim>\<open>Put\<close>: the random part of the temporary name (\<open>None\<close> when \<^verbatim>\<open>CreateTemp\<close> fails), whether
  writing the temporary file fails, what becomes of \<^verbatim>\<open>os.WriteFile\<close> (which truncates first, so a failure can leave
  bytes that are no metadata), and whether the rename fails.
\<close>

datatype write_outcome = Written | NotOpened | Torn string

record disk =
  dk_tmp :: "string option"
  dk_copy_fails :: bool
  dk_meta :: write_outcome
  dk_rename_fails :: bool

definition allowedTypes :: "string list" where
  "allowedTypes = [''image/png'', ''image/jpeg'', ''image/gif'', ''image/webp'']"

definition hashPattern :: "string \<Rightarrow> bool" where
  "hashPattern hash \<longleftrightarrow> length hash = 64 \<and> list_all is_lower_hex hash"

definition objectPath :: "string \<Rightarrow> string" where
  "objectPath hash = hash"

definition metaPath :: "string \<Rightarrow> string" where
  "metaPath hash = hash @ ''.json''"

definition writeMeta :: "write_outcome \<Rightarrow> Meta \<Rightarrow> Store \<Rightarrow> Store \<times> (merror + unit)" where
  "writeMeta wo meta s =
     (case wo of
        Written \<Rightarrow> (s\<lparr>ms_files := (ms_files s)(metaPath (md_Hash meta) \<mapsto> MetaJSON meta)\<rparr>, Inr ())
      | NotOpened \<Rightarrow> (s, Inl (IOError ''open''))
      | Torn left \<Rightarrow> (s\<lparr>ms_files := (ms_files s)(metaPath (md_Hash meta) \<mapsto> Raw left)\<rparr>, Inl (IOError ''write'')))"

definition readMeta :: "bool \<Rightarrow> string \<Rightarrow> Store \<Rightarrow> merror + Meta" where
  "readMeta fails hash s =
     (case ms_files s (metaPath hash) of
        None \<Rightarrow> Inl ErrNotFound
      | Some raw \<Rightarrow>
          if fails then Inl (IOError ''read'')
          else (case raw of Raw _ \<Rightarrow> Inl (IOError ''json'') | MetaJSON meta \<Rightarrow> Inr meta))"

definition os_Remove :: "string \<Rightarrow> Store \<Rightarrow> Store" where
  "os_Remove name s = s\<lparr>ms_files := (ms_files s)(name := None)\<rparr>"

text \<open>\<^verbatim>\<open>io.Copy\<close> from the limited reader: what arrives, and whether it ended in an error.\<close>

definition copy_limited :: "int \<Rightarrow> reader \<Rightarrow> string \<times> bool" where
  "copy_limited limit r =
     (if limit \<le> int (length (rd_data r)) then (take (nat limit) (rd_data r), False) else (rd_data r, rd_err r))"

definition Put :: "(string \<Rightarrow> string) \<Rightarrow> (string \<Rightarrow> string) \<Rightarrow> disk \<Rightarrow> reader \<Rightarrow> Store \<Rightarrow> Store \<times> (merror + Meta)" where
  "Put sha detect dk r s =
     (let head = take 512 (rd_data r) in
      if rd_err r \<and> length (rd_data r) < 512 then (s, Inl (IOError ''read''))
      else
        (let contentType = detect head in
         if contentType \<notin> set allowedTypes then (s, Inl (ErrUnsupportedType contentType))
         else
           (case dk_tmp dk of
              None \<Rightarrow> (s, Inl (IOError ''create''))
            | Some rnd \<Rightarrow>
                (let tmpName = ''.upload-'' @ rnd in
                 if ms_files s tmpName \<noteq> None then (s, Inl (IOError ''create''))
                 else
                   (let (copied, err) = copy_limited (i64 (ms_maxBytes s + 1)) r;
                        s1 = s\<lparr>ms_files := (ms_files s)(tmpName \<mapsto> Raw copied)\<rparr>
                    in if err \<or> dk_copy_fails dk then (os_Remove tmpName s1, Inl (IOError ''copy''))
                       else if int (length copied) > ms_maxBytes s then (os_Remove tmpName s1, Inl ErrTooLarge)
                       else
                         (let hash = hex_EncodeToString (sha copied);
                              meta = \<lparr>md_Hash = hash, md_ContentType = contentType, md_Size = int (length copied)\<rparr>
                          in case writeMeta (dk_meta dk) meta s1 of
                               (s2, Inl e) \<Rightarrow> (os_Remove tmpName s2, Inl e)
                             | (s2, Inr _) \<Rightarrow>
                                 if dk_rename_fails dk then (os_Remove tmpName s2, Inl (IOError ''rename''))
                                 else (os_Remove tmpName (s2\<lparr>ms_files := (ms_files s2)(objectPath hash := ms_files s2 tmpName, tmpName := None)\<rparr>),
                                       Inr meta)))))))"

definition Store_Open :: "bool \<Rightarrow> bool \<Rightarrow> string \<Rightarrow> Store \<Rightarrow> merror + Meta \<times> string" where
  "Store_Open meta_fails open_fails hash s =
     (if \<not> hashPattern hash then Inl ErrNotFound
      else
        (case readMeta meta_fails hash s of
           Inl e \<Rightarrow> Inl e
         | Inr meta \<Rightarrow>
             (case ms_files s (objectPath hash) of
                None \<Rightarrow> Inl ErrNotFound
              | Some (Raw bytes) \<Rightarrow> if open_fails then Inl (IOError ''open'') else Inr (meta, bytes)
              | Some (MetaJSON _) \<Rightarrow> Inl (IOError ''open''))))"

section \<open>media\_controller.go\<close>

record UploadResponse =
  up_Hash :: string
  up_URL :: string
  up_ContentType :: string
  up_Size :: int

text \<open>\<open>form\<close> is \<^verbatim>\<open>c.FormFile\<close> followed by \<^verbatim>\<open>fileHeader.Open\<close>: either can fail.\<close>

definition MediaController_Upload ::
  "(string \<Rightarrow> string) \<Rightarrow> (string \<Rightarrow> string) \<Rightarrow> disk \<Rightarrow> (unit + (unit + reader)) \<Rightarrow> echo_context \<Rightarrow> Store \<Rightarrow> Store \<times> UploadResponse response" where
  "MediaController_Upload sha detect dk form cx s =
     (case form of
        Inl _ \<Rightarrow> (s, reply cx 400 (JSON_error ''multipart field 'file' is required''))
      | Inr (Inl _) \<Rightarrow> (s, reply cx 400 (JSON_error ''could not read upload''))
      | Inr (Inr file) \<Rightarrow>
          (case Put sha detect dk file s of
             (s1, Inl ErrTooLarge) \<Rightarrow> (s1, reply cx 413 (JSON_error ''file too large''))
           | (s1, Inl (ErrUnsupportedType t)) \<Rightarrow> (s1, reply cx 415 (JSON_error (''unsupported content type: '' @ t)))
           | (s1, Inl e) \<Rightarrow> (s1, reply cx 500 (JSON_error ''failed to store upload''))
           | (s1, Inr meta) \<Rightarrow>
               (s1, reply cx 201 (JSON \<lparr>up_Hash = md_Hash meta, up_URL = ''/media/'' @ md_Hash meta,
                  up_ContentType = md_ContentType meta, up_Size = md_Size meta\<rparr>))))"

definition setCacheHeaders :: "string \<Rightarrow> echo_context \<Rightarrow> echo_context" where
  "setCacheHeaders etag cx =
     set_resp ''Cache-Control'' ''public, max-age=31536000, immutable'' (set_resp ''ETag'' etag cx)"

definition MediaController_Get :: "bool \<Rightarrow> bool \<Rightarrow> echo_context \<Rightarrow> Store \<Rightarrow> UploadResponse response" where
  "MediaController_Get meta_fails open_fails cx s =
     (let hash = cx_param cx ''hash'';
          etag = CHR 0x22 # hash @ [CHR 0x22]
      in if Header_Get (req_header (cx_req cx)) ''If-None-Match'' = etag
         then reply (setCacheHeaders etag cx) 304 NoBody
         else
           (case Store_Open meta_fails open_fails hash s of
              Inl ErrNotFound \<Rightarrow> reply cx 404 (JSON_error ''not found'')
            | Inl e \<Rightarrow> reply cx 500 (JSON_error ''failed to read object'')
            | Inr (meta, file) \<Rightarrow>
                (let cx1 = set_resp ''Content-Length'' (FormatInt (md_Size meta)) (setCacheHeaders etag cx);
                     cx2 = set_resp ''X-Content-Type-Options'' ''nosniff'' cx1
                 in reply (set_resp ''Content-Type'' (md_ContentType meta) cx2) 200 (Blob file))))"

section \<open>What one upload does\<close>

definition address :: "(string \<Rightarrow> string) \<Rightarrow> string \<Rightarrow> string" where
  "address sha b = hex_EncodeToString (sha b)"

definition meta_of :: "(string \<Rightarrow> string) \<Rightarrow> (string \<Rightarrow> string) \<Rightarrow> string \<Rightarrow> Meta" where
  "meta_of sha detect b = \<lparr>md_Hash = address sha b, md_ContentType = detect (take 512 b), md_Size = int (length b)\<rparr>"

definition storable :: "(string \<Rightarrow> string) \<Rightarrow> int \<Rightarrow> string \<Rightarrow> bool" where
  "storable detect maxBytes b \<longleftrightarrow> detect (take 512 b) \<in> set allowedTypes \<and> int (length b) \<le> maxBytes"

definition sha_ok :: "(string \<Rightarrow> string) \<Rightarrow> bool" where
  "sha_ok sha \<longleftrightarrow> (\<forall>b. length (sha b) = 32)"

lemma md_Hash_meta_of [simp]: "md_Hash (meta_of sha detect b) = address sha b"
  by (simp add: meta_of_def)

lemma address_ok: "sha_ok sha \<Longrightarrow> hashPattern (address sha b)"
  by (simp add: hashPattern_def address_def sha_ok_def hex_all_lower)

lemma hash_not_tmp: "hashPattern h \<Longrightarrow> h \<noteq> ''.upload-'' @ rnd \<and> metaPath h \<noteq> ''.upload-'' @ rnd"
  by (cases h) (auto simp: hashPattern_def metaPath_def is_lower_hex_def)

lemma object_not_meta: "hashPattern h \<Longrightarrow> hashPattern h' \<Longrightarrow> objectPath h \<noteq> metaPath h'"
  using arg_cong [of h "h' @ ''.json''" length] by (auto simp: hashPattern_def metaPath_def objectPath_def)

lemma metaPath_inj [simp]: "metaPath h = metaPath h' \<longleftrightarrow> h = h'"
  by (simp add: metaPath_def)

lemma copy_limited_within:
  assumes "0 \<le> m" "m < 2 ^ 63 - 1" "copy_limited (i64 (m + 1)) r = (copied, err)" "\<not> err"
  shows "if int (length (rd_data r)) \<le> m then copied = rd_data r \<and> \<not> rd_err r else int (length copied) > m"
proof -
  have "int64_range (m + 1)" using assms(1,2) by (intro int64_rangeI) simp_all
  then show ?thesis using assms by (auto simp: copy_limited_def split: if_splits)
qed

lemma os_Remove_new: "ms_files s n = None \<Longrightarrow> os_Remove n (s\<lparr>ms_files := (ms_files s)(n \<mapsto> x)\<rparr>) = s"
  by (simp add: os_Remove_def fun_upd_idem)

lemma os_Remove_other:
  "ms_files s n = None \<Longrightarrow> k \<noteq> n \<Longrightarrow>
     os_Remove n (s\<lparr>ms_files := (ms_files s)(n \<mapsto> x, k \<mapsto> y)\<rparr>) = s\<lparr>ms_files := (ms_files s)(k \<mapsto> y)\<rparr>"
  by (simp add: os_Remove_def fun_upd_twist fun_upd_idem)

lemma Put_cases:
  assumes sha: "sha_ok sha" and m: "0 \<le> ms_maxBytes s" "ms_maxBytes s < 2 ^ 63 - 1"
    and put: "Put sha detect dk r s = (s', res)"
  obtains (same) e where "res = Inl e" "s' = s"
  | (meta_only) c e where "res = Inl e" "storable detect (ms_maxBytes s) (rd_data r)" "\<not> rd_err r"
      "c = MetaJSON (meta_of sha detect (rd_data r)) \<or> (\<exists>left. c = Raw left \<and> dk_meta dk = Torn left)"
      "s' = s\<lparr>ms_files := (ms_files s)(metaPath (address sha (rd_data r)) \<mapsto> c)\<rparr>"
  | (stored) "res = Inr (meta_of sha detect (rd_data r))" "storable detect (ms_maxBytes s) (rd_data r)" "\<not> rd_err r"
      "s' = s\<lparr>ms_files := (ms_files s)(metaPath (address sha (rd_data r)) \<mapsto> MetaJSON (meta_of sha detect (rd_data r)),
         address sha (rd_data r) \<mapsto> Raw (rd_data r))\<rparr>"
proof -
  let ?b = "rd_data r"
  show thesis
  proof (cases "(rd_err r \<and> length ?b < 512) \<or> detect (take 512 ?b) \<notin> set allowedTypes \<or> dk_tmp dk = None \<or>
      ms_files s (''.upload-'' @ the (dk_tmp dk)) \<noteq> None")
    case True
    then show thesis using put same by (auto simp: Put_def Let_def split: if_splits option.splits)
  next
    case False
    then obtain rnd where rnd: "dk_tmp dk = Some rnd" "ms_files s (''.upload-'' @ rnd) = None" by auto
    have F: "(rd_err r \<and> length ?b < 512) = False" "detect (take 512 ?b) \<in> set allowedTypes" using False by simp_all
    obtain copied err where cp: "copy_limited (i64 (ms_maxBytes s + 1)) r = (copied, err)" by fastforce
    define tmp where "tmp = ''.upload-'' @ rnd"
    have new: "ms_files s tmp = None" using rnd(2) by (simp add: tmp_def)
    let ?s1 = "s\<lparr>ms_files := (ms_files s)(tmp \<mapsto> Raw copied)\<rparr>"
    let ?meta = "\<lparr>md_Hash = hex_EncodeToString (sha copied), md_ContentType = detect (take 512 ?b), md_Size = int (length copied)\<rparr>"
    have P: "Put sha detect dk r s =
        (if err \<or> dk_copy_fails dk then (os_Remove tmp ?s1, Inl (IOError ''copy''))
         else if int (length copied) > ms_maxBytes s then (os_Remove tmp ?s1, Inl ErrTooLarge)
         else case writeMeta (dk_meta dk) ?meta ?s1 of
                (s2, Inl e) \<Rightarrow> (os_Remove tmp s2, Inl e)
              | (s2, Inr _) \<Rightarrow>
                  if dk_rename_fails dk then (os_Remove tmp s2, Inl (IOError ''rename''))
                  else (os_Remove tmp (s2\<lparr>ms_files := (ms_files s2)(objectPath (md_Hash ?meta) := ms_files s2 tmp, tmp := None)\<rparr>), Inr ?meta))"
      unfolding Put_def Let_def tmp_def by (simp only: F rnd cp if_False option.case prod.case not_not simp_thms Meta.simps)
    show thesis
    proof (cases "err \<or> dk_copy_fails dk \<or> int (length copied) > ms_maxBytes s")
      case True
      then show thesis using put same P os_Remove_new [OF new] by (auto split: if_splits)
    next
      case fine: False
      then have c: "copied = ?b" "\<not> rd_err r" "int (length ?b) \<le> ms_maxBytes s"
        using copy_limited_within [OF m cp] by (auto split: if_splits)
      have st: "storable detect (ms_maxBytes s) ?b" using False c(3) by (simp add: storable_def)
      have meta: "?meta = meta_of sha detect ?b" using c(1) by (simp add: meta_of_def address_def)
      have a: "address sha ?b \<noteq> tmp" "metaPath (address sha ?b) \<noteq> tmp" "address sha ?b \<noteq> metaPath (address sha ?b)"
        using hash_not_tmp [OF address_ok [OF sha]] by (auto simp: metaPath_def tmp_def)
      note W = os_Remove_other [OF new a(2)]
      have no: "(err \<or> dk_copy_fails dk) = False" "(int (length ?b) > ms_maxBytes s) = False" using fine c by auto
      have Q: "(case writeMeta (dk_meta dk) (meta_of sha detect ?b) (s\<lparr>ms_files := (ms_files s)(tmp \<mapsto> Raw ?b)\<rparr>) of
           (s2, Inl e) \<Rightarrow> (os_Remove tmp s2, Inl e)
         | (s2, Inr _) \<Rightarrow>
             if dk_rename_fails dk then (os_Remove tmp s2, Inl (IOError ''rename''))
             else (os_Remove tmp (s2\<lparr>ms_files := (ms_files s2)(objectPath (address sha ?b) := ms_files s2 tmp, tmp := None)\<rparr>),
                   Inr (meta_of sha detect ?b))) = (s', res)"
        using put unfolding P c(1) meta [unfolded c(1)] no md_Hash_meta_of by (simp only: if_False)
      show thesis
      proof (cases "dk_meta dk")
        case Written
        show thesis
        proof (cases "dk_rename_fails dk")
          case True
          then show thesis using Q Written W fine st c(2)
            by (intro meta_only [of "IOError ''rename''" "MetaJSON (meta_of sha detect ?b)"]) (auto simp: writeMeta_def)
        next
          case False
          then have "res = Inr (meta_of sha detect ?b)"
            "s' = os_Remove tmp (s\<lparr>ms_files := (ms_files s)(tmp \<mapsto> Raw ?b, metaPath (address sha ?b) \<mapsto> MetaJSON (meta_of sha detect ?b),
               address sha ?b \<mapsto> Raw ?b, tmp := None)\<rparr>)"
            using Q Written fine a by (auto simp: writeMeta_def objectPath_def)
          moreover have "(ms_files s)(tmp \<mapsto> Raw ?b, metaPath (address sha ?b) \<mapsto> MetaJSON (meta_of sha detect ?b),
               address sha ?b \<mapsto> Raw ?b, tmp := None) =
             (ms_files s)(metaPath (address sha ?b) \<mapsto> MetaJSON (meta_of sha detect ?b), address sha ?b \<mapsto> Raw ?b)"
            using a new by (auto simp: fun_eq_iff)
          moreover have "((ms_files s)(metaPath (address sha ?b) \<mapsto> MetaJSON (meta_of sha detect ?b), address sha ?b \<mapsto> Raw ?b)) tmp = None"
            using a new by auto
          ultimately show thesis using st c(2) stored by (simp add: os_Remove_def fun_upd_idem)
        qed
      next
        case NotOpened
        then show thesis using Q fine os_Remove_new [OF new] by (intro same [of "IOError ''open''"]) (auto simp: writeMeta_def)
      next
        case (Torn left)
        then show thesis using Q W fine st c(2)
          by (intro meta_only [of "IOError ''write''" "Raw left"]) (auto simp: writeMeta_def)
      qed
    qed
  qed
qed

section \<open>Many uploads\<close>

definition NewStore :: "int \<Rightarrow> Store" where
  "NewStore maxBytes = \<lparr>ms_maxBytes = maxBytes, ms_files = (\<lambda>_. None)\<rparr>"

inductive media_reach :: "(string \<Rightarrow> string) \<Rightarrow> (string \<Rightarrow> string) \<Rightarrow> string set \<Rightarrow> int \<Rightarrow> Store \<Rightarrow> bool" for sha detect U maxBytes where
  fresh: "media_reach sha detect U maxBytes (NewStore maxBytes)"
| upload: "media_reach sha detect U maxBytes s \<Longrightarrow> rd_data r \<in> U \<Longrightarrow> media_reach sha detect U maxBytes (fst (Put sha detect dk r s))"

text \<open>Every object holds bytes of its own address, and every readable metadata file describes such bytes.\<close>

definition store_inv :: "(string \<Rightarrow> string) \<Rightarrow> (string \<Rightarrow> string) \<Rightarrow> string set \<Rightarrow> int \<Rightarrow> Store \<Rightarrow> bool" where
  "store_inv sha detect U maxBytes s \<longleftrightarrow> ms_maxBytes s = maxBytes \<and>
     (\<forall>h. hashPattern h \<longrightarrow>
        (case ms_files s h of None \<Rightarrow> True | Some c \<Rightarrow> \<exists>b \<in> U. c = Raw b \<and> address sha b = h \<and> storable detect maxBytes b) \<and>
        (case ms_files s (metaPath h) of Some (MetaJSON m) \<Rightarrow> \<exists>b \<in> U. m = meta_of sha detect b \<and> address sha b = h \<and> storable detect maxBytes b
         | _ \<Rightarrow> True))"

lemma store_inv_meta:
  assumes "store_inv sha detect U maxBytes s" "sha_ok sha" "b \<in> U" "storable detect maxBytes b"
    and "c = MetaJSON (meta_of sha detect b) \<or> (\<exists>left. c = Raw left)"
  shows "store_inv sha detect U maxBytes (s\<lparr>ms_files := (ms_files s)(metaPath (address sha b) \<mapsto> c)\<rparr>)"
  using assms object_not_meta [OF _ address_ok [OF assms(2)], of _ b] unfolding store_inv_def objectPath_def
  by (auto split: option.splits content.splits)

lemma store_inv_object:
  assumes "store_inv sha detect U maxBytes s" "sha_ok sha" "b \<in> U" "storable detect maxBytes b"
  shows "store_inv sha detect U maxBytes (s\<lparr>ms_files := (ms_files s)(address sha b \<mapsto> Raw b)\<rparr>)"
  using assms object_not_meta [OF address_ok [OF assms(2)], of _ b] unfolding store_inv_def objectPath_def
  by (auto split: option.splits content.splits)

lemma store_inv_Put:
  assumes inv: "store_inv sha detect U maxBytes s" and sha: "sha_ok sha" and m: "0 \<le> maxBytes" "maxBytes < 2 ^ 63 - 1" and r: "rd_data r \<in> U"
  shows "store_inv sha detect U maxBytes (fst (Put sha detect dk r s))"
proof -
  obtain s' res where put: "Put sha detect dk r s = (s', res)" by fastforce
  have mx: "ms_maxBytes s = maxBytes" using inv by (simp add: store_inv_def)
  show ?thesis
  proof (rule Put_cases [OF sha m [folded mx] put])
    fix c e
    assume "storable detect (ms_maxBytes s) (rd_data r)"
      "c = MetaJSON (meta_of sha detect (rd_data r)) \<or> (\<exists>left. c = Raw left \<and> dk_meta dk = Torn left)"
      "s' = s\<lparr>ms_files := (ms_files s)(metaPath (address sha (rd_data r)) \<mapsto> c)\<rparr>"
    then show ?thesis using store_inv_meta [OF inv sha r] put mx by auto
  next
    assume st: "storable detect (ms_maxBytes s) (rd_data r)"
      and s': "s' = s\<lparr>ms_files := (ms_files s)(metaPath (address sha (rd_data r)) \<mapsto> MetaJSON (meta_of sha detect (rd_data r)),
         address sha (rd_data r) \<mapsto> Raw (rd_data r))\<rparr>"
    have "store_inv sha detect U maxBytes (s\<lparr>ms_files := (ms_files s)(metaPath (address sha (rd_data r)) \<mapsto> MetaJSON (meta_of sha detect (rd_data r)))\<rparr>)"
      using store_inv_meta [OF inv sha r] st mx by blast
    from store_inv_object [OF this sha r] show ?thesis using st mx put s' by simp
  qed (use inv put in simp)
qed

lemma store_inv_reach:
  assumes "media_reach sha detect U maxBytes s" "sha_ok sha" "0 \<le> maxBytes" "maxBytes < 2 ^ 63 - 1"
  shows "store_inv sha detect U maxBytes s"
  using assms(1) by induction (use assms(2-4) store_inv_Put in \<open>auto simp: store_inv_def NewStore_def\<close>)

lemma Open_inv:
  assumes "store_inv sha detect U maxBytes s" "inj_on sha U" "Store_Open f g h s = Inr (m, b)"
  shows "b \<in> U \<and> address sha b = h \<and> m = meta_of sha detect b \<and> storable detect maxBytes b"
proof -
  have h: "hashPattern h" and f: "ms_files s h = Some (Raw b)" "ms_files s (metaPath h) = Some (MetaJSON m)"
    using assms(3) by (auto simp: Store_Open_def readMeta_def objectPath_def split: if_splits option.splits content.splits sum.splits)
  have I: "(case ms_files s h of None \<Rightarrow> True | Some c \<Rightarrow> \<exists>b \<in> U. c = Raw b \<and> address sha b = h \<and> storable detect maxBytes b)"
    "(case ms_files s (metaPath h) of Some (MetaJSON m) \<Rightarrow> \<exists>b \<in> U. m = meta_of sha detect b \<and> address sha b = h \<and> storable detect maxBytes b | _ \<Rightarrow> True)"
    using assms(1) h unfolding store_inv_def by blast+
  from I f obtain b' where b: "b \<in> U" "address sha b = h" "storable detect maxBytes b"
    and b': "b' \<in> U" "m = meta_of sha detect b'" "address sha b' = h" by auto
  have "sha b = sha b'" using b(2) b'(3) hex_inj by (metis address_def)
  then have "b' = b" using assms(2) b(1) b'(1) by (auto dest: inj_onD)
  with b b' show ?thesis by simp
qed

text \<open>
  C28: the address is the content.  Whatever is uploaded, in whatever order and with whatever disk failures in between,
  an object that opens holds bytes whose SHA-256 is its name, of an allowed image type and within the size limit, and
  its metadata describes exactly these bytes; and as long as SHA-256 does not collide on what was uploaded, one URL
  never serves two different contents, however far apart it is asked: a cached copy cannot be stale.
\<close>

theorem media_content_addressed:
  assumes "sha_ok sha" "0 \<le> maxBytes" "maxBytes < 2 ^ 63 - 1" "inj_on sha U"
    and "media_reach sha detect U maxBytes s" "media_reach sha detect U maxBytes s'"
    and "Store_Open f g h s = Inr (m, b)" "Store_Open f' g' h s' = Inr (m', b')"
  shows "address sha b = h \<and> m = meta_of sha detect b \<and> storable detect maxBytes b \<and> b' = b \<and> m' = m"
proof -
  note O1 = Open_inv [OF store_inv_reach [OF assms(5,1-3)] assms(4,7)]
  note O2 = Open_inv [OF store_inv_reach [OF assms(6,1-3)] assms(4,8)]
  have "sha b = sha b'" using O1 O2 hex_inj by (metis address_def)
  then have "b' = b" using assms(4) O1 O2 by (auto dest: inj_onD)
  with O1 O2 show ?thesis by simp
qed

section \<open>Upload, then get\<close>

lemma Put_stored_open:
  assumes "sha_ok sha" "0 \<le> ms_maxBytes s" "ms_maxBytes s < 2 ^ 63 - 1" "Put sha detect dk r s = (s', Inr m)"
  shows "m = meta_of sha detect (rd_data r) \<and> storable detect (ms_maxBytes s) (rd_data r) \<and> ms_maxBytes s' = ms_maxBytes s \<and>
    Store_Open False False (md_Hash m) s' = Inr (m, rd_data r)"
proof (rule Put_cases [OF assms])
  assume r: "Inr m = (Inr (meta_of sha detect (rd_data r)) :: merror + Meta)" and st: "storable detect (ms_maxBytes s) (rd_data r)"
    and s': "s' = s\<lparr>ms_files := (ms_files s)(metaPath (address sha (rd_data r)) \<mapsto> MetaJSON (meta_of sha detect (rd_data r)),
      address sha (rd_data r) \<mapsto> Raw (rd_data r))\<rparr>"
  have "metaPath (address sha (rd_data r)) \<noteq> address sha (rd_data r)" by (simp add: metaPath_def)
  then show ?thesis using r st s' address_ok [OF assms(1)]
    by (simp add: Store_Open_def readMeta_def objectPath_def)
qed auto

lemma Put_keeps_open:
  assumes sha: "sha_ok sha" and m: "0 \<le> ms_maxBytes s" "ms_maxBytes s < 2 ^ 63 - 1"
    and op: "Store_Open False False (address sha b) s = Inr (meta_of sha detect b, b)"
    and inj: "inj_on sha (insert b (insert (rd_data r) {}))" and whole: "\<And>left. dk_meta dk \<noteq> Torn left"
  shows "Store_Open False False (address sha b) (fst (Put sha detect dk r s)) = Inr (meta_of sha detect b, b) \<and>
    ms_maxBytes (fst (Put sha detect dk r s)) = ms_maxBytes s"
proof -
  obtain s' res where put: "Put sha detect dk r s = (s', res)" by fastforce
  let ?a = "address sha (rd_data r)"
  have same: "b = rd_data r" if "address sha b = ?a"
    using inj hex_inj [OF that [unfolded address_def]] by (auto dest: inj_onD)
  have sep: "address sha b \<noteq> metaPath ?a" "?a \<noteq> metaPath (address sha b)"
    using object_not_meta [OF address_ok [OF sha, of b] address_ok [OF sha, of "rd_data r"]]
      object_not_meta [OF address_ok [OF sha, of "rd_data r"] address_ok [OF sha, of b]] by (simp_all add: objectPath_def)
  show ?thesis
  proof (rule Put_cases [OF sha m put])
    fix c e
    assume A: "c = MetaJSON (meta_of sha detect (rd_data r)) \<or> (\<exists>left. c = Raw left \<and> dk_meta dk = Torn left)"
      "s' = s\<lparr>ms_files := (ms_files s)(metaPath ?a \<mapsto> c)\<rparr>"
    then have "c = MetaJSON (meta_of sha detect (rd_data r))" using whole by blast
    then show ?thesis using A(2) op same sep put address_ok [OF sha]
      by (auto simp: Store_Open_def readMeta_def objectPath_def split: if_splits option.splits content.splits)
  next
    assume "s' = s\<lparr>ms_files := (ms_files s)(metaPath ?a \<mapsto> MetaJSON (meta_of sha detect (rd_data r)), ?a \<mapsto> Raw (rd_data r))\<rparr>"
    then show ?thesis using op same sep put address_ok [OF sha]
      by (auto simp: Store_Open_def readMeta_def objectPath_def split: if_splits option.splits content.splits)
  qed (use op put in simp)
qed

definition Puts :: "(string \<Rightarrow> string) \<Rightarrow> (string \<Rightarrow> string) \<Rightarrow> (disk \<times> reader) list \<Rightarrow> Store \<Rightarrow> Store" where
  "Puts sha detect ups s = fold (\<lambda>(dk, r) s. fst (Put sha detect dk r s)) ups s"

definition not_torn :: "disk \<Rightarrow> bool" where
  "not_torn dk \<longleftrightarrow> (case dk_meta dk of Torn _ \<Rightarrow> False | _ \<Rightarrow> True)"

lemma Puts_keep_open:
  assumes "sha_ok sha" "0 \<le> ms_maxBytes s" "ms_maxBytes s < 2 ^ 63 - 1"
    and "Store_Open False False (address sha b) s = Inr (meta_of sha detect b, b)"
    and "inj_on sha (insert b (set (map (rd_data \<circ> snd) ups)))" "list_all (\<lambda>(dk, r). not_torn dk) ups"
  shows "Store_Open False False (address sha b) (Puts sha detect ups s) = Inr (meta_of sha detect b, b)"
  using assms(2-)
proof (induction ups arbitrary: s)
  case (Cons u ups)
  obtain dk r where u: "u = (dk, r)" by fastforce
  have "Store_Open False False (address sha b) (fst (Put sha detect dk r s)) = Inr (meta_of sha detect b, b) \<and>
      ms_maxBytes (fst (Put sha detect dk r s)) = ms_maxBytes s"
  proof (rule Put_keeps_open [OF assms(1) Cons.prems(1-3)])
    show "inj_on sha {b, rd_data r}" by (rule inj_on_subset [OF Cons.prems(4)]) (auto simp: u)
    show "dk_meta dk \<noteq> Torn left" for left using Cons.prems(5) u by (auto simp: not_torn_def)
  qed
  moreover have "inj_on sha (insert b (set (map (rd_data \<circ> snd) ups)))" by (rule inj_on_subset [OF Cons.prems(4)]) auto
  ultimately show ?case using Cons.IH [of "fst (Put sha detect dk r s)"] Cons.prems u by (simp add: Puts_def)
qed (simp add: Puts_def)

text \<open>
  An upload that was answered with its hash can be fetched, and stays.  The metadata returned describes the bytes
  uploaded, which are an allowed image within the limit; opening that hash gives exactly these bytes and this
  metadata, and still does after any further uploads, of other or the same bytes, that succeed or fail without
  tearing a metadata file.
\<close>

theorem upload_then_open:
  assumes "sha_ok sha" "0 \<le> ms_maxBytes s" "ms_maxBytes s < 2 ^ 63 - 1" "Put sha detect dk r s = (s1, Inr m)"
    and "inj_on sha (insert (rd_data r) (set (map (rd_data \<circ> snd) ups)))" "list_all (\<lambda>(dk, r). not_torn dk) ups"
  shows "m = meta_of sha detect (rd_data r) \<and> storable detect (ms_maxBytes s) (rd_data r) \<and>
    Store_Open False False (md_Hash m) (Puts sha detect ups s1) = Inr (m, rd_data r)"
  using Put_stored_open [OF assms(1-4)] Puts_keep_open [OF assms(1) _ _ _ assms(5,6), of s1 detect] assms(2,3) by auto

definition healthy :: "string \<Rightarrow> disk" where
  "healthy rnd = \<lparr>dk_tmp = Some rnd, dk_copy_fails = False, dk_meta = Written, dk_rename_fails = False\<rparr>"

text \<open>
  C40: what an upload is answered when the disk works.  A missing or unreadable form file is a 400; a type outside the
  four image types a 415; a file over the limit, by as little as a byte, a 413; a body that breaks off a 500; none
  of them changes the store; and everything else is a 201 whose URL is the hash of the bytes.
\<close>

theorem upload_statuses:
  assumes "0 \<le> ms_maxBytes s" "ms_maxBytes s < 2 ^ 63 - 1" "ms_files s (''.upload-'' @ rnd) = None"
  shows "case MediaController_Upload sha detect (healthy rnd) form cx s of (s', resp) \<Rightarrow>
    (case form of
       Inr (Inr r) \<Rightarrow>
         if rd_err r \<and> length (rd_data r) < 512 then s' = s \<and> resp_status resp = 500
         else if detect (take 512 (rd_data r)) \<notin> set allowedTypes then s' = s \<and> resp_status resp = 415
         else if int (length (rd_data r)) > ms_maxBytes s then s' = s \<and> resp_status resp = 413
         else if rd_err r then s' = s \<and> resp_status resp = 500
         else resp_status resp = 201 \<and> resp_body resp = JSON \<lparr>up_Hash = address sha (rd_data r), up_URL = ''/media/'' @ address sha (rd_data r),
                up_ContentType = detect (take 512 (rd_data r)), up_Size = int (length (rd_data r))\<rparr>
     | _ \<Rightarrow> s' = s \<and> resp_status resp = 400)"
proof -
  have "case MediaController_Upload sha detect (healthy rnd) (Inr (Inr r)) cx s of (s', resp) \<Rightarrow>
         (if rd_err r \<and> length (rd_data r) < 512 then s' = s \<and> resp_status resp = 500
         else if detect (take 512 (rd_data r)) \<notin> set allowedTypes then s' = s \<and> resp_status resp = 415
         else if int (length (rd_data r)) > ms_maxBytes s then s' = s \<and> resp_status resp = 413
         else if rd_err r then s' = s \<and> resp_status resp = 500
         else resp_status resp = 201 \<and> resp_body resp = JSON \<lparr>up_Hash = address sha (rd_data r), up_URL = ''/media/'' @ address sha (rd_data r),
                up_ContentType = detect (take 512 (rd_data r)), up_Size = int (length (rd_data r))\<rparr>)" for r
  proof -
    have r64: "i64 (ms_maxBytes s + 1) = ms_maxBytes s + 1" using assms(1,2) by (intro i64_id int64_rangeI) simp_all
    show ?thesis
      using assms(1,3) os_Remove_new [OF assms(3)] unfolding MediaController_Upload_def Put_def Let_def healthy_def copy_limited_def r64
      by (simp add: writeMeta_def address_def split: if_splits)
  qed
  then show ?thesis by (cases form; cases "projr form") (auto simp: MediaController_Upload_def)
qed

section \<open>Concrete uploads\<close>

definition ex_sha :: "string \<Rightarrow> string" where
  "ex_sha b = take 32 (b @ replicate 32 CHR ''0'')"

definition ex_detect :: "string \<Rightarrow> string" where
  "ex_detect b = (if take 3 b = ''png'' then ''image/png'' else ''text/plain; charset=utf-8'')"

definition ex_reader :: reader where
  "ex_reader = \<lparr>rd_data = ''png1'', rd_err = False\<rparr>"

lemma ex_sha_ok: "sha_ok ex_sha"
  by (auto simp: sha_ok_def ex_sha_def min_def)

lemma ex_meta: "meta_of ex_sha ex_detect ''png1'' = \<lparr>md_Hash = address ex_sha ''png1'', md_ContentType = ''image/png'', md_Size = 4\<rparr>"
  by (simp add: meta_of_def ex_detect_def)

lemma ex_put:
  "Put ex_sha ex_detect (healthy ''a'') ex_reader (NewStore 10) =
     (fst (Put ex_sha ex_detect (healthy ''a'') ex_reader (NewStore 10)), Inr (meta_of ex_sha ex_detect ''png1''))"
proof -
  have "i64 11 = 11" by (rule i64_id) (simp add: int64_range_def)
  then have "snd (Put ex_sha ex_detect (healthy ''a'') ex_reader (NewStore 10)) = Inr (meta_of ex_sha ex_detect ''png1'')"
    by (simp add: Put_def NewStore_def healthy_def ex_reader_def ex_detect_def allowedTypes_def copy_limited_def writeMeta_def
        meta_of_def address_def Let_def)
  then show ?thesis by (metis prod.collapse)
qed

lemma ex_inj: "inj_on ex_sha {''png1'', ''png2''}"
  by (simp add: inj_on_def ex_sha_def)

theorem upload_then_open_witness:
  "\<exists>s1. Put ex_sha ex_detect (healthy ''a'') ex_reader (NewStore 10) = (s1, Inr (meta_of ex_sha ex_detect ''png1'')) \<and>
     Store_Open False False (address ex_sha ''png1'') (Puts ex_sha ex_detect [(healthy ''b'', \<lparr>rd_data = ''png2'', rd_err = False\<rparr>)] s1) =
       Inr (meta_of ex_sha ex_detect ''png1'', ''png1'')"
proof -
  have i: "inj_on ex_sha (insert (rd_data ex_reader) (set (map (rd_data \<circ> snd) [(healthy ''b'', \<lparr>rd_data = ''png2'', rd_err = False\<rparr>)])))"
    using ex_inj by (simp add: ex_reader_def)
  have t: "list_all (\<lambda>(dk, r :: reader). not_torn dk) [(healthy ''b'', \<lparr>rd_data = ''png2'', rd_err = False\<rparr>)]"
    by (simp add: not_torn_def healthy_def)
  show ?thesis using upload_then_open [OF ex_sha_ok _ _ ex_put i t] ex_put by (auto simp: NewStore_def ex_reader_def)
qed

theorem media_content_addressed_witness:
  "\<exists>s. media_reach ex_sha ex_detect {''png1''} 10 s \<and> Store_Open False False (address ex_sha ''png1'') s = Inr (meta_of ex_sha ex_detect ''png1'', ''png1'') \<and>
     storable ex_detect 10 ''png1''"
proof -
  let ?s = "fst (Put ex_sha ex_detect (healthy ''a'') ex_reader (NewStore 10))"
  have r: "media_reach ex_sha ex_detect {''png1''} 10 ?s" by (rule upload [OF fresh]) (simp add: ex_reader_def)
  have o1: "Store_Open False False (address ex_sha ''png1'') ?s = Inr (meta_of ex_sha ex_detect ''png1'', ''png1'')"
    using Put_stored_open [OF ex_sha_ok _ _ ex_put] by (simp add: NewStore_def ex_reader_def)
  show ?thesis using media_content_addressed [OF ex_sha_ok _ _ _ r r o1 o1] r o1 by auto
qed

theorem upload_statuses_witness:
  "resp_status (snd (MediaController_Upload ex_sha ex_detect (healthy ''a'') (Inr (Inr \<lparr>rd_data = ''png1234567'', rd_err = False\<rparr>)) undefined (NewStore 10))) = 201 \<and>
   resp_status (snd (MediaController_Upload ex_sha ex_detect (healthy ''a'') (Inr (Inr \<lparr>rd_data = ''png12345678'', rd_err = False\<rparr>)) undefined (NewStore 10))) = 413 \<and>
   resp_status (snd (MediaController_Upload ex_sha ex_detect (healthy ''a'') (Inr (Inr \<lparr>rd_data = ''svg'', rd_err = False\<rparr>)) undefined (NewStore 10))) = 415"
  using upload_statuses [where s = "NewStore 10" and rnd = "''a''" and sha = ex_sha and detect = ex_detect and form = "Inr (Inr \<lparr>rd_data = ''png1234567'', rd_err = False\<rparr>)" and cx = undefined]
    upload_statuses [where s = "NewStore 10" and rnd = "''a''" and sha = ex_sha and detect = ex_detect and form = "Inr (Inr \<lparr>rd_data = ''png12345678'', rd_err = False\<rparr>)" and cx = undefined]
    upload_statuses [where s = "NewStore 10" and rnd = "''a''" and sha = ex_sha and detect = ex_detect and form = "Inr (Inr \<lparr>rd_data = ''svg'', rd_err = False\<rparr>)" and cx = undefined]
  by (simp add: NewStore_def split_beta ex_detect_def allowedTypes_def)

lemma ex_torn:
  assumes "ms_files s (''.upload-'' @ ''b'') = None" "ms_maxBytes s = 10"
  shows "Put ex_sha ex_detect ((healthy ''b'')\<lparr>dk_meta := Torn ''{''\<rparr>) ex_reader s =
    (s\<lparr>ms_files := (ms_files s)(metaPath (address ex_sha ''png1'') \<mapsto> Raw ''{'')\<rparr>, Inl (IOError ''write''))"
proof -
  have r64: "i64 11 = 11" by (rule i64_id) (simp add: int64_range_def)
  have "metaPath (address ex_sha ''png1'') \<noteq> ''.upload-'' @ ''b''" using hash_not_tmp [OF address_ok [OF ex_sha_ok]] by blast
  note W = os_Remove_other [OF assms(1) this, of "Raw ''png1''" "Raw ''{''"]
  show ?thesis
    using assms W by (simp add: Put_def healthy_def ex_reader_def ex_detect_def allowedTypes_def copy_limited_def writeMeta_def address_def r64)
qed

text \<open>
  Uploading the same bytes twice is not a no-op.  There is a run in which an object is stored and can be opened, the
  same bytes are uploaded again, the rewrite of the metadata file breaks off (\<^verbatim>\<open>os.WriteFile\<close> truncates in place, unlike
  the object, which is renamed into place), and the object, untouched on disk, can no longer be opened.
\<close>

theorem torn_reupload:
  "\<exists>s1 s2. Put ex_sha ex_detect (healthy ''a'') ex_reader (NewStore 10) = (s1, Inr (meta_of ex_sha ex_detect ''png1'')) \<and>
     Store_Open False False (address ex_sha ''png1'') s1 = Inr (meta_of ex_sha ex_detect ''png1'', ''png1'') \<and>
     Put ex_sha ex_detect ((healthy ''b'')\<lparr>dk_meta := Torn ''{''\<rparr>) ex_reader s1 = (s2, Inl (IOError ''write'')) \<and>
     ms_files s2 (objectPath (address ex_sha ''png1'')) = Some (Raw ''png1'') \<and>
     Store_Open False False (address ex_sha ''png1'') s2 = Inl (IOError ''json'')"
proof -
  let ?a = "address ex_sha ''png1''"
  let ?s1 = "fst (Put ex_sha ex_detect (healthy ''a'') ex_reader (NewStore 10))"
  have o1: "Store_Open False False ?a ?s1 = Inr (meta_of ex_sha ex_detect ''png1'', ''png1'')" and m1: "ms_maxBytes ?s1 = 10"
    using Put_stored_open [OF ex_sha_ok _ _ ex_put] by (simp_all add: NewStore_def ex_reader_def)
  have s1: "?s1 = (NewStore 10)\<lparr>ms_files := [metaPath ?a \<mapsto> MetaJSON (meta_of ex_sha ex_detect ''png1''), ?a \<mapsto> Raw ''png1'']\<rparr>"
    by (rule Put_cases [OF ex_sha_ok _ _ ex_put]) (auto simp: NewStore_def ex_reader_def)
  have tmp: "?a \<noteq> ''.upload-'' @ ''b''" "metaPath ?a \<noteq> ''.upload-'' @ ''b''" using hash_not_tmp [OF address_ok [OF ex_sha_ok]] by blast+
  then have new: "ms_files ?s1 (''.upload-'' @ ''b'') = None" unfolding s1 by (auto simp: NewStore_def)
  let ?s2 = "?s1\<lparr>ms_files := (ms_files ?s1)(metaPath ?a \<mapsto> Raw ''{'')\<rparr>"
  have p2: "Put ex_sha ex_detect ((healthy ''b'')\<lparr>dk_meta := Torn ''{''\<rparr>) ex_reader ?s1 = (?s2, Inl (IOError ''write''))"
    by (rule ex_torn [OF new m1])
  have ne: "?a \<noteq> metaPath ?a" by (simp add: metaPath_def)
  have "ms_files ?s2 (objectPath ?a) = Some (Raw ''png1'')" using ne unfolding s1 by (simp add: objectPath_def)
  moreover have "Store_Open False False ?a ?s2 = Inl (IOError ''json'')"
    using address_ok [OF ex_sha_ok, of "''png1''"] by (simp add: Store_Open_def readMeta_def)
  ultimately show ?thesis using ex_put o1 p2 by blast
qed

text \<open>
  The limit of one byte more than \<^verbatim>\<open>maxBytes\<close> wraps around at the largest \<^verbatim>\<open>int64\<close>, which the configuration accepts: nothing is
  read and every allowed upload is stored as an empty object.
\<close>

theorem upload_limit_overflow:
  "snd (Put ex_sha ex_detect (healthy ''a'') ex_reader (NewStore (2 ^ 63 - 1))) =
     Inr \<lparr>md_Hash = address ex_sha '''', md_ContentType = ''image/png'', md_Size = 0\<rparr>"
  by (simp add: Put_def NewStore_def healthy_def ex_reader_def ex_detect_def allowedTypes_def copy_limited_def writeMeta_def
      address_def i64_def Let_def)

end
