(* ===== verification/MediaMain.thy ===== *)
theory MediaMain
  imports Routes Media Config
begin

text \<open>
  \<^verbatim>\<open>media-service/cmd/media/main.go\<close>: the routes of theory \<^theory_text>\<open>Routes\<close> over the controller of theory \<^theory_text>\<open>Media\<close>.  echo's
  body-limit middleware is a parameter of an \<open>mworld\<close>, its verdict on a request for a limit given as a string; the rest of
  an \<open>mworld\<close> is what an upload or a read meets on disk.
\<close>

section \<open>The process\<close>

record mworld =
  mw_rid :: string
  mw_limit :: "string \<Rightarrow> request \<Rightarrow> reject + unit"
  mw_sha :: "string \<Rightarrow> string"
  mw_detect :: "string \<Rightarrow> string"
  mw_disk :: disk
  mw_form :: "unit + (unit + reader)"
  mw_meta_fails :: bool
  mw_open_fails :: bool

definition bodyLimit :: "media_Config \<Rightarrow> string" where
  "bodyLimit cfg = FormatInt (i64 (m_MaxUploadByte cfg + 64 * 1024))"

text \<open>Start-up: \<open>mkdir\<close> is whether the storage directory can be made.\<close>

definition media_start :: "env \<Rightarrow> bool \<Rightarrow> fatal + (media_Config \<times> Store)" where
  "media_start env mkdir =
     (case media_LoadConfig env of
        Inl e \<Rightarrow> Inl e
      | Inr cfg \<Rightarrow> if \<not> mkdir then Inl (Fatal ''MEDIA_DIR'') else Inr (cfg, NewStore (m_MaxUploadByte cfg)))"

definition media_guard :: "media_Config \<Rightarrow> mworld \<Rightarrow> guard \<Rightarrow> echo_context \<Rightarrow> Store \<Rightarrow> Store \<times> (reject + echo_context)" where
  "media_guard cfg w x cx s =
     (s, case x of
           GatewayAuth \<Rightarrow> media_GatewayAuthMiddleware (m_GatewayKey cfg) cx
         | BodyLimit \<Rightarrow> (case mw_limit w (bodyLimit cfg) (cx_req cx) of Inl rej \<Rightarrow> Inl rej | Inr _ \<Rightarrow> Inr cx)
         | _ \<Rightarrow> Inr cx)"

definition media_handle :: "mworld \<Rightarrow> media_handler \<Rightarrow> echo_context \<Rightarrow> Store \<Rightarrow> Store \<times> UploadResponse served_json response" where
  "media_handle w h cx s =
     (case h of
        MHealth \<Rightarrow> (s, reply cx 200 (JSON (Status ''ok'')))
      | MGet \<Rightarrow> (s, lift_response Served (MediaController_Get (mw_meta_fails w) (mw_open_fails w) cx s))
      | MUpload \<Rightarrow> map_prod id (lift_response Served) (MediaController_Upload (mw_sha w) (mw_detect w) (mw_disk w) (mw_form w) cx s))"

definition media_serve ::
  "router \<Rightarrow> (echo_context \<Rightarrow> UploadResponse served_json response) \<Rightarrow> media_Config \<Rightarrow> mworld \<Rightarrow> echo_context \<Rightarrow> Store \<Rightarrow>
   Store \<times> UploadResponse served_json response" where
  "media_serve rfind unrouted cfg w cx s =
     serve_routes rfind media_routes (media_guard cfg w) (media_handle w)
       (\<lambda>cx rej. reply cx (fst rej) (JSON_error (snd rej))) unrouted (RequestIDMiddleware (mw_rid w) cx) s"

lemma media_serve_routed:
  assumes "routed rfind media_routes (cx_req cx) rt ps"
  shows "media_serve rfind unrouted cfg w cx s =
    (case run_guards (media_guard cfg w) (rt_guards rt) ((RequestIDMiddleware (mw_rid w) cx)\<lparr>cx_param := ps\<rparr>) s of
       (s', Inl (cx', rej)) \<Rightarrow> (s', reply cx' (fst rej) (JSON_error (snd rej)))
     | (s', Inr cx') \<Rightarrow> media_handle w (rt_handler rt) cx' s')"
proof -
  have "routed rfind media_routes (cx_req (RequestIDMiddleware (mw_rid w) cx)) rt ps"
    using assms by (simp add: RequestIDMiddleware_def Let_def)
  then show ?thesis unfolding media_serve_def by (rule serve_routed)
qed

definition media_key :: "media_Config \<Rightarrow> request \<Rightarrow> bool" where
  "media_key cfg r \<longleftrightarrow> Header_Get (req_header r) ''X-Gateway-Key'' = m_GatewayKey cfg"

text \<open>
  An upload that arrives with the gateway's key and within the body limit is the controller's upload; anything else
  leaves the store alone.
\<close>

lemma media_serve_upload:
  assumes "echo_router rfind" "req_method (cx_req cx) = ''POST''" "req_path (cx_req cx) = ''/media''"
  shows "\<exists>cx'. cx_req cx' = cx_req cx \<and>
    (if media_key cfg (cx_req cx) \<and> mw_limit w (bodyLimit cfg) (cx_req cx) = Inr ()
     then media_serve rfind unrouted cfg w cx s = media_handle w MUpload cx' s
     else \<exists>resp. media_serve rfind unrouted cfg w cx s = (s, resp) \<and>
       (media_key cfg (cx_req cx) \<or> resp_status resp = 401))"
proof -
  let ?rt = "on ''POST'' ''/media'' [GatewayAuth, BodyLimit] MUpload"
  obtain ps where rt: "routed rfind media_routes (cx_req cx) ?rt ps"
    using echo_router.routed_static [OF assms(1) tables_no_wildcards(5) tables_unambiguous(5), of ?rt "cx_req cx"] assms(2,3)
    by (auto simp: media_routes_def)
  let ?cx = "(RequestIDMiddleware (mw_rid w) cx)\<lparr>cx_param := ps\<rparr>"
  have req: "cx_req ?cx = cx_req cx" by (simp add: RequestIDMiddleware_def Let_def)
  note s = media_serve_routed [OF rt, of unrouted cfg w s]
  show ?thesis
  proof (intro exI [of _ ?cx] conjI req)
    show "if media_key cfg (cx_req cx) \<and> mw_limit w (bodyLimit cfg) (cx_req cx) = Inr ()
     then media_serve rfind unrouted cfg w cx s = media_handle w MUpload ?cx s
     else \<exists>resp. media_serve rfind unrouted cfg w cx s = (s, resp) \<and> (media_key cfg (cx_req cx) \<or> resp_status resp = 401)"
      using req by (cases "mw_limit w (bodyLimit cfg) (cx_req cx)")
        (auto simp: s media_guard_def media_GatewayAuthMiddleware_def media_key_def)
  qed
qed

lemma media_store_key:
  assumes "echo_router rfind" "fst (media_serve rfind unrouted cfg w cx s) \<noteq> s"
  shows "media_key cfg (cx_req cx) \<and> req_method (cx_req cx) = ''POST'' \<and> req_path (cx_req cx) = ''/media''"
proof -
  have "rfind (keys media_routes) (req_method (cx_req cx)) (req_path (cx_req cx)) \<noteq> None"
    using assms(2) by (intro notI) (simp add: media_serve_def serve_routes_def RequestIDMiddleware_def Let_def)
  then obtain rt ps where rt: "routed rfind media_routes (cx_req cx) rt ps"
    using echo_router.routed_some [OF assms(1) tables_no_wildcards(5)] by blast
  from routed_mem [OF rt] have "rt_handler rt = MHealth \<and> rt_guards rt = [] \<or> rt_handler rt = MGet \<and> rt_guards rt = [] \<or>
      rt = on ''POST'' ''/media'' [GatewayAuth, BodyLimit] MUpload" by (auto simp: media_routes_def)
  then have "rt = on ''POST'' ''/media'' [GatewayAuth, BodyLimit] MUpload"
    using assms(2) by (auto simp: media_serve_routed [OF rt] media_handle_def)
  then have line: "req_method (cx_req cx) = ''POST''" "req_path (cx_req cx) = ''/media''"
    using echo_router.routed_matches [OF assms(1) tables_no_wildcards(5) rt] by (auto simp: expand.simps)
  with media_serve_upload [OF assms(1) line, of cfg w unrouted s] assms(2) show ?thesis by (auto split: if_splits)
qed

text \<open>A public read, by anyone.\<close>

lemma media_serve_get:
  assumes "echo_router rfind" "plain_value hash" "req_method (cx_req cx) = ''GET''" "req_path (cx_req cx) = ''/media/'' @ hash"
  shows "\<exists>cx'. cx_req cx' = cx_req cx \<and> cx_param cx' ''hash'' = hash \<and>
    media_serve rfind unrouted cfg w cx s = (s, lift_response Served (MediaController_Get (mw_meta_fails w) (mw_open_fails w) cx' s))"
proof -
  let ?rt = "on ''GET'' ''/media/:hash'' [] MGet"
  have mem: "?rt \<in> set media_routes" by (simp add: media_routes_def)
  have path: "expand (\<lambda>_. hash) ''/media/:hash'' = ''/media/'' @ hash" "param_names ''/media/:hash'' = [''hash'']"
    by (simp_all add: expand.simps param_names.simps)
  have plain: "plain_params (rt_path ?rt) (\<lambda>_. hash)" using assms(2) by (simp add: plain_params_def path)
  obtain ps where rt: "routed rfind media_routes (cx_req cx) ?rt ps" and ps: "ps ''hash'' = hash"
    using echo_router.routed_to [OF assms(1) tables_no_wildcards(5) tables_unambiguous(5) mem plain, of "cx_req cx"] assms(3,4)
    by (auto simp: path)
  let ?cx = "(RequestIDMiddleware (mw_rid w) cx)\<lparr>cx_param := ps\<rparr>"
  have "cx_req ?cx = cx_req cx" "cx_param ?cx ''hash'' = hash" using ps by (simp_all add: RequestIDMiddleware_def Let_def)
  then show ?thesis by (intro exI [of _ ?cx]) (simp add: media_serve_routed [OF rt] media_handle_def)
qed

end
