(* ===== verification/Messages.thy ===== *)
theory Messages
  imports Validation "HOL-Library.Product_Lexorder"
begin

text \<open>
  Message history of chat-service: \<^verbatim>\<open>domain/stored_message.go\<close>, \<^verbatim>\<open>repository/message_repository.go\<close>,
  \<^verbatim>\<open>service/message_service.go\<close> and \<^verbatim>\<open>controller/message_controller.go\<close>.  The table \<^verbatim>\<open>messages\<close> is a list of rows
  with an \<^verbatim>\<open>AUTO_INCREMENT\<close> counter.  What MySQL does to a value is a parameter of the queries: the
  collation of \<^verbatim>\<open>room_id\<close>, the rounding of the \<^verbatim>\<open>TIMESTAMP(3)\<close> column, whether a row fits its columns, and
  whether the connection fails.  Times are nanoseconds.
\<close>

section \<open>stored\_message.go and message\_repository.go\<close>

record StoredMessage =
  sm_ID :: int
  sm_RoomID :: string
  sm_UserID :: int
  sm_Content :: string
  sm_CreatedAt :: int

record messages_table =
  mt_rows :: "StoredMessage list"
  mt_next :: int

record mysql_ctx =
  mx_coll :: "string \<Rightarrow> string"
  mx_time :: "int \<Rightarrow> int"
  mx_fits :: "StoredMessage \<Rightarrow> bool"
  mx_down :: bool

definition MessageRepository_Create :: "mysql_ctx \<Rightarrow> StoredMessage \<Rightarrow> messages_table \<Rightarrow> messages_table \<times> StoredMessage result" where
  "MessageRepository_Create mx message t =
     (if mx_down mx \<or> \<not> mx_fits mx message then (t, Inl (External ''mysql''))
      else
        (let i = mt_next t
         in (t\<lparr>mt_rows := mt_rows t @ [message\<lparr>sm_ID := i, sm_CreatedAt := mx_time mx (sm_CreatedAt message)\<rparr>], mt_next := i + 1\<rparr>,
             Inr (message\<lparr>sm_ID := i\<rparr>))))"

text \<open>\<^verbatim>\<open>WHERE room_id = ?\<close> compares under the collation of the column.\<close>

definition in_room :: "mysql_ctx \<Rightarrow> string \<Rightarrow> StoredMessage \<Rightarrow> bool" where
  "in_room mx roomID m \<longleftrightarrow> mx_coll mx (sm_RoomID m) = mx_coll mx roomID"

text \<open>\<^verbatim>\<open>ORDER BY created_at DESC, id DESC\<close>.\<close>

definition history :: "mysql_ctx \<Rightarrow> string \<Rightarrow> messages_table \<Rightarrow> StoredMessage list" where
  "history mx roomID t = sort_key (\<lambda>m. (- sm_CreatedAt m, - sm_ID m)) (filter (in_room mx roomID) (mt_rows t))"

text \<open>MySQL rejects a negative \<^verbatim>\<open>LIMIT\<close> or \<^verbatim>\<open>OFFSET\<close>.\<close>

definition ListByRoom :: "mysql_ctx \<Rightarrow> string \<Rightarrow> int \<Rightarrow> int \<Rightarrow> messages_table \<Rightarrow> StoredMessage list result" where
  "ListByRoom mx roomID limit offset t =
     (if mx_down mx \<or> limit < 0 \<or> offset < 0 then Inl (External ''mysql'')
      else Inr (take (nat limit) (drop (nat offset) (history mx roomID t))))"

definition CountByRoom :: "mysql_ctx \<Rightarrow> string \<Rightarrow> messages_table \<Rightarrow> int result" where
  "CountByRoom mx roomID t =
     (if mx_down mx then Inl (External ''mysql'')
      else Inr (int (length (filter (in_room mx roomID) (mt_rows t)))))"

section \<open>message\_service.go\<close>

definition defaultPerPage :: int where
  "defaultPerPage = 50"

definition maxPerPage :: int where
  "maxPerPage = 100"

record PaginatedMessages =
  pm_Data :: "StoredMessage list"
  pm_Total :: int
  pm_Page :: int
  pm_PerPage :: int

definition MessageService_Create :: "mysql_ctx \<Rightarrow> string \<Rightarrow> int \<Rightarrow> string \<Rightarrow> int \<Rightarrow> messages_table \<Rightarrow> messages_table \<times> unit result" where
  "MessageService_Create mx room userID content createdAt t =
     (case MessageRepository_Create mx
        \<lparr>sm_ID = 0, sm_RoomID = room, sm_UserID = userID, sm_Content = content, sm_CreatedAt = createdAt\<rparr> t of
        (t', Inl e) \<Rightarrow> (t', Inl e)
      | (t', Inr _) \<Rightarrow> (t', Inr ()))"

definition clamp_page :: "int \<Rightarrow> int" where
  "clamp_page page = (if page < 1 then 1 else page)"

definition clamp_perPage :: "int \<Rightarrow> int" where
  "clamp_perPage perPage =
     (let perPage = (if perPage < 1 then defaultPerPage else perPage)
      in if perPage > maxPerPage then maxPerPage else perPage)"

definition MessageService_List :: "mysql_ctx \<Rightarrow> string \<Rightarrow> int \<Rightarrow> int \<Rightarrow> messages_table \<Rightarrow> PaginatedMessages result" where
  "MessageService_List mx room page perPage t =
     (let page = clamp_page page;
          perPage = clamp_perPage perPage;
          offset = i64 ((page - 1) * perPage)
      in bind_result (ListByRoom mx room perPage offset t) (\<lambda>messages.
         bind_result (CountByRoom mx room t) (\<lambda>total.
           Inr \<lparr>pm_Data = messages, pm_Total = total, pm_Page = page, pm_PerPage = perPage\<rparr>)))"

section \<open>message\_controller.go\<close>

definition room_error_text :: "goerror \<Rightarrow> string" where
  "room_error_text e = (case e of Errorf m \<Rightarrow> m | Validation m \<Rightarrow> m | External m \<Rightarrow> m)"

text \<open>A query parameter: absent counts as zero, otherwise \<^verbatim>\<open>strconv.Atoi\<close>.\<close>

definition number_param :: "echo_context \<Rightarrow> string \<Rightarrow> int option" where
  "number_param cx name =
     (let v = Values_Get (req_query (cx_req cx)) name in if v = '''' then Some 0 else ParseInt v)"

definition MessageController_ListByRoom :: "mysql_ctx \<Rightarrow> messages_table \<Rightarrow> echo_context \<Rightarrow> PaginatedMessages response" where
  "MessageController_ListByRoom mx t cx =
     (let room = cx_param cx ''room''
      in case ValidateRoomName room of
           Inl e \<Rightarrow> reply cx 400 (JSON_error (room_error_text e))
         | Inr _ \<Rightarrow>
             (case number_param cx ''page'' of
                None \<Rightarrow> reply cx 400 (JSON_error ''invalid page parameter'')
              | Some page \<Rightarrow>
             (case number_param cx ''per_page'' of
                None \<Rightarrow> reply cx 400 (JSON_error ''invalid per_page parameter'')
              | Some perPage \<Rightarrow>
                  (case MessageService_List mx room page perPage t of
                     Inl e \<Rightarrow> reply cx 500 (JSON_error ''failed to fetch messages'')
                   | Inr messages \<Rightarrow> reply cx 200 (JSON messages)))))"

section \<open>The order of a history\<close>

definition messages_inv :: "messages_table \<Rightarrow> bool" where
  "messages_inv t \<longleftrightarrow> distinct (map sm_ID (mt_rows t)) \<and> (\<forall>m \<in> set (mt_rows t). sm_ID m < mt_next t)"

definition newer :: "StoredMessage \<Rightarrow> StoredMessage \<Rightarrow> bool" where
  "newer a b \<longleftrightarrow> sm_CreatedAt b < sm_CreatedAt a \<or> (sm_CreatedAt a = sm_CreatedAt b \<and> sm_ID b < sm_ID a)"

lemma mset_history: "mset (history mx room t) = mset (filter (in_room mx room) (mt_rows t))"
  by (simp add: history_def)

lemma length_history: "length (history mx room t) = length (filter (in_room mx room) (mt_rows t))"
  by (simp add: history_def)

lemma history_newest_first:
  assumes "messages_inv t"
  shows "sorted_wrt newer (history mx room t)"
proof -
  let ?k = "\<lambda>m. (- sm_CreatedAt m, - sm_ID m)"
  let ?h = "history mx room t"
  have "mset (map sm_ID ?h) = mset (map sm_ID (filter (in_room mx room) (mt_rows t)))"
    using mset_history [of mx room t] by (simp add: history_def)
  moreover have "distinct (map sm_ID (filter (in_room mx room) (mt_rows t)))"
    using assms by (intro distinct_map_filterI) (simp add: messages_inv_def)
  ultimately have d: "distinct (map sm_ID ?h)" using mset_eq_imp_distinct_iff by blast
  have "sorted (map ?k ?h)" by (simp add: history_def)
  then have le: "?k (?h ! i) \<le> ?k (?h ! j)" if "i < j" "j < length ?h" for i j
    using that sorted_nth_mono [of "map ?k ?h" i j] by simp
  have ne: "sm_ID (?h ! i) \<noteq> sm_ID (?h ! j)" if "i < j" "j < length ?h" for i j
    using that nth_eq_iff_index_eq [OF d, of i j] by simp
  show ?thesis
    unfolding sorted_wrt_iff_nth_less newer_def using le ne by (fastforce simp: less_eq_prod_def)
qed

lemma messages_inv_Create:
  assumes "messages_inv t"
  shows "messages_inv (fst (MessageService_Create mx room u content at t))"
  using assms by (auto simp: MessageService_Create_def MessageRepository_Create_def messages_inv_def Let_def)

lemma clamp_bounds: "1 \<le> clamp_page page" "1 \<le> clamp_perPage perPage" "clamp_perPage perPage \<le> 100"
  by (auto simp: clamp_page_def clamp_perPage_def defaultPerPage_def maxPerPage_def Let_def)

text \<open>A page that does not overflow is a slice of the history.\<close>

lemma List_slice:
  assumes "\<not> mx_down mx" "(clamp_page page - 1) * clamp_perPage perPage < 2 ^ 63"
  shows "MessageService_List mx room page perPage t =
    Inr \<lparr>pm_Data = take (nat (clamp_perPage perPage)) (drop (nat ((clamp_page page - 1) * clamp_perPage perPage)) (history mx room t)),
         pm_Total = int (length (history mx room t)), pm_Page = clamp_page page, pm_PerPage = clamp_perPage perPage\<rparr>"
proof -
  let ?o = "(clamp_page page - 1) * clamp_perPage perPage"
  have "0 \<le> ?o" using clamp_bounds [of page] clamp_bounds(2) [of perPage] by simp
  then have "i64 ?o = ?o" using assms(2) by (intro i64_id) (simp add: int64_range_def)
  with \<open>0 \<le> ?o\<close> show ?thesis using assms(1) clamp_bounds(2) [of perPage]
    by (simp add: MessageService_List_def ListByRoom_def CountByRoom_def length_history Let_def)
qed

section \<open>Properties\<close>

text \<open>
  C35: paging neither repeats nor skips a message.  While the table does not change, the pages one to \<open>k\<close> of
  a room, put together, are the first \<open>k * n\<close> messages of its history (\<open>n\<close> per page), which
  lists every message of the room exactly once, newest first and equal timestamps by descending id;
  no page has more than 100 messages and the total is the size of the history.
\<close>

theorem history_pages:
  assumes "messages_inv t" "\<not> mx_down mx" "1 \<le> n" "n \<le> 100" "int k * int n < 2 ^ 63"
  shows "\<exists>pages. map (\<lambda>p. MessageService_List mx room (int p) (int n) t) [1..<Suc k] = map Inr pages \<and>
    concat (map pm_Data pages) = take (k * n) (history mx room t) \<and>
    list_all (\<lambda>q. length (pm_Data q) \<le> n \<and> pm_Total q = int (length (history mx room t))) pages \<and>
    mset (history mx room t) = mset (filter (in_room mx room) (mt_rows t)) \<and> sorted_wrt newer (history mx room t)"
proof -
  define pg where "pg p = \<lparr>pm_Data = take n (drop ((p - 1) * n) (history mx room t)),
    pm_Total = int (length (history mx room t)), pm_Page = int p, pm_PerPage = int n\<rparr>" for p :: nat
  have page: "MessageService_List mx room (int p) (int n) t = Inr (pg p)" if "p \<in> {1..<Suc k}" for p
  proof -
    have c: "clamp_page (int p) = int p" "clamp_perPage (int n) = int n"
      using that assms(3,4) by (auto simp: clamp_page_def clamp_perPage_def maxPerPage_def Let_def)
    have o: "(int p - 1) * int n = int ((p - 1) * n)" using that by (simp add: of_nat_diff)
    have "(p - 1) * n \<le> k * n" using that by (intro mult_le_mono1) auto
    then have "int ((p - 1) * n) \<le> int k * int n" by (metis of_nat_le_iff of_nat_mult)
    then show ?thesis using List_slice [OF assms(2), of "int p" "int n" room t] assms(5)
      unfolding c o pg_def by (simp add: nat_mult_distrib)
  qed
  have cat: "concat (map (pm_Data \<circ> pg) [1..<Suc j]) = take (j * n) (history mx room t)" for j
    by (induction j) (simp_all add: pg_def take_add [of "j * n" n for j, symmetric] add.commute)
  let ?pages = "map pg [1..<Suc k]"
  have "map (\<lambda>p. MessageService_List mx room (int p) (int n) t) [1..<Suc k] = map Inr ?pages"
    using page by (simp del: upt_Suc)
  moreover have "list_all (\<lambda>q. length (pm_Data q) \<le> n \<and> pm_Total q = int (length (history mx room t))) ?pages"
    by (simp add: list_all_iff pg_def del: upt_Suc)
  moreover have "concat (map pm_Data ?pages) = take (k * n) (history mx room t)" using cat [of k] by (simp del: upt_Suc)
  ultimately show ?thesis using mset_history history_newest_first [OF assms(1)] by blast
qed

definition three_messages :: messages_table where
  "three_messages = \<lparr>mt_rows = [\<lparr>sm_ID = 1, sm_RoomID = ''r'', sm_UserID = 5, sm_Content = ''a'', sm_CreatedAt = 10\<rparr>,
     \<lparr>sm_ID = 2, sm_RoomID = ''r'', sm_UserID = 6, sm_Content = ''b'', sm_CreatedAt = 10\<rparr>,
     \<lparr>sm_ID = 3, sm_RoomID = ''r'', sm_UserID = 5, sm_Content = ''c'', sm_CreatedAt = 7\<rparr>], mt_next = 4\<rparr>"

definition plain_mysql :: mysql_ctx where
  "plain_mysql = \<lparr>mx_coll = (\<lambda>s. s), mx_time = (\<lambda>t. t), mx_fits = (\<lambda>_. True), mx_down = False\<rparr>"

lemma three_history: "map sm_ID (history plain_mysql ''r'' three_messages) = [2, 1, 3]"
  by (simp add: history_def three_messages_def plain_mysql_def in_room_def less_eq_prod_def less_prod_def)

theorem history_pages_witness:
  "\<exists>pages. map (\<lambda>p. MessageService_List plain_mysql ''r'' (int p) (int 2) three_messages) [1..<Suc 2] = map Inr pages \<and>
     map sm_ID (concat (map pm_Data pages)) = [2, 1, 3]"
proof -
  have "messages_inv three_messages" by (simp add: messages_inv_def three_messages_def)
  moreover have "\<not> mx_down plain_mysql" by (simp add: plain_mysql_def)
  moreover have "length (history plain_mysql ''r'' three_messages) = 3"
    using arg_cong [OF three_history, of length] by simp
  ultimately show ?thesis using history_pages [of three_messages plain_mysql 2 2 "''r''"] three_history by auto
qed

text \<open>
  What is archived is what the history shows.  A message that the service stored is in its room's
  history exactly once more than before, with the room, sender and content it was archived with and
  its time as the column keeps it, under a fresh id; no other room's history changes; and a failed insert
  changes nothing.
\<close>

theorem archived_then_listed:
  assumes "messages_inv t" "MessageService_Create mx room u content at t = (t', res)"
    and "m = \<lparr>sm_ID = mt_next t, sm_RoomID = room, sm_UserID = u, sm_Content = content, sm_CreatedAt = mx_time mx at\<rparr>"
  shows "messages_inv t' \<and> m \<notin> set (mt_rows t) \<and>
    (case res of
       Inl _ \<Rightarrow> t' = t
     | Inr _ \<Rightarrow> mset (history mx r t') = mset (history mx r t) + (if mx_coll mx room = mx_coll mx r then {#m#} else {#}))"
proof -
  have "messages_inv t'" using messages_inv_Create [OF assms(1), of mx room u content at] assms(2) by simp
  moreover have "m \<notin> set (mt_rows t)" using assms(1,3) by (auto simp: messages_inv_def)
  ultimately show ?thesis using assms(2)
    by (auto simp: MessageService_Create_def MessageRepository_Create_def Let_def assms(3) mset_history in_room_def split: if_splits)
qed

theorem archived_then_listed_witness:
  "mset (history plain_mysql ''r'' (fst (MessageService_Create plain_mysql ''r'' 9 ''hi'' 12 three_messages))) =
     mset (history plain_mysql ''r'' three_messages) +
     {#\<lparr>sm_ID = 4, sm_RoomID = ''r'', sm_UserID = 9, sm_Content = ''hi'', sm_CreatedAt = 12\<rparr>#}"
proof -
  have inv: "messages_inv three_messages" by (simp add: messages_inv_def three_messages_def)
  let ?t = "fst (MessageService_Create plain_mysql ''r'' 9 ''hi'' 12 three_messages)"
  have c: "MessageService_Create plain_mysql ''r'' 9 ''hi'' 12 three_messages = (?t, Inr ())"
    by (simp add: MessageService_Create_def MessageRepository_Create_def plain_mysql_def Let_def)
  show ?thesis using archived_then_listed [OF inv c refl, of "''r''"] by (simp add: plain_mysql_def three_messages_def)
qed

text \<open>
  Every branch of the history endpoint.  An invalid room name, page or page size is a 400; a failing
  database is a 500 with a generic message; otherwise the answer is the requested page, unless the
  page number is so large that the 64-bit offset wraps to a negative number, which is a 500 too.
\<close>

theorem history_statuses:
  "resp_status (MessageController_ListByRoom mx t cx) =
     (case (number_param cx ''page'', number_param cx ''per_page'') of
        (Some page, Some perPage) \<Rightarrow>
          if \<not> room_name (cx_param cx ''room'') then 400
          else if mx_down mx \<or> i64 ((clamp_page page - 1) * clamp_perPage perPage) < 0 then 500 else 200
      | _ \<Rightarrow> 400)"
proof (cases "room_name (cx_param cx ''room'')")
  case True
  then have "ValidateRoomName (cx_param cx ''room'') = Inr ()" by (simp add: ok_iff)
  moreover have "\<not> clamp_perPage p < 0" for p using clamp_bounds(2) [of p] by simp
  ultimately show ?thesis using True
    by (auto simp: MessageController_ListByRoom_def MessageService_List_def ListByRoom_def CountByRoom_def Let_def
        split: option.split)
next
  case False
  then obtain e where "ValidateRoomName (cx_param cx ''room'') = Inl e"
    using ok_iff by (cases "ValidateRoomName (cx_param cx ''room'')") auto
  with False show ?thesis by (auto simp: MessageController_ListByRoom_def Let_def split: option.split)
qed

text \<open>
  The largest page numbers overflow.  With a reachable database and a hundred messages per page, page
  \<^verbatim>\<open>92233720368547761\<close> is an accepted parameter whose offset wraps around, so the query is refused and
  the client gets a server error instead of an empty page.
\<close>

theorem history_page_overflow:
  "MessageService_List plain_mysql room 92233720368547761 100 t = Inl (External ''mysql'')"
  by (simp add: MessageService_List_def ListByRoom_def clamp_page_def clamp_perPage_def maxPerPage_def i64_def Let_def)

end
