(* ===== verification/ChatDispatch.thy ===== *)
theory ChatDispatch
  imports Lanes Outbound Messages Room "HOL-Library.Sublist"
begin

text \<open>
  \<^verbatim>\<open>chat-service/internal/dispatch/dispatcher.go\<close>: the bounded queues between the room loops and everything
  slow.  Each queue with its workers is a lane (theory \<^theory_text>\<open>Lanes\<close>); one presence worker, one archive worker,
  four notify workers.  The presence worker's and the notify workers' requests go to networks of theory
  \<^theory_text>\<open>Outbound\<close>, the archive worker's rows to the table of theory \<^theory_text>\<open>Messages\<close>.  One worker's handling of one
  event is one step: the retries of two notify workers do not interleave, and what is proved of their requests
  counts them without their order.
\<close>

section \<open>The queues\<close>

definition presenceQueueSize :: nat where
  "presenceQueueSize = 256"

definition archiveQueueSize :: nat where
  "archiveQueueSize = 1024"

definition notifyQueueSize :: nat where
  "notifyQueueSize = 1024"

definition notifyWorkers :: nat where
  "notifyWorkers = 4"

definition presenceEventTimeout :: int where
  "presenceEventTimeout = 30 * 1000000000"

definition notifyEventTimeout :: int where
  "notifyEventTimeout = 30 * 1000000000"

definition notifyDrainTimeout :: int where
  "notifyDrainTimeout = 3 * 1000000000"

record presenceEvent =
  pv_room :: string
  pv_userID :: int
  pv_status :: PresenceStatus

record archiveEvent =
  ae_eventID :: string
  ae_room :: string
  ae_userID :: int
  ae_content :: string
  ae_createdAt :: int

record Dispatcher =
  d_presence :: "presenceEvent lane"
  d_archive :: "archiveEvent lane"
  d_notify :: "archiveEvent lane"
  d_notificationClient :: "(MessageEvent outside \<times> NotificationClient) option"
  d_net :: "presence_body net"
  d_table :: messages_table
  d_events :: "MessageEvent net"

definition NewDispatcher :: "(MessageEvent outside \<times> NotificationClient) option \<Rightarrow> int \<Rightarrow> messages_table \<Rightarrow> Dispatcher" where
  "NewDispatcher notificationClient now t =
     \<lparr>d_presence = new_lane 1, d_archive = new_lane 1, d_notify = new_lane notifyWorkers,
      d_notificationClient = notificationClient, d_net = \<lparr>nw_now = now, nw_sent = []\<rparr>, d_table = t,
      d_events = \<lparr>nw_now = now, nw_sent = []\<rparr>\<rparr>"

definition Dispatcher_Notify :: "string \<Rightarrow> int \<Rightarrow> PresenceStatus \<Rightarrow> Dispatcher \<Rightarrow> Dispatcher" where
  "Dispatcher_Notify room userID status d =
     d\<lparr>d_presence := fst (offer presenceQueueSize \<lparr>pv_room = room, pv_userID = userID, pv_status = status\<rparr> (d_presence d))\<rparr>"

definition Dispatcher_Archive :: "string \<Rightarrow> string \<Rightarrow> int \<Rightarrow> string \<Rightarrow> int \<Rightarrow> Dispatcher \<Rightarrow> Dispatcher" where
  "Dispatcher_Archive rnd room userID content createdAt d =
     (let event = \<lparr>ae_eventID = generateRequestID rnd, ae_room = room, ae_userID = userID, ae_content = content, ae_createdAt = createdAt\<rparr>;
          d1 = d\<lparr>d_archive := fst (offer archiveQueueSize event (d_archive d))\<rparr>
      in if d_notificationClient d = None then d1
         else d1\<lparr>d_notify := fst (offer notifyQueueSize event (d_notify d1))\<rparr>)"

definition Dispatcher_Close :: "Dispatcher \<Rightarrow> Dispatcher" where
  "Dispatcher_Close d =
     d\<lparr>d_presence := close_stop (d_presence d), d_archive := close_stop (d_archive d), d_notify := close_stop (d_notify d)\<rparr>"

text \<open>
  What \<^verbatim>\<open>Close\<close> waits for: \<open>True\<close> is the case of \<^verbatim>\<open>done\<close>, ready when every worker has returned; \<open>False\<close> is
  the case of the timer, ready when \<open>timeout\<close> has passed since the call.  \<^verbatim>\<open>select\<close> takes any that is ready and
  blocks while none is.
\<close>

definition Close_ready :: "int \<Rightarrow> int \<Rightarrow> Dispatcher \<Rightarrow> bool list" where
  "Close_ready timeout elapsed d =
     (if set (ln_workers (d_presence d) @ ln_workers (d_archive d) @ ln_workers (d_notify d)) = {Exited} then [True] else []) @
     (if timeout \<le> elapsed then [False] else [])"

section \<open>The handlers\<close>

definition status_text :: "PresenceStatus \<Rightarrow> string" where
  "status_text st = (case st of Online \<Rightarrow> ''online'' | Offline \<Rightarrow> ''offline'')"

definition wire_event :: "presenceEvent \<Rightarrow> PresenceEvent" where
  "wire_event ev =
     \<lparr>pe_UserID = pv_userID ev, pe_Room = pv_room ev, pe_Status = status_text (pv_status ev), pe_InstanceID = ''''\<rparr>"

definition handlePresence :: "presence_body outside \<Rightarrow> PresenceClient \<Rightarrow> presenceEvent \<Rightarrow> presence_body net \<Rightarrow> presence_body net" where
  "handlePresence os pc event w = fst (SendEvent os pc (nw_now w + presenceEventTimeout) (wire_event event) w)"

definition handleArchive :: "mysql_ctx \<Rightarrow> archiveEvent \<Rightarrow> messages_table \<Rightarrow> messages_table" where
  "handleArchive mx event t =
     fst (MessageService_Create mx (ae_room event) (ae_userID event) (ae_content event) (ae_createdAt event) t)"

definition wire_message :: "archiveEvent \<Rightarrow> MessageEvent" where
  "wire_message event =
     \<lparr>me_EventID = ae_eventID event, me_Room = ae_room event, me_UserID = ae_userID event,
      me_Content = ae_content event, me_CreatedAt = ae_createdAt event\<rparr>"

text \<open>
  Without a client the notify queue stays empty (\<open>Dispatcher_Archive\<close> offers it nothing), so the \<open>None\<close> branch
  is never taken on an event.
\<close>

definition handleNotify ::
  "(MessageEvent outside \<times> NotificationClient) option \<Rightarrow> archiveEvent \<Rightarrow> int \<Rightarrow> MessageEvent net \<Rightarrow> MessageEvent net" where
  "handleNotify client event timeout w =
     (case client of
        None \<Rightarrow> w
      | Some (os, nc) \<Rightarrow> fst (SendMessageEvent os nc (nw_now w + timeout) (wire_message event) w))"

section \<open>The workers\<close>

definition presence_take :: "presence_body outside \<Rightarrow> PresenceClient \<Rightarrow> Dispatcher \<Rightarrow> Dispatcher option" where
  "presence_take os pc d =
     (case take_one 0 (d_presence d) of
        None \<Rightarrow> None
      | Some (event, l) \<Rightarrow> Some (d\<lparr>d_presence := l, d_net := handlePresence os pc event (d_net d)\<rparr>))"

definition archive_take :: "mysql_ctx \<Rightarrow> Dispatcher \<Rightarrow> Dispatcher option" where
  "archive_take mx d =
     (case take_one 0 (d_archive d) of
        None \<Rightarrow> None
      | Some (event, l) \<Rightarrow> Some (d\<lparr>d_archive := l, d_table := handleArchive mx event (d_table d)\<rparr>))"

definition notify_take :: "nat \<Rightarrow> Dispatcher \<Rightarrow> Dispatcher option" where
  "notify_take i d =
     (case take_one i (d_notify d) of
        None \<Rightarrow> None
      | Some (event, l) \<Rightarrow>
          Some (d\<lparr>d_notify := l,
                  d_events := handleNotify (d_notificationClient d) event
                    (if ln_workers (d_notify d) ! i = Running then notifyEventTimeout else notifyDrainTimeout) (d_events d)\<rparr>))"

definition presence_turn :: "(nat \<Rightarrow> presenceEvent lane \<Rightarrow> presenceEvent lane option) \<Rightarrow> Dispatcher \<Rightarrow> Dispatcher option" where
  "presence_turn f d = map_option (\<lambda>l. d\<lparr>d_presence := l\<rparr>) (f 0 (d_presence d))"

definition archive_turn :: "(nat \<Rightarrow> archiveEvent lane \<Rightarrow> archiveEvent lane option) \<Rightarrow> Dispatcher \<Rightarrow> Dispatcher option" where
  "archive_turn f d = map_option (\<lambda>l. d\<lparr>d_archive := l\<rparr>) (f 0 (d_archive d))"

definition notify_turn :: "nat \<Rightarrow> (nat \<Rightarrow> archiveEvent lane \<Rightarrow> archiveEvent lane option) \<Rightarrow> Dispatcher \<Rightarrow> Dispatcher option" where
  "notify_turn i f d = map_option (\<lambda>l. d\<lparr>d_notify := l\<rparr>) (f i (d_notify d))"

inductive dispatch_step :: "presence_body outside \<Rightarrow> PresenceClient \<Rightarrow> Dispatcher \<Rightarrow> Dispatcher \<Rightarrow> bool" for os pc where
  notify: "dispatch_step os pc d (Dispatcher_Notify room u st d)"
| archive: "dispatch_step os pc d (Dispatcher_Archive rnd room u content at d)"
| close_all: "dispatch_step os pc d (Dispatcher_Close d)"
| presence_taken: "presence_take os pc d = Some d' \<Longrightarrow> dispatch_step os pc d d'"
| presence_stops: "presence_turn see_stop d = Some d' \<or> presence_turn leave d = Some d' \<Longrightarrow> dispatch_step os pc d d'"
| archive_taken: "archive_take mx d = Some d' \<Longrightarrow> dispatch_step os pc d d'"
| archive_stops: "archive_turn see_stop d = Some d' \<or> archive_turn leave d = Some d' \<Longrightarrow> dispatch_step os pc d d'"
| notify_taken: "notify_take i d = Some d' \<Longrightarrow> dispatch_step os pc d d'"
| notify_stops: "notify_turn i see_stop d = Some d' \<or> notify_turn i leave d = Some d' \<Longrightarrow> dispatch_step os pc d d'"

inductive dispatch_reach :: "presence_body outside \<Rightarrow> PresenceClient \<Rightarrow> Dispatcher \<Rightarrow> Dispatcher \<Rightarrow> bool" for os pc d0 where
  start: "dispatch_reach os pc d0 d0"
| move: "dispatch_reach os pc d0 d \<Longrightarrow> dispatch_step os pc d d' \<Longrightarrow> dispatch_reach os pc d0 d'"

section \<open>Every step is a step of the lanes\<close>

lemmas lane_move = lane_step.worked [OF taken] lane_step.worked [OF stop_seen] lane_step.worked [OF left] lane_step.offered lane_step.closed

lemma dispatch_lanes:
  assumes "dispatch_step os pc d d'"
  shows "d_presence d' = d_presence d \<or> lane_step presenceQueueSize (d_presence d) (d_presence d')"
    and "d_archive d' = d_archive d \<or> lane_step archiveQueueSize (d_archive d) (d_archive d')"
    and "d_notify d' = d_notify d \<or> lane_step notifyQueueSize (d_notify d) (d_notify d')"
  using assms
  by (cases rule: dispatch_step.cases;
      auto simp: Dispatcher_Notify_def Dispatcher_Archive_def Dispatcher_Close_def presence_take_def archive_take_def
        notify_take_def presence_turn_def archive_turn_def notify_turn_def Let_def
        split: option.splits if_splits intro: lane_move)+

lemma dispatch_lane_inv:
  assumes "dispatch_reach os pc (NewDispatcher h now t) d"
  shows "lane_inv presenceQueueSize 1 (d_presence d) \<and> lane_inv archiveQueueSize 1 (d_archive d) \<and>
    lane_inv notifyQueueSize notifyWorkers (d_notify d)"
  using assms
proof induction
  case start
  show ?case by (simp add: NewDispatcher_def lane_inv_new)
next
  case (move d d')
  then show ?case using dispatch_lanes [OF move.hyps(2)] lane_inv_step by metis
qed

text \<open>Worker moves of one lane are moves of the dispatcher that leave the other lanes alone.\<close>

inductive own_step :: "presence_body outside \<Rightarrow> PresenceClient \<Rightarrow> Dispatcher \<Rightarrow> Dispatcher \<Rightarrow> bool" for os pc where
  own_presence: "presence_take os pc d = Some d' \<or> presence_turn see_stop d = Some d' \<or> presence_turn leave d = Some d' \<Longrightarrow> own_step os pc d d'"
| own_archive: "archive_take mx d = Some d' \<or> archive_turn see_stop d = Some d' \<or> archive_turn leave d = Some d' \<Longrightarrow> own_step os pc d d'"
| own_notify: "notify_take i d = Some d' \<or> notify_turn i see_stop d = Some d' \<or> notify_turn i leave d = Some d' \<Longrightarrow> own_step os pc d d'"

lemma own_step_dispatch: "own_step os pc d d' \<Longrightarrow> dispatch_step os pc d d'"
  by (cases rule: own_step.cases) (auto intro: dispatch_step.intros)

lemma own_steps_reach: "(own_step os pc)\<^sup>*\<^sup>* d d' \<Longrightarrow> dispatch_reach os pc d0 d \<Longrightarrow> dispatch_reach os pc d0 d'"
  by (induction rule: rtranclp_induct) (auto intro: dispatch_reach.move own_step_dispatch)

lemma single_worker:
  assumes "worker_step l l'" "length (ln_workers l) = 1"
  shows "(\<exists>e. take_one 0 l = Some (e, l')) \<or> see_stop 0 l = Some l' \<or> leave 0 l = Some l'"
  using assms by (cases rule: worker_step.cases) (auto simp: take_one_def see_stop_def leave_def split: if_splits)

lemma presence_own:
  assumes "worker_step\<^sup>*\<^sup>* (d_presence d) l" "length (ln_workers (d_presence d)) = 1"
  shows "\<exists>d'. (own_step os pc)\<^sup>*\<^sup>* d d' \<and> d_presence d' = l \<and> d_archive d' = d_archive d \<and> d_notify d' = d_notify d"
  using assms
proof (induction rule: rtranclp_induct)
  case (step l l')
  then obtain d1 where d1: "(own_step os pc)\<^sup>*\<^sup>* d d1" "d_presence d1 = l" "d_archive d1 = d_archive d" "d_notify d1 = d_notify d" by blast
  have one: "length (ln_workers l) = 1" using worker_steps_keep [OF step.hyps(1)] step.prems by simp
  have "\<exists>d2. own_step os pc d1 d2 \<and> d_presence d2 = l' \<and> d_archive d2 = d_archive d1 \<and> d_notify d2 = d_notify d1"
    using single_worker [OF step.hyps(2) one] d1(2)
    by (fastforce simp: presence_take_def presence_turn_def intro: own_presence)
  with d1 show ?case by (metis rtranclp.rtrancl_into_rtrancl)
qed blast

lemma archive_own:
  assumes "worker_step\<^sup>*\<^sup>* (d_archive d) l" "length (ln_workers (d_archive d)) = 1"
  shows "\<exists>d'. (own_step os pc)\<^sup>*\<^sup>* d d' \<and> d_presence d' = d_presence d \<and> d_archive d' = l \<and> d_notify d' = d_notify d"
  using assms
proof (induction rule: rtranclp_induct)
  case (step l l')
  then obtain d1 where d1: "(own_step os pc)\<^sup>*\<^sup>* d d1" "d_presence d1 = d_presence d" "d_archive d1 = l" "d_notify d1 = d_notify d" by blast
  have one: "length (ln_workers l) = 1" using worker_steps_keep [OF step.hyps(1)] step.prems by simp
  have "\<exists>d2. own_step os pc d1 d2 \<and> d_presence d2 = d_presence d1 \<and> d_archive d2 = l' \<and> d_notify d2 = d_notify d1"
    using single_worker [OF step.hyps(2) one] d1(3)
    by (fastforce simp: archive_take_def archive_turn_def intro: own_archive)
  with d1 show ?case by (metis rtranclp.rtrancl_into_rtrancl)
qed blast

lemma notify_own:
  assumes "worker_step\<^sup>*\<^sup>* (d_notify d) l"
  shows "\<exists>d'. (own_step os pc)\<^sup>*\<^sup>* d d' \<and> d_presence d' = d_presence d \<and> d_archive d' = d_archive d \<and> d_notify d' = l"
  using assms
proof (induction rule: rtranclp_induct)
  case (step l l')
  then obtain d1 where d1: "(own_step os pc)\<^sup>*\<^sup>* d d1" "d_presence d1 = d_presence d" "d_archive d1 = d_archive d" "d_notify d1 = l" by blast
  have "\<exists>d2. own_step os pc d1 d2 \<and> d_presence d2 = d_presence d1 \<and> d_archive d2 = d_archive d1 \<and> d_notify d2 = l'"
    using step.hyps(2)
  proof (cases rule: worker_step.cases)
    case (taken i e)
    then obtain d2 where "notify_take i d1 = Some d2" "d_presence d2 = d_presence d1" "d_archive d2 = d_archive d1" "d_notify d2 = l'"
      using d1(4) by (auto simp: notify_take_def)
    then show ?thesis by (blast intro: own_notify)
  next
    case (stop_seen i)
    then show ?thesis using d1(4) by (fastforce simp: notify_turn_def intro: own_notify)
  next
    case (left i)
    then show ?thesis using d1(4) by (fastforce simp: notify_turn_def intro: own_notify)
  qed
  with d1 show ?case by (metis rtranclp.rtrancl_into_rtrancl)
qed blast

section \<open>What leaves the process\<close>

definition presence_bodies :: "PresenceClient \<Rightarrow> nat list \<Rightarrow> presenceEvent list \<Rightarrow> presence_body list" where
  "presence_bodies pc ks evs = concat (map2 (\<lambda>k ev. replicate k (EventBody ((wire_event ev)\<lparr>pe_InstanceID := pc_instanceID pc\<rparr>))) ks evs)"

lemma handlePresence_sent:
  assumes "os_url_ok os (pc_baseURL pc @ ''/events'')"
  shows "\<exists>k. 0 < k \<and> k \<le> 4 \<and> map or_body (nw_sent (handlePresence os pc ev w)) =
    map or_body (nw_sent w) @ replicate k (EventBody ((wire_event ev)\<lparr>pe_InstanceID := pc_instanceID pc\<rparr>))"
proof -
  obtain k where k: "0 < k" "k \<le> 4" "nw_sent (handlePresence os pc ev w) = nw_sent w @
      map (event_request os pc (wire_event ev)) [length (nw_sent w)..<length (nw_sent w) + k]"
    using SendEvent_well [OF assms, of "wire_event ev" w "nw_now w + presenceEventTimeout"]
    by (auto simp: retried_well_def Let_def handlePresence_def)
  have "map or_body (map (event_request os pc (wire_event ev)) [n..<n + k]) =
      replicate k (EventBody ((wire_event ev)\<lparr>pe_InstanceID := pc_instanceID pc\<rparr>))" for n
    by (intro replicate_eqI) (auto simp: event_request_def presence_request_def)
  with k show ?thesis by auto
qed

lemma presence_frame:
  assumes "dispatch_step os pc d d'" "\<And>ev l. take_one 0 (d_presence d) = Some (ev, l) \<Longrightarrow> d' \<noteq> d\<lparr>d_presence := l, d_net := handlePresence os pc ev (d_net d)\<rparr>"
  shows "ln_done (d_presence d') = ln_done (d_presence d) \<and> d_net d' = d_net d"
  using assms
  by (cases rule: dispatch_step.cases)
    (auto simp: Dispatcher_Notify_def Dispatcher_Archive_def Dispatcher_Close_def presence_take_def archive_take_def
        notify_take_def presence_turn_def archive_turn_def notify_turn_def Let_def offer_def close_stop_def see_stop_def leave_def
        split: option.splits if_splits)

lemma presence_bodies_append:
  "length ks = length evs \<Longrightarrow> presence_bodies pc (ks @ ks') (evs @ evs') = presence_bodies pc ks evs @ presence_bodies pc ks' evs'"
  by (simp add: presence_bodies_def)

text \<open>One step of the dispatcher: the events the presence worker takes and the requests it makes for them.\<close>

lemma presence_sends:
  assumes "dispatch_step os pc d d'" "os_url_ok os (pc_baseURL pc @ ''/events'')"
  shows "\<exists>evs ks. ln_done (d_presence d') = ln_done (d_presence d) @ evs \<and> length ks = length evs \<and> list_all (\<lambda>k. 0 < k \<and> k \<le> 4) ks \<and>
    map or_body (nw_sent (d_net d')) = map or_body (nw_sent (d_net d)) @ presence_bodies pc ks evs"
proof (cases "\<exists>ev l. take_one 0 (d_presence d) = Some (ev, l) \<and> d' = d\<lparr>d_presence := l, d_net := handlePresence os pc ev (d_net d)\<rparr>")
  case True
  then obtain ev l where t: "take_one 0 (d_presence d) = Some (ev, l)" and
    d': "d' = d\<lparr>d_presence := l, d_net := handlePresence os pc ev (d_net d)\<rparr>" by blast
  obtain k where k: "0 < k" "k \<le> 4" "map or_body (nw_sent (handlePresence os pc ev (d_net d))) =
      map or_body (nw_sent (d_net d)) @ replicate k (EventBody ((wire_event ev)\<lparr>pe_InstanceID := pc_instanceID pc\<rparr>))"
    using handlePresence_sent [OF assms(2)] by blast
  have "ln_done l = ln_done (d_presence d) @ [ev]" using t by (auto simp: take_one_def split: if_splits list.splits)
  then show ?thesis using k d' by (intro exI [of _ "[ev]"] exI [of _ "[k]"]) (simp add: presence_bodies_def)
next
  case False
  then have "ln_done (d_presence d') = ln_done (d_presence d) \<and> d_net d' = d_net d"
    using presence_frame [OF assms(1)] by blast
  then show ?thesis by (intro exI [of _ "[]"]) (simp add: presence_bodies_def)
qed

lemma presence_sends_more:
  assumes "ln_done (d_presence d1) = dn @ evs" "length ks = length evs" "list_all (\<lambda>k. 0 < k \<and> k \<le> 4) ks"
    "map or_body (nw_sent (d_net d1)) = bodies @ presence_bodies pc ks evs"
    and "dispatch_step os pc d1 d2" "os_url_ok os (pc_baseURL pc @ ''/events'')"
  shows "\<exists>evs ks. ln_done (d_presence d2) = dn @ evs \<and> length ks = length evs \<and> list_all (\<lambda>k. 0 < k \<and> k \<le> 4) ks \<and>
    map or_body (nw_sent (d_net d2)) = bodies @ presence_bodies pc ks evs"
proof -
  obtain evs' ks' where "ln_done (d_presence d2) = ln_done (d_presence d1) @ evs'" "length ks' = length evs'" "list_all (\<lambda>k. 0 < k \<and> k \<le> 4) ks'"
    "map or_body (nw_sent (d_net d2)) = map or_body (nw_sent (d_net d1)) @ presence_bodies pc ks' evs'"
    using presence_sends [OF assms(5,6)] by blast
  with assms(1-4) show ?thesis
    by (intro exI [of _ "evs @ evs'"] exI [of _ "ks @ ks'"]) (simp add: presence_bodies_append)
qed

text \<open>
  C29: presence-service is told in the order the room decided.  The requests the presence worker has made are, one
  after the other, between one and four copies of each event it took from the queue, in queue order and
  under this instance's id: an offline can never overtake the online before it.
\<close>

theorem presence_requests_in_order:
  assumes "dispatch_reach os pc (NewDispatcher h now t) d" "os_url_ok os (pc_baseURL pc @ ''/events'')"
  shows "\<exists>ks. length ks = length (ln_done (d_presence d)) \<and> list_all (\<lambda>k. 0 < k \<and> k \<le> 4) ks \<and>
    map or_body (nw_sent (d_net d)) = presence_bodies pc ks (ln_done (d_presence d)) \<and>
    prefix (ln_done (d_presence d)) (ln_accepted (d_presence d))"
proof -
  have "\<exists>evs ks. ln_done (d_presence d) = [] @ evs \<and> length ks = length evs \<and> list_all (\<lambda>k. 0 < k \<and> k \<le> 4) ks \<and>
      map or_body (nw_sent (d_net d)) = [] @ presence_bodies pc ks evs"
    using assms(1)
  proof induction
    case start
    show ?case by (simp add: NewDispatcher_def new_lane_def presence_bodies_def)
  next
    case (move d d')
    then show ?case using presence_sends_more [OF _ _ _ _ move.hyps(2) assms(2)] by blast
  qed
  moreover have "prefix (ln_done (d_presence d)) (ln_accepted (d_presence d))"
    using dispatch_lane_inv [OF assms(1)] lane_invD(1) [of presenceQueueSize 1 "d_presence d"] prefixI by metis
  ultimately show ?thesis by auto
qed

text \<open>A run in which one user joins and the service is shut down.\<close>

definition ex_event :: presenceEvent where
  "ex_event = \<lparr>pv_room = ''r'', pv_userID = 7, pv_status = Online\<rparr>"

definition ex_queued :: Dispatcher where
  "ex_queued = Dispatcher_Close (Dispatcher_Notify ''r'' 7 Online (NewDispatcher None 0 three_messages))"

definition ex_lane :: "worker \<Rightarrow> presenceEvent list \<Rightarrow> presenceEvent list \<Rightarrow> presenceEvent lane" where
  "ex_lane w q dn = \<lparr>ln_q = q, ln_workers = [w], ln_stop = Some 1, ln_accepted = [ex_event], ln_done = dn\<rparr>"

definition ex_closed :: Dispatcher where
  "ex_closed = ex_queued\<lparr>d_presence := ex_lane Exited [] [ex_event], d_net := handlePresence flaky flaky_client ex_event (d_net ex_queued)\<rparr>"

lemma ex_queued_reach: "dispatch_reach flaky flaky_client (NewDispatcher None 0 three_messages) ex_queued"
  unfolding ex_queued_def by (rule dispatch_reach.move [OF dispatch_reach.move [OF dispatch_reach.start dispatch_step.notify] dispatch_step.close_all])

lemma ex_queued_lane: "d_presence ex_queued = ex_lane Running [ex_event] []"
  by (simp add: ex_queued_def ex_lane_def ex_event_def Dispatcher_Close_def Dispatcher_Notify_def NewDispatcher_def new_lane_def
      offer_def presenceQueueSize_def close_stop_def)

lemma ex_queued_stop: "ln_stop (d_presence ex_queued) \<noteq> None" "ln_stop (d_archive ex_queued) \<noteq> None" "ln_stop (d_notify ex_queued) \<noteq> None"
  by (simp_all add: ex_queued_def Dispatcher_Close_def Dispatcher_Notify_def NewDispatcher_def new_lane_def offer_def close_stop_def)

lemma ex_closed_lane: "d_presence ex_closed = ex_lane Exited [] [ex_event]"
  by (simp add: ex_closed_def)

lemma ex_closed_reach: "dispatch_reach flaky flaky_client (NewDispatcher None 0 three_messages) ex_closed"
proof -
  let ?d2 = "ex_queued\<lparr>d_presence := ex_lane Draining [ex_event] []\<rparr>"
  let ?d3 = "?d2\<lparr>d_presence := ex_lane Draining [] [ex_event], d_net := handlePresence flaky flaky_client ex_event (d_net ex_queued)\<rparr>"
  have "presence_turn see_stop ex_queued = Some ?d2"
    by (simp add: presence_turn_def ex_queued_lane see_stop_def) (simp add: ex_lane_def)
  then have r2: "dispatch_reach flaky flaky_client (NewDispatcher None 0 three_messages) ?d2"
    using ex_queued_reach by (blast intro: dispatch_reach.move dispatch_step.presence_stops)
  have "presence_take flaky flaky_client ?d2 = Some ?d3"
    by (simp add: presence_take_def take_one_def) (simp add: ex_lane_def)
  then have r3: "dispatch_reach flaky flaky_client (NewDispatcher None 0 three_messages) ?d3"
    using r2 by (blast intro: dispatch_reach.move dispatch_step.presence_taken)
  have "presence_turn leave ?d3 = Some ex_closed"
    by (simp add: presence_turn_def leave_def ex_closed_def) (simp add: ex_lane_def)
  then show ?thesis using r3 by (blast intro: dispatch_reach.move dispatch_step.presence_stops)
qed

theorem presence_requests_in_order_witness:
  "\<exists>k. 0 < k \<and> k \<le> 4 \<and> map or_body (nw_sent (d_net ex_closed)) =
     replicate k (EventBody \<lparr>pe_UserID = 7, pe_Room = ''r'', pe_Status = ''online'', pe_InstanceID = ''chat-1''\<rparr>)"
proof -
  have url: "os_url_ok flaky u" for u by (simp add: flaky_def)
  obtain ks where "length ks = length [ex_event]" "list_all (\<lambda>k. 0 < k \<and> k \<le> 4) ks"
    "map or_body (nw_sent (d_net ex_closed)) = presence_bodies flaky_client ks [ex_event]"
    using presence_requests_in_order [OF ex_closed_reach url] by (auto simp: ex_closed_lane ex_lane_def)
  then show ?thesis
    by (cases ks) (auto simp: presence_bodies_def ex_event_def wire_event_def flaky_client_def status_text_def)
qed

text \<open>
  C32: the queues are bounded, first in first out, and drained at shutdown.  However rooms, workers
  and \<^verbatim>\<open>Close\<close> interleave, each queue holds at most its capacity; what its workers took followed by what it still
  holds is exactly what it accepted, in that order; and once any worker of a queue has exited, everything
  the queue accepted before \<^verbatim>\<open>Close\<close> has been taken.
\<close>

theorem dispatch_queues:
  assumes "dispatch_reach os pc (NewDispatcher h now t) d"
  shows "lane_ok 256 (d_presence d) \<and> lane_ok 1024 (d_archive d) \<and> lane_ok 1024 (d_notify d)"
  using dispatch_lane_inv [OF assms] unfolding presenceQueueSize_def archiveQueueSize_def notifyQueueSize_def by (blast intro: lane_inv_ok)

theorem dispatch_queues_witness: "lane_ok 256 (d_presence ex_closed) \<and> Exited \<in> set (ln_workers (d_presence ex_closed))"
  using dispatch_queues [OF ex_closed_reach] by (simp add: ex_closed_lane ex_lane_def)

text \<open>
  Shutdown finishes.  From every reachable state in which \<^verbatim>\<open>Close\<close> has been called, the workers on
  their own can reach a state in which all six have exited; every one of their moves is progress, so no
  schedule of the workers goes on forever.
\<close>

theorem dispatch_shutdown:
  assumes "dispatch_reach os pc (NewDispatcher h now t) d"
    and "ln_stop (d_presence d) \<noteq> None" "ln_stop (d_archive d) \<noteq> None" "ln_stop (d_notify d) \<noteq> None"
  shows "\<exists>d'. (own_step os pc)\<^sup>*\<^sup>* d d' \<and> dispatch_reach os pc (NewDispatcher h now t) d' \<and>
    set (ln_workers (d_presence d') @ ln_workers (d_archive d') @ ln_workers (d_notify d')) = {Exited}"
proof -
  note I = dispatch_lane_inv [OF assms(1)]
  have one: "length (ln_workers (d_presence d)) = 1" "length (ln_workers (d_archive d)) = 1" using I lane_invD(3) by blast+
  obtain l1 where l1: "worker_step\<^sup>*\<^sup>* (d_presence d) l1" "set (ln_workers l1) \<subseteq> {Exited}" using drain_terminates assms(2) by blast
  obtain d1 where d1: "(own_step os pc)\<^sup>*\<^sup>* d d1" "d_presence d1 = l1" "d_archive d1 = d_archive d" "d_notify d1 = d_notify d"
    using presence_own [OF l1(1) one(1)] by blast
  obtain l2 where l2: "worker_step\<^sup>*\<^sup>* (d_archive d1) l2" "set (ln_workers l2) \<subseteq> {Exited}" using drain_terminates assms(3) d1(3) by metis
  obtain d2 where d2: "(own_step os pc)\<^sup>*\<^sup>* d1 d2" "d_presence d2 = l1" "d_archive d2 = l2" "d_notify d2 = d_notify d"
    using archive_own [OF l2(1)] one(2) d1 by metis
  obtain l3 where l3: "worker_step\<^sup>*\<^sup>* (d_notify d2) l3" "set (ln_workers l3) \<subseteq> {Exited}" using drain_terminates assms(4) d2(4) by metis
  obtain d3 where d3: "(own_step os pc)\<^sup>*\<^sup>* d2 d3" "d_presence d3 = l1" "d_archive d3 = l2" "d_notify d3 = l3"
    using notify_own [OF l3(1)] d2 by metis
  have steps: "(own_step os pc)\<^sup>*\<^sup>* d d3" using d1(1) d2(1) d3(1) by (meson rtranclp_trans)
  have "length (ln_workers l1) = 1" using worker_steps_keep [OF l1(1)] one(1) by simp
  then have "set (ln_workers l1 @ ln_workers l2 @ ln_workers l3) = {Exited}"
    using l1(2) l2(2) l3(2) by (cases "ln_workers l1") auto
  then show ?thesis using steps own_steps_reach [OF steps assms(1)] d3(2-4) by blast
qed

theorem dispatch_shutdown_witness:
  "\<exists>d'. (own_step flaky flaky_client)\<^sup>*\<^sup>* ex_queued d' \<and>
    set (ln_workers (d_presence d') @ ln_workers (d_archive d') @ ln_workers (d_notify d')) = {Exited}"
  using dispatch_shutdown [OF ex_queued_reach ex_queued_stop] by blast

definition stored_as :: "StoredMessage \<Rightarrow> string \<times> int \<times> string" where
  "stored_as m = (sm_RoomID m, sm_UserID m, sm_Content m)"

definition archived_as :: "archiveEvent \<Rightarrow> string \<times> int \<times> string" where
  "archived_as e = (ae_room e, ae_userID e, ae_content e)"

lemma archive_frame:
  assumes "dispatch_step os pc d d'" "\<And>ev l mx. take_one 0 (d_archive d) = Some (ev, l) \<Longrightarrow> d' \<noteq> d\<lparr>d_archive := l, d_table := handleArchive mx ev (d_table d)\<rparr>"
  shows "ln_done (d_archive d') = ln_done (d_archive d) \<and> d_table d' = d_table d"
  using assms
  by (cases rule: dispatch_step.cases)
    (auto simp: Dispatcher_Notify_def Dispatcher_Archive_def Dispatcher_Close_def presence_take_def archive_take_def
        notify_take_def presence_turn_def archive_turn_def notify_turn_def Let_def offer_def close_stop_def see_stop_def leave_def
        split: option.splits if_splits)

lemma handleArchive_rows:
  "(handleArchive mx ev t = t) \<or>
   (\<exists>m. mt_rows (handleArchive mx ev t) = mt_rows t @ [m] \<and> stored_as m = archived_as ev \<and> sm_ID m = mt_next t \<and>
     mt_next (handleArchive mx ev t) = mt_next t + 1)"
  by (auto simp: handleArchive_def MessageService_Create_def MessageRepository_Create_def stored_as_def archived_as_def Let_def)


definition ex_notifier :: "(MessageEvent outside \<times> NotificationClient) option" where
  "ex_notifier = Some (flaky, \<lparr>nc_baseURL = ''http://n'', nc_apiKey = ''k''\<rparr>)"

definition ex_archived :: Dispatcher where
  "ex_archived = the (archive_take plain_mysql (Dispatcher_Archive ''0123456789abcdef'' ''r'' 9 ''hi'' 12 (NewDispatcher ex_notifier 0 three_messages)))"

lemma ex_archived_reach: "dispatch_reach flaky flaky_client (NewDispatcher ex_notifier 0 three_messages) ex_archived"
proof -
  let ?d = "Dispatcher_Archive ''0123456789abcdef'' ''r'' 9 ''hi'' 12 (NewDispatcher ex_notifier 0 three_messages)"
  have "dispatch_reach flaky flaky_client (NewDispatcher ex_notifier 0 three_messages) ?d"
    by (rule dispatch_reach.move [OF dispatch_reach.start dispatch_step.archive])
  moreover have "archive_take plain_mysql ?d \<noteq> None"
    by (simp add: archive_take_def Dispatcher_Archive_def NewDispatcher_def new_lane_def offer_def archiveQueueSize_def take_one_def Let_def)
  moreover from this have "archive_take plain_mysql ?d = Some ex_archived" unfolding ex_archived_def by simp
  ultimately show ?thesis using dispatch_reach.move dispatch_step.archive_taken by blast
qed


section \<open>Message events\<close>

lemma handleNotify_sent:
  assumes "os_url_ok nos (nc_baseURL nc @ ''/events/message'')"
  shows "\<exists>k. 0 < k \<and> k \<le> 4 \<and> map or_body (nw_sent (handleNotify (Some (nos, nc)) ev timeout w)) =
    map or_body (nw_sent w) @ replicate k (wire_message ev)"
proof -
  obtain k where k: "0 < k" "k \<le> 4" "nw_sent (handleNotify (Some (nos, nc)) ev timeout w) = nw_sent w @
      map (notify_request nos nc (wire_message ev)) [length (nw_sent w)..<length (nw_sent w) + k]"
    using SendMessageEvent_well [OF assms, of "wire_message ev" w "nw_now w + timeout"]
    by (auto simp: retried_well_def Let_def handleNotify_def)
  have "map or_body (map (notify_request nos nc (wire_message ev)) [n..<n + k]) = replicate k (wire_message ev)" for n
    by (intro replicate_eqI) (auto simp: notify_request_def message_request_def)
  with k show ?thesis by auto
qed

lemma notify_frame:
  assumes "dispatch_step os pc d d'"
    and "\<And>i ev l tm. take_one i (d_notify d) = Some (ev, l) \<Longrightarrow> d' \<noteq> d\<lparr>d_notify := l, d_events := handleNotify (d_notificationClient d) ev tm (d_events d)\<rparr>"
  shows "ln_done (d_notify d') = ln_done (d_notify d) \<and> d_events d' = d_events d"
  using assms
  by (cases rule: dispatch_step.cases)
    (auto simp: Dispatcher_Notify_def Dispatcher_Archive_def Dispatcher_Close_def presence_take_def archive_take_def
        notify_take_def presence_turn_def archive_turn_def notify_turn_def Let_def offer_def close_stop_def see_stop_def leave_def
        split: option.splits if_splits)

lemma client_step: "dispatch_step os pc d d' \<Longrightarrow> d_notificationClient d' = d_notificationClient d"
  by (cases rule: dispatch_step.cases)
    (auto simp: Dispatcher_Notify_def Dispatcher_Archive_def Dispatcher_Close_def presence_take_def archive_take_def
      notify_take_def presence_turn_def archive_turn_def notify_turn_def Let_def split: option.splits)

lemma client_kept: "dispatch_reach os pc d0 d \<Longrightarrow> d_notificationClient d = d_notificationClient d0"
  by (induction rule: dispatch_reach.induct) (simp_all add: client_step)

text \<open>The requests that carry \<open>m\<close> are between one and four for every taken event that \<open>m\<close> is the message of.\<close>

definition sent_for :: "MessageEvent \<Rightarrow> Dispatcher \<Rightarrow> bool" where
  "sent_for m d \<longleftrightarrow>
     (let taken = count_list (map wire_message (ln_done (d_notify d))) m;
          requests = count_list (map or_body (nw_sent (d_events d))) m
      in taken \<le> requests \<and> requests \<le> 4 * taken)"

lemma count_list_replicate: "count_list (replicate k x) m = (if x = m then k else 0)"
  by (induction k) auto

lemma message_sends:
  assumes "dispatch_step os pc d d'" "d_notificationClient d = Some (nos, nc)" "os_url_ok nos (nc_baseURL nc @ ''/events/message'')" "sent_for m d"
  shows "sent_for m d'"
proof (cases "\<exists>i ev l tm. take_one i (d_notify d) = Some (ev, l) \<and>
    d' = d\<lparr>d_notify := l, d_events := handleNotify (d_notificationClient d) ev tm (d_events d)\<rparr>")
  case True
  then obtain i ev l tm where t: "take_one i (d_notify d) = Some (ev, l)" and
    d': "d' = d\<lparr>d_notify := l, d_events := handleNotify (Some (nos, nc)) ev tm (d_events d)\<rparr>" using assms(2) by auto
  obtain k where k: "0 < k" "k \<le> 4" "map or_body (nw_sent (handleNotify (Some (nos, nc)) ev tm (d_events d))) =
      map or_body (nw_sent (d_events d)) @ replicate k (wire_message ev)"
    using handleNotify_sent [OF assms(3)] by blast
  have "ln_done l = ln_done (d_notify d) @ [ev]" using t by (auto simp: take_one_def split: if_splits list.splits)
  then show ?thesis using assms(4) k(1,2) unfolding sent_for_def d' by (simp add: k(3) Let_def count_list_replicate)
next
  case False
  then have "ln_done (d_notify d') = ln_done (d_notify d) \<and> d_events d' = d_events d" using notify_frame [OF assms(1)] by blast
  then show ?thesis using assms(4) by (simp add: sent_for_def)
qed

text \<open>
  Every message event a notify worker takes is reported to notification-service, with the id it was given when
  it was archived: however the four workers share the queue and whatever the network answers, a taken event
  accounts for one to four requests with its own body, and there are no other requests.
\<close>

theorem message_events_sent:
  assumes "dispatch_reach os pc (NewDispatcher (Some (nos, nc)) now t) d" "os_url_ok nos (nc_baseURL nc @ ''/events/message'')"
  shows "sent_for m d"
  using assms(1)
proof induction
  case start
  show ?case by (simp add: sent_for_def NewDispatcher_def new_lane_def)
next
  case (move d d')
  have "d_notificationClient d = Some (nos, nc)" using client_kept [OF move.hyps(1)] by (simp add: NewDispatcher_def)
  then show ?case using message_sends [OF move.hyps(2) _ assms(2) move.IH] by blast
qed

text \<open>
  What \<^verbatim>\<open>Close\<close> guarantees.  It returns for one of two reasons.  Either every worker is done: then everything the
  three queues had accepted when \<^verbatim>\<open>Close\<close> was called has been handled, and each message event among it has been
  sent.  Or its budget is used up, and what is left behind is bounded by the three capacities.
\<close>

lemma set_all_same: "set xs \<subseteq> {x} \<Longrightarrow> xs \<noteq> [] \<Longrightarrow> set xs = {x}"
  by (cases xs) auto

lemma all_exited:
  assumes "lane_inv cap n l" "set (ln_workers l) = {Exited}"
  shows "\<exists>k. ln_stop l = Some k \<and> set (take k (ln_accepted l)) \<subseteq> set (ln_done l)"
proof -
  have "Exited \<in> set (ln_workers l)" using assms(2) by simp
  then obtain k where "ln_stop l = Some k" "prefix (take k (ln_accepted l)) (ln_done l)"
    using lane_inv_ok [OF assms(1)] by (auto simp: lane_ok_def split: option.splits)
  then show ?thesis using set_mono_prefix by blast
qed

theorem close_outcomes:
  assumes "dispatch_reach os pc (NewDispatcher (Some (nos, nc)) now t) d" "os_url_ok nos (nc_baseURL nc @ ''/events/message'')"
    and "drained \<in> set (Close_ready timeout elapsed d)"
  shows "if drained
    then \<exists>k. ln_stop (d_notify d) = Some k \<and> ln_stop (d_presence d) \<noteq> None \<and> ln_stop (d_archive d) \<noteq> None \<and>
      wire_message ` set (take k (ln_accepted (d_notify d))) \<subseteq> or_body ` set (nw_sent (d_events d))
    else timeout \<le> elapsed \<and> length (ln_q (d_presence d)) + length (ln_q (d_archive d)) + length (ln_q (d_notify d)) \<le> 2304"
proof (cases drained)
  case True
  note I = dispatch_lane_inv [OF assms(1)]
  have len: "ln_workers (d_presence d) \<noteq> []" "ln_workers (d_archive d) \<noteq> []" "ln_workers (d_notify d) \<noteq> []"
    using I lane_invD(3) [of presenceQueueSize 1 "d_presence d"] lane_invD(3) [of archiveQueueSize 1 "d_archive d"]
      lane_invD(3) [of notifyQueueSize notifyWorkers "d_notify d"] by (auto simp: notifyWorkers_def)
  have all: "set (ln_workers (d_presence d) @ ln_workers (d_archive d) @ ln_workers (d_notify d)) = {Exited}"
    using assms(3) True by (simp add: Close_ready_def split: if_splits)
  have E: "set (ln_workers (d_presence d)) = {Exited}" "set (ln_workers (d_archive d)) = {Exited}" "set (ln_workers (d_notify d)) = {Exited}"
    using all by (auto intro!: set_all_same len)
  obtain k where k: "ln_stop (d_notify d) = Some k" "set (take k (ln_accepted (d_notify d))) \<subseteq> set (ln_done (d_notify d))"
    using all_exited [OF _ E(3)] I by blast
  have "wire_message e \<in> or_body ` set (nw_sent (d_events d))" if e: "e \<in> set (ln_done (d_notify d))" for e
  proof -
    have "wire_message e \<in> set (map wire_message (ln_done (d_notify d)))" using e by simp
    then have "0 < count_list (map wire_message (ln_done (d_notify d))) (wire_message e)"
      using count_list_0_iff gr0I by metis
    then have "0 < count_list (map or_body (nw_sent (d_events d))) (wire_message e)"
      using message_events_sent [OF assms(1,2), of "wire_message e"] by (simp add: sent_for_def Let_def)
    then have "wire_message e \<in> set (map or_body (nw_sent (d_events d)))" using count_notin by fastforce
    then show ?thesis by simp
  qed
  then have "wire_message ` set (take k (ln_accepted (d_notify d))) \<subseteq> or_body ` set (nw_sent (d_events d))" using k(2) by blast
  moreover have "ln_stop (d_presence d) \<noteq> None" "ln_stop (d_archive d) \<noteq> None"
    using all_exited [OF _ E(1)] all_exited [OF _ E(2)] I by blast+
  ultimately show ?thesis using k(1) True by simp
next
  case False
  moreover have "length (ln_q (d_presence d)) \<le> 256 \<and> length (ln_q (d_archive d)) \<le> 1024 \<and> length (ln_q (d_notify d)) \<le> 1024"
    using dispatch_lane_inv [OF assms(1)] by (simp add: lane_inv_def presenceQueueSize_def archiveQueueSize_def notifyQueueSize_def)
  ultimately show ?thesis using assms(3) by (auto simp: Close_ready_def split: if_splits)
qed

end
