(* ===== verification/ChatMain.thy ===== *)
theory ChatMain
  imports Routes Hub ChatDispatch Config
begin

text \<open>
  \<^verbatim>\<open>chat-service/cmd/chat/main.go\<close>, the whole of \<^verbatim>\<open>ws/handler.go\<close> and the loop of \<^verbatim>\<open>service/presence_heartbeat.go\<close>: one
  chat-service instance.  The process is its hub with the connections, its dispatcher (whose \<open>d_net\<close> is the presence client's
  log, shared with the heartbeat) and whether the heartbeat still runs.  gorilla's \<^verbatim>\<open>Upgrade\<close> is a parameter: given the
  verdict of \<^verbatim>\<open>CheckOrigin\<close> and the request, it switches protocols or answers with an error of its own.
\<close>

section \<open>handler.go\<close>

record cworld =
  cw_jwt :: jwt_package
  cw_unix :: int
  cw_rid :: string
  cw_upgrade :: "bool \<Rightarrow> request \<Rightarrow> reject + unit"
  cw_conn :: nat
  cw_rooms :: "string list"
  cw_mysql :: mysql_ctx

datatype chat_json = RoomInfos "(string \<times> nat) list" | HistoryJSON PaginatedMessages

definition upgraded :: "string \<Rightarrow> 'v response" where
  "upgraded instanceID = \<lparr>resp_status = 101, resp_header = Header_Set no_headers ''X-Chat-Instance'' instanceID, resp_body = NoBody\<rparr>"

definition Handler_Serve :: "chat_Config \<Rightarrow> cworld \<Rightarrow> echo_context \<Rightarrow> chat \<Rightarrow> chat \<times> 'v response" where
  "Handler_Serve cfg w cx s =
     (case Serve_admit (cw_jwt w) (c_JWTSecret cfg) (cw_unix w) cx of
        Inl (st, msg) \<Rightarrow> (s, reply cx st (JSON_error msg))
      | Inr (roomName, userID) \<Rightarrow>
          (case cw_upgrade w (CheckOrigin (c_WSAllowedOrigins cfg) (cx_req cx)) (cx_req cx) of
             Inl (st, msg) \<Rightarrow> (s, reply cx st (Blob msg))
           | Inr _ \<Rightarrow> (join_room (cw_conn w) roomName userID s, upgraded (c_InstanceID cfg))))"

definition Handler_ListRooms :: "cworld \<Rightarrow> echo_context \<Rightarrow> chat \<Rightarrow> chat_json response" where
  "Handler_ListRooms w cx s = reply cx 200 (JSON (RoomInfos (Hub.ListRooms (cw_rooms w) (ch_hub s))))"

section \<open>The routes\<close>

record chat_process =
  cp_chat :: chat
  cp_dispatcher :: Dispatcher
  cp_beating :: bool

definition chat_guard :: "chat_Config \<Rightarrow> cworld \<Rightarrow> guard \<Rightarrow> echo_context \<Rightarrow> chat_process \<Rightarrow> chat_process \<times> (reject + echo_context)" where
  "chat_guard cfg w x cx p =
     (p, case x of JWTMiddleware \<Rightarrow> chat_JWTMiddleware (cw_jwt w) (c_JWTSecret cfg) (cw_unix w) cx | _ \<Rightarrow> Inr cx)"

definition chat_handle ::
  "chat_Config \<Rightarrow> cworld \<Rightarrow> chat_handler \<Rightarrow> echo_context \<Rightarrow> chat_process \<Rightarrow> chat_process \<times> chat_json served_json response" where
  "chat_handle cfg w h cx p =
     (case h of
        CHealth \<Rightarrow> (p, reply cx 200 (JSON (Status ''ok'')))
      | CListRooms \<Rightarrow> (p, lift_response Served (Handler_ListRooms w cx (cp_chat p)))
      | CListByRoom \<Rightarrow>
          (p, lift_response (\<lambda>v. Served (HistoryJSON v)) (MessageController_ListByRoom (cw_mysql w) (d_table (cp_dispatcher p)) cx))
      | CServe \<Rightarrow> (case Handler_Serve cfg w cx (cp_chat p) of (s, r) \<Rightarrow> (p\<lparr>cp_chat := s\<rparr>, r)))"

definition chat_serve ::
  "router \<Rightarrow> (echo_context \<Rightarrow> chat_json served_json response) \<Rightarrow> chat_Config \<Rightarrow> cworld \<Rightarrow> echo_context \<Rightarrow> chat_process \<Rightarrow>
   chat_process \<times> chat_json served_json response" where
  "chat_serve rfind unrouted cfg w cx p =
     serve_routes rfind chat_routes (chat_guard cfg w) (chat_handle cfg w)
       (\<lambda>cx rej. reply cx (fst rej) (JSON_error (snd rej))) unrouted
       (InstanceHeaderMiddleware (c_InstanceID cfg) (RequestIDMiddleware (cw_rid w) cx)) p"

section \<open>Running and stopping\<close>

text \<open>
  Start-up: a dispatcher over the message table, an empty hub and a running heartbeat.  \<^verbatim>\<open>PresenceHeartbeat.run\<close> sweeps at
  each tick until \<^verbatim>\<open>Close\<close>.
\<close>

definition chat_start ::
  "env \<Rightarrow> (string \<Rightarrow> messages_table result) \<Rightarrow> (messages_table \<Rightarrow> unit result) \<Rightarrow> MessageEvent outside \<Rightarrow> int \<Rightarrow>
   fatal + (chat_Config \<times> PresenceClient \<times> chat_process)" where
  "chat_start env sql_Open ping nos now =
     (case chat_LoadConfig env of
        Inl e \<Rightarrow> Inl e
      | Inr cfg \<Rightarrow>
     case chat_NewDatabase sql_Open ping cfg of
        Inl e \<Rightarrow> Inl e
      | Inr t \<Rightarrow>
          Inr (cfg,
               \<lparr>pc_baseURL = c_PresenceServiceURL cfg, pc_apiKey = c_PresenceAPIKey cfg, pc_instanceID = c_InstanceID cfg\<rparr>,
               \<lparr>cp_chat = \<lparr>ch_hub = NewHub, ch_conns = Map.empty\<rparr>,
                cp_dispatcher = NewDispatcher (Some (nos,
                  \<lparr>nc_baseURL = c_NotificationServiceURL cfg, nc_apiKey = c_NotificationAPIKey cfg\<rparr>)) now t,
                cp_beating = True\<rparr>))"

definition heartbeat_tick ::
  "presence_body outside \<Rightarrow> PresenceClient \<Rightarrow> string list \<Rightarrow> chat_process \<Rightarrow> chat_process" where
  "heartbeat_tick os pc names p =
     (let d = cp_dispatcher p
      in if cp_beating p
         then p\<lparr>cp_dispatcher := d\<lparr>d_net := sweep os pc (Snapshot names (ch_hub (cp_chat p))) (d_net d)\<rparr>\<rparr>
         else p)"

definition PresenceHeartbeat_Close :: "chat_process \<Rightarrow> chat_process" where
  "PresenceHeartbeat_Close p = p\<lparr>cp_beating := False\<rparr>"

text \<open>The loop of \<^verbatim>\<open>main\<close> after the signal, over a snapshot of the hub.\<close>

definition offlines :: "(string \<times> int list) list \<Rightarrow> presenceEvent list" where
  "offlines snap = concat (map (\<lambda>(room, us). map (\<lambda>u. \<lparr>pv_room = room, pv_userID = u, pv_status = Offline\<rparr>) us) snap)"

definition stop_notify :: "(string \<times> int list) list \<Rightarrow> Dispatcher \<Rightarrow> Dispatcher" where
  "stop_notify snap d = fold (\<lambda>(room, us) d. fold (\<lambda>u d. Dispatcher_Notify room u Offline d) us d) snap d"

definition chat_stop :: "string list \<Rightarrow> chat_process \<Rightarrow> chat_process" where
  "chat_stop names p = p\<lparr>cp_dispatcher := stop_notify (Snapshot names (ch_hub (cp_chat p))) (cp_dispatcher p)\<rparr>"

text \<open>
  Everything that happens to a process between start and exit, its deferred calls included.  Sockets stay connected while
  the HTTP server shuts down (they are hijacked), and the heartbeat keeps sweeping until it is closed.
\<close>

inductive chat_step :: "presence_body outside \<Rightarrow> PresenceClient \<Rightarrow> chat_process \<Rightarrow> chat_process \<Rightarrow> bool" for os pc where
  connections: "hub_step (cp_chat p) s \<Longrightarrow> chat_step os pc p (p\<lparr>cp_chat := s\<rparr>)"
| dispatching: "dispatch_step os pc (cp_dispatcher p) d \<Longrightarrow> chat_step os pc p (p\<lparr>cp_dispatcher := d\<rparr>)"
| beating: "set names = dom (hb_rooms (ch_hub (cp_chat p))) \<Longrightarrow> distinct names \<Longrightarrow> chat_step os pc p (heartbeat_tick os pc names p)"
| stopping: "set names = dom (hb_rooms (ch_hub (cp_chat p))) \<Longrightarrow> distinct names \<Longrightarrow> chat_step os pc p (chat_stop names p)"
| heartbeat_closed: "chat_step os pc p (PresenceHeartbeat_Close p)"

inductive_cases chat_stepE: "chat_step os pc p p'"

section \<open>The stop loop on the queue\<close>

lemma offlines_simps [simp]:
  "offlines [] = []"
  "offlines ((room, us) # snap) = map (\<lambda>u. \<lparr>pv_room = room, pv_userID = u, pv_status = Offline\<rparr>) us @ offlines snap"
  by (simp_all add: offlines_def)

definition offer_all :: "nat \<Rightarrow> 'e list \<Rightarrow> 'e lane \<Rightarrow> 'e lane" where
  "offer_all cap es l = fold (\<lambda>e l. fst (offer cap e l)) es l"

lemma stop_notify_lane: "d_presence (stop_notify snap d) = offer_all presenceQueueSize (offlines snap) (d_presence d)"
proof (induction snap arbitrary: d)
  case Nil
  show ?case by (simp add: stop_notify_def offer_all_def)
next
  case (Cons x snap)
  obtain room us where x: "x = (room, us)" by fastforce
  have users: "d_presence (fold (\<lambda>u d. Dispatcher_Notify room u Offline d) us d) =
      offer_all presenceQueueSize (map (\<lambda>u. \<lparr>pv_room = room, pv_userID = u, pv_status = Offline\<rparr>) us) (d_presence d)" for d
    by (induction us arbitrary: d) (simp_all add: offer_all_def Dispatcher_Notify_def)
  have "d_presence (stop_notify (x # snap) d) =
      offer_all presenceQueueSize (offlines snap) (d_presence (fold (\<lambda>u d. Dispatcher_Notify room u Offline d) us d))"
    using Cons.IH [of "fold (\<lambda>u d. Dispatcher_Notify room u Offline d) us d"] by (simp add: stop_notify_def x)
  then show ?case by (simp add: users x offer_all_def)
qed

lemma stop_notify_other [simp]:
  "d_archive (stop_notify snap d) = d_archive d" "d_notify (stop_notify snap d) = d_notify d"
  "d_net (stop_notify snap d) = d_net d" "d_table (stop_notify snap d) = d_table d"
proof -
  define keeps where "keeps = (\<lambda>(d' :: Dispatcher) (d :: Dispatcher). d_archive d' = d_archive d \<and> d_notify d' = d_notify d \<and> d_net d' = d_net d \<and> d_table d' = d_table d)"
  have one: "keeps (fold (\<lambda>u d. Dispatcher_Notify room u Offline d) us d) d" for room us d
    by (induction us arbitrary: d) (auto simp: keeps_def Dispatcher_Notify_def)
  have "keeps (stop_notify snap d) d"
    unfolding stop_notify_def
  proof (induction snap arbitrary: d)
    case (Cons x snap)
    obtain room us where x: "x = (room, us)" by fastforce
    show ?case using Cons.IH [of "fold (\<lambda>u d. Dispatcher_Notify room u Offline d) us d"] one [of room us d] by (simp add: keeps_def x)
  qed (simp add: keeps_def)
  then show "d_archive (stop_notify snap d) = d_archive d" "d_notify (stop_notify snap d) = d_notify d"
    "d_net (stop_notify snap d) = d_net d" "d_table (stop_notify snap d) = d_table d" by (simp_all add: keeps_def)
qed

text \<open>A burst of offers without a worker's turn in between: what fits is kept, in order, and the surplus is dropped.\<close>

lemma offer_all_kept:
  "length (ln_q l) \<le> cap \<Longrightarrow> offer_all cap es l =
     l\<lparr>ln_q := ln_q l @ take (cap - length (ln_q l)) es, ln_accepted := ln_accepted l @ take (cap - length (ln_q l)) es\<rparr>"
proof (induction es arbitrary: l)
  case Nil
  show ?case by (simp add: offer_all_def)
next
  case (Cons e es)
  show ?case
  proof (cases "length (ln_q l) < cap")
    case True
    then obtain n where n: "cap - length (ln_q l) = Suc n" "cap - Suc (length (ln_q l)) = n" by (metis Suc_diff_Suc)
    have "offer_all cap (e # es) l = offer_all cap es (l\<lparr>ln_q := ln_q l @ [e], ln_accepted := ln_accepted l @ [e]\<rparr>)"
      using True by (simp add: offer_all_def offer_def)
    also have "\<dots> = l\<lparr>ln_q := ln_q l @ take (Suc n) (e # es), ln_accepted := ln_accepted l @ take (Suc n) (e # es)\<rparr>"
      using True n(2) by (subst Cons.IH) simp_all
    finally show ?thesis by (simp add: n(1))
  next
    case False
    then have "offer_all cap (e # es) l = offer_all cap es l" by (simp add: offer_all_def offer_def)
    with Cons False show ?thesis by simp
  qed
qed

section \<open>A reachable process\<close>

inductive chat_reach :: "presence_body outside \<Rightarrow> PresenceClient \<Rightarrow> chat_process \<Rightarrow> chat_process \<Rightarrow> bool" for os pc p0 where
  up: "chat_reach os pc p0 p0"
| goes_on: "chat_reach os pc p0 p \<Longrightarrow> chat_step os pc p p' \<Longrightarrow> chat_reach os pc p0 p'"

lemma chat_presence_lane:
  assumes "chat_step os pc p p'"
  shows "d_presence (cp_dispatcher p') = d_presence (cp_dispatcher p) \<or>
    (\<exists>es. d_presence (cp_dispatcher p') = offer_all presenceQueueSize es (d_presence (cp_dispatcher p))) \<or>
    lane_step presenceQueueSize (d_presence (cp_dispatcher p)) (d_presence (cp_dispatcher p'))"
  using assms
proof cases
  case (dispatching d)
  then show ?thesis using dispatch_lanes(1) [OF dispatching(2)] by auto
next
  case (stopping names)
  then show ?thesis by (auto simp: chat_stop_def stop_notify_lane)
qed (auto simp: heartbeat_tick_def PresenceHeartbeat_Close_def Let_def)

lemma offer_all_inv: "lane_inv cap n l \<Longrightarrow> lane_inv cap n (offer_all cap es l)"
  unfolding offer_all_def by (induction es arbitrary: l) (simp_all add: lane_inv_offer)

lemma chat_presence_inv:
  assumes "chat_reach os pc p0 p" "cp_dispatcher p0 = NewDispatcher h now t"
  shows "lane_inv presenceQueueSize 1 (d_presence (cp_dispatcher p))"
  using assms
proof induction
  case up
  then show ?case by (simp add: NewDispatcher_def lane_inv_new)
next
  case (goes_on p p')
  then show ?case using chat_presence_lane [OF goes_on.hyps(2)] lane_inv_step offer_all_inv by metis
qed

text \<open>What the workers send on their own.\<close>

lemma own_steps_send:
  assumes "(own_step os pc)\<^sup>*\<^sup>* d d'" "os_url_ok os (pc_baseURL pc @ ''/events'')"
  shows "\<exists>evs ks. ln_done (d_presence d') = ln_done (d_presence d) @ evs \<and> length ks = length evs \<and> list_all (\<lambda>k. 0 < k \<and> k \<le> 4) ks \<and>
    map or_body (nw_sent (d_net d')) = map or_body (nw_sent (d_net d)) @ presence_bodies pc ks evs"
  using assms(1)
proof (induction rule: rtranclp_induct)
  case base
  show ?case by (simp add: presence_bodies_def)
next
  case (step d1 d2)
  then show ?case using presence_sends_more [OF _ _ _ _ own_step_dispatch [OF step.hyps(2)] assms(2)] by blast
qed

lemma own_steps_lane:
  assumes "(own_step os pc)\<^sup>*\<^sup>* d d'" "lane_inv presenceQueueSize 1 (d_presence d)"
  shows "lane_inv presenceQueueSize 1 (d_presence d') \<and> ln_stop (d_presence d') = ln_stop (d_presence d) \<and>
    ln_accepted (d_presence d') = ln_accepted (d_presence d)"
  using assms(1)
proof (induction rule: rtranclp_induct)
  case base
  show ?case using assms(2) by simp
next
  case (step d1 d2)
  have "ln_stop (d_presence d2) = ln_stop (d_presence d1) \<and> ln_accepted (d_presence d2) = ln_accepted (d_presence d1)"
    using step.hyps(2)
    by cases (auto simp: presence_take_def archive_take_def notify_take_def presence_turn_def archive_turn_def notify_turn_def
        take_one_def see_stop_def leave_def split: option.splits if_splits list.splits)
  moreover have "lane_inv presenceQueueSize 1 (d_presence d2)"
    using dispatch_lanes(1) [OF own_step_dispatch [OF step.hyps(2)]] step.IH lane_inv_step by metis
  ultimately show ?case using step.IH by simp
qed

lemma presence_bodies_mem:
  assumes "length ks = length evs" "list_all (\<lambda>k. 0 < k \<and> k \<le> 4) ks" "ev \<in> set evs"
  shows "EventBody ((wire_event ev)\<lparr>pe_InstanceID := pc_instanceID pc\<rparr>) \<in> set (presence_bodies pc ks evs)"
  using assms by (induction ks evs rule: list_induct2) (auto simp: presence_bodies_def)

section \<open>Properties\<close>

definition offline_body :: "PresenceClient \<Rightarrow> string \<Rightarrow> int \<Rightarrow> presence_body" where
  "offline_body pc room u = EventBody \<lparr>pe_UserID = u, pe_Room = room, pe_Status = ''offline'', pe_InstanceID = pc_instanceID pc\<rparr>"


text \<open>A process with one connected user, and a network on which every request is accepted.\<close>

definition steady :: "'b outside" where
  "steady = \<lparr>os_do = (\<lambda>n rq. (0, Inr 202)), os_rand = (\<lambda>_. 0), os_bytes = (\<lambda>_. ''b''), os_url_ok = (\<lambda>_. True)\<rparr>"

definition ex_idle :: chat_process where
  "ex_idle = \<lparr>cp_chat = \<lparr>ch_hub = NewHub, ch_conns = Map.empty\<rparr>, cp_dispatcher = NewDispatcher ex_notifier 0 three_messages, cp_beating = True\<rparr>"

definition ex_chatting :: chat_process where
  "ex_chatting = ex_idle\<lparr>cp_chat := take_register 0 0 7 (join_room 0 ''r'' 7 (cp_chat ex_idle))\<rparr>"

lemma ex_chatting_hub: "hb_rooms (ch_hub (cp_chat ex_chatting)) = [''r'' \<mapsto> 0]" "Snapshot [''r''] (ch_hub (cp_chat ex_chatting)) = [(''r'', [7])]"
  by (simp_all add: ex_chatting_def ex_idle_def take_register_def join_room_def GetOrCreateRoom_def NewHub_def Snapshot_def dedup_users_def
      List.map_filter_def)

lemma ex_chatting_reach: "chat_reach steady flaky_client ex_idle ex_chatting"
proof -
  let ?s1 = "join_room 0 ''r'' 7 (cp_chat ex_idle)"
  have "hub_step (cp_chat ex_idle) ?s1" by (rule hub_step.join) (simp add: ex_idle_def)
  then have r: "chat_reach steady flaky_client ex_idle (ex_idle\<lparr>cp_chat := ?s1\<rparr>)" by (intro chat_reach.goes_on [OF chat_reach.up] connections)
  have "hub_step ?s1 (take_register 0 0 7 ?s1)"
    by (rule hub_step.registered) (simp_all add: ex_idle_def join_room_def GetOrCreateRoom_def NewHub_def)
  then have "chat_step steady flaky_client (ex_idle\<lparr>cp_chat := ?s1\<rparr>) (ex_idle\<lparr>cp_chat := ?s1, cp_chat := take_register 0 0 7 ?s1\<rparr>)"
    by (intro connections) simp
  then show ?thesis using chat_reach.goes_on [OF r] by (simp add: ex_chatting_def)
qed


text \<open>
  What \<^verbatim>\<open>websocket.Upgrader\<close> documents: no upgrade when \<^verbatim>\<open>CheckOrigin\<close> returns false, and an error answer is
  an error status.
\<close>

definition refuses_origins :: "(bool \<Rightarrow> request \<Rightarrow> reject + unit) \<Rightarrow> bool" where
  "refuses_origins up \<longleftrightarrow> (\<forall>r. \<exists>rej. up False r = Inl rej) \<and> (\<forall>b r rej. up b r = Inl rej \<longrightarrow> fst rej \<noteq> 101)"

lemma Handler_Serve_101:
  assumes "Handler_Serve cfg w cx s = (s', resp)" "resp_status resp = 101" "refuses_origins (cw_upgrade w)" "hub_inv (ch_hub s)"
  shows "\<exists>room u ob claims.
    Header_Get (req_header (cx_req cx)) ''Origin'' \<in> insert '''' (set (c_WSAllowedOrigins cfg)) \<and>
    room = (if Values_Get (req_query (cx_req cx)) ''room'' = '''' then ''general'' else Values_Get (req_query (cx_req cx)) ''room'') \<and>
    room_name room \<and>
    chat_ValidateToken (cw_jwt w) (c_JWTSecret cfg) (cw_unix w)
      (TrimPrefix (Header_Get (req_header (cx_req cx)) ''Authorization'') ''Bearer '') = Inr claims \<and> UserID claims = u \<and>
    ch_conns s' (cw_conn w) = Some (Joining ob u) \<and> hb_rooms (ch_hub s') room = Some ob \<and>
    Header_Get (resp_header resp) ''X-Chat-Instance'' = c_InstanceID cfg"
proof -
  have reject: "fst rej \<noteq> 101" if "Serve_admit (cw_jwt w) (c_JWTSecret cfg) (cw_unix w) cx = Inl rej" for rej
    using that by (auto simp: Serve_admit_def Let_def split: sum.splits if_splits)
  obtain room u where adm: "Serve_admit (cw_jwt w) (c_JWTSecret cfg) (cw_unix w) cx = Inr (room, u)"
    using assms(1,2) reject by (fastforce simp: Handler_Serve_def split: sum.splits)
  let ?origin = "CheckOrigin (c_WSAllowedOrigins cfg) (cx_req cx)"
  have up: "cw_upgrade w ?origin (cx_req cx) = Inr ()"
  proof (cases "cw_upgrade w ?origin (cx_req cx)")
    case (Inl rej)
    then have "resp_status resp = fst rej" using assms(1) adm by (cases rej) (auto simp: Handler_Serve_def)
    then show ?thesis using Inl assms(2,3) by (metis refuses_origins_def)
  qed simp
  have origin: "?origin"
  proof (rule ccontr)
    assume "\<not> ?origin"
    then have "cw_upgrade w False (cx_req cx) = Inr ()" using up by simp
    then show False using assms(3) by (metis refuses_origins_def sum.distinct(1))
  qed
  have s': "s' = join_room (cw_conn w) room u s" "resp = upgraded (c_InstanceID cfg)"
    using assms(1) adm up by (simp_all add: Handler_Serve_def)
  obtain h' ob where g: "GetOrCreateRoom room (ch_hub s) = (h', ob)" by fastforce
  have "ch_conns s' (cw_conn w) = Some (Joining ob u)" "hb_rooms (ch_hub s') room = Some ob"
    using GetOrCreateRoom_result [OF assms(4) g] by (simp_all add: s' join_room_def g)
  moreover have "\<exists>claims. chat_ValidateToken (cw_jwt w) (c_JWTSecret cfg) (cw_unix w)
      (TrimPrefix (Header_Get (req_header (cx_req cx)) ''Authorization'') ''Bearer '') = Inr claims \<and> UserID claims = u"
    using adm by (auto simp: Serve_admit_def Let_def split: sum.splits if_splits)
  moreover have "room = (if Values_Get (req_query (cx_req cx)) ''room'' = '''' then ''general'' else Values_Get (req_query (cx_req cx)) ''room'') \<and> room_name room"
    using adm serve_admits_iff by blast
  moreover have "Header_Get (req_header (cx_req cx)) ''Origin'' \<in> insert '''' (set (c_WSAllowedOrigins cfg))"
    using origin by (auto simp: CheckOrigin_def Let_def split: if_splits)
  moreover have "Header_Get (resp_header resp) ''X-Chat-Instance'' = c_InstanceID cfg" by (simp add: s' upgraded_def)
  ultimately show ?thesis by blast
qed

text \<open>The other direction: a valid token and room name, and an upgrade, make a connection.\<close>

lemma chat_serve_upgrades:
  assumes "echo_router rfind" "req_method (cx_req cx) = ''GET''" "req_path (cx_req cx) = ''/ws''"
    and "Header_Get (req_header (cx_req cx)) ''Authorization'' = ''Bearer '' @ tok"
    and "chat_ValidateToken (cw_jwt w) (c_JWTSecret cfg) (cw_unix w) tok = Inr c"
    and "room = (if Values_Get (req_query (cx_req cx)) ''room'' = '''' then ''general'' else Values_Get (req_query (cx_req cx)) ''room'')"
    and "room_name room" "cw_upgrade w (CheckOrigin (c_WSAllowedOrigins cfg) (cx_req cx)) (cx_req cx) = Inr ()"
    and "hub_inv (ch_hub (cp_chat p))"
  shows "\<exists>p' resp ob. chat_serve rfind unrouted cfg w cx p = (p', resp) \<and> resp_status resp = 101 \<and>
    ch_conns (cp_chat p') (cw_conn w) = Some (Joining ob (UserID c)) \<and> hb_rooms (ch_hub (cp_chat p')) room = Some ob"
proof -
  let ?cx = "InstanceHeaderMiddleware (c_InstanceID cfg) (RequestIDMiddleware (cw_rid w) cx)"
  let ?rt = "on ''GET'' ''/ws'' [] CServe"
  have req: "cx_req ?cx = cx_req cx" by (simp add: InstanceHeaderMiddleware_def RequestIDMiddleware_def Let_def)
  obtain ps where rt: "routed rfind chat_routes (cx_req ?cx) ?rt ps"
    using echo_router.routed_static [OF assms(1) tables_no_wildcards(2) tables_unambiguous(2), of ?rt "cx_req ?cx"] assms(2,3) req
    by (auto simp: chat_routes_def)
  have tok: "TrimPrefix (''Bearer '' @ tok) ''Bearer '' = tok" by (rule TrimPrefix_append)
  have name: "ValidateRoomName room = Inr ()" using assms(7) by (simp add: ValidateRoomName_iff)
  have "''Bearer '' @ tok \<noteq> tok" by (metis append_self_conv2 list.discI)
  then have adm: "Serve_admit (cw_jwt w) (c_JWTSecret cfg) (cw_unix w) (?cx\<lparr>cx_param := ps\<rparr>) = Inr (room, UserID c)"
    using name assms(5) by (simp add: Serve_admit_def Let_def req assms(4) tok flip: assms(6) del: append_Cons append_Nil)
  have h: "Handler_Serve cfg w (?cx\<lparr>cx_param := ps\<rparr>) s = (join_room (cw_conn w) room (UserID c) s, upgraded (c_InstanceID cfg))" for s
    by (simp add: Handler_Serve_def adm req assms(8))
  have s: "chat_serve rfind unrouted cfg w cx p = (p\<lparr>cp_chat := join_room (cw_conn w) room (UserID c) (cp_chat p)\<rparr>, upgraded (c_InstanceID cfg))"
    unfolding chat_serve_def serve_routed [OF rt] by (simp add: chat_handle_def h)
  obtain h' ob where g: "GetOrCreateRoom room (ch_hub (cp_chat p)) = (h', ob)" by fastforce
  show ?thesis unfolding s using GetOrCreateRoom_result [OF assms(9) g] by (simp add: join_room_def g upgraded_def)
qed

text \<open>
  C13: who gets a WebSocket.  The process answers 101 only on \<^verbatim>\<open>GET /ws\<close>, to a request without an Origin header or
  with an allowed one (gorilla refusing when \<^verbatim>\<open>CheckOrigin\<close> does), whose Bearer token validates and whose room
  name is valid; the new connection then joins exactly that room as exactly the token's user, and the answer
  names this instance.
\<close>

theorem ws_upgrade_safe:
  assumes "echo_router rfind" "refuses_origins (cw_upgrade w)" "\<forall>cx. resp_status (unrouted cx) \<noteq> 101"
    and "chat_serve rfind unrouted cfg w cx p = (p', resp)" "resp_status resp = 101" "hub_inv (ch_hub (cp_chat p))"
  shows "\<exists>room u ob claims.
    req_method (cx_req cx) = ''GET'' \<and> req_path (cx_req cx) = ''/ws'' \<and>
    Header_Get (req_header (cx_req cx)) ''Origin'' \<in> insert '''' (set (c_WSAllowedOrigins cfg)) \<and>
    room = (if Values_Get (req_query (cx_req cx)) ''room'' = '''' then ''general'' else Values_Get (req_query (cx_req cx)) ''room'') \<and>
    room_name room \<and>
    chat_ValidateToken (cw_jwt w) (c_JWTSecret cfg) (cw_unix w)
      (TrimPrefix (Header_Get (req_header (cx_req cx)) ''Authorization'') ''Bearer '') = Inr claims \<and> UserID claims = u \<and>
    ch_conns (cp_chat p') (cw_conn w) = Some (Joining ob u) \<and> hb_rooms (ch_hub (cp_chat p')) room = Some ob \<and>
    Header_Get (resp_header resp) ''X-Chat-Instance'' = c_InstanceID cfg"
proof -
  let ?cx = "InstanceHeaderMiddleware (c_InstanceID cfg) (RequestIDMiddleware (cw_rid w) cx)"
  have req: "cx_req ?cx = cx_req cx" by (simp add: InstanceHeaderMiddleware_def RequestIDMiddleware_def Let_def)
  have "rfind (keys chat_routes) (req_method (cx_req ?cx)) (req_path (cx_req ?cx)) \<noteq> None"
    using assms(3-5) by (intro notI) (auto simp: chat_serve_def serve_routes_def)
  then obtain rt ps where rt: "routed rfind chat_routes (cx_req ?cx) rt ps"
    using echo_router.routed_some [OF assms(1) tables_no_wildcards(2)] by blast
  have s: "(p', resp) = (case run_guards (chat_guard cfg w) (rt_guards rt) (?cx\<lparr>cx_param := ps\<rparr>) p of
       (s', Inl (cx', rej)) \<Rightarrow> (s', reply cx' (fst rej) (JSON_error (snd rej)))
     | (s', Inr cx') \<Rightarrow> chat_handle cfg w (rt_handler rt) cx' s')"
    unfolding assms(4) [symmetric] chat_serve_def by (rule serve_routed [OF rt])
  have jwt: "fst rej = 401" if "chat_JWTMiddleware J sec t c = Inl rej" for J sec t c rej
    using that by (auto simp: chat_JWTMiddleware_def Let_def split: if_splits sum.splits)
  have hist: "resp_status (MessageController_ListByRoom mx t c) \<noteq> 101" for mx t c
    by (auto simp: MessageController_ListByRoom_def Let_def split: sum.split option.split)
  from routed_mem [OF rt] consider (health) "rt_guards rt = []" "rt_handler rt = CHealth"
    | (guarded) "rt_guards rt = [JWTMiddleware]" "rt_handler rt \<in> {CListRooms, CListByRoom}"
    | (ws) "rt = on ''GET'' ''/ws'' [] CServe" by (auto simp: chat_routes_def)
  then show ?thesis
  proof cases
    case health
    then show ?thesis using s assms(5) by (simp add: chat_handle_def)
  next
    case guarded
    then show ?thesis
      using s assms(5) jwt [of "cw_jwt w" "c_JWTSecret cfg" "cw_unix w" "?cx\<lparr>cx_param := ps\<rparr>"] hist
      by (cases "chat_JWTMiddleware (cw_jwt w) (c_JWTSecret cfg) (cw_unix w) (?cx\<lparr>cx_param := ps\<rparr>)")
        (auto simp: chat_guard_def chat_handle_def Handler_ListRooms_def)
  next
    case ws
    have line: "req_method (cx_req cx) = ''GET''" "req_path (cx_req cx) = ''/ws''"
      using echo_router.routed_matches [OF assms(1) tables_no_wildcards(2) rt] ws req by (auto simp: expand.simps)
    have h: "(p', resp) = (case Handler_Serve cfg w (?cx\<lparr>cx_param := ps\<rparr>) (cp_chat p) of (s, r) \<Rightarrow> (p\<lparr>cp_chat := s\<rparr>, r))"
      using s ws by (simp add: chat_handle_def)
    obtain s1 and r1 :: "chat_json served_json response" where
      h1: "Handler_Serve cfg w (?cx\<lparr>cx_param := ps\<rparr>) (cp_chat p) = (s1, r1)" by fastforce
    then have e: "p' = p\<lparr>cp_chat := s1\<rparr>" "r1 = resp" using h by simp_all
    have "cx_req (?cx\<lparr>cx_param := ps\<rparr>) = cx_req cx" using req by simp
    from Handler_Serve_101 [OF h1 [unfolded e(2)] assms(5,2,6), unfolded this] e(1) line show ?thesis by simp
  qed
qed

definition ex_cworld :: cworld where
  "ex_cworld = \<lparr>cw_jwt = one_token \<lparr>cl_user_id = 42, cl_role = ''user'', cl_exp = 86500\<rparr> ''s'', cw_unix = 200, cw_rid = ''b'',
     cw_upgrade = (\<lambda>b r. if b then Inr () else Inl (403, ''Forbidden'')), cw_conn = 0, cw_rooms = [], cw_mysql = plain_mysql\<rparr>"

definition ex_cconfig :: chat_Config where
  "ex_cconfig = \<lparr>c_DBHost = ''h'', c_DBPort = ''3307'', c_DBUser = ''u'', c_DBPassword = ''w'', c_DBName = ''d'', c_JWTSecret = ''s'', c_ServerPort = ''8001'', c_InstanceID = ''chat-1'', c_PresenceServiceURL = ''u'',
     c_PresenceAPIKey = ''p'', c_PresenceHeartbeatSecs = 30, c_NotificationServiceURL = ''u'', c_NotificationAPIKey = ''n'',
     c_WSAllowedOrigins = [''http://localhost:3000'']\<rparr>"

definition ex_ws :: echo_context where
  "ex_ws = (bearer_context ''tok'')\<lparr>cx_req := (cx_req (bearer_context ''tok''))\<lparr>req_path := ''/ws''\<rparr>\<rparr>"

lemma ex_upgrade:
  "\<exists>p' resp. chat_serve first_match (\<lambda>cx. respond 404 NoBody) ex_cconfig ex_cworld ex_ws ex_idle = (p', resp) \<and> resp_status resp = 101"
proof -
  have line: "req_method (cx_req ex_ws) = ''GET''" "req_path (cx_req ex_ws) = ''/ws''" by (simp_all add: ex_ws_def bearer_context_def)
  have canon: "CanonicalHeaderKey ''Origin'' \<noteq> CanonicalHeaderKey ''Authorization''" by code_simp
  have "GenerateToken (cw_jwt ex_cworld) ''s'' 100 42 ''user'' = Inr ''tok''" by (simp add: GenerateToken_def ex_cworld_def one_token_def)
  then have v: "chat_ValidateToken (cw_jwt ex_cworld) (c_JWTSecret ex_cconfig) (cw_unix ex_cworld) ''tok'' =
      Inr \<lparr>UserID = int64_of_float (float64_of_int 42), Role = ''user''\<rparr>"
    using ValidateToken_signed [of "cw_jwt ex_cworld" "''s''" 100 42 "''user''" "''tok''" 200] one_token_sound
    by (simp add: ex_cworld_def ex_cconfig_def)
  have auth: "Header_Get (req_header (cx_req ex_ws)) ''Authorization'' = ''Bearer '' @ ''tok''"
    "Header_Get (req_header (cx_req ex_ws)) ''Origin'' = ''''" "Values_Get (req_query (cx_req ex_ws)) ''room'' = ''''"
    using canon by (simp_all add: ex_ws_def bearer_context_def Values_Get_def Header_Get_def Header_Set_def no_headers_def)
  have g: "room_name ''general''" by code_simp
  have up: "cw_upgrade ex_cworld (CheckOrigin (c_WSAllowedOrigins ex_cconfig) (cx_req ex_ws)) (cx_req ex_ws) = Inr ()"
    unfolding CheckOrigin_def auth by (simp add: ex_cworld_def)
  have inv: "hub_inv (ch_hub (cp_chat ex_idle))" by (simp add: ex_idle_def hub_inv_def NewHub_def)
  show ?thesis
    using chat_serve_upgrades [OF fm.echo_router_axioms line auth(1) v refl _ up inv, where unrouted = "\<lambda>cx. respond 404 NoBody"] g auth(3)
    by auto
qed

theorem ws_upgrade_safe_witness:
  "\<exists>(p' :: chat_process) ob. ch_conns (cp_chat p') (cw_conn ex_cworld) = Some (Joining ob 42) \<and> hb_rooms (ch_hub (cp_chat p')) ''general'' = Some ob"
proof -
  obtain p' resp where s: "chat_serve first_match (\<lambda>cx. respond 404 NoBody) ex_cconfig ex_cworld ex_ws ex_idle = (p', resp)" "resp_status resp = 101"
    using ex_upgrade by blast
  have up: "refuses_origins (cw_upgrade ex_cworld)" by (auto simp: refuses_origins_def ex_cworld_def)
  have inv: "hub_inv (ch_hub (cp_chat ex_idle))" by (simp add: ex_idle_def hub_inv_def NewHub_def)
  have tok: "TrimPrefix ''Bearer tok'' ''Bearer '' = ''tok''" using TrimPrefix_append [of "''Bearer ''" "''tok''"] by simp
  have "GenerateToken (cw_jwt ex_cworld) ''s'' 100 42 ''user'' = Inr ''tok''" by (simp add: GenerateToken_def ex_cworld_def one_token_def)
  then have v: "chat_ValidateToken (cw_jwt ex_cworld) ''s'' 200 ''tok'' = Inr \<lparr>UserID = 42, Role = ''user''\<rparr>"
    using ValidateToken_signed [of "cw_jwt ex_cworld" "''s''" 100 42 "''user''" "''tok''" 200] one_token_sound int64_of_float_exact [of 42]
    by (simp add: ex_cworld_def)
  have auth: "Header_Get (req_header (cx_req ex_ws)) ''Authorization'' = ''Bearer tok''" "Values_Get (req_query (cx_req ex_ws)) ''room'' = ''''"
    by (simp_all add: ex_ws_def bearer_context_def Values_Get_def)
  have cfg: "c_JWTSecret ex_cconfig = ''s''" "cw_unix ex_cworld = 200" by (simp_all add: ex_cconfig_def ex_cworld_def)
  from ws_upgrade_safe [OF fm.echo_router_axioms up _ s inv] show ?thesis
    unfolding auth cfg tok v by auto
qed

text \<open>
  The heartbeat can undo a graceful stop.  The stop loop reports a user offline, but the heartbeat keeps running until
  its deferred \<^verbatim>\<open>Close\<close> and the user's socket is still in the hub: a sweep in that window re-asserts the user after
  the offline request, and nothing follows it.  In the run below every part of the process ends properly, and the
  last two requests presence-service gets for the user are the offline event and then a heartbeat naming the user.
\<close>

theorem late_sweep_relists:
  "\<exists>p bodies. chat_reach steady flaky_client ex_idle p \<and> \<not> cp_beating p \<and> set (ln_workers (d_presence (cp_dispatcher p))) = {Exited} \<and>
     map or_body (nw_sent (d_net (cp_dispatcher p))) =
       bodies @ [offline_body flaky_client ''r'' 7, HeartbeatBody \<lparr>hr_Room = ''r'', hr_InstanceID = pc_instanceID flaky_client, hr_UserIDs = [7]\<rparr>]"
proof -
  let ?os = "steady :: presence_body outside"
  let ?ev = "\<lparr>pv_room = ''r'', pv_userID = 7, pv_status = Offline\<rparr>"
  let ?lane = "\<lambda>w st q dn. \<lparr>ln_q = q, ln_workers = [w], ln_stop = st, ln_accepted = [?ev], ln_done = dn\<rparr>"
  have url: "os_url_ok ?os u" for u by (simp add: steady_def)
  have dom: "set [''r''] = dom (hb_rooms (ch_hub (cp_chat ex_chatting)))" "distinct [''r'']" by (simp_all add: ex_chatting_hub)
  define p1 where "p1 = chat_stop [''r''] ex_chatting"
  define d1 where "d1 = cp_dispatcher p1"
  define w2 where "w2 = handlePresence ?os flaky_client ?ev (d_net d1)"
  define p2 where "p2 = p1\<lparr>cp_dispatcher := d1\<lparr>d_presence := ?lane Running None [] [?ev], d_net := w2\<rparr>\<rparr>"
  define w3 where "w3 = sweep ?os flaky_client [(''r'', [7])] w2"
  define p3 where "p3 = p2\<lparr>cp_dispatcher := (cp_dispatcher p2)\<lparr>d_net := w3\<rparr>\<rparr>"
  define p4 where "p4 = PresenceHeartbeat_Close p3"
  define d5 where "d5 = Dispatcher_Close (cp_dispatcher p4)"
  define p6 where "p6 = p4\<lparr>cp_dispatcher := d5\<lparr>d_presence := ?lane Draining (Some 1) [] [?ev]\<rparr>\<rparr>"
  define p7 where "p7 = p4\<lparr>cp_dispatcher := d5\<lparr>d_presence := ?lane Exited (Some 1) [] [?ev]\<rparr>\<rparr>"
  have r1: "chat_reach ?os flaky_client ex_idle p1"
    unfolding p1_def by (rule chat_reach.goes_on [OF ex_chatting_reach stopping [OF dom]])
  have l1: "d_presence d1 = ?lane Running None [?ev] []"
    by (simp add: d1_def p1_def chat_stop_def stop_notify_lane ex_chatting_hub offer_all_def)
      (simp add: ex_chatting_def ex_idle_def NewDispatcher_def new_lane_def offer_def presenceQueueSize_def)
  have "presence_take ?os flaky_client d1 = Some (d1\<lparr>d_presence := ?lane Running None [] [?ev], d_net := w2\<rparr>)"
    by (simp add: presence_take_def l1 take_one_def w2_def)
  then have "chat_step ?os flaky_client p1 p2"
    unfolding p2_def by (intro dispatching dispatch_step.presence_taken) (simp flip: d1_def)
  then have r2: "chat_reach ?os flaky_client ex_idle p2" by (rule chat_reach.goes_on [OF r1])
  have hub: "cp_chat p2 = cp_chat ex_chatting" "cp_beating p2" by (simp_all add: p2_def p1_def chat_stop_def ex_chatting_def ex_idle_def)
  have "heartbeat_tick ?os flaky_client [''r''] p2 = p3"
    by (simp add: heartbeat_tick_def hub ex_chatting_hub p3_def w3_def Let_def) (simp add: p2_def)
  then have r3: "chat_reach ?os flaky_client ex_idle p3" using chat_reach.goes_on [OF r2 beating] dom hub(1) by metis
  have r4: "chat_reach ?os flaky_client ex_idle p4" unfolding p4_def by (rule chat_reach.goes_on [OF r3 heartbeat_closed])
  have l5: "d_presence d5 = ?lane Running (Some 1) [] [?ev]"
    by (simp add: d5_def p4_def PresenceHeartbeat_Close_def p3_def p2_def Dispatcher_Close_def close_stop_def)
  have r5: "chat_reach ?os flaky_client ex_idle (p4\<lparr>cp_dispatcher := d5\<rparr>)"
    unfolding d5_def by (rule chat_reach.goes_on [OF r4 dispatching [OF dispatch_step.close_all]])
  have "presence_turn see_stop d5 = Some (d5\<lparr>d_presence := ?lane Draining (Some 1) [] [?ev]\<rparr>)"
    by (simp add: presence_turn_def l5 see_stop_def)
  then have "chat_step ?os flaky_client (p4\<lparr>cp_dispatcher := d5\<rparr>) (p4\<lparr>cp_dispatcher := d5, cp_dispatcher := d5\<lparr>d_presence := ?lane Draining (Some 1) [] [?ev]\<rparr>\<rparr>)"
    by (intro dispatching dispatch_step.presence_stops) simp
  then have r6: "chat_reach ?os flaky_client ex_idle p6" using chat_reach.goes_on [OF r5] by (simp add: p6_def)
  have "presence_turn leave (cp_dispatcher p6) = Some (d5\<lparr>d_presence := ?lane Exited (Some 1) [] [?ev]\<rparr>)"
    by (simp add: p6_def presence_turn_def leave_def)
  then have "chat_step ?os flaky_client p6 (p6\<lparr>cp_dispatcher := d5\<lparr>d_presence := ?lane Exited (Some 1) [] [?ev]\<rparr>\<rparr>)"
    by (intro dispatching dispatch_step.presence_stops) simp
  then have r7: "chat_reach ?os flaky_client ex_idle p7" using chat_reach.goes_on [OF r6] by (simp add: p6_def p7_def)
  obtain k where k: "0 < k" "map or_body (nw_sent w2) = map or_body (nw_sent (d_net d1)) @
      replicate k (EventBody ((wire_event ?ev)\<lparr>pe_InstanceID := pc_instanceID flaky_client\<rparr>))"
    using handlePresence_sent [OF url, of flaky_client ?ev "d_net d1"] by (auto simp: w2_def)
  obtain rqs where q: "nw_sent w3 = nw_sent w2 @ rqs" "map or_body rqs = [HeartbeatBody \<lparr>hr_Room = ''r'', hr_InstanceID = pc_instanceID flaky_client, hr_UserIDs = [7]\<rparr>]"
    using sweep_sent [OF url, of flaky_client "[(''r'', [7])]" w2] by (auto simp: w3_def)
  have body: "EventBody ((wire_event ?ev)\<lparr>pe_InstanceID := pc_instanceID flaky_client\<rparr>) = offline_body flaky_client ''r'' 7"
    by (simp add: offline_body_def wire_event_def status_text_def)
  obtain m where m: "k = Suc m" using k(1) by (cases k) auto
  have net: "nw_sent (d_net (cp_dispatcher p7)) = nw_sent w3"
    by (simp add: p7_def d5_def p4_def PresenceHeartbeat_Close_def p3_def Dispatcher_Close_def)
  have "map or_body (nw_sent (d_net (cp_dispatcher p7))) =
      (map or_body (nw_sent (d_net d1)) @ replicate m (offline_body flaky_client ''r'' 7)) @
      [offline_body flaky_client ''r'' 7, HeartbeatBody \<lparr>hr_Room = ''r'', hr_InstanceID = pc_instanceID flaky_client, hr_UserIDs = [7]\<rparr>]"
    using k(2) q unfolding net body m by (simp add: replicate_append_same flip: replicate_Suc)
  moreover have "\<not> cp_beating p7" by (simp add: p7_def p4_def PresenceHeartbeat_Close_def)
  moreover have "set (ln_workers (d_presence (cp_dispatcher p7))) = {Exited}" by (simp add: p7_def)
  ultimately show ?thesis using r7 by blast
qed

end
