(* ===== verification/Pumps.thy ===== *)
theory Pumps
  imports Room "HOL-Library.Sublist"
begin

text \<open>
  The two goroutines of a connection, \<^verbatim>\<open>readPump\<close> and \<^verbatim>\<open>writePump\<close> of \<^verbatim>\<open>chat-service/internal/ws/client.go\<close>, with the read limit
  \<^verbatim>\<open>Handler.Serve\<close> sets.  The writer is its channel, the frames it has written and whether it still runs; each turn of its
  \<^verbatim>\<open>select\<close>, with the result of the write, is one step, and so is what the room does to the channel.  The reader is its read
  deadline, what it passed on to the room and when it left; each frame is read at a time, and the socket package fails a read
  that comes after the deadline.  Times are nanoseconds.
\<close>

section \<open>client.go\<close>

definition pongWait :: int where
  "pongWait = 60 * 10 ^ 9"

definition pingPeriod :: int where
  "pingPeriod = (pongWait * 9) div 10"

definition maxMessageSize :: nat where
  "maxMessageSize = 8 * 1024"

datatype frame = TextMessage Message | PingMessage | CloseMessage

record writer =
  wp_send :: "Message list"
  wp_closed :: bool
  wp_frames :: "frame list"
  wp_running :: bool

datatype write_event = Queued Message | SendClosed | Received bool | Ticked bool

definition new_writer :: writer where
  "new_writer = \<lparr>wp_send = [], wp_closed = False, wp_frames = [], wp_running = True\<rparr>"

text \<open>
  \<open>Queued\<close> and \<open>SendClosed\<close> are the room's; \<open>Received ok\<close> and \<open>Ticked ok\<close> are the two cases of the loop, \<open>ok\<close> saying whether
  \<^verbatim>\<open>WriteMessage\<close> succeeded within \<^verbatim>\<open>writeWait\<close>.  Receiving from an open and empty channel waits.
\<close>

definition writePump :: "write_event \<Rightarrow> writer \<Rightarrow> writer" where
  "writePump e p =
     (case e of
        Queued m \<Rightarrow> p\<lparr>wp_send := wp_send p @ [m]\<rparr>
      | SendClosed \<Rightarrow> p\<lparr>wp_closed := True\<rparr>
      | Received ok \<Rightarrow>
          if \<not> wp_running p then p
          else (case wp_send p of
                  message # rest \<Rightarrow>
                    (let p1 = p\<lparr>wp_send := rest\<rparr>
                     in if ok then p1\<lparr>wp_frames := wp_frames p @ [TextMessage message]\<rparr> else p1\<lparr>wp_running := False\<rparr>)
                | [] \<Rightarrow>
                    if wp_closed p
                    then p\<lparr>wp_frames := (if ok then wp_frames p @ [CloseMessage] else wp_frames p), wp_running := False\<rparr>
                    else p)
      | Ticked ok \<Rightarrow>
          if \<not> wp_running p then p
          else if ok then p\<lparr>wp_frames := wp_frames p @ [PingMessage]\<rparr> else p\<lparr>wp_running := False\<rparr>)"

datatype arrival = Pong | Payload string bool | Broken | Idle

record reader =
  rd_deadline :: int
  rd_forwarded :: "string list"
  rd_left :: "int option"

definition new_reader :: "int \<Rightarrow> reader" where
  "new_reader now = \<lparr>rd_deadline = now + pongWait, rd_forwarded = [], rd_left = None\<rparr>"

text \<open>
  A read at time \<open>t\<close>: past the deadline it fails, a pong moves the deadline, a payload over the limit fails the
  read, and any other goes to the room (\<open>Payload s taken\<close>: within its two seconds the room took it, or it is dropped).
  \<open>Broken\<close> is a close frame or a transport error, \<open>Idle\<close> a look at the clock with nothing to read.
\<close>

definition readPump :: "int \<times> arrival \<Rightarrow> reader \<Rightarrow> reader" where
  "readPump x p =
     (case x of (t, a) \<Rightarrow>
        if rd_left p \<noteq> None then p
        else if t > rd_deadline p then p\<lparr>rd_left := Some (rd_deadline p)\<rparr>
        else case a of
               Pong \<Rightarrow> p\<lparr>rd_deadline := t + pongWait\<rparr>
             | Payload s taken \<Rightarrow>
                 if length s > maxMessageSize then p\<lparr>rd_left := Some t\<rparr>
                 else if taken then p\<lparr>rd_forwarded := rd_forwarded p @ [s]\<rparr> else p
             | Broken \<Rightarrow> p\<lparr>rd_left := Some t\<rparr>
             | Idle \<Rightarrow> p)"

section \<open>The writer\<close>

definition texts :: "frame list \<Rightarrow> Message list" where
  "texts fs = List.map_filter (\<lambda>f. case f of TextMessage m \<Rightarrow> Some m | _ \<Rightarrow> None) fs"

lemma texts_simps [simp]: "texts [] = []" "texts (fs @ gs) = texts fs @ texts gs" "texts [TextMessage m] = [m]" "texts [PingMessage] = []"
  "texts [CloseMessage] = []"
  by (simp_all add: texts_def List.map_filter_def)

fun queued :: "write_event list \<Rightarrow> Message list" where
  "queued [] = []"
| "queued (Queued m # es) = m # queued es"
| "queued (_ # es) = queued es"

lemma queued_append [simp]: "queued (es @ fs) = queued es @ queued fs"
  by (induction es rule: queued.induct) auto

text \<open>The room closes a channel once and never sends on it again (property of the room's event loop).\<close>

fun orderly :: "write_event list \<Rightarrow> bool" where
  "orderly [] = True"
| "orderly (SendClosed # es) = (\<forall>e \<in> set es. e \<noteq> SendClosed \<and> (\<forall>m. e \<noteq> Queued m))"
| "orderly (e # es) = orderly es"

definition writer_inv :: "Message list \<Rightarrow> writer \<Rightarrow> bool" where
  "writer_inv ms p \<longleftrightarrow>
     prefix (texts (wp_frames p)) ms \<and>
     (wp_running p \<longrightarrow> texts (wp_frames p) @ wp_send p = ms \<and> CloseMessage \<notin> set (wp_frames p)) \<and>
     (CloseMessage \<in> set (wp_frames p) \<longrightarrow>
        wp_closed p \<and> \<not> wp_running p \<and> texts (wp_frames p) = ms \<and> (\<exists>fs. wp_frames p = fs @ [CloseMessage] \<and> CloseMessage \<notin> set fs))"

lemma writer_inv_queued: "writer_inv ms p \<Longrightarrow> \<not> wp_closed p \<Longrightarrow> writer_inv (ms @ [m]) (writePump (Queued m) p)"
  by (auto simp: writer_inv_def writePump_def)

lemma writer_inv_turn:
  assumes "writer_inv ms p"
  shows "writer_inv ms (writePump SendClosed p)" "writer_inv ms (writePump (Ticked ok) p)" "writer_inv ms (writePump (Received ok) p)"
proof -
  show "writer_inv ms (writePump SendClosed p)" using assms by (simp add: writer_inv_def writePump_def)
  show "writer_inv ms (writePump (Ticked ok) p)"
    using assms by (cases "wp_running p"; cases ok) (simp_all add: writer_inv_def writePump_def)
  show "writer_inv ms (writePump (Received ok) p)"
  proof (cases "wp_running p")
    case True
    show ?thesis
    proof (cases "wp_send p")
      case Nil
      then show ?thesis using assms True by (cases "wp_closed p"; cases ok) (simp_all add: writer_inv_def writePump_def)
    next
      case (Cons m rest)
      have ms: "texts (wp_frames p) @ m # rest = ms" "CloseMessage \<notin> set (wp_frames p)" using assms True Cons by (simp_all add: writer_inv_def)
      have "prefix (texts (wp_frames p) @ [m]) ms" unfolding ms(1) [symmetric] by simp
      then show ?thesis using assms True Cons ms by (cases ok) (simp_all add: writer_inv_def writePump_def Let_def)
    qed
  qed (use assms in \<open>simp add: writePump_def\<close>)
qed

lemma writePump_closed: "wp_closed (writePump e p) \<longleftrightarrow> wp_closed p \<or> e = SendClosed"
  by (auto simp: writePump_def Let_def split: write_event.splits list.splits)

lemma orderly_append_Queued: "orderly (es @ [Queued m]) \<Longrightarrow> SendClosed \<notin> set es"
  by (induction es rule: orderly.induct) auto

lemma orderly_appendD: "orderly (es @ fs) \<Longrightarrow> orderly es"
  by (induction es rule: orderly.induct) auto

lemma writer_closed_iff: "wp_closed (fold writePump es p) \<longleftrightarrow> wp_closed p \<or> SendClosed \<in> set es"
  by (induction es arbitrary: p) (auto simp: writePump_closed)

lemma writer_reach_inv: "orderly es \<Longrightarrow> writer_inv (queued es) (fold writePump es new_writer)"
proof (induction es rule: rev_induct)
  case Nil
  show ?case by (simp add: writer_inv_def new_writer_def)
next
  case (snoc e es)
  have IH: "writer_inv (queued es) (fold writePump es new_writer)" using snoc orderly_appendD by blast
  show ?case
  proof (cases e)
    case (Queued m)
    have "\<not> wp_closed (fold writePump es new_writer)"
      using orderly_append_Queued snoc.prems Queued by (auto simp: writer_closed_iff new_writer_def)
    then show ?thesis using writer_inv_queued [OF IH] Queued by simp
  qed (use writer_inv_turn [OF IH] in simp_all)
qed

lemma drain_turns:
  assumes "wp_running p" "wp_closed p"
  shows "fold writePump (replicate (Suc (length (wp_send p))) (Received True)) p =
    p\<lparr>wp_send := [], wp_frames := wp_frames p @ map TextMessage (wp_send p) @ [CloseMessage], wp_running := False\<rparr>"
proof -
  have "wp_send p = ms \<Longrightarrow> wp_running p \<Longrightarrow> wp_closed p \<Longrightarrow>
    fold writePump (replicate (Suc (length ms)) (Received True)) p =
      p\<lparr>wp_send := [], wp_frames := wp_frames p @ map TextMessage ms @ [CloseMessage], wp_running := False\<rparr>" for ms
  proof (induction ms arbitrary: p)
    case Nil
    then show ?case by (simp add: writePump_def)
  next
    case (Cons m ms)
    let ?p = "p\<lparr>wp_send := ms, wp_frames := wp_frames p @ [TextMessage m]\<rparr>"
    have "writePump (Received True) p = ?p" using Cons.prems by (simp add: writePump_def Let_def)
    then show ?case using Cons.IH [of ?p] Cons.prems by simp
  qed
  then show ?thesis using assms by blast
qed

section \<open>Properties\<close>

text \<open>
  C26: the writer delivers in order and says goodbye last.  Whatever the interleaving of the room's sends, the loop's
  turns, the ping ticker and write failures, the text frames on the socket are the queued messages in order, up to
  some point; the close frame is written at most once, only after the channel was closed and every message written, and nothing
  follows it.  While the writer runs nothing is lost: what is not yet written is still in the channel, and once the room
  has closed the channel, as many successful turns as there are messages plus one write them all, then the close frame.
\<close>

theorem writer_drains:
  assumes "orderly es" "p = fold writePump es new_writer"
  shows "prefix (texts (wp_frames p)) (queued es) \<and>
    (CloseMessage \<in> set (wp_frames p) \<longrightarrow> SendClosed \<in> set es \<and> texts (wp_frames p) = queued es \<and>
       (\<exists>fs. wp_frames p = fs @ [CloseMessage] \<and> CloseMessage \<notin> set fs)) \<and>
    (wp_running p \<longrightarrow> texts (wp_frames p) @ wp_send p = queued es) \<and>
    (wp_running p \<longrightarrow> SendClosed \<in> set es \<longrightarrow>
       wp_frames (fold writePump (replicate (Suc (length (wp_send p))) (Received True)) p) =
         wp_frames p @ map TextMessage (wp_send p) @ [CloseMessage])"
proof -
  have I: "writer_inv (queued es) p" unfolding assms(2) by (rule writer_reach_inv [OF assms(1)])
  have "wp_closed p \<longleftrightarrow> SendClosed \<in> set es" by (simp add: assms(2) writer_closed_iff new_writer_def)
  with I drain_turns [of p] show ?thesis by (auto simp: writer_inv_def)
qed

definition ex_frame :: "string \<Rightarrow> Message" where
  "ex_frame s = \<lparr>msg_Type = ''chat'', msg_Room = ''r'', msg_UserID = 1, msg_Content = s, msg_Timestamp = 5\<rparr>"

theorem writer_drains_witness:
  "wp_frames (fold writePump (replicate 2 (Received True))
     (fold writePump [Queued (ex_frame ''a''), Ticked True, Queued (ex_frame ''b''), Received True, SendClosed] new_writer)) =
   [PingMessage, TextMessage (ex_frame ''a''), TextMessage (ex_frame ''b''), CloseMessage]"
  using writer_drains [OF _ refl, of "[Queued (ex_frame ''a''), Ticked True, Queued (ex_frame ''b''), Received True, SendClosed]"]
  by (simp add: writePump_def new_writer_def numeral_2_eq_2)

lemma readPump_at:
  "readPump (t, a) p =
     (if rd_left p \<noteq> None then p
      else if t > rd_deadline p then p\<lparr>rd_left := Some (rd_deadline p)\<rparr>
      else case a of
             Pong \<Rightarrow> p\<lparr>rd_deadline := t + pongWait\<rparr>
           | Payload s taken \<Rightarrow>
               if length s > maxMessageSize then p\<lparr>rd_left := Some t\<rparr>
               else if taken then p\<lparr>rd_forwarded := rd_forwarded p @ [s]\<rparr> else p
           | Broken \<Rightarrow> p\<lparr>rd_left := Some t\<rparr>
           | Idle \<Rightarrow> p)"
  by (simp add: readPump_def)

lemma readPump_gone: "rd_left p \<noteq> None \<Longrightarrow> readPump x p = p"
  by (cases x) (simp add: readPump_at)

lemma reader_deadline:
  assumes "rd_left (fold readPump as (new_reader start)) = None" "sorted (start # map fst as)"
  shows "start + pongWait \<le> rd_deadline (fold readPump as (new_reader start)) \<and>
    (\<forall>p. (p, Pong) \<in> set as \<longrightarrow> p + pongWait \<le> rd_deadline (fold readPump as (new_reader start)))"
  using assms
proof (induction as rule: rev_induct)
  case Nil
  show ?case by (simp add: new_reader_def)
next
  case (snoc x as)
  let ?p = "fold readPump as (new_reader start)"
  obtain t a where x: "x = (t, a)" by fastforce
  have live: "rd_left ?p = None" using snoc.prems(1) readPump_gone [of ?p x] by (cases "rd_left ?p") auto
  have IH: "start + pongWait \<le> rd_deadline ?p \<and> (\<forall>p. (p, Pong) \<in> set as \<longrightarrow> p + pongWait \<le> rd_deadline ?p)"
    using snoc.IH [OF live] snoc.prems(2) by (simp add: sorted_append)
  have late: "start \<le> t" "\<And>p. (p, Pong) \<in> set as \<Longrightarrow> p \<le> t"
    using snoc.prems(2) x by (fastforce simp: sorted_append)+
  show ?case using IH late snoc.prems(1) by (auto simp: x readPump_at live split: arrival.splits if_splits)
qed

definition harmless :: "arrival \<Rightarrow> bool" where
  "harmless a = (case a of Broken \<Rightarrow> False | Payload s taken \<Rightarrow> length s \<le> maxMessageSize | _ \<Rightarrow> True)"

definition passed_on :: "(int \<times> arrival) list \<Rightarrow> string list" where
  "passed_on as = List.map_filter (\<lambda>x. case snd x of Payload s True \<Rightarrow> Some s | _ \<Rightarrow> None) as"

lemma reader_stays:
  assumes "sorted (start # map fst as)" "list_all (harmless \<circ> snd) as"
    and "\<And>bs t a cs. as = bs @ (t, a) # cs \<Longrightarrow> rd_left (fold readPump bs (new_reader start)) = None \<Longrightarrow>
      t \<le> rd_deadline (fold readPump bs (new_reader start))"
  shows "rd_left (fold readPump as (new_reader start)) = None \<and>
    rd_forwarded (fold readPump as (new_reader start)) = passed_on as"
proof -
  have "prefix bs as \<Longrightarrow> rd_left (fold readPump bs (new_reader start)) = None \<and>
    rd_forwarded (fold readPump bs (new_reader start)) = passed_on bs" for bs
  proof (induction bs rule: rev_induct)
    case Nil
    show ?case by (simp add: new_reader_def passed_on_def List.map_filter_def)
  next
    case (snoc x bs)
    obtain t a where x: "x = (t, a)" by fastforce
    from snoc.prems obtain cs where as: "as = bs @ (t, a) # cs" by (auto simp: prefix_def x)
    have IH: "rd_left (fold readPump bs (new_reader start)) = None"
      "rd_forwarded (fold readPump bs (new_reader start)) = passed_on bs"
      using snoc.IH as by (auto simp: prefix_def)
    have "harmless a" using assms(2) by (simp add: as)
    with IH assms(3) [OF as IH(1)] show ?case
      by (auto simp: x readPump_at harmless_def passed_on_def List.map_filter_def split: arrival.splits bool.splits)
  qed
  then show ?thesis by simp
qed

text \<open>Every ping answered in less than the time that remains of the read deadline.\<close>

definition answered :: "int \<Rightarrow> (int \<times> arrival) list \<Rightarrow> bool" where
  "answered start as \<longleftrightarrow>
     (\<forall>k t a. 1 \<le> k \<longrightarrow> (t, a) \<in> set as \<longrightarrow> start + int k * pingPeriod + (pongWait - pingPeriod) \<le> t \<longrightarrow>
       (\<exists>p. (p, Pong) \<in> set as \<and> start + int k * pingPeriod \<le> p \<and> p < start + int k * pingPeriod + (pongWait - pingPeriod)))"

lemma answered_in_time:
  assumes "sorted (start # map fst as)" "answered start as" "as = bs @ (t, a) # cs" "rd_left (fold readPump bs (new_reader start)) = None"
  shows "t \<le> rd_deadline (fold readPump bs (new_reader start))"
proof -
  have "sorted (start # map fst bs)" using assms(1) by (auto simp: assms(3) sorted_append)
  note D = reader_deadline [OF assms(4) this]
  let ?x = "t - start - (pongWait - pingPeriod)"
  define k where "k = nat (?x div pingPeriod)"
  show ?thesis
  proof (cases "1 \<le> k")
    case False
    then have "?x < pingPeriod" by (simp add: k_def pingPeriod_def pongWait_def)
    then show ?thesis using D by linarith
  next
    case True
    have m: "?x div pingPeriod * pingPeriod + ?x mod pingPeriod = ?x" "0 \<le> ?x mod pingPeriod" "?x mod pingPeriod < pingPeriod"
      by (simp_all add: pingPeriod_def pongWait_def)
    have q: "int k = ?x div pingPeriod" using True by (simp add: k_def)
    have due: "start + int k * pingPeriod + (pongWait - pingPeriod) \<le> t" unfolding q using m(1,2) by linarith
    have more: "?x < int k * pingPeriod + pingPeriod" unfolding q using m(1,3) by linarith
    have "(t, a) \<in> set as" by (simp add: assms(3))
    then obtain p where p: "(p, Pong) \<in> set as" "start + int k * pingPeriod \<le> p" "p < start + int k * pingPeriod + (pongWait - pingPeriod)"
      using assms(2) True due unfolding answered_def by blast
    have "(p, Pong) \<in> set bs" using p(1,3) due assms(1) by (force simp: assms(3) sorted_append)
    then have "p + pongWait \<le> rd_deadline (fold readPump bs (new_reader start))" using D by blast
    then show ?thesis using p(2) more by linarith
  qed
qed

lemma silent_leaves:
  assumes "\<forall>p. (p, Pong) \<in> set as \<longrightarrow> p \<le> s" "sorted (start # map fst as)" "start \<le> s"
  shows "case rd_left (fold readPump as (new_reader start)) of
      None \<Rightarrow> rd_deadline (fold readPump as (new_reader start)) \<le> s + pongWait \<and> (\<forall>x \<in> set as. fst x \<le> s + pongWait)
    | Some u \<Rightarrow> u \<le> s + pongWait"
  using assms(1,2)
proof (induction as rule: rev_induct)
  case Nil
  show ?case using assms(3) by (simp add: new_reader_def)
next
  case (snoc x as)
  obtain t a where x: "x = (t, a)" by fastforce
  have "sorted (start # map fst as)" using snoc.prems(2) by (auto simp: sorted_append)
  with snoc show ?case by (auto simp: x readPump_at split: option.splits arrival.splits if_splits)
qed



end
