(* ===== verification/Deliveries.thy ===== *)
theory Deliveries
  imports Fanout
begin

text \<open>
  \<^verbatim>\<open>service/deliverer.go\<close> with its interleavings.  Several workers of notification-service are inside \<^verbatim>\<open>Deliver\<close> at
  a time; here each of them moves from one blocking point to the next (timer, HTTP call, database write) and the
  moves of all workers, the fan-out that creates rows and queues jobs, the clock and the cancellation of the context mix in any order.
  \<open>Fanout\<close> has the same code as one function; \<open>delivery_alone\<close> connects the two.
\<close>

section \<open>A delivery in progress\<close>

text \<open>
  Where a worker is: before the backoff's timer or the context's end, before the call, waiting for the answer to the \<open>k\<close>-th request, before
  the row is updated for an answer, before the final update, and returned.
\<close>

datatype phase =
    Sleeping nat int
  | Calling nat
  | Awaiting nat nat
  | Noting nat "goerror + nat"
  | Failing
  | Returned

text \<open>
  The locals of \<^verbatim>\<open>Deliver\<close>.  \<open>dv_tries\<close> is history: the attempts that have returned, each with the position of its request in the log, if
  one was sent, and the outcome.
\<close>

record delivering =
  dv_webhook :: Webhook
  dv_row :: int
  dv_body :: string
  dv_deadline :: int
  dv_phase :: phase
  dv_attempts :: nat
  dv_lastStatus :: "nat option"
  dv_lastErr :: string
  dv_tries :: "(nat option \<times> (goerror + nat)) list"

definition begin_delivery :: "(WebhookPayload \<Rightarrow> goerror + string) \<Rightarrow> int \<Rightarrow> Recipient \<Rightarrow> MessageEvent \<Rightarrow> delivering" where
  "begin_delivery marshal dl recipient event =
     (let d = \<lparr>dv_webhook = rc_Webhook recipient, dv_row = dl_ID (rc_Delivery recipient), dv_body = '''', dv_deadline = dl,
               dv_phase = Calling 0, dv_attempts = 0, dv_lastStatus = None, dv_lastErr = '''', dv_tries = []\<rparr>
      in case marshal \<lparr>wp_Event = ''message.created'', wp_EventID = me_EventID event,
             wp_Recipient = wh_UserID (rc_Webhook recipient), wp_Data = event\<rparr> of
           Inl e \<Rightarrow> d\<lparr>dv_phase := Failing, dv_lastErr := ''encoding payload: '' @ error_text e\<rparr>
         | Inr body \<Rightarrow> d\<lparr>dv_body := body\<rparr>)"

text \<open>\<^verbatim>\<open>attempt\<close> up to \<^verbatim>\<open>httpClient.Do\<close>: the call fails at once or a request is under way.\<close>

definition call :: "string outside \<Rightarrow> (string \<Rightarrow> string \<Rightarrow> string) \<Rightarrow> nat \<Rightarrow> delivering \<Rightarrow> string net \<Rightarrow> delivering \<times> string net" where
  "call os hmac attempt d w =
     (let d1 = d\<lparr>dv_attempts := Suc (dv_attempts d)\<rparr>;
          failed = (\<lambda>e. d1\<lparr>dv_phase := Noting attempt (Inl e), dv_tries := dv_tries d @ [(None, Inl e)]\<rparr>)
      in if \<not> os_url_ok os (wh_URL (dv_webhook d)) then (failed (External ''malformed url''), w)
         else if dv_deadline d \<le> nw_now w then (failed (External ''context deadline exceeded''), w)
         else (d1\<lparr>dv_phase := Awaiting attempt (length (nw_sent w))\<rparr>,
               w\<lparr>nw_sent := nw_sent w @ [delivery_request hmac (dv_webhook d) (nw_now w div 1000000000) (dv_body d)]\<rparr>))"

definition returned :: "nat \<Rightarrow> nat \<Rightarrow> goerror + nat \<Rightarrow> delivering \<Rightarrow> delivering" where
  "returned attempt k out d = d\<lparr>dv_phase := Noting attempt out, dv_tries := dv_tries d @ [(Some k, out)]\<rparr>"

text \<open>\<^verbatim>\<open>sleepWithBackoff\<close> before its \<^verbatim>\<open>select\<close>, with \<open>r\<close> as the random part.\<close>

definition backoff :: "nat \<Rightarrow> nat \<Rightarrow> int" where
  "backoff r attempt = (let base = 2 ^ (attempt - 1) * 1000000000 in base + int r mod (base div 2))"

text \<open>The head of the loop for the next attempt: leave it, or start the backoff's timer.\<close>

definition next_attempt :: "nat \<Rightarrow> int \<Rightarrow> nat \<Rightarrow> delivering \<Rightarrow> delivering" where
  "next_attempt r now attempt d =
     (if deliveryMaxRetries < attempt then d\<lparr>dv_phase := Failing\<rparr>
      else d\<lparr>dv_phase := Sleeping attempt (now + backoff r attempt)\<rparr>)"

text \<open>The rest of the loop's body, after \<^verbatim>\<open>attempt\<close> has returned.\<close>

definition note_outcome :: "ndb \<Rightarrow> nat \<Rightarrow> int \<Rightarrow> nat \<Rightarrow> goerror + nat \<Rightarrow> delivering \<Rightarrow> deliveries \<Rightarrow> delivering \<times> deliveries" where
  "note_outcome db r now attempt out d t =
     (let n = dv_attempts d; i = dv_row d
      in case out of
           Inl e \<Rightarrow>
             (next_attempt r now (Suc attempt) (d\<lparr>dv_lastErr := error_text e, dv_lastStatus := None\<rparr>),
              record_row db i Pending n None (error_text e) t)
         | Inr status \<Rightarrow>
             if 200 \<le> status \<and> status < 300
             then (d\<lparr>dv_lastStatus := Some status, dv_phase := Returned\<rparr>, record_row db i Delivered n (Some status) '''' t)
             else (let err = ''receiver answered status='' @ FormatInt (int status);
                       d1 = d\<lparr>dv_lastErr := err, dv_lastStatus := Some status\<rparr>
                   in if status < 500 then (d1\<lparr>dv_phase := Failing\<rparr>, t)
                      else (next_attempt r now (Suc attempt) d1, record_row db i Pending n (Some status) err t)))"

text \<open>
  One worker's moves.  \<open>good\<close> says what the database of a write may be.  The answer to the \<open>k\<close>-th request is the network's; a request
  in flight and a sleep both end when the context does.
\<close>

inductive deliver_move ::
  "string outside \<Rightarrow> (string \<Rightarrow> string \<Rightarrow> string) \<Rightarrow> (ndb \<Rightarrow> bool) \<Rightarrow>
    delivering \<times> string net \<times> deliveries \<Rightarrow> delivering \<times> string net \<times> deliveries \<Rightarrow> bool" for os hmac good where
  wakes: "dv_phase d = Sleeping attempt until \<Longrightarrow> until \<le> nw_now w \<Longrightarrow>
    deliver_move os hmac good (d, w, t) (d\<lparr>dv_phase := Calling attempt\<rparr>, w, t)"
| interrupted: "dv_phase d = Sleeping attempt until \<Longrightarrow> dv_deadline d \<le> nw_now w \<Longrightarrow>
    deliver_move os hmac good (d, w, t) (d\<lparr>dv_phase := Failing, dv_lastErr := ''shutdown before retry''\<rparr>, w, t)"
| calls: "dv_phase d = Calling attempt \<Longrightarrow> call os hmac attempt d w = (d', w') \<Longrightarrow>
    deliver_move os hmac good (d, w, t) (d', w', t)"
| answered: "dv_phase d = Awaiting attempt k \<Longrightarrow> out = snd (os_do os k (nw_sent w ! k)) \<Longrightarrow>
    deliver_move os hmac good (d, w, t) (returned attempt k out d, w, t)"
| expired: "dv_phase d = Awaiting attempt k \<Longrightarrow> dv_deadline d \<le> nw_now w \<Longrightarrow>
    deliver_move os hmac good (d, w, t) (returned attempt k (Inl (External ''context deadline exceeded'')) d, w, t)"
| noted: "good db \<Longrightarrow> dv_phase d = Noting attempt out \<Longrightarrow> note_outcome db r (nw_now w) attempt out d t = (d', t') \<Longrightarrow>
    deliver_move os hmac good (d, w, t) (d', w, t')"
| fails: "good db \<Longrightarrow> dv_phase d = Failing \<Longrightarrow>
    deliver_move os hmac good (d, w, t)
      (d\<lparr>dv_phase := Returned\<rparr>, w, record_row db (dv_row d) DeliveryFailed (dv_attempts d) (dv_lastStatus d) (dv_lastErr d) t)"

section \<open>The pool of workers\<close>

record pool =
  pl_net :: "string net"
  pl_rows :: deliveries
  pl_jobs :: "(Recipient \<times> MessageEvent) list"
  pl_active :: "nat \<Rightarrow> delivering option"
  pl_finished :: "delivering list"

definition idle_pool :: "int \<Rightarrow> pool" where
  "idle_pool now = \<lparr>pl_net = \<lparr>nw_now = now, nw_sent = []\<rparr>, pl_rows = \<lparr>dt_rows = [], dt_next = 1\<rparr>, pl_jobs = [],
     pl_active = (\<lambda>_. None), pl_finished = []\<rparr>"

definition pl_ids :: "pool \<Rightarrow> int set" where
  "pl_ids p = dl_ID ` set (dt_rows (pl_rows p))"

text \<open>The context of every worker ends now.\<close>

definition cancel_all :: "pool \<Rightarrow> pool" where
  "cancel_all p =
     p\<lparr>pl_active := (\<lambda>i. map_option (\<lambda>d. d\<lparr>dv_deadline := min (dv_deadline d) (nw_now (pl_net p))\<rparr>) (pl_active p i))\<rparr>"

text \<open>
  The pool's steps: a row is created and its job queued, an idle worker takes the next job, a worker moves, a worker that has returned is idle again, time
  passes, and the context is cancelled.
\<close>

inductive pool_step ::
  "(WebhookPayload \<Rightarrow> goerror + string) \<Rightarrow> string outside \<Rightarrow> (string \<Rightarrow> string \<Rightarrow> string) \<Rightarrow> (ndb \<Rightarrow> bool) \<Rightarrow> pool \<Rightarrow> pool \<Rightarrow> bool"
  for marshal os hmac good where
  queued: "dl_ID row \<notin> pl_ids p \<Longrightarrow> dl_Status row = Pending \<Longrightarrow> dl_ID (rc_Delivery rc) = dl_ID row \<Longrightarrow>
    pool_step marshal os hmac good p
      (p\<lparr>pl_rows := (pl_rows p)\<lparr>dt_rows := dt_rows (pl_rows p) @ [row]\<rparr>, pl_jobs := pl_jobs p @ [(rc, event)]\<rparr>)"
| picked: "pl_active p i = None \<Longrightarrow> pl_jobs p = (rc, event) # jobs \<Longrightarrow>
    pool_step marshal os hmac good p
      (p\<lparr>pl_jobs := jobs, pl_active := (pl_active p)(i := Some (begin_delivery marshal dl rc event))\<rparr>)"
| moved: "pl_active p i = Some d \<Longrightarrow> deliver_move os hmac good (d, pl_net p, pl_rows p) (d', w, t) \<Longrightarrow>
    pool_step marshal os hmac good p (p\<lparr>pl_active := (pl_active p)(i := Some d'), pl_net := w, pl_rows := t\<rparr>)"
| finished: "pl_active p i = Some d \<Longrightarrow> dv_phase d = Returned \<Longrightarrow>
    pool_step marshal os hmac good p (p\<lparr>pl_active := (pl_active p)(i := None), pl_finished := pl_finished p @ [d]\<rparr>)"
| elapsed: "0 \<le> x \<Longrightarrow> pool_step marshal os hmac good p (p\<lparr>pl_net := (pl_net p)\<lparr>nw_now := nw_now (pl_net p) + x\<rparr>\<rparr>)"
| cancelled: "pool_step marshal os hmac good p (cancel_all p)"

inductive pool_reach ::
  "(WebhookPayload \<Rightarrow> goerror + string) \<Rightarrow> string outside \<Rightarrow> (string \<Rightarrow> string \<Rightarrow> string) \<Rightarrow> (ndb \<Rightarrow> bool) \<Rightarrow> pool \<Rightarrow> pool \<Rightarrow> bool"
  for marshal os hmac good p0 where
  idle: "pool_reach marshal os hmac good p0 p0"
| works: "pool_reach marshal os hmac good p0 p \<Longrightarrow> pool_step marshal os hmac good p p' \<Longrightarrow> pool_reach marshal os hmac good p0 p'"

section \<open>What a worker keeps\<close>

definition rows_of :: "int \<Rightarrow> deliveries \<Rightarrow> Delivery list" where
  "rows_of i t = filter (\<lambda>r. dl_ID r = i) (dt_rows t)"

definition open_row :: "int \<Rightarrow> deliveries \<Rightarrow> bool" where
  "open_row i t \<longleftrightarrow> rows_of i t \<noteq> [] \<and> list_all (\<lambda>r. dl_Status r = Pending) (rows_of i t)"

definition closed_row :: "int \<Rightarrow> DeliveryStatus \<Rightarrow> nat \<Rightarrow> nat option \<Rightarrow> deliveries \<Rightarrow> bool" where
  "closed_row i status n ls t \<longleftrightarrow>
     rows_of i t \<noteq> [] \<and> list_all (\<lambda>r. dl_Status r = status \<and> dl_Attempts r = n \<and> dl_LastStatus r = ls) (rows_of i t)"

text \<open>The requests of a delivery, by their positions in the log.\<close>

definition reqs :: "delivering \<Rightarrow> nat list" where
  "reqs d = List.map_filter fst (dv_tries d) @ (case dv_phase d of Awaiting a k \<Rightarrow> [k] | _ \<Rightarrow> [])"

definition try_ok :: "string outside \<Rightarrow> (string \<Rightarrow> string \<Rightarrow> string) \<Rightarrow> Webhook \<Rightarrow> string \<Rightarrow> string out_request list \<Rightarrow> nat option \<times> (goerror + nat) \<Rightarrow> bool" where
  "try_ok os hmac webhook body log x \<longleftrightarrow>
     (case x of
        (None, out) \<Rightarrow> isl out
      | (Some k, out) \<Rightarrow> k < length log \<and> signed_for hmac webhook body (log ! k) \<and> (isl out \<or> out = snd (os_do os k (log ! k))))"

definition last_outcome :: "(nat option \<times> (goerror + nat)) list \<Rightarrow> nat option" where
  "last_outcome tries = (if tries = [] then None else status_of (snd (last tries)))"

definition retrying :: "nat \<Rightarrow> delivering \<Rightarrow> bool" where
  "retrying attempt d \<longleftrightarrow> attempt = length (dv_tries d) \<and> attempt \<le> 3 \<and> list_all (\<lambda>x. \<not> settled (snd x)) (dv_tries d) \<and>
     dv_lastStatus d = last_outcome (dv_tries d)"

definition concluded :: "delivering \<Rightarrow> bool" where
  "concluded d \<longleftrightarrow> dv_attempts d = length (dv_tries d) \<and> length (dv_tries d) \<le> 4 \<and>
     list_all (\<lambda>x. \<not> settled (snd x)) (butlast (dv_tries d)) \<and> dv_lastStatus d = last_outcome (dv_tries d)"

definition succeeded :: "delivering \<Rightarrow> bool" where
  "succeeded d \<longleftrightarrow> dv_tries d \<noteq> [] \<and> accepted (snd (last (dv_tries d)))"

definition at_phase :: "delivering \<Rightarrow> string net \<Rightarrow> deliveries \<Rightarrow> (string \<Rightarrow> string \<Rightarrow> string) \<Rightarrow> bool" where
  "at_phase d w t hmac \<longleftrightarrow>
     (case dv_phase d of
        Sleeping attempt until \<Rightarrow> 0 < attempt \<and> retrying attempt d \<and> dv_attempts d = attempt \<and> open_row (dv_row d) t
      | Calling attempt \<Rightarrow> retrying attempt d \<and> dv_attempts d = attempt \<and> open_row (dv_row d) t
      | Awaiting attempt k \<Rightarrow> retrying attempt d \<and> dv_attempts d = Suc attempt \<and> open_row (dv_row d) t \<and>
          k < length (nw_sent w) \<and> signed_for hmac (dv_webhook d) (dv_body d) (nw_sent w ! k)
      | Noting attempt out \<Rightarrow> (\<exists>k tries. dv_tries d = tries @ [(k, out)] \<and> attempt = length tries \<and> attempt \<le> 3 \<and>
          list_all (\<lambda>x. \<not> settled (snd x)) tries) \<and> dv_attempts d = Suc attempt \<and> open_row (dv_row d) t
      | Failing \<Rightarrow> concluded d \<and> \<not> succeeded d \<and> open_row (dv_row d) t
      | Returned \<Rightarrow> concluded d \<and>
          closed_row (dv_row d) (if succeeded d then Delivered else DeliveryFailed) (length (dv_tries d)) (dv_lastStatus d) t)"

definition deliver_inv ::
  "(WebhookPayload \<Rightarrow> goerror + string) \<Rightarrow> string outside \<Rightarrow> (string \<Rightarrow> string \<Rightarrow> string) \<Rightarrow> delivering \<Rightarrow> string net \<Rightarrow> deliveries \<Rightarrow> bool" where
  "deliver_inv marshal os hmac d w t \<longleftrightarrow>
     list_all (try_ok os hmac (dv_webhook d) (dv_body d) (nw_sent w)) (dv_tries d) \<and> at_phase d w t hmac \<and>
     distinct (reqs d) \<and> list_all (\<lambda>k. k < length (nw_sent w)) (reqs d) \<and>
     (dv_tries d = [] \<and> (dv_phase d = Failing \<or> dv_phase d = Returned) \<longrightarrow> (\<exists>p. isl (marshal p)))"

lemma rows_of_record:
  "rows_of j (record_row db i status n ls err t) =
     (if j = i \<and> \<not> nd_down db
      then map (\<lambda>r. r\<lparr>dl_Status := status, dl_Attempts := n, dl_LastStatus := ls,
        dl_LastError := (if err = '''' then None else Some (take 512 err)), dl_UpdatedAt := nd_now db\<rparr>) (rows_of i t)
      else rows_of j t)"
proof -
  have "filter (\<lambda>r. dl_ID r = j) (map (\<lambda>r. if dl_ID r = i then f r else r) rs) =
      (if j = i then map f (filter (\<lambda>r. dl_ID r = i) rs) else filter (\<lambda>r. dl_ID r = j) rs)"
    if "\<And>r. dl_ID (f r) = dl_ID r" for f :: "Delivery \<Rightarrow> Delivery" and rs
    using that by (induction rs) auto
  then show ?thesis by (auto simp: rows_of_def record_row_def RecordAttempt_def Let_def)
qed

lemma record_row_ids [simp]: "map dl_ID (dt_rows (record_row db i status n ls err t)) = map dl_ID (dt_rows t)"
  by (auto simp: record_row_def RecordAttempt_def Let_def)

lemma record_open: "\<not> nd_down db \<Longrightarrow> open_row i t \<Longrightarrow> open_row i (record_row db i Pending n ls err t)"
  by (auto simp: open_row_def rows_of_record list_all_iff)

lemma record_closed: "\<not> nd_down db \<Longrightarrow> open_row i t \<Longrightarrow> closed_row i status n ls (record_row db i status n ls err t)"
  by (auto simp: open_row_def closed_row_def rows_of_record list_all_iff)

lemma try_ok_later: "try_ok os hmac webhook body log x \<Longrightarrow> try_ok os hmac webhook body (log @ later) x"
  by (auto simp: try_ok_def nth_append split: prod.splits option.splits)

text \<open>What other workers do to the log and to their own rows does not matter to this one.\<close>

lemma deliver_inv_frame:
  assumes "deliver_inv marshal os hmac d w t" "nw_sent w' = nw_sent w @ later" "rows_of (dv_row d) t' = rows_of (dv_row d) t"
  shows "deliver_inv marshal os hmac d w' t'"
proof -
  have "try_ok os hmac wh body (nw_sent w) x \<Longrightarrow> try_ok os hmac wh body (nw_sent w') x" for wh body x
    unfolding assms(2) by (rule try_ok_later)
  moreover have "at_phase d w t hmac \<Longrightarrow> at_phase d w' t' hmac"
    using assms(2,3) by (auto simp: at_phase_def open_row_def closed_row_def nth_append split: phase.splits)
  moreover have "k < length (nw_sent w) \<Longrightarrow> k < length (nw_sent w')" for k using assms(2) by simp
  ultimately show ?thesis using assms(1) by (auto simp: deliver_inv_def list_all_iff)
qed

lemma next_attempt_keeps [simp]:
  "dv_webhook (next_attempt r now a d) = dv_webhook d" "dv_row (next_attempt r now a d) = dv_row d"
  "dv_body (next_attempt r now a d) = dv_body d" "dv_attempts (next_attempt r now a d) = dv_attempts d"
  "dv_lastStatus (next_attempt r now a d) = dv_lastStatus d" "dv_tries (next_attempt r now a d) = dv_tries d"
  "dv_deadline (next_attempt r now a d) = dv_deadline d"
  by (simp_all add: next_attempt_def Let_def)

lemma next_attempt_reqs:
  assumes "dv_phase d = Noting a out"
  shows "reqs (next_attempt r now b d) = reqs d"
  using assms by (simp add: reqs_def next_attempt_def Let_def)

lemma next_attempt_phase:
  "dv_phase (next_attempt r now a d) = (if 3 < a then Failing else Sleeping a (now + backoff r a))"
  by (simp add: next_attempt_def deliveryMaxRetries_def Let_def)

lemma unsettled_not_accepted: "\<not> settled a \<Longrightarrow> \<not> accepted a"
  by (auto simp: accepted_def settled_def split: sum.splits)

text \<open>What a move does to the shared state: later requests are appended to the log, and only the worker's own row changes.\<close>

definition moves_alone :: "delivering \<times> string net \<times> deliveries \<Rightarrow> delivering \<times> string net \<times> deliveries \<Rightarrow> bool" where
  "moves_alone x y \<longleftrightarrow>
     (case (x, y) of ((d, w, t), (d', w', t')) \<Rightarrow>
        dv_row d' = dv_row d \<and> dv_webhook d' = dv_webhook d \<and> dv_body d' = dv_body d \<and>
        (\<exists>later. nw_sent w' = nw_sent w @ later) \<and>
        set (reqs d') = set (reqs d) \<union> {length (nw_sent w)..<length (nw_sent w')} \<and>
        map dl_ID (dt_rows t') = map dl_ID (dt_rows t) \<and> (\<forall>j. j \<noteq> dv_row d \<longrightarrow> rows_of j t' = rows_of j t))"

lemma note_outcome_inv:
  assumes "deliver_inv marshal os hmac d w t" "\<not> nd_down db" "dv_phase d = Noting a out" "note_outcome db r now a out d t = (d', t')"
  shows "deliver_inv marshal os hmac d' w t' \<and> moves_alone (d, w, t) (d', w, t')"
proof -
  have I: "list_all (try_ok os hmac (dv_webhook d) (dv_body d) (nw_sent w)) (dv_tries d)"
    "distinct (reqs d)" "list_all (\<lambda>k. k < length (nw_sent w)) (reqs d)"
    using assms(1) by (simp_all add: deliver_inv_def)
  obtain k tries where T: "dv_tries d = tries @ [(k, out)]" "a = length tries" "a \<le> 3" "list_all (\<lambda>x. \<not> settled (snd x)) tries"
    "dv_attempts d = Suc a" "open_row (dv_row d) t"
    using assms(1,3) by (auto simp: deliver_inv_def at_phase_def)
  note up = record_open [OF assms(2) T(6)] record_closed [OF assms(2) T(6)]
  show ?thesis
  proof (cases out)
    case (Inl e)
    then have "\<not> settled out" by (simp add: settled_def)
    moreover have d': "d' = next_attempt r now (Suc a) (d\<lparr>dv_lastErr := error_text e, dv_lastStatus := None\<rparr>)"
      "t' = record_row db (dv_row d) Pending (Suc a) None (error_text e) t"
      using assms(4) Inl T(5) by (simp_all add: note_outcome_def)
    moreover have "reqs d' = reqs d"
      unfolding d' using assms(3) by (subst next_attempt_reqs [of _ a out]) (simp_all add: reqs_def)
    ultimately show ?thesis using I T up
      by (auto simp: deliver_inv_def at_phase_def next_attempt_phase retrying_def concluded_def succeeded_def last_outcome_def status_of_def Inl
          moves_alone_def rows_of_record unsettled_not_accepted)
  next
    case (Inr status)
    consider (ok) "200 \<le> status \<and> status < 300" | (no) "\<not> (200 \<le> status \<and> status < 300)" "status < 500" | (again) "500 \<le> status" by linarith
    then show ?thesis
    proof cases
      case ok
      then have acc: "accepted out" by (simp add: accepted_def Inr)
      have d': "d' = d\<lparr>dv_lastStatus := Some status, dv_phase := Returned\<rparr>" "t' = record_row db (dv_row d) Delivered (Suc a) (Some status) '''' t"
        using assms(4) Inr T(5) ok by (simp_all add: note_outcome_def Let_def)
      moreover have "reqs d' = reqs d" unfolding d' using assms(3) by (simp add: reqs_def)
      ultimately show ?thesis using I T up acc
        by (auto simp: deliver_inv_def at_phase_def concluded_def succeeded_def last_outcome_def status_of_def Inr moves_alone_def rows_of_record)
    next
      case no
      then have nacc: "\<not> accepted out" by (auto simp: accepted_def Inr)
      have d': "d' = d\<lparr>dv_lastErr := ''receiver answered status='' @ FormatInt (int status), dv_lastStatus := Some status, dv_phase := Failing\<rparr>" "t' = t"
        using assms(4) Inr T(5) no by (auto simp: note_outcome_def Let_def)
      moreover have "reqs d' = reqs d" unfolding d' using assms(3) by (simp add: reqs_def)
      ultimately show ?thesis using I T nacc
        by (auto simp: deliver_inv_def at_phase_def concluded_def succeeded_def last_outcome_def status_of_def Inr moves_alone_def)
    next
      case again
      then have uns: "\<not> settled out" by (simp add: settled_def Inr)
      have d': "d' = next_attempt r now (Suc a) (d\<lparr>dv_lastErr := ''receiver answered status='' @ FormatInt (int status), dv_lastStatus := Some status\<rparr>)"
        "t' = record_row db (dv_row d) Pending (Suc a) (Some status) (''receiver answered status='' @ FormatInt (int status)) t"
        using assms(4) Inr T(5) again by (simp_all add: note_outcome_def Let_def)
      moreover have "reqs d' = reqs d"
        unfolding d' using assms(3) by (subst next_attempt_reqs [of _ a out]) (simp_all add: reqs_def)
      ultimately show ?thesis using I T up uns
        by (auto simp: deliver_inv_def at_phase_def next_attempt_phase retrying_def concluded_def succeeded_def last_outcome_def status_of_def Inr
            moves_alone_def rows_of_record unsettled_not_accepted)
    qed
  qed
qed

lemma call_inv:
  assumes "deliver_inv marshal os hmac d w t" "dv_phase d = Calling a" "call os hmac a d w = (d', w')"
  shows "deliver_inv marshal os hmac d' w' t \<and> moves_alone (d, w, t) (d', w', t)"
proof -
  have I: "list_all (try_ok os hmac (dv_webhook d) (dv_body d) (nw_sent w)) (dv_tries d)" "distinct (reqs d)"
    "list_all (\<lambda>k. k < length (nw_sent w)) (reqs d)" "retrying a d" "dv_attempts d = a" "open_row (dv_row d) t"
    using assms(1,2) by (simp_all add: deliver_inv_def at_phase_def)
  consider (failed) e where "d' = d\<lparr>dv_attempts := Suc a, dv_phase := Noting a (Inl e), dv_tries := dv_tries d @ [(None, Inl e)]\<rparr>" "w' = w"
    | (sent) "d' = d\<lparr>dv_attempts := Suc a, dv_phase := Awaiting a (length (nw_sent w))\<rparr>"
        "w' = w\<lparr>nw_sent := nw_sent w @ [delivery_request hmac (dv_webhook d) (nw_now w div 1000000000) (dv_body d)]\<rparr>"
  proof (cases "os_url_ok os (wh_URL (dv_webhook d)) \<and> nw_now w < dv_deadline d")
    case True
    then show ?thesis using assms(3) I(5) by (intro sent) (simp_all add: call_def not_le [symmetric])
  next
    case False
    then show ?thesis using assms(3) I(5)
      by (intro failed [of "if os_url_ok os (wh_URL (dv_webhook d)) then External ''context deadline exceeded'' else External ''malformed url''"])
        (simp_all add: call_def Let_def not_less split: if_splits)
  qed
  then show ?thesis
  proof cases
    case failed
    have "reqs d' = reqs d" using assms(2) by (simp add: failed(1) reqs_def map_filter_def)
    moreover have "at_phase d' w' t hmac" unfolding failed using I(4-6) by (simp add: at_phase_def retrying_def)
    moreover have "list_all (try_ok os hmac (dv_webhook d) (dv_body d) (nw_sent w)) (dv_tries d')"
      using I(1) by (simp add: failed(1) try_ok_def)
    ultimately show ?thesis using I(2,3) by (simp add: deliver_inv_def moves_alone_def failed(1)) (simp add: failed(2))
  next
    case sent
    have R: "reqs d' = reqs d @ [length (nw_sent w)]" using assms(2) by (simp add: sent(1) reqs_def)
    have "list_all (try_ok os hmac (dv_webhook d) (dv_body d) (nw_sent w')) (dv_tries d)"
      using I(1) try_ok_later by (force simp: list_all_iff sent(2))
    moreover have "at_phase d' w' t hmac" 
      unfolding sent using I(4-6) by (simp add: at_phase_def retrying_def delivery_request_signed)
    moreover have "distinct (reqs d')" "list_all (\<lambda>k. k < length (nw_sent w')) (reqs d')"
      unfolding R using I(2,3) by (auto simp: sent(2) list_all_iff)
    ultimately have "deliver_inv marshal os hmac d' w' t" by (simp add: deliver_inv_def sent(1))
    moreover have "moves_alone (d, w, t) (d', w', t)" unfolding moves_alone_def using R by (auto simp: sent)
    ultimately show ?thesis by blast
  qed
qed

lemma returned_inv:
  assumes "deliver_inv marshal os hmac d w t" "dv_phase d = Awaiting a k" "isl out \<or> out = snd (os_do os k (nw_sent w ! k))"
  shows "deliver_inv marshal os hmac (returned a k out d) w t \<and> moves_alone (d, w, t) (returned a k out d, w, t)"
proof -
  have "reqs (returned a k out d) = reqs d" using assms(2) by (simp add: returned_def reqs_def map_filter_def)
  then show ?thesis using assms
    by (auto simp: deliver_inv_def at_phase_def retrying_def returned_def try_ok_def moves_alone_def)
qed

lemma deliver_move_inv:
  assumes "deliver_inv marshal os hmac d w t" "deliver_move os hmac (\<lambda>db. \<not> nd_down db) (d, w, t) (d', w', t')"
  shows "deliver_inv marshal os hmac d' w' t' \<and> moves_alone (d, w, t) (d', w', t')"
  using assms(2)
proof cases
  case (wakes a until)
  then have "reqs d' = reqs d" by (simp add: reqs_def)
  then show ?thesis using assms(1) wakes by (auto simp: deliver_inv_def at_phase_def retrying_def moves_alone_def)
next
  case (interrupted a until)
  then have "reqs d' = reqs d" by (simp add: reqs_def)
  moreover have "dv_tries d \<noteq> []" "list_all (\<lambda>x. \<not> settled (snd x)) (dv_tries d)"
    using assms(1) interrupted by (auto simp: deliver_inv_def at_phase_def retrying_def)
  moreover from this have "list_all (\<lambda>x. \<not> settled (snd x)) (butlast (dv_tries d))" "\<not> accepted (snd (last (dv_tries d)))"
    by (auto simp: list_all_iff dest: in_set_butlastD unsettled_not_accepted)
  ultimately show ?thesis using assms(1) interrupted
    by (auto simp: deliver_inv_def at_phase_def retrying_def concluded_def succeeded_def moves_alone_def)
next
  case (calls a)
  then show ?thesis using call_inv [OF assms(1)] by blast
next
  case (answered a k out)
  then show ?thesis using returned_inv [OF assms(1)] by blast
next
  case (expired a k)
  then show ?thesis using returned_inv [OF assms(1), of a k "Inl (External ''context deadline exceeded'')"] by simp
next
  case (noted db a out r)
  then show ?thesis using note_outcome_inv [OF assms(1)] by blast
next
  case (fails db)
  then have "reqs d' = reqs d" by (simp add: reqs_def)
  moreover have "closed_row (dv_row d) DeliveryFailed (dv_attempts d) (dv_lastStatus d) t'"
    unfolding fails by (rule record_closed) (use fails assms(1) in \<open>auto simp: deliver_inv_def at_phase_def\<close>)
  ultimately show ?thesis using assms(1) fails
    by (auto simp: deliver_inv_def at_phase_def concluded_def succeeded_def moves_alone_def rows_of_record)
qed

section \<open>What the pool keeps\<close>

text \<open>A delivery the pool knows is at a worker or finished.\<close>

datatype slot = Worker nat | Done nat

definition holds :: "pool \<Rightarrow> slot \<Rightarrow> delivering option" where
  "holds p s = (case s of Worker i \<Rightarrow> pl_active p i | Done n \<Rightarrow> if n < length (pl_finished p) then Some (pl_finished p ! n) else None)"

definition job_ids :: "pool \<Rightarrow> int list" where
  "job_ids p = map (\<lambda>(rc, event). dl_ID (rc_Delivery rc)) (pl_jobs p)"

definition slots_inv ::
  "(WebhookPayload \<Rightarrow> goerror + string) \<Rightarrow> string outside \<Rightarrow> (string \<Rightarrow> string \<Rightarrow> string) \<Rightarrow> (slot \<Rightarrow> delivering option) \<Rightarrow>
    string net \<Rightarrow> deliveries \<Rightarrow> int list \<Rightarrow> bool" where
  "slots_inv marshal os hmac h w t ids \<longleftrightarrow>
     (\<forall>s d. h s = Some d \<longrightarrow> deliver_inv marshal os hmac d w t \<and> dv_row d \<notin> set ids) \<and>
     (\<forall>s s' d d'. h s = Some d \<longrightarrow> h s' = Some d' \<longrightarrow> s \<noteq> s' \<longrightarrow> dv_row d \<noteq> dv_row d' \<and> set (reqs d) \<inter> set (reqs d') = {}) \<and>
     (\<forall>k < length (nw_sent w). \<exists>s d. h s = Some d \<and> k \<in> set (reqs d)) \<and>
     distinct ids \<and> (\<forall>i \<in> set ids. open_row i t) \<and>
     (\<forall>i \<in> dl_ID ` set (dt_rows t). i \<in> set ids \<or> (\<exists>s d. h s = Some d \<and> dv_row d = i))"

lemma slots_invD:
  assumes "slots_inv marshal os hmac h w t ids"
  shows "h s = Some d \<Longrightarrow> deliver_inv marshal os hmac d w t" "h s = Some d \<Longrightarrow> dv_row d \<notin> set ids"
    and "h s = Some d \<Longrightarrow> h s' = Some d' \<Longrightarrow> s \<noteq> s' \<Longrightarrow> dv_row d \<noteq> dv_row d' \<and> set (reqs d) \<inter> set (reqs d') = {}"
    and "k < length (nw_sent w) \<Longrightarrow> \<exists>s d. h s = Some d \<and> k \<in> set (reqs d)"
    and "distinct ids" "i \<in> set ids \<Longrightarrow> open_row i t"
    and "i \<in> dl_ID ` set (dt_rows t) \<Longrightarrow> i \<in> set ids \<or> (\<exists>s d. h s = Some d \<and> dv_row d = i)"
proof -
  note A = assms [unfolded slots_inv_def]
  show "h s = Some d \<Longrightarrow> deliver_inv marshal os hmac d w t" "h s = Some d \<Longrightarrow> dv_row d \<notin> set ids"
    using conjunct1 [OF A] by blast+
  show "h s = Some d \<Longrightarrow> h s' = Some d' \<Longrightarrow> s \<noteq> s' \<Longrightarrow> dv_row d \<noteq> dv_row d' \<and> set (reqs d) \<inter> set (reqs d') = {}"
    using conjunct1 [OF conjunct2 [OF A]] by blast
  show "k < length (nw_sent w) \<Longrightarrow> \<exists>s d. h s = Some d \<and> k \<in> set (reqs d)"
    using conjunct1 [OF conjunct2 [OF conjunct2 [OF A]]] by simp
  show "distinct ids" "i \<in> set ids \<Longrightarrow> open_row i t"
    "i \<in> dl_ID ` set (dt_rows t) \<Longrightarrow> i \<in> set ids \<or> (\<exists>s d. h s = Some d \<and> dv_row d = i)"
    using conjunct2 [OF conjunct2 [OF conjunct2 [OF A]]] by auto
qed

lemma deliver_inv_reqs: "deliver_inv marshal os hmac d w t \<Longrightarrow> k \<in> set (reqs d) \<Longrightarrow> k < length (nw_sent w)"
  by (auto simp: deliver_inv_def list_all_iff)

lemma slots_inv_move:
  assumes S: "slots_inv marshal os hmac h w t ids" and h: "h s = Some d"
    and d': "deliver_inv marshal os hmac d' w' t'" and m: "moves_alone (d, w, t) (d', w', t')"
  shows "slots_inv marshal os hmac (h(s \<mapsto> d')) w' t' ids"
proof -
  note D = slots_invD [OF S]
  obtain later where later: "nw_sent w' = nw_sent w @ later" using m by (auto simp: moves_alone_def)
  have keep: "dv_row d' = dv_row d" "set (reqs d') = set (reqs d) \<union> {length (nw_sent w)..<length (nw_sent w')}"
    "j \<noteq> dv_row d \<Longrightarrow> rows_of j t' = rows_of j t" for j using m by (auto simp: moves_alone_def)
  have "map dl_ID (dt_rows t') = map dl_ID (dt_rows t)" using m by (simp add: moves_alone_def)
  then have ids: "dl_ID ` set (dt_rows t') = dl_ID ` set (dt_rows t)" by (metis set_map)
  have other: "dv_row x \<noteq> dv_row d \<and> set (reqs x) \<inter> set (reqs d') = {} \<and> deliver_inv marshal os hmac x w' t'"
    if "h s' = Some x" "s' \<noteq> s" for s' x
  proof -
    have x: "dv_row x \<noteq> dv_row d" "set (reqs x) \<inter> set (reqs d) = {}" using D(3) [OF that(1) h that(2)] by blast+
    have "set (reqs x) \<inter> {length (nw_sent w)..<length (nw_sent w')} = {}" using deliver_inv_reqs [OF D(1) [OF that(1)]] by fastforce
    then show ?thesis using x keep(2) deliver_inv_frame [OF D(1) [OF that(1)] later keep(3) [OF x(1)]] by blast
  qed
  show ?thesis
    unfolding slots_inv_def
  proof (intro conjI allI impI ballI)
    fix s' x
    assume "(h(s \<mapsto> d')) s' = Some x"
    then show "deliver_inv marshal os hmac x w' t'" "dv_row x \<notin> set ids"
      using d' other D(2) [OF h] D(2) keep(1) by (auto split: if_splits)
  next
    fix s1 s2 x y
    assume a: "(h(s \<mapsto> d')) s1 = Some x" "(h(s \<mapsto> d')) s2 = Some y" "s1 \<noteq> s2"
    then show "dv_row x \<noteq> dv_row y" "set (reqs x) \<inter> set (reqs y) = {}"
      using other [of s1 x] other [of s2 y] D(3) [of s1 x s2 y] keep(1) by (cases "s1 = s"; cases "s2 = s"; auto)+
  next
    fix k
    assume k: "k < length (nw_sent w')"
    show "\<exists>s' x. (h(s \<mapsto> d')) s' = Some x \<and> k \<in> set (reqs x)"
    proof (cases "k < length (nw_sent w)")
      case True
      then obtain s' x where x: "h s' = Some x" "k \<in> set (reqs x)" using D(4) by blast
      then show ?thesis using h keep(2) by (cases "s' = s") auto
    next
      case False
      then have "k \<in> set (reqs d')" using k keep(2) by auto
      then show ?thesis by (intro exI [of _ s] exI [of _ d']) simp
    qed
  next
    show "distinct ids" by (rule D(5))
  next
    fix i
    assume "i \<in> set ids"
    moreover from this have "i \<noteq> dv_row d" using D(2) [OF h] by blast
    ultimately show "open_row i t'" using D(6) [of i] keep(3) [of i] by (simp add: open_row_def)
  next
    fix i
    assume "i \<in> dl_ID ` set (dt_rows t')"
    then consider "i \<in> set ids" | s' x where "h s' = Some x" "dv_row x = i" using D(7) unfolding ids by blast
    then show "i \<in> set ids \<or> (\<exists>s' x. (h(s \<mapsto> d')) s' = Some x \<and> dv_row x = i)"
    proof cases
      case (2 s' x)
      then show ?thesis using h keep(1) by (intro disjI2 exI [of _ s'] exI [of _ "if s' = s then d' else x"]) auto
    qed simp
  qed
qed

text \<open>A delivery that begins takes the id of a job and an open row with it.\<close>

lemma begin_inv:
  assumes "open_row (dl_ID (rc_Delivery rc)) t"
  shows "deliver_inv marshal os hmac (begin_delivery marshal dl rc event) w t" "reqs (begin_delivery marshal dl rc event) = []"
    "dv_row (begin_delivery marshal dl rc event) = dl_ID (rc_Delivery rc)"
proof -
  define m where "m = marshal \<lparr>wp_Event = ''message.created'', wp_EventID = me_EventID event,
      wp_Recipient = wh_UserID (rc_Webhook rc), wp_Data = event\<rparr>"
  have ex: "m = Inl e \<Longrightarrow> \<exists>p. isl (marshal p)" for e unfolding m_def by (metis isl_def)
  note unf = begin_delivery_def Let_def m_def [symmetric]
  show "deliver_inv marshal os hmac (begin_delivery marshal dl rc event) w t"
    using assms ex by (cases m) (auto simp: unf deliver_inv_def at_phase_def retrying_def concluded_def succeeded_def last_outcome_def reqs_def map_filter_def)
  show "reqs (begin_delivery marshal dl rc event) = []" "dv_row (begin_delivery marshal dl rc event) = dl_ID (rc_Delivery rc)"
    by (cases m; simp add: unf reqs_def map_filter_def)+
qed

lemma slots_inv_begin:
  assumes S: "slots_inv marshal os hmac h w t (i # ids)" and h: "h s = None"
    and d: "deliver_inv marshal os hmac d w t" "reqs d = []" "dv_row d = i"
  shows "slots_inv marshal os hmac (h(s \<mapsto> d)) w t ids"
proof -
  note D = slots_invD [OF S]
  have i: "i \<notin> set ids" "h s' = Some x \<Longrightarrow> dv_row x \<noteq> i" for s' x using D(5) D(2) [of s' x] by auto
  show ?thesis
    unfolding slots_inv_def
  proof (intro conjI allI impI ballI)
    fix s' x
    assume "(h(s \<mapsto> d)) s' = Some x"
    then show "deliver_inv marshal os hmac x w t" "dv_row x \<notin> set ids" using d i D(1,2) by (auto split: if_splits)
  next
    fix s1 s2 x y
    assume "(h(s \<mapsto> d)) s1 = Some x" "(h(s \<mapsto> d)) s2 = Some y" "s1 \<noteq> s2"
    then show "dv_row x \<noteq> dv_row y" "set (reqs x) \<inter> set (reqs y) = {}"
      using d i(2) [of s1 x] i(2) [of s2 y] D(3) [of s1 x s2 y] by (cases "s1 = s"; cases "s2 = s"; auto)+
  next
    fix k
    assume "k < length (nw_sent w)"
    then obtain s' x where "h s' = Some x" "k \<in> set (reqs x)" using D(4) by blast
    then show "\<exists>s' x. (h(s \<mapsto> d)) s' = Some x \<and> k \<in> set (reqs x)" using h by (intro exI [of _ s'] exI [of _ x]) auto
  next
    show "distinct ids" "\<And>j. j \<in> set ids \<Longrightarrow> open_row j t" using D(5,6) by auto
  next
    fix j
    assume "j \<in> dl_ID ` set (dt_rows t)"
    then consider "j \<in> set ids" | "j = i" | s' x where "h s' = Some x" "dv_row x = j" using D(7) by fastforce
    then show "j \<in> set ids \<or> (\<exists>s' x. (h(s \<mapsto> d)) s' = Some x \<and> dv_row x = j)"
    proof cases
      case 2
      then show ?thesis using d(3) by (intro disjI2 exI [of _ s] exI [of _ d]) simp
    next
      case (3 s' x)
      then show ?thesis using h by (intro disjI2 exI [of _ s'] exI [of _ x]) auto
    qed simp
  qed
qed

lemma slots_inv_queued:
  assumes S: "slots_inv marshal os hmac h w t ids" and new: "dl_ID row \<notin> dl_ID ` set (dt_rows t)" "dl_Status row = Pending"
  shows "slots_inv marshal os hmac h w (t\<lparr>dt_rows := dt_rows t @ [row]\<rparr>) (ids @ [dl_ID row])"
proof -
  note D = slots_invD [OF S]
  let ?t = "t\<lparr>dt_rows := dt_rows t @ [row]\<rparr>"
  have none: "x \<in> set (dt_rows t) \<Longrightarrow> dl_ID x \<noteq> dl_ID row" for x using new(1) by (metis imageI)
  then have rows: "rows_of j ?t = (if j = dl_ID row then [row] else rows_of j t)" for j
    by (auto simp: rows_of_def filter_empty_conv)
  have fresh: "j \<noteq> dl_ID row" if "rows_of j t \<noteq> []" for j
    using that none by (auto simp: rows_of_def filter_empty_conv)
  have row: "rows_of (dv_row x) t \<noteq> []" if "deliver_inv marshal os hmac x w t" for x
    using that by (auto simp: deliver_inv_def at_phase_def open_row_def closed_row_def split: phase.splits)
  show ?thesis
    unfolding slots_inv_def
  proof (intro conjI allI impI ballI)
    fix s x
    assume x: "h s = Some x"
    have "dv_row x \<noteq> dl_ID row" using fresh row D(1) [OF x] by blast
    then show "deliver_inv marshal os hmac x w ?t" "dv_row x \<notin> set (ids @ [dl_ID row])"
      using deliver_inv_frame [OF D(1) [OF x], of w "[]" ?t] rows D(2) [OF x] by auto
  next
    show "distinct (ids @ [dl_ID row])" using D(5,6) fresh by (auto simp: open_row_def)
  next
    fix j
    assume "j \<in> set (ids @ [dl_ID row])"
    then show "open_row j ?t" using D(6) new(2) by (auto simp: open_row_def rows)
  next
    fix j
    assume "j \<in> dl_ID ` set (dt_rows ?t)"
    then show "j \<in> set (ids @ [dl_ID row]) \<or> (\<exists>s x. h s = Some x \<and> dv_row x = j)" using D(7) [of j] by auto
  qed (use D(3,4) in blast)+
qed

definition pool_inv :: "(WebhookPayload \<Rightarrow> goerror + string) \<Rightarrow> string outside \<Rightarrow> (string \<Rightarrow> string \<Rightarrow> string) \<Rightarrow> pool \<Rightarrow> bool" where
  "pool_inv marshal os hmac p \<longleftrightarrow> slots_inv marshal os hmac (holds p) (pl_net p) (pl_rows p) (job_ids p) \<and>
     list_all (\<lambda>d. dv_phase d = Returned) (pl_finished p)"

lemma holds_simps:
  "holds p (Worker i) = pl_active p i"
  "holds p (Done n) = (if n < length (pl_finished p) then Some (pl_finished p ! n) else None)"
  by (simp_all add: holds_def)

lemma slots_inv_rename:
  assumes S: "slots_inv marshal os hmac h w t ids" and h: "h s = Some d" "h s' = None"
  shows "slots_inv marshal os hmac (h(s := None, s' \<mapsto> d)) w t ids"
proof -
  note D = slots_invD [OF S]
  have new: "(h(s := None, s' \<mapsto> d)) x = (if x = s' then h s else if x = s then None else h x)" for x using h by simp
  have ex: "\<exists>x e. (h(s := None, s' \<mapsto> d)) x = Some e \<and> P e" if "h y = Some e" "P e" for y e P
    using that h by (intro exI [of _ "if y = s then s' else y"] exI [of _ e]) auto
  show ?thesis
    unfolding slots_inv_def
  proof (intro conjI allI impI ballI)
    fix x e
    assume "(h(s := None, s' \<mapsto> d)) x = Some e"
    then show "deliver_inv marshal os hmac e w t" "dv_row e \<notin> set ids" using D(1,2) unfolding new by (auto split: if_splits)
  next
    fix x y e e'
    assume a: "(h(s := None, s' \<mapsto> d)) x = Some e" "(h(s := None, s' \<mapsto> d)) y = Some e'" "x \<noteq> y"
    have old: "h (if z = s' then s else z) = Some v" "z \<noteq> s" if "(h(s := None, s' \<mapsto> d)) z = Some v" for z v
      using that h by (auto split: if_splits)
    have "(if x = s' then s else x) \<noteq> (if y = s' then s else y)" using a(3) old(2) [OF a(1)] old(2) [OF a(2)] by auto
    from D(3) [OF old(1) [OF a(1)] old(1) [OF a(2)] this]
    show "dv_row e \<noteq> dv_row e'" "set (reqs e) \<inter> set (reqs e') = {}" by simp_all
  next
    fix k
    assume "k < length (nw_sent w)"
    then obtain y e where "h y = Some e" "k \<in> set (reqs e)" using D(4) by blast
    then show "\<exists>x e. (h(s := None, s' \<mapsto> d)) x = Some e \<and> k \<in> set (reqs e)" by (rule ex)
  next
    fix i
    assume "i \<in> dl_ID ` set (dt_rows t)"
    then consider "i \<in> set ids" | y e where "h y = Some e" "dv_row e = i" using D(7) by blast
    then show "i \<in> set ids \<or> (\<exists>x e. (h(s := None, s' \<mapsto> d)) x = Some e \<and> dv_row e = i)"
      using ex [where P = "\<lambda>e. dv_row e = i"] by cases simp_all
  qed (use D(5,6) in blast)+
qed

text \<open>Deadlines and the clock are free.\<close>

lemma slots_inv_time:
  assumes S: "slots_inv marshal os hmac h w t ids" and w: "nw_sent w' = nw_sent w"
    and h: "\<And>s. h' s = map_option (\<lambda>d. d\<lparr>dv_deadline := f s d\<rparr>) (h s)"
  shows "slots_inv marshal os hmac h' w' t ids"
proof -
  have reqs: "reqs (d\<lparr>dv_deadline := x\<rparr>) = reqs d" for d x by (simp add: reqs_def)
  have "at_phase (d\<lparr>dv_deadline := x\<rparr>) w' t hmac = at_phase d w t hmac" for d x
    unfolding at_phase_def using w by (cases "dv_phase d") (simp_all add: retrying_def concluded_def succeeded_def)
  then have "deliver_inv marshal os hmac d w t \<Longrightarrow> deliver_inv marshal os hmac (d\<lparr>dv_deadline := x\<rparr>) w' t" for d x
    using w reqs by (simp add: deliver_inv_def)
  note inv = this
  have h': "h' s = Some d' \<longleftrightarrow> (\<exists>d. h s = Some d \<and> d' = d\<lparr>dv_deadline := f s d\<rparr>)" for s d' by (auto simp: h)
  note D = slots_invD [OF S]
  have ex: "\<exists>s d'. h' s = Some d' \<and> P d'" if "h s = Some d" "\<And>x. P (d\<lparr>dv_deadline := x\<rparr>)" for s d P using that h' by blast
  show ?thesis
    unfolding slots_inv_def
  proof (intro conjI allI impI ballI)
    fix s d'
    assume "h' s = Some d'"
    then obtain d where d: "h s = Some d" "d' = d\<lparr>dv_deadline := f s d\<rparr>" using h' by blast
    then show "deliver_inv marshal os hmac d' w' t" "dv_row d' \<notin> set ids" using inv D(1,2) by simp_all
  next
    fix s s' d d'
    assume a: "h' s = Some d" "h' s' = Some d'" "s \<noteq> s'"
    then obtain e e' where "h s = Some e" "d = e\<lparr>dv_deadline := f s e\<rparr>" "h s' = Some e'" "d' = e'\<lparr>dv_deadline := f s' e'\<rparr>" using h' by blast
    then show "dv_row d \<noteq> dv_row d'" "set (reqs d) \<inter> set (reqs d') = {}" using D(3) [of s e s' e'] a(3) reqs by simp_all
  next
    fix k
    assume "k < length (nw_sent w')"
    then obtain s d where "h s = Some d" "k \<in> set (reqs d)" using D(4) w by metis
    then show "\<exists>s d. h' s = Some d \<and> k \<in> set (reqs d)" using ex [of s d "\<lambda>d. k \<in> set (reqs d)"] reqs by simp
  next
    fix i
    assume "i \<in> dl_ID ` set (dt_rows t)"
    then consider "i \<in> set ids" | s d where "h s = Some d" "dv_row d = i" using D(7) by blast
    then show "i \<in> set ids \<or> (\<exists>s d. h' s = Some d \<and> dv_row d = i)"
      using ex [where P = "\<lambda>d. dv_row d = i"] by cases simp_all
  qed (use D(5,6) in blast)+
qed

lemma pool_inv_step:
  assumes "pool_step marshal os hmac (\<lambda>db. \<not> nd_down db) p p'" "pool_inv marshal os hmac p"
  shows "pool_inv marshal os hmac p'"
proof -
  note S = conjunct1 [OF assms(2) [unfolded pool_inv_def]] and R = conjunct2 [OF assms(2) [unfolded pool_inv_def]]
  show ?thesis
    using assms(1)
  proof cases
    case (queued row rc event)
    then have "holds p' = holds p" "job_ids p' = job_ids p @ [dl_ID row]" by (auto simp: fun_eq_iff holds_def job_ids_def split: slot.split)
    then show ?thesis using R slots_inv_queued [OF S] queued by (simp add: pool_inv_def pl_ids_def)
  next
    case (picked i rc event jobs dl)
    let ?d = "begin_delivery marshal dl rc event"
    have j: "job_ids p = dl_ID (rc_Delivery rc) # job_ids p'" using picked by (simp add: job_ids_def)
    have h: "holds p' = (holds p)(Worker i \<mapsto> ?d)" using picked by (auto simp: fun_eq_iff holds_def split: slot.split)
    have "open_row (dl_ID (rc_Delivery rc)) (pl_rows p)" using slots_invD(6) [OF S] j by simp
    from slots_inv_begin [OF S [unfolded j] _ begin_inv [OF this]] show ?thesis using R picked h by (simp add: pool_inv_def holds_def)
  next
    case (moved i d d' w t)
    have h: "holds p (Worker i) = Some d" "holds p' = (holds p)(Worker i \<mapsto> d')" "job_ids p' = job_ids p"
      using moved by (auto simp: fun_eq_iff holds_def job_ids_def split: slot.split)
    from deliver_move_inv [OF slots_invD(1) [OF S h(1)] moved(3)] slots_inv_move [OF S h(1)] show ?thesis
      using R h moved by (simp add: pool_inv_def)
  next
    case (finished i d)
    have h: "holds p (Worker i) = Some d" "holds p (Done (length (pl_finished p))) = None"
      "holds p' = (holds p)(Worker i := None, Done (length (pl_finished p)) \<mapsto> d)" "job_ids p' = job_ids p"
      using finished by (auto simp: fun_eq_iff holds_def job_ids_def nth_append split: slot.split)
    then show ?thesis using slots_inv_rename [OF S h(1,2)] R finished by (simp add: pool_inv_def)
  next
    case (elapsed x)
    then have "holds p' s = map_option (\<lambda>d. d\<lparr>dv_deadline := dv_deadline d\<rparr>) (holds p s)" for s
      by (cases "holds p s") (auto simp: holds_def split: slot.splits if_splits)
    moreover have "job_ids p' = job_ids p" using elapsed by (simp add: job_ids_def)
    ultimately show ?thesis using slots_inv_time [OF S, of "pl_net p'" "holds p'" "\<lambda>_. dv_deadline"] R elapsed by (simp add: pool_inv_def)
  next
    case cancelled
    have "holds p' s = map_option (\<lambda>d. d\<lparr>dv_deadline := (case s of Worker i \<Rightarrow> min (dv_deadline d) (nw_now (pl_net p)) | Done n \<Rightarrow> dv_deadline d)\<rparr>) (holds p s)"
      for s unfolding cancelled by (cases s) (auto simp: holds_def cancel_all_def)
    moreover have "job_ids p' = job_ids p" using cancelled by (simp add: job_ids_def cancel_all_def)
    ultimately show ?thesis
      using slots_inv_time [OF S, of "pl_net p'" "holds p'" "\<lambda>s d. case s of Worker i \<Rightarrow> min (dv_deadline d) (nw_now (pl_net p)) | Done n \<Rightarrow> dv_deadline d"]
        R cancelled by (simp add: pool_inv_def cancel_all_def)
  qed
qed

lemma pool_inv_idle: "pool_inv marshal os hmac (idle_pool now)"
  by (simp add: pool_inv_def idle_pool_def slots_inv_def holds_def job_ids_def split: slot.split)

lemma pool_reach_inv:
  assumes "pool_reach marshal os hmac (\<lambda>db. \<not> nd_down db) (idle_pool now) p"
  shows "pool_inv marshal os hmac p"
  using assms by induction (auto intro: pool_inv_idle pool_inv_step)

text \<open>
  C16: however the workers' timers, calls and writes interleave, and whenever the context is cancelled, every delivery that has
  come to its end made one to four attempts, each either without a request or with one request of its own, signed for its webhook, whose
  answer it took (or gave up on); only attempts worth a retry were followed by another; and its row ends delivered exactly when the last
  attempt was answered by a 2xx, with the number of attempts and the last status of this delivery and no other.
\<close>

theorem interleaved_deliveries:
  assumes "pool_reach marshal os hmac (\<lambda>db. \<not> nd_down db) (idle_pool now) p" "d \<in> set (pl_finished p)" "\<And>q. \<not> isl (marshal q)"
  shows "dv_tries d \<noteq> [] \<and> length (dv_tries d) \<le> 4 \<and>
    list_all (try_ok os hmac (dv_webhook d) (dv_body d) (nw_sent (pl_net p))) (dv_tries d) \<and>
    list_all (\<lambda>x. \<not> settled (snd x)) (butlast (dv_tries d)) \<and>
    closed_row (dv_row d) (if accepted (snd (last (dv_tries d))) then Delivered else DeliveryFailed)
      (length (dv_tries d)) (status_of (snd (last (dv_tries d)))) (pl_rows p)"
proof -
  have P: "slots_inv marshal os hmac (holds p) (pl_net p) (pl_rows p) (job_ids p)" "dv_phase d = Returned"
    using pool_reach_inv [OF assms(1)] assms(2) by (auto simp: pool_inv_def list_all_iff)
  obtain n where "n < length (pl_finished p)" "pl_finished p ! n = d" using assms(2) by (auto simp: in_set_conv_nth)
  then have "holds p (Done n) = Some d" by (simp add: holds_def)
  from slots_invD(1) [OF P(1) this] have I: "deliver_inv marshal os hmac d (pl_net p) (pl_rows p)" .
  then have "dv_tries d \<noteq> []" using assms(3) P(2) by (auto simp: deliver_inv_def)
  then show ?thesis using I P(2) by (auto simp: deliver_inv_def at_phase_def concluded_def succeeded_def last_outcome_def)
qed

text \<open>
  Nothing is shared and nothing is lost: each request ever sent belongs to exactly one delivery, no two deliveries have the same row, and
  a row that is still pending has its job in the queue or a worker on it.
\<close>

theorem deliveries_apart:
  assumes "pool_reach marshal os hmac (\<lambda>db. \<not> nd_down db) (idle_pool now) p"
  shows "(\<forall>k < length (nw_sent (pl_net p)). \<exists>!s. \<exists>d. holds p s = Some d \<and> k \<in> set (reqs d)) \<and>
    (\<forall>s s' d d'. holds p s = Some d \<longrightarrow> holds p s' = Some d' \<longrightarrow> s \<noteq> s' \<longrightarrow> dv_row d \<noteq> dv_row d') \<and>
    (\<forall>r \<in> set (dt_rows (pl_rows p)). dl_Status r = Pending \<longrightarrow>
       dl_ID r \<in> set (job_ids p) \<or> (\<exists>i d. pl_active p i = Some d \<and> dv_row d = dl_ID r))"
proof -
  have P: "slots_inv marshal os hmac (holds p) (pl_net p) (pl_rows p) (job_ids p)" "list_all (\<lambda>d. dv_phase d = Returned) (pl_finished p)"
    using pool_reach_inv [OF assms(1)] by (simp_all add: pool_inv_def)
  note D = slots_invD [OF P(1)]
  have "\<exists>!s. \<exists>d. holds p s = Some d \<and> k \<in> set (reqs d)" if "k < length (nw_sent (pl_net p))" for k
    using D(4) [OF that] D(3) by (metis IntI empty_iff)
  moreover have "dl_ID r \<in> set (job_ids p) \<or> (\<exists>i d. pl_active p i = Some d \<and> dv_row d = dl_ID r)"
    if r: "r \<in> set (dt_rows (pl_rows p))" "dl_Status r = Pending" for r
  proof -
    consider "dl_ID r \<in> set (job_ids p)" | s d where "holds p s = Some d" "dv_row d = dl_ID r" using D(7) r(1) by blast
    then show ?thesis
    proof cases
      case (2 s d)
      show ?thesis
      proof (cases s)
        case (Done n)
        then have "d \<in> set (pl_finished p)" using 2 by (auto simp: holds_def split: if_splits)
        then have "dv_phase d = Returned" using P(2) by (simp add: list_all_iff)
        then have "closed_row (dl_ID r) (if succeeded d then Delivered else DeliveryFailed) (length (dv_tries d)) (dv_lastStatus d) (pl_rows p)"
          using D(1) [OF 2(1)] 2(2) by (simp add: deliver_inv_def at_phase_def)
        moreover have "r \<in> set (rows_of (dl_ID r) (pl_rows p))" using r(1) by (simp add: rows_of_def)
        ultimately have "dl_Status r \<noteq> Pending" by (auto simp: closed_row_def list_all_iff)
        then show ?thesis using r(2) by simp
      qed (use 2 in \<open>auto simp: holds_def\<close>)
    qed simp
  qed
  ultimately show ?thesis using D(3) by blast
qed

section \<open>Every delivery ends\<close>

definition phase_rank :: "phase \<Rightarrow> nat" where
  "phase_rank x =
     (case x of Sleeping a until \<Rightarrow> 4 * (4 - a) + 5 | Calling a \<Rightarrow> 4 * (4 - a) + 4 | Awaiting a k \<Rightarrow> 4 * (4 - a) + 3
      | Noting a out \<Rightarrow> 4 * (4 - a) + 2 | Failing \<Rightarrow> 1 | Returned \<Rightarrow> 0)"

lemma deliver_move_rank:
  assumes "deliver_move os hmac good (d, w, t) (d', w', t')"
  shows "phase_rank (dv_phase d') < phase_rank (dv_phase d)"
  using assms
proof cases
  case (calls a)
  then show ?thesis by (auto simp: call_def Let_def phase_rank_def split: if_splits)
next
  case (noted db a out r)
  then show ?thesis
    by (auto simp: note_outcome_def Let_def phase_rank_def next_attempt_def deliveryMaxRetries_def split: sum.splits if_splits)
qed (auto simp: phase_rank_def returned_def)

text \<open>A worker that has not returned can always make its next move, at the latest when its timer fires, whatever the others do.\<close>

lemma deliver_move_enabled:
  assumes "dv_phase d \<noteq> Returned" "good db"
  shows "\<exists>x \<ge> 0. \<exists>y. deliver_move os hmac good (d, w\<lparr>nw_now := nw_now w + x\<rparr>, t) y"
proof (cases "dv_phase d")
  case (Sleeping a until)
  then show ?thesis
    by (intro exI [of _ "max 0 (until - nw_now w)"] conjI exI) (auto intro!: deliver_move.wakes [OF Sleeping])
next
  case (Calling a)
  obtain d' w' where "call os hmac a d (w\<lparr>nw_now := nw_now w + 0\<rparr>) = (d', w')" by fastforce
  then show ?thesis using deliver_move.calls [OF Calling] by (intro exI [of _ 0]) blast
next
  case (Awaiting a k)
  then show ?thesis using deliver_move.answered [OF Awaiting refl] by (intro exI [of _ 0]) blast
next
  case (Noting a out)
  obtain d' t' where "note_outcome db 0 (nw_now (w\<lparr>nw_now := nw_now w + 0\<rparr>)) a out d t = (d', t')" by fastforce
  then show ?thesis using deliver_move.noted [of good db d a out, OF assms(2) Noting] by (intro exI [of _ 0]) blast
next
  case Failing
  then show ?thesis using deliver_move.fails [of good db d, OF assms(2) Failing] by (intro exI [of _ 0]) blast
qed (use assms in simp)

text \<open>
  Every delivery ends.  From any state of the pool in which a worker is inside \<^verbatim>\<open>Deliver\<close>, that worker can run to the end, and every one of its
  moves lowers its rank, which is at most 21: no schedule keeps a delivery alive for longer than that.
\<close>

theorem delivery_finishes:
  assumes "pl_active p i = Some d" "good db"
  shows "phase_rank (dv_phase d) \<le> 21 \<and>
    (\<exists>p'. (pool_step marshal os hmac good)\<^sup>*\<^sup>* p p' \<and> pl_active p' i = None \<and> (\<forall>j. j \<noteq> i \<longrightarrow> pl_active p' j = pl_active p j) \<and>
      (\<exists>e. pl_finished p' = pl_finished p @ [e] \<and> dv_phase e = Returned))"
proof
  show "phase_rank (dv_phase d) \<le> 21" by (cases "dv_phase d") (simp_all add: phase_rank_def)
  show "\<exists>p'. (pool_step marshal os hmac good)\<^sup>*\<^sup>* p p' \<and> pl_active p' i = None \<and> (\<forall>j. j \<noteq> i \<longrightarrow> pl_active p' j = pl_active p j) \<and>
      (\<exists>e. pl_finished p' = pl_finished p @ [e] \<and> dv_phase e = Returned)"
    using assms(1)
  proof (induction "phase_rank (dv_phase d)" arbitrary: d p rule: less_induct)
    case less
    let ?step = "pool_step marshal os hmac good"
    show ?case
    proof (cases "dv_phase d = Returned")
      case True
      then show ?thesis using pool_step.finished [OF less.prems True] by (intro exI conjI r_into_rtranclp) auto
    next
      case False
      obtain x d' w' t' where x: "0 \<le> x"
        "deliver_move os hmac good (d, (pl_net p)\<lparr>nw_now := nw_now (pl_net p) + x\<rparr>, pl_rows p) (d', w', t')"
        using deliver_move_enabled [of d good db os hmac "pl_net p" "pl_rows p", OF False assms(2)] by auto
      define p1 where "p1 = p\<lparr>pl_net := (pl_net p)\<lparr>nw_now := nw_now (pl_net p) + x\<rparr>\<rparr>"
      define p2 where "p2 = p1\<lparr>pl_active := (pl_active p1)(i := Some d'), pl_net := w', pl_rows := t'\<rparr>"
      have "?step p p1" unfolding p1_def by (rule pool_step.elapsed [OF x(1)])
      moreover have "?step p1 p2"
        unfolding p2_def by (rule pool_step.moved [of p1 i d]) (use less.prems x(2) in \<open>simp_all add: p1_def\<close>)
      ultimately have steps: "?step\<^sup>*\<^sup>* p p2" by (meson converse_rtranclp_into_rtranclp r_into_rtranclp)
      have p2: "pl_active p2 i = Some d'" "pl_finished p2 = pl_finished p" "j \<noteq> i \<Longrightarrow> pl_active p2 j = pl_active p j" for j
        by (simp_all add: p2_def p1_def)
      obtain p' e where "?step\<^sup>*\<^sup>* p2 p'" "pl_active p' i = None" "\<forall>j. j \<noteq> i \<longrightarrow> pl_active p' j = pl_active p2 j"
        "pl_finished p' = pl_finished p2 @ [e]" "dv_phase e = Returned"
        using less.hyps [OF deliver_move_rank [OF x(2)] p2(1)] by blast
      then show ?thesis using p2 steps by (intro exI [of _ p']) (auto intro: rtranclp_trans)
    qed
  qed
qed

lemma pool_reach_steps: "(pool_step marshal os hmac good)\<^sup>*\<^sup>* p p' \<Longrightarrow> pool_reach marshal os hmac good p0 p \<Longrightarrow> pool_reach marshal os hmac good p0 p'"
  by (induction rule: rtranclp_induct) (auto intro: pool_reach.works)

text \<open>Two jobs for the same user, taken by two workers before either is finished.\<close>

definition ex_job :: "int \<Rightarrow> Recipient \<times> MessageEvent" where
  "ex_job i = (\<lparr>rc_Webhook = ex_hook 9, rc_Delivery = (new_delivery ex_message (ex_hook 9))\<lparr>dl_ID := i\<rparr>\<rparr>, ex_message)"

definition ex_busy :: pool where
  "ex_busy = (idle_pool 0)\<lparr>pl_rows := \<lparr>dt_rows = map (rc_Delivery \<circ> fst \<circ> ex_job) [1, 2], dt_next = 1\<rparr>,
     pl_active := [0 \<mapsto> begin_delivery (\<lambda>_. Inr ''{}'') 30 (fst (ex_job 1)) ex_message,
                   1 \<mapsto> begin_delivery (\<lambda>_. Inr ''{}'') 30 (fst (ex_job 2)) ex_message]\<rparr>"

lemma ex_busy_reach: "pool_reach (\<lambda>_. Inr ''{}'') ex_receiver hmac good (idle_pool 0) ex_busy"
proof -
  let ?step = "pool_step (\<lambda>_. Inr ''{}'') ex_receiver hmac good"
  let ?row = "\<lambda>i. rc_Delivery (fst (ex_job i))"
  define p1 where "p1 = (idle_pool 0)\<lparr>pl_rows := \<lparr>dt_rows = [?row 1], dt_next = 1\<rparr>, pl_jobs := [ex_job 1]\<rparr>"
  define p2 where "p2 = p1\<lparr>pl_rows := \<lparr>dt_rows = [?row 1, ?row 2], dt_next = 1\<rparr>, pl_jobs := [ex_job 1, ex_job 2]\<rparr>"
  define p3 where "p3 = p2\<lparr>pl_jobs := [ex_job 2], pl_active := [0 \<mapsto> begin_delivery (\<lambda>_. Inr ''{}'') 30 (fst (ex_job 1)) ex_message]\<rparr>"
  have s1: "?step (idle_pool 0) p1"
    using pool_step.queued [of "?row 1" "idle_pool 0" "fst (ex_job 1)" "\<lambda>_. Inr ''{}''" ex_receiver hmac good ex_message]
    by (simp add: p1_def idle_pool_def pl_ids_def ex_job_def new_delivery_def)
  have s2: "?step p1 p2"
    using pool_step.queued [of "?row 2" p1 "fst (ex_job 2)" "\<lambda>_. Inr ''{}''" ex_receiver hmac good ex_message]
    by (simp add: p1_def p2_def idle_pool_def pl_ids_def ex_job_def new_delivery_def)
  have s3: "?step p2 p3"
    using pool_step.picked [of p2 0 "fst (ex_job 1)" ex_message "[ex_job 2]" "\<lambda>_. Inr ''{}''" ex_receiver hmac good 30]
    by (simp add: p1_def p2_def p3_def idle_pool_def ex_job_def)
  have s4: "?step p3 ex_busy"
    using pool_step.picked [of p3 1 "fst (ex_job 2)" ex_message "[]" "\<lambda>_. Inr ''{}''" ex_receiver hmac good 30]
    by (simp add: p1_def p2_def p3_def idle_pool_def ex_job_def ex_busy_def fun_upd_def)
  show ?thesis by (rule pool_reach.works [OF pool_reach.works [OF pool_reach.works [OF pool_reach.works [OF pool_reach.idle s1] s2] s3] s4])
qed

theorem interleaved_deliveries_witness:
  "\<exists>p d e. pool_reach (\<lambda>_. Inr ''{}'') ex_receiver (\<lambda>k m. k @ m) (\<lambda>db. \<not> nd_down db) (idle_pool 0) p \<and> pl_finished p = [d, e] \<and>
     dv_tries d \<noteq> [] \<and> length (dv_tries d) \<le> 4 \<and> dv_tries e \<noteq> [] \<and> length (dv_tries e) \<le> 4 \<and>
     (\<exists>st n ls. st \<noteq> Pending \<and> closed_row (dv_row e) st n ls (pl_rows p))"
proof -
  let ?good = "\<lambda>db. \<not> nd_down db"
  have up: "?good ex_ndb" by (simp add: ex_ndb_def)
  note run = delivery_finishes [where marshal = "\<lambda>_. Inr ''{}''" and os = ex_receiver and hmac = "\<lambda>k m. k @ m", of _ _ _ ?good, OF _ up]
  have b: "\<exists>d0 d1. pl_active ex_busy 0 = Some d0 \<and> pl_active ex_busy 1 = Some d1" "pl_finished ex_busy = []"
    by (simp_all add: ex_busy_def idle_pool_def)
  then obtain p1 d where p1: "(pool_step (\<lambda>_. Inr ''{}'') ex_receiver (\<lambda>k m. k @ m) ?good)\<^sup>*\<^sup>* ex_busy p1"
    "pl_finished p1 = [d]" "pl_active p1 1 = pl_active ex_busy 1" using run [of ex_busy 0] by fastforce
  then obtain p2 e where p2: "(pool_step (\<lambda>_. Inr ''{}'') ex_receiver (\<lambda>k m. k @ m) ?good)\<^sup>*\<^sup>* p1 p2" "pl_finished p2 = [d, e]"
    using run [of p1 1] b by fastforce
  have reach: "pool_reach (\<lambda>_. Inr ''{}'') ex_receiver (\<lambda>k m. k @ m) ?good (idle_pool 0) p2"
    by (rule pool_reach_steps [OF p2(1) pool_reach_steps [OF p1(1) ex_busy_reach]])
  have in2: "d \<in> set (pl_finished p2)" "e \<in> set (pl_finished p2)" using p2(2) by simp_all
  from interleaved_deliveries [OF reach in2(1)] interleaved_deliveries [OF reach in2(2)] reach p2(2) show ?thesis
    by (intro exI [of _ p2] exI [of _ d] exI [of _ e]) (auto split: if_splits)
qed

section \<open>A worker on its own\<close>

text \<open>A delivery with nobody else at work, and time passing.\<close>

inductive alone ::
  "string outside \<Rightarrow> (string \<Rightarrow> string \<Rightarrow> string) \<Rightarrow> (ndb \<Rightarrow> bool) \<Rightarrow>
    delivering \<times> string net \<times> deliveries \<Rightarrow> delivering \<times> string net \<times> deliveries \<Rightarrow> bool" for os hmac good where
  act: "deliver_move os hmac good x y \<Longrightarrow> alone os hmac good x y"
| wait: "0 \<le> x \<Longrightarrow> alone os hmac good (d, w, t) (d, w\<lparr>nw_now := nw_now w + x\<rparr>, t)"

lemma wait_until: "alone os hmac good (d, w, t) (d, w\<lparr>nw_now := max (nw_now w) x\<rparr>, t)"
  using alone.wait [of "max (nw_now w) x - nw_now w" os hmac good d w t] by simp

lemma alone_sleep:
  assumes "dv_phase d = dv_phase (next_attempt (os_rand os (length (nw_sent w))) (nw_now w) a d)" "0 < a" "a \<le> 3"
    and "sleepWithBackoff os (dv_deadline d) a w = (w1, sr)"
  shows "case sr of Inl e \<Rightarrow> (alone os hmac good)\<^sup>*\<^sup>* (d, w, t) (d\<lparr>dv_phase := Failing, dv_lastErr := ''shutdown before retry''\<rparr>, w1, t)
    | Inr u \<Rightarrow> (alone os hmac good)\<^sup>*\<^sup>* (d, w, t) (d\<lparr>dv_phase := Calling a\<rparr>, w1, t)"
proof -
  define delay where "delay = 2 ^ (a - 1) * 1000000000 + int (os_rand os (length (nw_sent w))) mod (2 ^ (a - 1) * 1000000000 div 2)"
  have ph: "dv_phase d = Sleeping a (nw_now w + delay)" using assms(1,3) by (simp add: next_attempt_phase delay_def backoff_def Let_def)
  have "0 \<le> (2 :: int) ^ (a - 1) * 1000000000" by simp
  moreover have "0 \<le> int (os_rand os (length (nw_sent w))) mod (2 ^ (a - 1) * 1000000000 div 2)"
    by (rule pos_mod_sign) (simp add: pos_imp_zdiv_pos_iff)
  ultimately have d0: "0 \<le> delay" by (simp add: delay_def)
  show ?thesis
  proof (cases "nw_now w + delay < dv_deadline d")
    case True
    then have r: "w1 = w\<lparr>nw_now := nw_now w + delay\<rparr>" "sr = Inr ()"
      using assms(4) by (auto simp: sleepWithBackoff_def delay_def Let_def split: if_splits)
    have "alone os hmac good (d, w1, t) (d\<lparr>dv_phase := Calling a\<rparr>, w1, t)"
      by (rule alone.act [OF deliver_move.wakes [OF ph]]) (simp add: r)
    moreover have "alone os hmac good (d, w, t) (d, w1, t)" unfolding r by (rule alone.wait [OF d0])
    ultimately have "(alone os hmac good)\<^sup>*\<^sup>* (d, w, t) (d\<lparr>dv_phase := Calling a\<rparr>, w1, t)"
      by (meson converse_rtranclp_into_rtranclp r_into_rtranclp)
    then show ?thesis by (simp add: r(2))
  next
    case False
    then have r: "w1 = w\<lparr>nw_now := max (nw_now w) (dv_deadline d)\<rparr>" "isl sr"
      using assms(4) by (auto simp: sleepWithBackoff_def delay_def Let_def split: if_splits)
    have "alone os hmac good (d, w1, t) (d\<lparr>dv_phase := Failing, dv_lastErr := ''shutdown before retry''\<rparr>, w1, t)"
      by (rule alone.act [OF deliver_move.interrupted [OF ph]]) (simp add: r)
    moreover have "alone os hmac good (d, w, t) (d, w1, t)" unfolding r by (rule wait_until)
    ultimately have "(alone os hmac good)\<^sup>*\<^sup>* (d, w, t) (d\<lparr>dv_phase := Failing, dv_lastErr := ''shutdown before retry''\<rparr>, w1, t)"
      by (meson converse_rtranclp_into_rtranclp r_into_rtranclp)
    then show ?thesis using r(2) by (auto split: sum.split)
  qed
qed

lemma alone_attempt:
  assumes "dv_phase d = Calling a" "\<And>n rq. 0 \<le> fst (os_do os n rq)"
    and "delivery_attempt os hmac (dv_deadline d) (dv_webhook d) (dv_body d) w = (w1, out)"
  shows "\<exists>tries. (alone os hmac good)\<^sup>*\<^sup>* (d, w, t) (d\<lparr>dv_attempts := Suc (dv_attempts d), dv_phase := Noting a out, dv_tries := tries\<rparr>, w1, t)"
proof (cases "os_url_ok os (wh_URL (dv_webhook d)) \<and> nw_now w < dv_deadline d")
  case True
  define rq where "rq = delivery_request hmac (dv_webhook d) (nw_now w div 1000000000) (dv_body d)"
  define d1 where "d1 = d\<lparr>dv_attempts := Suc (dv_attempts d), dv_phase := Awaiting a (length (nw_sent w))\<rparr>"
  have s: "w1 = w\<lparr>nw_sent := nw_sent w @ [rq], nw_now := nw_now w + fst (os_do os (length (nw_sent w)) rq)\<rparr>"
    "out = snd (os_do os (length (nw_sent w)) rq)"
    using assms(3) True by (auto simp: delivery_attempt_def send_def rq_def split: prod.splits)
  have "call os hmac a d w = (d1, w\<lparr>nw_sent := nw_sent w @ [rq]\<rparr>)" using True by (simp add: call_def Let_def rq_def d1_def)
  then have 1: "alone os hmac good (d, w, t) (d1, w\<lparr>nw_sent := nw_sent w @ [rq]\<rparr>, t)"
    by (rule alone.act [OF deliver_move.calls [OF assms(1)]])
  have 2: "alone os hmac good (d1, w\<lparr>nw_sent := nw_sent w @ [rq]\<rparr>, t) (d1, w1, t)"
    using alone.wait [OF assms(2), of os hmac good d1 "w\<lparr>nw_sent := nw_sent w @ [rq]\<rparr>" t] by (simp add: s)
  have 3: "alone os hmac good (d1, w1, t) (returned a (length (nw_sent w)) out d1, w1, t)"
    by (rule alone.act [OF deliver_move.answered]) (simp_all add: d1_def s)
  have "(alone os hmac good)\<^sup>*\<^sup>* (d, w, t) (returned a (length (nw_sent w)) out d1, w1, t)"
    using 1 2 3 by (meson converse_rtranclp_into_rtranclp r_into_rtranclp)
  then show ?thesis by (auto simp: returned_def d1_def)
next
  case False
  then obtain e where e: "out = Inl e" "w1 = w" "call os hmac a d w =
      (d\<lparr>dv_attempts := Suc (dv_attempts d), dv_phase := Noting a (Inl e), dv_tries := dv_tries d @ [(None, Inl e)]\<rparr>, w)"
    using assms(3) by (auto simp: delivery_attempt_def call_def Let_def split: if_splits)
  then have "alone os hmac good (d, w, t)
      (d\<lparr>dv_attempts := Suc (dv_attempts d), dv_phase := Noting a (Inl e), dv_tries := dv_tries d @ [(None, Inl e)]\<rparr>, w, t)"
    by (intro alone.act [OF deliver_move.calls [OF assms(1)]])
  then show ?thesis using e by blast
qed

text \<open>The state at the head of the loop for an attempt, and what the loop's end leaves for the rest of \<^verbatim>\<open>Deliver\<close>.\<close>

definition at_head :: "string outside \<Rightarrow> nat \<Rightarrow> delivering \<Rightarrow> string net \<Rightarrow> bool" where
  "at_head os attempt d w \<longleftrightarrow> dv_phase d =
     (if attempt = 0 then Calling 0 else dv_phase (next_attempt (os_rand os (length (nw_sent w))) (nw_now w) attempt d))"

definition left_loop :: "deliver_end \<Rightarrow> delivering \<Rightarrow> bool" where
  "left_loop e d \<longleftrightarrow>
     (case e of
        Answered \<Rightarrow> dv_phase d = Returned
      | GaveUp n ls err \<Rightarrow> dv_phase d = Failing \<and> dv_attempts d = n \<and> dv_lastStatus d = ls \<and> dv_lastErr d = err)"

lemma loop_alone:
  assumes "\<And>k. good (dbs k)" "\<And>n rq. 0 \<le> fst (os_do os n rq)"
    and "deliver_loop os hmac (dv_deadline d) (sleepWithBackoff os (dv_deadline d)) dbs (dv_webhook d) (dv_row d) (dv_body d)
      attempt (dv_attempts d) (dv_lastStatus d) (dv_lastErr d) w t = (w', t', e)"
    and "at_head os attempt d w"
  shows "\<exists>d'. (alone os hmac good)\<^sup>*\<^sup>* (d, w, t) (d', w', t') \<and> dv_row d' = dv_row d \<and> left_loop e d'"
  using assms(3,4)
proof (induction "Suc deliveryMaxRetries - attempt" arbitrary: attempt d w t)
  case 0
  then have lt: "deliveryMaxRetries < attempt" by simp
  then have "w' = w \<and> t' = t \<and> e = GaveUp (dv_attempts d) (dv_lastStatus d) (dv_lastErr d)"
    using 0(2) by (simp add: deliver_loop.simps)
  moreover have "dv_phase d = Failing" using 0(3) lt by (simp add: at_head_def next_attempt_phase deliveryMaxRetries_def)
  ultimately show ?case by (intro exI [of _ d]) (simp add: left_loop_def)
next
  case (Suc m)
  let ?A = "alone os hmac good"
  have lt: "\<not> deliveryMaxRetries < attempt" and m: "m = Suc deliveryMaxRetries - Suc attempt" using Suc.hyps(2) by simp_all
  note unf = deliver_loop.simps [of os hmac "dv_deadline d" "sleepWithBackoff os (dv_deadline d)" dbs "dv_webhook d" "dv_row d" "dv_body d"
      attempt "dv_attempts d" "dv_lastStatus d" "dv_lastErr d" w t]
  obtain w1 sr where s: "(if 0 < attempt then sleepWithBackoff os (dv_deadline d) attempt w else (w, Inr ())) = (w1, sr)" by fastforce
  let ?stopped = "d\<lparr>dv_phase := Failing, dv_lastErr := ''shutdown before retry''\<rparr>"
  have slept: "case sr of Inl x \<Rightarrow> ?A\<^sup>*\<^sup>* (d, w, t) (?stopped, w1, t) | Inr u \<Rightarrow> ?A\<^sup>*\<^sup>* (d, w, t) (d\<lparr>dv_phase := Calling attempt\<rparr>, w1, t)"
  proof (cases "attempt = 0")
    case True
    then have "d\<lparr>dv_phase := Calling attempt\<rparr> = d" "sr = Inr ()" "w1 = w" using s Suc.prems(2) by (simp_all add: at_head_def)
    then show ?thesis by simp
  next
    case False
    then show ?thesis using alone_sleep [of d os w attempt w1 sr hmac good t] s Suc.prems(2) lt by (simp add: at_head_def deliveryMaxRetries_def)
  qed
  show ?case
  proof (cases sr)
    case (Inl x)
    then have "w' = w1 \<and> t' = t \<and> e = GaveUp (dv_attempts d) (dv_lastStatus d) ''shutdown before retry''" using Suc.prems(1) unf lt s by simp
    then show ?thesis using slept Inl by (intro exI [of _ ?stopped]) (simp add: left_loop_def)
  next
    case (Inr u)
    let ?c = "d\<lparr>dv_phase := Calling attempt\<rparr>"
    obtain w2 out where a: "delivery_attempt os hmac (dv_deadline d) (dv_webhook d) (dv_body d) w1 = (w2, out)" by fastforce
    obtain tries where "?A\<^sup>*\<^sup>* (?c, w1, t) (?c\<lparr>dv_attempts := Suc (dv_attempts ?c), dv_phase := Noting attempt out, dv_tries := tries\<rparr>, w2, t)"
      using alone_attempt [of ?c attempt os hmac w1 w2 out good t] a assms(2) by auto
    moreover define n where "n = d\<lparr>dv_attempts := Suc (dv_attempts d), dv_phase := Noting attempt out, dv_tries := tries\<rparr>"
    ultimately have to_n: "?A\<^sup>*\<^sup>* (d, w, t) (n, w2, t)" using slept Inr by (simp add: n_def)
    obtain d1 t1 where no: "note_outcome (dbs attempt) (os_rand os (length (nw_sent w2))) (nw_now w2) attempt out n t = (d1, t1)" by fastforce
    have "?A (n, w2, t) (d1, w2, t1)"
      by (rule alone.act [OF deliver_move.noted [of good "dbs attempt", OF assms(1) _ no]]) (simp add: n_def)
    with to_n have to_d1: "?A\<^sup>*\<^sup>* (d, w, t) (d1, w2, t1)" by (rule rtranclp.rtrancl_into_rtrancl)
    show ?thesis
    proof (cases "settled out")
      case False
      define err where "err = (case out of Inl y \<Rightarrow> error_text y | Inr status \<Rightarrow> ''receiver answered status='' @ FormatInt (int status))"
      have "note_outcome (dbs attempt) (os_rand os (length (nw_sent w2))) (nw_now w2) attempt out n t =
          (next_attempt (os_rand os (length (nw_sent w2))) (nw_now w2) (Suc attempt) (n\<lparr>dv_lastErr := err, dv_lastStatus := status_of out\<rparr>),
           record_row (dbs attempt) (dv_row d) Pending (Suc (dv_attempts d)) (status_of out) err t)"
        using False by (cases out) (simp_all add: note_outcome_def err_def settled_def status_of_def Let_def, simp_all add: n_def)
      then have d1: "d1 = next_attempt (os_rand os (length (nw_sent w2))) (nw_now w2) (Suc attempt) (n\<lparr>dv_lastErr := err, dv_lastStatus := status_of out\<rparr>)"
        "t1 = record_row (dbs attempt) (dv_row d) Pending (Suc (dv_attempts d)) (status_of out) err t"
        using no by simp_all
      have keep: "dv_deadline d1 = dv_deadline d" "dv_webhook d1 = dv_webhook d" "dv_row d1 = dv_row d" "dv_body d1 = dv_body d"
        "dv_attempts d1 = Suc (dv_attempts d)" "dv_lastStatus d1 = status_of out" "dv_lastErr d1 = err"
        by (simp_all add: d1 n_def) (simp add: next_attempt_def Let_def)
      have "deliver_loop os hmac (dv_deadline d) (sleepWithBackoff os (dv_deadline d)) dbs (dv_webhook d) (dv_row d) (dv_body d)
          (Suc attempt) (Suc (dv_attempts d)) (status_of out) err w2 t1 = (w', t', e)"
        using Suc.prems(1) unf lt s Inr a False
        by (cases out) (auto simp: settled_def err_def d1(2) status_of_def Let_def split: if_splits)
      moreover have "at_head os (Suc attempt) d1 w2" by (simp add: at_head_def d1(1) next_attempt_phase)
      ultimately obtain d' where "?A\<^sup>*\<^sup>* (d1, w2, t1) (d', w', t')" "dv_row d' = dv_row d1" "left_loop e d'"
        using Suc.hyps(1) [OF m, of d1 w2 t1] unfolding keep by blast
      then show ?thesis using to_d1 keep(3) by (intro exI [of _ d']) (auto intro: rtranclp_trans)
    next
      case True
      then obtain status where st: "out = Inr status" "status < 500" by (auto simp: settled_def split: sum.splits)
      have "w' = w2 \<and> t' = t1 \<and> left_loop e d1 \<and> dv_row d1 = dv_row d"
        using Suc.prems(1) unf lt s Inr a st no by (auto simp: note_outcome_def n_def left_loop_def Let_def split: if_splits)
      then show ?thesis using to_d1 by blast
    qed
  qed
qed

text \<open>
  The one-function model of \<open>Fanout\<close> is the run of these moves in which nobody else acts: whatever \<open>Deliver\<close> returns, a
  worker on its own gets there, with the same requests, the same rows and the same time.
\<close>

theorem delivery_alone:
  assumes "\<And>k. good (dbs k)" "\<And>n rq. 0 \<le> fst (os_do os n rq)" "Deliver marshal os hmac dbs dl rc event w t = (w', t')"
  shows "\<exists>d'. (alone os hmac good)\<^sup>*\<^sup>* (begin_delivery marshal dl rc event, w, t) (d', w', t') \<and> dv_phase d' = Returned"
proof -
  let ?A = "alone os hmac good"
  let ?d = "begin_delivery marshal dl rc event"
  define m where "m = marshal \<lparr>wp_Event = ''message.created'', wp_EventID = me_EventID event,
      wp_Recipient = wh_UserID (rc_Webhook rc), wp_Data = event\<rparr>"
  have finish: "?A (d, v, u) (d\<lparr>dv_phase := Returned\<rparr>, v, record_row (dbs k) (dv_row d) DeliveryFailed (dv_attempts d) (dv_lastStatus d) (dv_lastErr d) u)"
    if "dv_phase d = Failing" for d v u k
    by (rule alone.act [OF deliver_move.fails [of good "dbs k", OF assms(1) that]])
  show ?thesis
  proof (cases m)
    case (Inl e)
    have d: "dv_phase ?d = Failing" "dv_row ?d = dl_ID (rc_Delivery rc)" "dv_attempts ?d = 0" "dv_lastStatus ?d = None"
      "dv_lastErr ?d = ''encoding payload: '' @ error_text e"
      using Inl by (simp_all add: begin_delivery_def Let_def flip: m_def)
    have "w' = w" "t' = record_row (dbs 0) (dl_ID (rc_Delivery rc)) DeliveryFailed 0 None (''encoding payload: '' @ error_text e) t"
      using assms(3) Inl by (simp_all add: Deliver_def Let_def flip: m_def)
    with finish [OF d(1), of w t 0, unfolded d] show ?thesis by (intro exI [of _ "?d\<lparr>dv_phase := Returned\<rparr>"]) auto
  next
    case (Inr body)
    have d: "dv_phase ?d = Calling 0" "dv_row ?d = dl_ID (rc_Delivery rc)" "dv_attempts ?d = 0" "dv_lastStatus ?d = None" "dv_lastErr ?d = ''''"
      "dv_deadline ?d = dl" "dv_webhook ?d = rc_Webhook rc" "dv_body ?d = body"
      using Inr by (simp_all add: begin_delivery_def Let_def flip: m_def)
    obtain w1 t1 e where l: "deliver_loop os hmac dl (sleepWithBackoff os dl) dbs (rc_Webhook rc) (dl_ID (rc_Delivery rc)) body 0 0 None '''' w t = (w1, t1, e)"
      by (rule prod_cases3)
    have "at_head os 0 ?d w" using d by (simp add: at_head_def)
    from loop_alone [where good = good and dbs = dbs and d = ?d and attempt = 0, OF assms(1,2) _ this, unfolded d, OF l]
    obtain d' where d': "?A\<^sup>*\<^sup>* (?d, w, t) (d', w1, t1)" "dv_row d' = dl_ID (rc_Delivery rc)" "left_loop e d'" by blast
    show ?thesis
    proof (cases e)
      case Answered
      then have "w' = w1 \<and> t' = t1" using assms(3) Inr l by (simp add: Deliver_def Let_def flip: m_def)
      then show ?thesis using d' Answered by (intro exI [of _ d']) (simp add: left_loop_def)
    next
      case (GaveUp n ls err)
      then have "w' = w1 \<and> t' = record_row (dbs (Suc deliveryMaxRetries)) (dl_ID (rc_Delivery rc)) DeliveryFailed n ls err t1"
        using assms(3) Inr l by (simp add: Deliver_def Let_def flip: m_def)
      moreover have f: "dv_phase d' = Failing" "dv_attempts d' = n" "dv_lastStatus d' = ls" "dv_lastErr d' = err" using d'(3) GaveUp by (simp_all add: left_loop_def)
      moreover note rtranclp.rtrancl_into_rtrancl [OF d'(1) finish [OF f(1), of w1 t1 "Suc deliveryMaxRetries", unfolded f d'(2)]]
      ultimately show ?thesis by (intro exI [of _ "d'\<lparr>dv_phase := Returned\<rparr>"]) simp
    qed
  qed
qed

end
