(* ===== verification/ServicePaths.thy ===== *)
theory ServicePaths
  imports NotificationMain PresenceMain ChatDispatch
begin

text \<open>
  chat-service's calls to its neighbours, from the client to the table or queue they are for: the clients of theory \<^theory_text>\<open>Outbound\<close> against the
  processes of theories \<^theory_text>\<open>NotificationMain\<close> and \<^theory_text>\<open>PresenceMain\<close>.  What the network does with the \<open>n\<close>-th request is what the
  process does in whatever state it is in by then, unless the answer is lost (whether or not the process acted).
\<close>

section \<open>The wire\<close>

text \<open>A POST as the process at \<open>base\<close> gets it; its body is decoded to the event it encodes.\<close>

definition posted :: "string \<Rightarrow> 'b out_request \<Rightarrow> request option" where
  "posted base rq =
     (case strip_prefix base (or_url rq) of
        None \<Rightarrow> None
      | Some path \<Rightarrow> Some \<lparr>req_method = ''POST'', req_path = path, req_query = (\<lambda>_. []), req_header = or_header rq\<rparr>)"

text \<open>
  The fate of a call: the positions of its requests in the log end at \<open>k\<close>, at most four were made, every one before the last had
  its answer lost or met a process that could not serve it then, and the call succeeds exactly when the last did not.
\<close>

definition lands ::
  "(nat \<Rightarrow> 'b out_request) \<Rightarrow> (nat \<Rightarrow> bool) \<Rightarrow> (nat \<Rightarrow> bool) \<Rightarrow> 'b net \<Rightarrow> 'b net \<Rightarrow> unit result \<Rightarrow> nat \<Rightarrow> bool" where
  "lands mk lost busy w w' res k \<longleftrightarrow>
     nw_sent w' = nw_sent w @ map mk [length (nw_sent w)..<Suc k] \<and> length (nw_sent w) \<le> k \<and> k < length (nw_sent w) + 4 \<and>
     (\<forall>i \<in> {length (nw_sent w)..<k}. lost i \<or> busy i) \<and> (res = Inr () \<longleftrightarrow> \<not> lost k \<and> \<not> busy k)"

lemma retried_lands:
  assumes "\<exists>k>0. retried_well mk out 4 w (w', res) k"
    and "\<And>i. settled (out i) \<longleftrightarrow> \<not> lost i \<and> \<not> busy i" "\<And>i. success (out i) \<longleftrightarrow> \<not> lost i \<and> \<not> busy i"
  shows "\<exists>k. lands mk lost busy w w' res k"
proof -
  obtain m where well: "retried_well mk out 4 w (w', res) (Suc m)" using assms(1) gr0_implies_Suc by blast
  have "lands mk lost busy w w' res (length (nw_sent w) + m)"
    using well assms(2,3) by (auto simp: lands_def retried_well_def Let_def simp del: upt_Suc)
  then show ?thesis by blast
qed

section \<open>Message events\<close>

record notify_process =
  np_rfind :: router
  np_unrouted :: "echo_context \<Rightarrow> notification_json served_json response"
  np_cfg :: notification_Config
  np_svc :: WebhookService
  np_world :: "nat \<Rightarrow> nworld"
  np_state :: "nat \<Rightarrow> NotifyDispatcher"
  np_lost :: "nat \<Rightarrow> bool"
  np_time :: "nat \<Rightarrow> int"

definition event_call ::
  "notify_process \<Rightarrow> string \<Rightarrow> nat \<Rightarrow> MessageEvent out_request \<Rightarrow> (NotifyDispatcher \<times> notification_json served_json response) option" where
  "event_call np base n rq =
     map_option (\<lambda>r. notification_serve (np_rfind np) (np_unrouted np) (np_cfg np) (np_svc np)
       ((np_world np n)\<lparr>xw_event := Some (or_body rq)\<rparr>) (incoming r) (np_state np n)) (posted base rq)"

definition answers_events :: "notify_process \<Rightarrow> string \<Rightarrow> MessageEvent outside \<Rightarrow> bool" where
  "answers_events np base os \<longleftrightarrow>
     (\<forall>n rq. os_do os n rq =
        (np_time np n,
         case event_call np base n rq of
           None \<Rightarrow> Inl (External ''no route'')
         | Some (d, resp) \<Rightarrow> if np_lost np n then Inl (External ''timeout'') else Inr (resp_status resp)))"

lemma message_served:
  assumes "echo_router rfind" "req_method (cx_req cx) = ''POST''" "req_path (cx_req cx) = ''/events/message''"
    and "notification_key cfg (cx_req cx)"
  shows "\<exists>cx'. notification_serve rfind unrouted cfg svc w cx d =
    map_prod id (lift_response (\<lambda>v. Served (QueuedJSON v))) (EventController_Message (xw_event w) cx' d)"
proof -
  let ?rt = "on ''POST'' ''/events/message'' [APIKey] NMessage"
  obtain ps where rt: "routed rfind notification_routes (cx_req cx) ?rt ps"
    using echo_router.routed_static [OF assms(1) tables_no_wildcards(4) tables_unambiguous(4), of ?rt "cx_req cx"] assms(2,3)
    by (auto simp: notification_routes_def)
  show ?thesis
    unfolding notification_serve_routed [OF rt] using assms(4)
    by (auto simp: notification_guard_def notification_APIKeyMiddleware_def notification_key_def notification_handle_def RequestIDMiddleware_def Let_def)
qed

lemma notify_request_posted:
  "posted (nc_baseURL c) (notify_request os c ev n) =
     Some \<lparr>req_method = ''POST'', req_path = ''/events/message'', req_query = (\<lambda>_. []), req_header = or_header (notify_request os c ev n)\<rparr>"
  "Header_Get (or_header (notify_request os c ev n)) ''X-Notification-Key'' = nc_apiKey c"
  "or_body (notify_request os c ev n) = ev"
proof -
  have "strip_prefix (nc_baseURL c) (nc_baseURL c @ ''/events/message'') = Some ''/events/message''" by (simp add: strip_prefix_Some_iff)
  then show "posted (nc_baseURL c) (notify_request os c ev n) =
     Some \<lparr>req_method = ''POST'', req_path = ''/events/message'', req_query = (\<lambda>_. []), req_header = or_header (notify_request os c ev n)\<rparr>"
    by (simp add: posted_def notify_request_def message_request_def)
  have "CanonicalHeaderKey ''X-Notification-Key'' \<noteq> CanonicalHeaderKey ''X-Request-ID''" by code_simp
  then show "Header_Get (or_header (notify_request os c ev n)) ''X-Notification-Key'' = nc_apiKey c"
    by (simp add: notify_request_def message_request_def Header_Get_def Header_Set_def)
qed (simp add: notify_request_def message_request_def)

text \<open>A valid event under the right key is queued and answered 202, or, when the queue is full, answered 503.\<close>

lemma event_call_outcome:
  assumes "echo_router (np_rfind np)" "n_NotificationAPIKey (np_cfg np) = nc_apiKey c" "ValidateEvent ev = Inr ()"
  shows "\<exists>d resp. event_call np (nc_baseURL c) n (notify_request os c ev n) = Some (d, resp) \<and>
    (if length (ln_q (n_events (np_state np n))) < 256
     then resp_status resp = 202 \<and> ln_q (n_events d) = ln_q (n_events (np_state np n)) @ [ev]
     else resp_status resp = 503 \<and> d = np_state np n)"
proof -
  let ?r = "\<lparr>req_method = ''POST'', req_path = ''/events/message'', req_query = (\<lambda>_. []), req_header = or_header (notify_request os c ev n)\<rparr>"
  have key: "notification_key (np_cfg np) (cx_req (incoming ?r))"
    using assms(2) by (simp add: notification_key_def notify_request_posted(2))
  obtain cx' where s: "notification_serve (np_rfind np) (np_unrouted np) (np_cfg np) (np_svc np) ((np_world np n)\<lparr>xw_event := Some ev\<rparr>) (incoming ?r) (np_state np n) =
      map_prod id (lift_response (\<lambda>v. Served (QueuedJSON v))) (EventController_Message (Some ev) cx' (np_state np n))"
    using message_served [OF assms(1) _ _ key, of "np_unrouted np" "np_svc np" "(np_world np n)\<lparr>xw_event := Some ev\<rparr>" "np_state np n"] by auto
  obtain d resp where e: "EventController_Message (Some ev) cx' (np_state np n) = (d, resp)" by fastforce
  have "event_call np (nc_baseURL c) n (notify_request os c ev n) = Some (d, lift_response (\<lambda>v. Served (QueuedJSON v)) resp)"
    using s e by (simp add: event_call_def notify_request_posted)
  moreover have "if length (ln_q (n_events (np_state np n))) < 256
     then resp_status resp = 202 \<and> ln_q (n_events d) = ln_q (n_events (np_state np n)) @ [ev]
     else resp_status resp = 503 \<and> d = np_state np n"
    using event_statuses [where bind = "Some ev" and cx = cx' and d = "np_state np n"] e assms(3) by (auto simp: not_le split: if_splits)
  ultimately show ?thesis by auto
qed

text \<open>
  C18: a message event gets to notification-service or its loss is known.  The client of chat-service, holding the process's key, sends a valid event to a running
  notification-service: each of its one to four requests but the last met a full queue or lost its answer; the call succeeds exactly
  when the last was answered and found room; and then the event is the last of the service's queue.  It is never refused.
\<close>

theorem message_event_lands:
  assumes "echo_router (np_rfind np)" "n_NotificationAPIKey (np_cfg np) = nc_apiKey c" "ValidateEvent ev = Inr ()"
    and "answers_events np (nc_baseURL c) os" "os_url_ok os (nc_baseURL c @ ''/events/message'')"
    and "SendMessageEvent os c dl ev w = (w', res)"
  shows "\<exists>k. lands (notify_request os c ev) (np_lost np) (\<lambda>i. 256 \<le> length (ln_q (n_events (np_state np i)))) w w' res k \<and>
    (res = Inr () \<longrightarrow> (\<exists>d resp. event_call np (nc_baseURL c) k (notify_request os c ev k) = Some (d, resp) \<and>
       ln_q (n_events d) = ln_q (n_events (np_state np k)) @ [ev]))"
proof -
  let ?rq = "notify_request os c ev" and ?busy = "\<lambda>i. 256 \<le> length (ln_q (n_events (np_state np i)))"
  have out: "snd (os_do os i (?rq i)) = (if np_lost np i then Inl (External ''timeout'') else Inr (if ?busy i then 503 else 202))" for i
    using event_call_outcome [OF assms(1-3), of i os] assms(4) unfolding answers_events_def by (auto simp: not_le split: if_splits)
  have well: "\<exists>k>0. retried_well ?rq (\<lambda>n. snd (os_do os n (?rq n))) 4 w (w', res) k"
    using SendMessageEvent_well [OF assms(5), of ev w dl] assms(6) by auto
  have "settled (snd (os_do os i (?rq i))) \<longleftrightarrow> \<not> np_lost np i \<and> \<not> ?busy i" "success (snd (os_do os i (?rq i))) \<longleftrightarrow> \<not> np_lost np i \<and> \<not> ?busy i" for i
    by (simp_all add: out settled_def success_def)
  from retried_lands [OF well this] obtain k where k: "lands ?rq (np_lost np) ?busy w w' res k" ..
  have "\<exists>d resp. event_call np (nc_baseURL c) k (?rq k) = Some (d, resp) \<and> ln_q (n_events d) = ln_q (n_events (np_state np k)) @ [ev]"
    if "res = Inr ()"
    using event_call_outcome [OF assms(1-3), of k os] k that by (auto simp: lands_def not_le split: if_splits)
  with k show ?thesis by blast
qed

text \<open>A notification-service that holds the client's key and has an empty queue whenever it is asked, on a network that loses nothing.\<close>

definition ex_nclient :: NotificationClient where
  "ex_nclient = \<lparr>nc_baseURL = ''http://n'', nc_apiKey = ''n''\<rparr>"

definition ex_notify_process :: notify_process where
  "ex_notify_process =
     \<lparr>np_rfind = first_match, np_unrouted = (\<lambda>cx. respond 404 NoBody), np_cfg = ex_nconfig,
      np_svc = \<lparr>ws_parse = (\<lambda>_. None), ws_ParseIP = (\<lambda>_. None), ws_allowLoopback = False\<rparr>, np_world = (\<lambda>_. ex_nworld),
      np_state = (\<lambda>_. ex_ndispatcher), np_lost = (\<lambda>_. False), np_time = (\<lambda>_. 1)\<rparr>"

definition ex_event_wire :: "MessageEvent outside" where
  "ex_event_wire =
     \<lparr>os_do = (\<lambda>n rq. (1, case event_call ex_notify_process ''http://n'' n rq of
        None \<Rightarrow> Inl (External ''no route'') | Some (d, resp) \<Rightarrow> Inr (resp_status resp))),
      os_rand = (\<lambda>_. 0), os_bytes = (\<lambda>_. ''x''), os_url_ok = (\<lambda>_. True)\<rparr>"

lemma ex_notify_process_sel: "np_lost ex_notify_process n = False" "np_time ex_notify_process n = 1"
  by (simp_all add: ex_notify_process_def)

theorem message_event_lands_witness:
  "\<exists>w' d resp. SendMessageEvent ex_event_wire ex_nclient 9 ex_message \<lparr>nw_now = 0, nw_sent = []\<rparr> = (w', Inr ()) \<and>
    length (nw_sent w') = 1 \<and> event_call ex_notify_process ''http://n'' 0 (nw_sent w' ! 0) = Some (d, resp) \<and> ln_q (n_events d) = [ex_message]"
proof -
  obtain w' res where s: "SendMessageEvent ex_event_wire ex_nclient 9 ex_message \<lparr>nw_now = 0, nw_sent = []\<rparr> = (w', res)" by fastforce
  have e: "echo_router (np_rfind ex_notify_process)" "n_NotificationAPIKey (np_cfg ex_notify_process) = nc_apiKey ex_nclient"
    by (simp_all add: ex_notify_process_def fm.echo_router_axioms ex_nconfig_def ex_nclient_def)
  have v: "ValidateEvent ex_message = Inr ()" by code_simp
  have a: "answers_events ex_notify_process (nc_baseURL ex_nclient) ex_event_wire"
    by (simp add: answers_events_def ex_event_wire_def ex_nclient_def ex_notify_process_sel split: option.split)
  have u: "os_url_ok ex_event_wire (nc_baseURL ex_nclient @ ''/events/message'')" by (simp add: ex_event_wire_def)
  have q: "ln_q (n_events (np_state ex_notify_process i)) = []" "\<not> np_lost ex_notify_process i" for i
    by (simp_all add: ex_notify_process_def ex_ndispatcher_def New_NotifyDispatcher_def new_lane_def)
  from message_event_lands [OF e v a u s] obtain k where
    k: "lands (notify_request ex_event_wire ex_nclient ex_message) (np_lost ex_notify_process)
        (\<lambda>i. 256 \<le> length (ln_q (n_events (np_state ex_notify_process i)))) \<lparr>nw_now = 0, nw_sent = []\<rparr> w' res k"
      "res = Inr () \<Longrightarrow> \<exists>d resp. event_call ex_notify_process (nc_baseURL ex_nclient) k (notify_request ex_event_wire ex_nclient ex_message k) = Some (d, resp) \<and>
        ln_q (n_events d) = [ex_message]" by (auto simp: q)
  have "k = 0" using k(1) unfolding lands_def by (auto simp: q)
  with k s show ?thesis by (auto simp: lands_def q ex_nclient_def)
qed

section \<open>Presence events\<close>

record presence_process =
  pp_rfind :: router
  pp_unrouted :: "echo_context \<Rightarrow> presence_json served_json response"
  pp_cfg :: presence_Config
  pp_world :: "nat \<Rightarrow> pworld"
  pp_state :: "nat \<Rightarrow> redis"
  pp_lost :: "nat \<Rightarrow> bool"
  pp_time :: "nat \<Rightarrow> int"

definition presence_call ::
  "presence_process \<Rightarrow> string \<Rightarrow> nat \<Rightarrow> presence_body out_request \<Rightarrow> (redis \<times> presence_json served_json response) option" where
  "presence_call pp base n rq =
     map_option (\<lambda>r. presence_serve (pp_rfind pp) (pp_unrouted pp) (pp_cfg pp)
       (case or_body rq of
          EventBody ev \<Rightarrow> (pp_world pp n)\<lparr>pw_event := Some ev\<rparr>
        | HeartbeatBody hb \<Rightarrow> (pp_world pp n)\<lparr>pw_beat := Some hb\<rparr>) (incoming r) (pp_state pp n)) (posted base rq)"

definition answers_presence :: "presence_process \<Rightarrow> string \<Rightarrow> presence_body outside \<Rightarrow> bool" where
  "answers_presence pp base os \<longleftrightarrow>
     (\<forall>n rq. os_do os n rq =
        (pp_time pp n,
         case presence_call pp base n rq of
           None \<Rightarrow> Inl (External ''no route'')
         | Some (db, resp) \<Rightarrow> if pp_lost pp n then Inl (External ''timeout'') else Inr (resp_status resp)))"

lemma presence_recorded:
  assumes "echo_router rfind" "req_method (cx_req cx) = ''POST''" "req_path (cx_req cx) = ''/events''" "presence_key cfg (cx_req cx)"
  shows "\<exists>cx'. presence_serve rfind unrouted cfg w cx db =
    map_prod id (lift_response Served) (Controller_RecordEvent (redis_repo (pw_down w) (p_PresenceTTLSec cfg) (pw_now w)) (pw_event w) cx' db)"
proof -
  let ?rt = "on ''POST'' ''/events'' [APIKey] PRecordEvent" and ?cx = "RequestIDMiddleware (pw_rid w) cx"
  have req: "cx_req ?cx = cx_req cx" by (simp add: RequestIDMiddleware_def Let_def)
  obtain ps where rt: "routed rfind presence_routes (cx_req ?cx) ?rt ps"
    using echo_router.routed_static [OF assms(1) tables_no_wildcards(3) tables_unambiguous(3), of ?rt "cx_req ?cx"] assms(2,3)
    unfolding req by (auto simp: presence_routes_def)
  show ?thesis
    unfolding presence_serve_def serve_routed [OF rt] using assms(4) req
    by (auto simp: presence_guard_def presence_APIKeyMiddleware_def presence_key_def presence_handle_def Let_def)
qed

lemma event_request_posted:
  "posted (pc_baseURL pc) (event_request os pc ev n) =
     Some \<lparr>req_method = ''POST'', req_path = ''/events'', req_query = (\<lambda>_. []), req_header = or_header (event_request os pc ev n)\<rparr>"
  "Header_Get (or_header (event_request os pc ev n)) ''X-Presence-Key'' = pc_apiKey pc"
  "or_body (event_request os pc ev n) = EventBody (ev\<lparr>pe_InstanceID := pc_instanceID pc\<rparr>)"
proof -
  have "strip_prefix (pc_baseURL pc) (pc_baseURL pc @ ''/events'') = Some ''/events''" by (simp add: strip_prefix_Some_iff)
  then show "posted (pc_baseURL pc) (event_request os pc ev n) =
     Some \<lparr>req_method = ''POST'', req_path = ''/events'', req_query = (\<lambda>_. []), req_header = or_header (event_request os pc ev n)\<rparr>"
    by (simp add: posted_def event_request_def presence_request_def)
  have "CanonicalHeaderKey ''X-Presence-Key'' \<noteq> CanonicalHeaderKey ''X-Request-ID''" by code_simp
  then show "Header_Get (or_header (event_request os pc ev n)) ''X-Presence-Key'' = pc_apiKey pc"
    by (simp add: event_request_def presence_request_def Header_Get_def Header_Set_def)
qed (simp add: event_request_def presence_request_def)

lemma presence_call_outcome:
  assumes "echo_router (pp_rfind pp)" "p_PresenceAPIKey (pp_cfg pp) = pc_apiKey pc" "valid_event (ev\<lparr>pe_InstanceID := pc_instanceID pc\<rparr>)"
  shows "\<exists>resp. presence_call pp (pc_baseURL pc) n (event_request os pc ev n) =
      Some (if pw_down (pp_world pp n) then pp_state pp n
            else run_call (redis_repo False (p_PresenceTTLSec (pp_cfg pp)))
              (pw_now (pp_world pp n), CallEvent (ev\<lparr>pe_InstanceID := pc_instanceID pc\<rparr>)) (pp_state pp n), resp) \<and>
    resp_status resp = (if pw_down (pp_world pp n) then 500 else 202)"
proof -
  let ?r = "\<lparr>req_method = ''POST'', req_path = ''/events'', req_query = (\<lambda>_. []), req_header = or_header (event_request os pc ev n)\<rparr>"
  let ?ev = "ev\<lparr>pe_InstanceID := pc_instanceID pc\<rparr>" and ?w = "pp_world pp n" and ?ttl = "p_PresenceTTLSec (pp_cfg pp)"
  have key: "presence_key (pp_cfg pp) (cx_req (incoming ?r))"
    using assms(2) by (simp add: presence_key_def event_request_posted(2))
  obtain cx' where s: "presence_serve (pp_rfind pp) (pp_unrouted pp) (pp_cfg pp) (?w\<lparr>pw_event := Some ?ev\<rparr>) (incoming ?r) (pp_state pp n) =
      map_prod id (lift_response Served) (Controller_RecordEvent (redis_repo (pw_down ?w) ?ttl (pw_now ?w)) (Some ?ev) cx' (pp_state pp n))"
    using presence_recorded [OF assms(1) _ _ key, of "pp_unrouted pp" "?w\<lparr>pw_event := Some ?ev\<rparr>" "pp_state pp n"] by auto
  obtain db resp where e: "Controller_RecordEvent (redis_repo (pw_down ?w) ?ttl (pw_now ?w)) (Some ?ev) cx' (pp_state pp n) = (db, resp)" by fastforce
  have call: "presence_call pp (pc_baseURL pc) n (event_request os pc ev n) = Some (db, lift_response Served resp)"
    using s e by (simp add: presence_call_def event_request_posted)
  have st: "if pw_down ?w then db = pp_state pp n \<and> resp_status resp = 500 else resp_status resp = 202"
    using presence_event_statuses [where down = "pw_down ?w" and ttl = ?ttl and now = "pw_now ?w" and bind = "Some ?ev" and cx = cx' and db = "pp_state pp n"]
      e assms(3) by (auto simp: reply_def split: if_splits)
  have "db = run_call (redis_repo False ?ttl) (pw_now ?w, CallEvent ?ev) (pp_state pp n)" if "\<not> pw_down ?w"
    using Controllers_run(1) [of "redis_repo False ?ttl" "pw_now ?w" "Some ?ev" cx' "pp_state pp n"] e that by simp
  with call st show ?thesis by auto
qed

text \<open>
  C19: a presence event gets to the table or its loss is known: sent with the process's key to a running presence-service, a valid event is retried only
  while Redis is down or answers are lost, at most three times; the call succeeds exactly when the last request was answered with Redis
  up; and then the table is the one \<^verbatim>\<open>RecordEvent\<close> makes of the event under the sender's instance id.
\<close>

theorem presence_event_lands:
  assumes "echo_router (pp_rfind pp)" "p_PresenceAPIKey (pp_cfg pp) = pc_apiKey pc" "valid_event (ev\<lparr>pe_InstanceID := pc_instanceID pc\<rparr>)"
    and "answers_presence pp (pc_baseURL pc) os" "os_url_ok os (pc_baseURL pc @ ''/events'')"
    and "SendEvent os pc dl ev w = (w', res)"
  shows "\<exists>k. lands (event_request os pc ev) (pp_lost pp) (\<lambda>i. pw_down (pp_world pp i)) w w' res k \<and>
    (res = Inr () \<longrightarrow> (\<exists>resp. presence_call pp (pc_baseURL pc) k (event_request os pc ev k) =
       Some (run_call (redis_repo False (p_PresenceTTLSec (pp_cfg pp)))
         (pw_now (pp_world pp k), CallEvent (ev\<lparr>pe_InstanceID := pc_instanceID pc\<rparr>)) (pp_state pp k), resp)))"
proof -
  let ?rq = "event_request os pc ev" and ?busy = "\<lambda>i. pw_down (pp_world pp i)"
  have out: "snd (os_do os i (?rq i)) = (if pp_lost pp i then Inl (External ''timeout'') else Inr (if ?busy i then 500 else 202))" for i
    using presence_call_outcome [OF assms(1-3), of i os] assms(4) unfolding answers_presence_def by auto
  have well: "\<exists>k>0. retried_well ?rq (\<lambda>n. snd (os_do os n (?rq n))) 4 w (w', res) k"
    using SendEvent_well [OF assms(5), of ev w dl] assms(6) by auto
  have "settled (snd (os_do os i (?rq i))) \<longleftrightarrow> \<not> pp_lost pp i \<and> \<not> ?busy i" "success (snd (os_do os i (?rq i))) \<longleftrightarrow> \<not> pp_lost pp i \<and> \<not> ?busy i" for i
    by (simp_all add: out settled_def success_def)
  from retried_lands [OF well this] obtain k where k: "lands ?rq (pp_lost pp) ?busy w w' res k" ..
  have "\<exists>resp. presence_call pp (pc_baseURL pc) k (?rq k) =
       Some (run_call (redis_repo False (p_PresenceTTLSec (pp_cfg pp)))
         (pw_now (pp_world pp k), CallEvent (ev\<lparr>pe_InstanceID := pc_instanceID pc\<rparr>)) (pp_state pp k), resp)" if "res = Inr ()"
    using presence_call_outcome [OF assms(1-3), of k os] k that by (auto simp: lands_def)
  with k show ?thesis by blast
qed

text \<open>A presence-service with an empty table whenever it is asked.\<close>

definition ex_pclient :: PresenceClient where
  "ex_pclient = \<lparr>pc_baseURL = ''http://p'', pc_apiKey = ''p'', pc_instanceID = ''chat-1''\<rparr>"

definition ex_presence_process :: presence_process where
  "ex_presence_process =
     \<lparr>pp_rfind = first_match, pp_unrouted = (\<lambda>cx. respond 404 NoBody), pp_cfg = ex_pconfig, pp_world = (\<lambda>_. ex_pworld),
      pp_state = (\<lambda>_. empty_redis), pp_lost = (\<lambda>_. False), pp_time = (\<lambda>_. 1)\<rparr>"

definition ex_presence_wire :: "presence_body outside" where
  "ex_presence_wire =
     \<lparr>os_do = (\<lambda>n rq. (1, case presence_call ex_presence_process ''http://p'' n rq of
        None \<Rightarrow> Inl (External ''no route'') | Some (db, resp) \<Rightarrow> Inr (resp_status resp))),
      os_rand = (\<lambda>_. 0), os_bytes = (\<lambda>_. ''x''), os_url_ok = (\<lambda>_. True)\<rparr>"

definition ex_arrival :: "string \<Rightarrow> PresenceEvent" where
  "ex_arrival inst = \<lparr>pe_UserID = 7, pe_Room = ''r'', pe_Status = ''online'', pe_InstanceID = inst\<rparr>"

lemma ex_presence_process_sel: "pp_lost ex_presence_process n = False" "pp_time ex_presence_process n = 1"
  by (simp_all add: ex_presence_process_def)

theorem presence_event_lands_witness:
  "\<exists>w' resp. SendEvent ex_presence_wire ex_pclient 9 (ex_arrival '''') \<lparr>nw_now = 0, nw_sent = []\<rparr> = (w', Inr ()) \<and>
    length (nw_sent w') = 1 \<and> presence_call ex_presence_process ''http://p'' 0 (nw_sent w' ! 0) =
      Some (run_call (redis_repo False 90) (200000, CallEvent (ex_arrival ''chat-1'')) empty_redis, resp)"
proof -
  obtain w' res where s: "SendEvent ex_presence_wire ex_pclient 9 (ex_arrival '''') \<lparr>nw_now = 0, nw_sent = []\<rparr> = (w', res)" by fastforce
  have e: "echo_router (pp_rfind ex_presence_process)" "p_PresenceAPIKey (pp_cfg ex_presence_process) = pc_apiKey ex_pclient"
    by (simp_all add: ex_presence_process_def fm.echo_router_axioms ex_pconfig_def ex_pclient_def)
  have ev: "(ex_arrival '''')\<lparr>pe_InstanceID := pc_instanceID ex_pclient\<rparr> = ex_arrival ''chat-1''" by (simp add: ex_arrival_def ex_pclient_def)
  have v: "valid_event ((ex_arrival '''')\<lparr>pe_InstanceID := pc_instanceID ex_pclient\<rparr>)" unfolding ev by code_simp
  have a: "answers_presence ex_presence_process (pc_baseURL ex_pclient) ex_presence_wire"
    by (simp add: answers_presence_def ex_presence_wire_def ex_pclient_def ex_presence_process_sel split: option.split)
  have u: "os_url_ok ex_presence_wire (pc_baseURL ex_pclient @ ''/events'')" by (simp add: ex_presence_wire_def)
  have q: "\<not> pw_down (pp_world ex_presence_process i)" "\<not> pp_lost ex_presence_process i" "pp_state ex_presence_process i = empty_redis"
    "pw_now (pp_world ex_presence_process i) = 200000" "p_PresenceTTLSec (pp_cfg ex_presence_process) = 90" for i
    by (simp_all add: ex_presence_process_def ex_pworld_def ex_pconfig_def)
  from presence_event_lands [OF e v a u s] obtain k where
    k: "lands (event_request ex_presence_wire ex_pclient (ex_arrival '''')) (pp_lost ex_presence_process)
        (\<lambda>i. pw_down (pp_world ex_presence_process i)) \<lparr>nw_now = 0, nw_sent = []\<rparr> w' res k"
      "res = Inr () \<Longrightarrow> \<exists>resp. presence_call ex_presence_process (pc_baseURL ex_pclient) k (event_request ex_presence_wire ex_pclient (ex_arrival '''') k) =
        Some (run_call (redis_repo False 90) (200000, CallEvent (ex_arrival ''chat-1'')) empty_redis, resp)" by (auto simp: q ev)
  have "k = 0" using k(1) unfolding lands_def by (auto simp: q)
  with k s show ?thesis by (auto simp: lands_def q ex_pclient_def)
qed

end
