(* ===== verification/RequestLog.thy ===== *)
theory RequestLog
  imports Gateway ChatMain PresenceMain NotificationMain MediaMain
begin

text \<open>
  The request log: the four copies of \<^verbatim>\<open>middleware/logger.go\<close> (gateway, presence-service, notification-service, media-service;
  chat-service registers none) and the processes with it installed, as \<^verbatim>\<open>e.Use\<close> does between the request id and the
  routes.  The processes of theories \<^theory_text>\<open>Gateway\<close>, \<^theory_text>\<open>PresenceMain\<close>, \<^theory_text>\<open>NotificationMain\<close> and \<^theory_text>\<open>MediaMain\<close> answer the same
  with the logger as without it.
\<close>

section \<open>logger.go\<close>

datatype log_level = LevelInfo | LevelError

text \<open>A duration is logged as its text; here as the number of nanoseconds.\<close>

datatype log_value = LogString string | LogInt nat | LogDuration int

record log_record =
  lr_level :: log_level
  lr_attrs :: "(string \<times> log_value) list"

definition lr_attr :: "log_record \<Rightarrow> string \<Rightarrow> log_value option" where
  "lr_attr l k = map_of (lr_attrs l) k"

text \<open>
  \<open>RealIP\<close> is echo's, \<open>start\<close> and \<open>now\<close> are the clock before and after \<open>next\<close>, and \<open>stat\<close> is what
  \<^verbatim>\<open>c.Response().Status\<close> holds once \<open>next\<close> has returned.
\<close>

definition gateway_LoggerMiddleware ::
  "(request \<Rightarrow> string) \<Rightarrow> int \<Rightarrow> int \<Rightarrow> ('o \<Rightarrow> nat) \<Rightarrow> (echo_context \<Rightarrow> 's \<Rightarrow> 's \<times> 'o) \<Rightarrow> echo_context \<Rightarrow> 's \<Rightarrow>
   ('s \<times> 'o) \<times> log_record" where
  "gateway_LoggerMiddleware RealIP start now stat next cx s =
     (let err = next cx s;
          duration = now - start;
          status = stat (snd err);
          requestID = cx_request_id cx;
          attrs = [(''service'', LogString ''gateway''), (''method'', LogString (req_method (cx_req cx))),
                   (''path'', LogString (req_path (cx_req cx))), (''status'', LogInt status), (''duration'', LogDuration duration),
                   (''ip'', LogString (RealIP (cx_req cx))), (''request_id'', LogString requestID),
                   (''user_agent'', LogString (Header_Get (req_header (cx_req cx)) ''User-Agent''))]
      in if 500 \<le> status then (err, \<lparr>lr_level = LevelError, lr_attrs = attrs\<rparr>)
         else (err, \<lparr>lr_level = LevelInfo, lr_attrs = attrs\<rparr>))"

definition presence_LoggerMiddleware ::
  "(request \<Rightarrow> string) \<Rightarrow> int \<Rightarrow> int \<Rightarrow> ('o \<Rightarrow> nat) \<Rightarrow> (echo_context \<Rightarrow> 's \<Rightarrow> 's \<times> 'o) \<Rightarrow> echo_context \<Rightarrow> 's \<Rightarrow>
   ('s \<times> 'o) \<times> log_record" where
  "presence_LoggerMiddleware RealIP start now stat next cx s =
     (let err = next cx s;
          duration = now - start;
          status = stat (snd err);
          requestID = cx_request_id cx;
          attrs = [(''service'', LogString ''presence-service''), (''method'', LogString (req_method (cx_req cx))),
                   (''path'', LogString (req_path (cx_req cx))), (''status'', LogInt status), (''duration'', LogDuration duration),
                   (''ip'', LogString (RealIP (cx_req cx))), (''request_id'', LogString requestID),
                   (''user_agent'', LogString (Header_Get (req_header (cx_req cx)) ''User-Agent''))]
      in if 500 \<le> status then (err, \<lparr>lr_level = LevelError, lr_attrs = attrs\<rparr>)
         else (err, \<lparr>lr_level = LevelInfo, lr_attrs = attrs\<rparr>))"

definition notification_LoggerMiddleware ::
  "int \<Rightarrow> int \<Rightarrow> ('o \<Rightarrow> nat) \<Rightarrow> (echo_context \<Rightarrow> 's \<Rightarrow> 's \<times> 'o) \<Rightarrow> echo_context \<Rightarrow> 's \<Rightarrow> ('s \<times> 'o) \<times> log_record" where
  "notification_LoggerMiddleware start now stat next cx s =
     (let err = next cx s;
          status = stat (snd err);
          requestID = cx_request_id cx;
          attrs = [(''service'', LogString ''notification-service''), (''method'', LogString (req_method (cx_req cx))),
                   (''path'', LogString (req_path (cx_req cx))), (''status'', LogInt status), (''duration'', LogDuration (now - start)),
                   (''request_id'', LogString requestID)];
          level = (if 500 \<le> status then LevelError else LevelInfo)
      in (err, \<lparr>lr_level = level, lr_attrs = attrs\<rparr>))"

definition media_LoggerMiddleware ::
  "int \<Rightarrow> int \<Rightarrow> ('o \<Rightarrow> nat) \<Rightarrow> (echo_context \<Rightarrow> 's \<Rightarrow> 's \<times> 'o) \<Rightarrow> echo_context \<Rightarrow> 's \<Rightarrow> ('s \<times> 'o) \<times> log_record" where
  "media_LoggerMiddleware start now stat next cx s =
     (let err = next cx s;
          status = stat (snd err);
          requestID = cx_request_id cx;
          attrs = [(''service'', LogString ''media-service''), (''method'', LogString (req_method (cx_req cx))),
                   (''path'', LogString (req_path (cx_req cx))), (''status'', LogInt status), (''duration'', LogDuration (now - start)),
                   (''request_id'', LogString requestID)];
          level = (if 500 \<le> status then LevelError else LevelInfo)
      in (err, \<lparr>lr_level = level, lr_attrs = attrs\<rparr>))"

section \<open>The processes with their loggers\<close>

text \<open>
  The recorded status is 200 until a handler writes another one.  It stays 200 when the chain returns an error (a request without a
  route, a body over the limit), whose answer echo writes after the logger, and when the reverse proxy
  answers a handshake on the hijacked connection.
\<close>

definition recorded :: "bool \<Rightarrow> 'v response \<Rightarrow> nat" where
  "recorded errs resp = (if errs \<or> resp_status resp = 101 then 200 else resp_status resp)"

definition no_route :: "router \<Rightarrow> 'h route list \<Rightarrow> request \<Rightarrow> bool" where
  "no_route rfind table r \<longleftrightarrow> rfind (keys table) (req_method r) (req_path r) = None"

definition over_limit :: "router \<Rightarrow> media_Config \<Rightarrow> mworld \<Rightarrow> echo_context \<Rightarrow> bool" where
  "over_limit rfind cfg w cx \<longleftrightarrow>
     (case rfind (keys media_routes) (req_method (cx_req cx)) (req_path (cx_req cx)) of
        None \<Rightarrow> False
      | Some (i, ps) \<Rightarrow> rt_handler (media_routes ! i) = MUpload \<and>
          \<not> isl (media_GatewayAuthMiddleware (m_GatewayKey cfg) cx) \<and> isl (mw_limit w (bodyLimit cfg) (cx_req cx)))"

definition gateway_logged ::
  "router \<Rightarrow> (echo_context \<Rightarrow> 'v gw_json response) \<Rightarrow> 'v world \<Rightarrow> (request \<Rightarrow> string) \<Rightarrow> int \<Rightarrow> echo_context \<Rightarrow> 'v gateway \<Rightarrow>
   ('v gateway \<times> 'v outcome) \<times> log_record" where
  "gateway_logged rfind unrouted w RealIP now cx g =
     gateway_LoggerMiddleware RealIP (w_now w) now (\<lambda>out. recorded (no_route rfind gateway_routes (cx_req cx)) (snd out))
       (serve_routes rfind gateway_routes (gateway_guard w) (gateway_handle w)
         (\<lambda>cx rej. (None, reply cx (fst rej) (JSON_error (snd rej)))) (\<lambda>cx. (None, unrouted cx)))
       (RequestIDMiddleware (w_rid w) cx) g"

definition presence_logged ::
  "router \<Rightarrow> (echo_context \<Rightarrow> presence_json served_json response) \<Rightarrow> presence_Config \<Rightarrow> pworld \<Rightarrow> (request \<Rightarrow> string) \<Rightarrow> int \<Rightarrow>
   echo_context \<Rightarrow> redis \<Rightarrow> (redis \<times> presence_json served_json response) \<times> log_record" where
  "presence_logged rfind unrouted cfg w RealIP now cx db =
     presence_LoggerMiddleware RealIP (pw_now w) now (recorded (no_route rfind presence_routes (cx_req cx)))
       (serve_routes rfind presence_routes (presence_guard cfg w) (presence_handle cfg w)
         (\<lambda>cx rej. reply cx (fst rej) (JSON_error (snd rej))) unrouted)
       (RequestIDMiddleware (pw_rid w) cx) db"

definition notification_logged ::
  "router \<Rightarrow> (echo_context \<Rightarrow> notification_json served_json response) \<Rightarrow> notification_Config \<Rightarrow> WebhookService \<Rightarrow> nworld \<Rightarrow> int \<Rightarrow> int \<Rightarrow>
   echo_context \<Rightarrow> NotifyDispatcher \<Rightarrow> (NotifyDispatcher \<times> notification_json served_json response) \<times> log_record" where
  "notification_logged rfind unrouted cfg svc w start now cx d =
     notification_LoggerMiddleware start now (recorded (no_route rfind notification_routes (cx_req cx)))
       (serve_routes rfind notification_routes (notification_guard cfg) (notification_handle svc w)
         (\<lambda>cx rej. reply cx (fst rej) (JSON_error (snd rej))) unrouted)
       (RequestIDMiddleware (xw_rid w) cx) d"

definition media_logged ::
  "router \<Rightarrow> (echo_context \<Rightarrow> UploadResponse served_json response) \<Rightarrow> media_Config \<Rightarrow> mworld \<Rightarrow> int \<Rightarrow> int \<Rightarrow> echo_context \<Rightarrow> Store \<Rightarrow>
   (Store \<times> UploadResponse served_json response) \<times> log_record" where
  "media_logged rfind unrouted cfg w start now cx s =
     media_LoggerMiddleware start now (recorded (no_route rfind media_routes (cx_req cx) \<or> over_limit rfind cfg w cx))
       (serve_routes rfind media_routes (media_guard cfg w) (media_handle w)
         (\<lambda>cx rej. reply cx (fst rej) (JSON_error (snd rej))) unrouted)
       (RequestIDMiddleware (mw_rid w) cx) s"

lemmas logger_defs = gateway_LoggerMiddleware_def presence_LoggerMiddleware_def notification_LoggerMiddleware_def media_LoggerMiddleware_def

lemma logged_serves:
  "fst (gateway_logged rfind un w ip now cx g) = gateway_serve rfind un w cx g"
  "fst (presence_logged rfind un' pcfg pw ip now cx db) = presence_serve rfind un' pcfg pw cx db"
  "fst (notification_logged rfind un2 ncfg svc nw start now cx d) = notification_serve rfind un2 ncfg svc nw cx d"
  "fst (media_logged rfind un3 mcfg mw start now cx s) = media_serve rfind un3 mcfg mw cx s"
  by (simp_all add: gateway_logged_def presence_logged_def notification_logged_def media_logged_def logger_defs Let_def
      gateway_serve_def presence_serve_def notification_serve_def media_serve_def)

section \<open>What a line says\<close>

text \<open>The attributes a request is found by.\<close>

definition traced :: "log_record \<Rightarrow> string \<Rightarrow> request \<Rightarrow> bool" where
  "traced l i r \<longleftrightarrow> lr_attr l ''request_id'' = Some (LogString i) \<and> lr_attr l ''method'' = Some (LogString (req_method r)) \<and>
     lr_attr l ''path'' = Some (LogString (req_path r))"

definition request_id :: "string \<Rightarrow> echo_context \<Rightarrow> string" where
  "request_id rid cx = cx_request_id (RequestIDMiddleware rid cx)"

lemma logged_traced:
  "traced (snd (gateway_logged rfind un w ip now cx g)) (request_id (w_rid w) cx) (cx_req cx)"
  "traced (snd (presence_logged rfind un' pcfg pw ip now cx db)) (request_id (pw_rid pw) cx) (cx_req cx)"
  "traced (snd (notification_logged rfind un2 ncfg svc nw start now cx d)) (request_id (xw_rid nw) cx) (cx_req cx)"
  "traced (snd (media_logged rfind un3 mcfg mw start now cx s)) (request_id (mw_rid mw) cx) (cx_req cx)"
  by (simp_all add: gateway_logged_def presence_logged_def notification_logged_def media_logged_def logger_defs Let_def
      traced_def request_id_def lr_attr_def)

text \<open>
  Only the path is logged: a line is the same for every query, every header other than \<^verbatim>\<open>User-Agent\<close>, and every secret in
  them, given the recorded status and the request id.
\<close>

theorem log_path_only:
  assumes "snd (gateway_logged rfind un w ip now cx g) = l" "snd (gateway_logged rfind un' w' ip now cx' g') = l'"
    and "req_method (cx_req cx') = req_method (cx_req cx)" "req_path (cx_req cx') = req_path (cx_req cx)"
    and "Header_Get (req_header (cx_req cx')) ''User-Agent'' = Header_Get (req_header (cx_req cx)) ''User-Agent''"
    and "ip (cx_req cx') = ip (cx_req cx)" "w_now w' = w_now w" "request_id (w_rid w') cx' = request_id (w_rid w) cx"
    and "lr_attr l' ''status'' = lr_attr l ''status''"
  shows "l' = l"
  using assms by (auto simp: gateway_logged_def gateway_LoggerMiddleware_def Let_def lr_attr_def request_id_def split: if_splits)

text \<open>
  What the log misses: a request no route matches, and an upload over the body limit, are logged as a 200 at level info, whatever they are answered.
\<close>

lemma errors_logged_as_200:
  "no_route rfind gateway_routes (cx_req cx) \<Longrightarrow> snd (gateway_logged rfind un w ip now cx g) = l \<Longrightarrow>
     lr_attr l ''status'' = Some (LogInt 200) \<and> lr_level l = LevelInfo"
  "over_limit rfind cfg w' cx \<Longrightarrow> snd (media_logged rfind un' cfg w' start now cx s) = l \<Longrightarrow>
     lr_attr l ''status'' = Some (LogInt 200) \<and> lr_level l = LevelInfo"
  by (auto simp: gateway_logged_def media_logged_def logger_defs Let_def lr_attr_def recorded_def)

lemma over_limit_refused:
  assumes "over_limit rfind cfg w cx" "echo_router rfind"
  shows "\<exists>rej. mw_limit w (bodyLimit cfg) (cx_req cx) = Inl rej \<and> fst (media_serve rfind un cfg w cx s) = s \<and>
    resp_status (snd (media_serve rfind un cfg w cx s)) = fst rej"
proof -
  obtain i ps rej where i: "rfind (keys media_routes) (req_method (cx_req cx)) (req_path (cx_req cx)) = Some (i, ps)"
      "rt_handler (media_routes ! i) = MUpload" "\<not> isl (media_GatewayAuthMiddleware (m_GatewayKey cfg) cx)"
      "mw_limit w (bodyLimit cfg) (cx_req cx) = Inl rej"
    using assms(1) unfolding over_limit_def by (auto simp: isl_def split: option.splits)
  have "rfind (keys media_routes) (req_method (cx_req cx)) (req_path (cx_req cx)) \<noteq> None" using i(1) by simp
  then obtain rt ps' where rt: "routed rfind media_routes (cx_req cx) rt ps'"
    using echo_router.routed_some [OF assms(2) tables_no_wildcards(5), of "cx_req cx"] by auto
  then have "rt = media_routes ! i" using i(1) by (auto simp: routed_def)
  then have h: "rt_guards rt = [GatewayAuth, BodyLimit]"
    using routed_mem [OF rt] i(2) by (auto simp: media_routes_def)
  let ?cx = "(RequestIDMiddleware (mw_rid w) cx)\<lparr>cx_param := ps'\<rparr>"
  have "\<not> isl (media_GatewayAuthMiddleware (m_GatewayKey cfg) ?cx)"
    using i(3) by (simp add: media_GatewayAuthMiddleware_def Let_def split: option.splits if_splits)
  then obtain cx' where c: "media_GatewayAuthMiddleware (m_GatewayKey cfg) ?cx = Inr cx'" by (cases "media_GatewayAuthMiddleware (m_GatewayKey cfg) ?cx") auto
  then have "cx_req cx' = cx_req cx" by (auto simp: media_GatewayAuthMiddleware_def Let_def split: option.splits if_splits)
  then show ?thesis using i(4) c
    unfolding media_serve_routed [OF rt] h by (simp add: media_guard_def reply_def)
qed

section \<open>One id for a request\<close>

lemma trusted_headers_request_id:
  "cx_request_id cx \<noteq> '''' \<Longrightarrow> Header_Get (trusted_headers key cx) ''X-Request-ID'' = cx_request_id cx"
  by (simp add: trusted_headers_def set_request_id_def Let_def canon_trusted split: option.split)

lemma forwards_request_id:
  assumes "gateway_handle w h cx g = (g', Some (dst, r), resp)" "gateway_inv env target coll g" "cx_request_id cx \<noteq> ''''"
  shows "Header_Get (req_header r) ''X-Request-ID'' = cx_request_id cx"
proof (cases "h \<in> {GNotification, GMediaUpload}")
  case True
  then show ?thesis using handle_forwards(4) [OF assms(1,2)] trusted_headers_request_id [OF assms(3)] by simp
next
  case False
  then show ?thesis using handle_forwards(5) [OF assms(1,2)] assms(3) by (simp add: set_request_id_def Let_def)
qed

lemma request_id_given: "Header_Get (req_header (cx_req cx)) ''X-Request-ID'' = i \<Longrightarrow> i \<noteq> '''' \<Longrightarrow> request_id rid cx = i"
  by (simp add: request_id_def RequestIDMiddleware_def Let_def set_resp_def)

lemma request_id_some: "rid \<noteq> '''' \<Longrightarrow> request_id rid cx \<noteq> ''''"
  by (simp add: request_id_def RequestIDMiddleware_def Let_def set_resp_def generateRequestID_def hex_EncodeToString_def)

lemma forwarded_id:
  assumes "echo_router rfind" "gateway_inv env target coll g" "gateway_serve rfind unrouted w cx g = (g', Some (dst, r), resp)" "w_rid w \<noteq> ''''"
  shows "Header_Get (req_header r) ''X-Request-ID'' = request_id (w_rid w) cx"
  using assms(1,3)
proof (cases rule: forwarded_cases)
  case (user rt ps c)
  have "cx_request_id (with_claims w cx ps c) = request_id (w_rid w) cx" by (simp add: with_claims_def request_id_def)
  then show ?thesis using forwards_request_id [OF user(4) assms(2)] request_id_some [OF assms(4)] by simp
next
  case (ticket ps s cx')
  have inv': "gateway_inv env target coll (g\<lparr>gw_tickets := s\<rparr>)" using assms(2) by (simp add: gateway_inv_def)
  have h: "gateway_handle w GChatWS cx' (g\<lparr>gw_tickets := s\<rparr>) = (g', Some (dst, r), resp)" using ticket(3) by (simp add: gateway_handle_def)
  have "cx_request_id cx' = request_id (w_rid w) cx" using WSTicket_ok [OF ticket(2)] by (auto simp: request_id_def)
  then show ?thesis using forwards_request_id [OF h inv'] request_id_some [OF assms(4)] by simp
qed



end
