(* ===== verification/Spec2Isabelle.thy ===== *)
theory Spec2Isabelle
  imports EdgeFlight Gateway PresenceMain NotificationMain MediaMain ChatMain Pumps Deliveries ServicePaths RequestLog
begin

text \<open>
  Verification library of the realtime chat platform.

  The program.  Five Go services.  The \<^bold>\<open>gateway\<close> is the only public entry: it registers and logs in users, checks Bearer tokens,
  exchanges one-shot tickets for WebSocket handshakes, balances history reads over the chat instances and sends every
  handshake to the one instance that holds its room, proxies to the other services, and answers media reads from an edge
  cache.  \<^bold>\<open>chat-service\<close> (several instances) keeps rooms in memory, one event loop each, and tells its neighbours what
  happens through a dispatcher with three bounded queues.  \<^bold>\<open>presence-service\<close> keeps who is online in Redis sorted
  sets with expiry; the chat instances' heartbeats repair what a lost event leaves.  \<^bold>\<open>notification-service\<close> turns
  message events into signed webhook calls to subscribed users who are offline.  \<^bold>\<open>media-service\<close> is a
  content-addressed store.

  The theories and what they model (paths under \<^verbatim>\<open>src/\<close>).

  \<^item> \<^theory_text>\<open>Prelude\<close>, \<^theory_text>\<open>GoStrings\<close>: the vocabulary (integers at their width, \<^verbatim>\<open>(value, error)\<close> as a sum, headers, requests, echo
    contexts, responses) and what the services use of Go's \<^verbatim>\<open>strconv\<close>, \<^verbatim>\<open>strings\<close>, \<^verbatim>\<open>hex\<close> and UTF-8 loop.
  \<^item> \<^theory_text>\<open>Config\<close>: the five \<^verbatim>\<open>config/config.go\<close>, \<^verbatim>\<open>config/database.go\<close> and \<^verbatim>\<open>redis.go\<close>.  \<^theory_text>\<open>Validation\<close>: the three copies of the room-name
    and instance-id rules.  \<^theory_text>\<open>Auth\<close>: the JWT, API-key, gateway-key, request-id and instance middlewares of all services.
  \<^item> Gateway: \<^theory_text>\<open>LoadBalancer\<close> (\<^verbatim>\<open>backend.go\<close>, \<^verbatim>\<open>pool.go\<close>, \<^verbatim>\<open>round_robin.go\<close>), \<^theory_text>\<open>ConsistentHash\<close>, \<^theory_text>\<open>EdgeCache\<close> (the LRU cache),
    \<^theory_text>\<open>EdgeHandler\<close> (the media handler, one request at a time), \<^theory_text>\<open>EdgeFlight\<close> (the same handler with any interleaving of concurrent
    misses), \<^theory_text>\<open>Tickets\<close>, \<^theory_text>\<open>Proxy\<close>, \<^theory_text>\<open>Users\<close>.
  \<^item> chat-service: \<^theory_text>\<open>Room\<close> (\<^verbatim>\<open>ws/room.go\<close>), \<^theory_text>\<open>Pumps\<close> (\<^verbatim>\<open>ws/client.go\<close>), \<^theory_text>\<open>Hub\<close> (\<^verbatim>\<open>ws/hub.go\<close> and the checks of \<^verbatim>\<open>handler.go\<close>), \<^theory_text>\<open>Messages\<close>
    (history), \<^theory_text>\<open>Outbound\<close> (both HTTP clients and the heartbeat sweep), \<^theory_text>\<open>Lanes\<close> (a bounded queue with its workers),
    \<^theory_text>\<open>ChatDispatch\<close> (\<^verbatim>\<open>dispatch/dispatcher.go\<close>: queues, workers, their requests, and what \<^verbatim>\<open>Close\<close> waits for).
  \<^item> \<^theory_text>\<open>Presence\<close>: repository, service and controllers of presence-service over a Redis state.
  \<^item> notification-service: \<^theory_text>\<open>Webhooks\<close> (URL rules, dialer, signer, webhooks and subscriptions), \<^theory_text>\<open>Fanout\<close> (recipients, delivery
    rows, the delivery loop), \<^theory_text>\<open>Deliveries\<close> (the same loop from one blocking point to the next, with any interleaving of workers, clock
    and cancellation), \<^theory_text>\<open>NotifyDispatch\<close> (its dispatcher and the event endpoint).
  \<^item> \<^theory_text>\<open>Media\<close>: store and controller of media-service.
  \<^item> The processes: \<^theory_text>\<open>Routes\<close> holds the route tables of the five \<^verbatim>\<open>cmd/*/main.go\<close> with the middlewares of each route, and how echo
    serves a request by them; \<^theory_text>\<open>Gateway\<close>, \<^theory_text>\<open>ChatMain\<close>, \<^theory_text>\<open>PresenceMain\<close>, \<^theory_text>\<open>NotificationMain\<close>, \<^theory_text>\<open>MediaMain\<close> hold start-up, a
    process's state and one request (\<open>gateway_serve\<close>, \<open>chat_serve\<close>, \<dots>).  \<open>gateway_reach\<close> and \<open>chat_reach\<close> are the states a running process can be in.
  \<^item> Between processes: \<^theory_text>\<open>ServicePaths\<close> puts chat-service's two clients in front of the processes they call; \<^theory_text>\<open>RequestLog\<close> installs the
    request loggers (\<^verbatim>\<open>middleware/logger.go\<close>) in the four processes that have one.
  \<^item> This theory: the properties in which several services meet.

  State and operations keep the source's names; a Go method \<^verbatim>\<open>T.M\<close> is \<open>T_M\<close> or \<open>M\<close>, its receiver and every store it
  writes are passed and returned, an error or early return is a left value or a response with its status, a goroutine's
  \<^verbatim>\<open>select\<close> is one operation per case and its interleavings are an inductive step relation.  Clocks, randomness, decoded request
  bodies and the failures of databases, disks and networks are arguments (\<open>world\<close> records for a whole request).

  The contracts.  Locales state what a client relies on and are interpreted on the model: \<open>Strategy\<close> (a balancing strategy answers
  only healthy members; round robin and the hash ring), \<open>object_cache\<close> (the edge handler's view of a cache; the LRU cache), \<open>presence_store\<close>
  (the service's view of the repository; Redis), \<open>retry_client\<close> (a request with retries; both clients of chat-service), \<open>echo_router\<close>
  (below; the matcher \<open>first_match\<close>).

  What the lemmas show.  Components: refinement of an abstract table, recency list or queue (\<^theory_text>\<open>Presence\<close>, \<^theory_text>\<open>EdgeCache\<close>, \<^theory_text>\<open>ChatDispatch\<close>), invariants
  of the concurrent parts under every interleaving (\<^theory_text>\<open>Room\<close>, \<^theory_text>\<open>Hub\<close>, \<^theory_text>\<open>EdgeFlight\<close>, \<^theory_text>\<open>NotifyDispatch\<close>, \<^theory_text>\<open>Deliveries\<close>), progress and termination
  (\<^theory_text>\<open>EdgeFlight\<close>, \<^theory_text>\<open>NotifyDispatch\<close>, \<^theory_text>\<open>Pumps\<close>, \<^theory_text>\<open>ChatMain\<close>), equivalence of an optimised routine with its definition (\<^theory_text>\<open>ConsistentHash\<close>), behaviour on
  every branch (\<^theory_text>\<open>Fanout\<close>, \<^theory_text>\<open>Media\<close>, \<^theory_text>\<open>Users\<close>, \<^theory_text>\<open>Messages\<close>).  Processes: who can reach which handler, that internal endpoints cannot be
  reached through the gateway, that reachable gateway states are well formed, and what a graceful stop reports; for
  both dispatchers also what \<^verbatim>\<open>Close\<close> leaves behind when its budget runs out (\<open>close_outcomes\<close>, \<open>cancelled_jobs_settle\<close>).
  Traces that show a race or a gap are lemmas beside the part they concern (\<open>zombie_room_reachable\<close>, \<open>close_strands_delivery\<close>, \<open>late_sweep_relists\<close>).
  \<open>delivery_alone\<close> connects \<^theory_text>\<open>Deliveries\<close> with the one-function model of \<^theory_text>\<open>Fanout\<close>, on which \<^theory_text>\<open>NotifyDispatch\<close> rests.  Across services: a session
  from token to room, reading presence through the gateway, the privacy of notification accounts, an upload served by the edge,
  heartbeats keeping users listed, that no service refuses what another sends it, that an event is in the queue or table it was meant for
  exactly when its sender was told so, and one request id in the log lines of all processes a request passes.

  Parameters and the hypotheses on them: echo's router (\<open>echo_router\<close>: a match is an instance of its pattern, and a request that is
  an instance of a pattern with plain parameters is matched; the tables have no wildcards and are unambiguous, which is proved), the jwt package
  (\<open>jwt_sound\<close>: parsing what was signed with the same secret gives the claims until they expire), bcrypt (a hash verifies its
  password), HMAC (collision freedom where stated), SHA-256 (injective on the contents in question), \<^verbatim>\<open>sort.Slice\<close> (a sorted permutation),
  gorilla's \<^verbatim>\<open>Upgrade\<close> (\<open>refuses_origins\<close>), Go map iteration (any rearrangement), MySQL's collation and rounding, \<^verbatim>\<open>url.Parse\<close>, the resolver, \<^verbatim>\<open>io\<close> errors.

  Bounds and fuel.  No fuel is used: loops recurse on their list, or on a measure (the retries left, the length still to
  print or match).  Queue capacities (16, 256, 1024) and retry counts are the code's.  \<^verbatim>\<open>int64\<close> arithmetic is written with its wrap-around where it
  can leave the range (history paging, upload and body limits, the round-robin counter, the ring's hashes); tokens carry ids through a \<^verbatim>\<open>float64\<close>, so
  identity is exact below \<^verbatim>\<open>2^53\<close>.

  Not modelled.  Listening, signals and echo's \<^verbatim>\<open>Shutdown\<close> deadline (the orders they allow are the step relations' choices); log lines other
  than the request log; the interleaving inside one event's handling in chat-service's dispatcher and in \<open>NotifyDispatch\<close> (a worker's call with all its retries
  is one step there; \<open>Deliveries\<close> has the steps inside a delivery, with cancellation at any of them); the bytes of JSON, multipart
  and WebSocket frames (the model has what they encode); the SQL schemas under \<^verbatim>\<open>db/\<close> beyond the keys the repositories rely on; tests.
\<close>

section \<open>media-service behind the gateway's edge cache\<close>

text \<open>
  The origin of \<open>EdgeHandler\<close>, made of \<^verbatim>\<open>MediaController.Get\<close>: \<open>stores n\<close> is the media store when the \<open>n\<close>-th call of the
  edge arrives.
\<close>

definition origin_request :: "string \<Rightarrow> string \<Rightarrow> echo_context" where
  "origin_request hash requestID =
     \<lparr>cx_req = \<lparr>req_method = ''GET'', req_path = ''/media/'' @ hash, req_query = (\<lambda>_. []),
        req_header = Header_Set no_headers ''X-Request-ID'' requestID\<rparr>,
      cx_param = (\<lambda>_. hash), cx_resp = no_headers, cx_request_id = requestID, cx_user_id = None, cx_role = ''''\<rparr>"

definition origin_answer :: "'v response \<Rightarrow> origin_response" where
  "origin_answer r =
     \<lparr>o_StatusCode = resp_status r, o_Header = resp_header r,
      o_ContentLength = (case ParseInt (Header_Get (resp_header r) ''Content-Length'') of None \<Rightarrow> -1 | Some n \<Rightarrow> n),
      o_Body = (case resp_body r of Blob b \<Rightarrow> b | _ \<Rightarrow> ''''), o_BodyErr = False\<rparr>"

definition media_origin :: "string \<Rightarrow> (nat \<Rightarrow> Store) \<Rightarrow> origin" where
  "media_origin base stores n url requestID =
     (case strip_prefix (base @ ''/media/'') url of
        None \<Rightarrow> Inl (External ''no route'')
      | Some hash \<Rightarrow> Inr (origin_answer (MediaController_Get False False (origin_request hash requestID) (stores n))))"

lemma canon_media:
  "CanonicalHeaderKey ''If-None-Match'' = ''If-None-Match''" "CanonicalHeaderKey ''X-Request-ID'' = ''X-Request-Id''"
  by code_simp+

definition served :: "Meta \<Rightarrow> string \<Rightarrow> origin_response" where
  "served m b =
     \<lparr>o_StatusCode = 200,
      o_Header = cx_resp (set_resp ''Content-Type'' (md_ContentType m) (set_resp ''X-Content-Type-Options'' ''nosniff''
        (set_resp ''Content-Length'' (FormatInt (md_Size m)) (setCacheHeaders (CHR 0x22 # md_Hash m @ [CHR 0x22]) (origin_request (md_Hash m) ''''))))),
      o_ContentLength = md_Size m, o_Body = b, o_BodyErr = False\<rparr>"

lemma media_origin_served:
  assumes "Store_Open False False (md_Hash m) (stores n) = Inr (m, b)" "int64_range (md_Size m)"
  shows "media_origin base stores n (base @ ''/media/'' @ md_Hash m) rid = Inr (served m b)"
proof -
  have "strip_prefix (base @ ''/media/'') ((base @ ''/media/'') @ md_Hash m) = Some (md_Hash m)" by (simp add: strip_prefix_Some_iff)
  then show ?thesis
    using assms by (simp add: ParseInt_FormatInt media_origin_def MediaController_Get_def origin_request_def no_headers_def canon_media canon_edge Let_def
        origin_answer_def served_def setCacheHeaders_def set_resp_def Header_Get_def Header_Set_def)
qed

lemma Serve_origin [simp]: "h_originURL (fst (Serve do h cx)) = h_originURL h"
  by (simp add: Serve_def Let_def fetchOnce_cases split_beta split: option.split)

lemma Serves_origin: "h_originURL (fold (\<lambda>cx h. fst (Serve do h cx)) cxs h) = h_originURL h"
  by (induction cxs arbitrary: h) simp_all

text \<open>
  An edge in any state its requests can have brought it to answers with what the origin answers, when the origin gives
  the same complete response to every call for that hash: from the cache, by a fill, or past the cache.
\<close>

lemma Serve_transparent:
  assumes inv: "edge_inv do h"
    and all: "\<And>n rid. do n (media_url h (cx_param cx ''hash'')) rid = Inr r"
    and ok: "o_StatusCode r = 200" "\<not> o_BodyErr r"
    and inm: "Header_Get (req_header (cx_req cx)) ''If-None-Match'' = ''''"
  shows "resp_status (snd (Serve do h cx)) = 200 \<and> resp_body (snd (Serve do h cx)) = Blob (o_Body r)"
proof -
  let ?k = "cx_param cx ''hash''"
  note I = edge_invD [OF inv]
  show ?thesis
  proof (cases "map_of (cache_abs (h_cache h)) ?k")
    case (Some e)
    then obtain n rid r' where "do n (media_url h ?k) rid = Inr r'" "kept_from (c_maxEntry (h_cache h)) r' e"
      using I(3) unfolding backed_def by blast
    then have "e_Body e = o_Body r" using all by (auto simp: kept_from_def)
    then show ?thesis using inm by (simp add: Serve_hit [OF I(1) Some] answer_body)
  next
    case None
    let ?g = "h\<lparr>h_cache := fst (Cache_Get (h_cache h) ?k)\<rparr>"
    let ?f = "fetchOnce do ?g ?k (cx_request_id cx)"
    have url: "media_url ?g = media_url h" "media_url (fst ?f) = media_url h" by (rule media_url_cong, simp add: fetchOnce_cases Let_def split: option.split)+
    have cache: "c_maxEntry (h_cache ?g) = c_maxEntry (h_cache h)" using I(1) by (simp add: cache_inv_def)
    have f: "snd ?f = fetch_response (c_maxEntry (h_cache h)) r"
      using all url(1) cache by (simp add: fetchOnce_cases Let_def fetch_def originGet_def)
    show ?thesis
    proof (cases "fr_entry (snd ?f)")
      case (Some e)
      have "kept_from (c_maxEntry (h_cache h)) r e" using fetch_response_kept [OF _ I(2)] Some f by simp
      moreover have "fr_err (snd ?f) = None" using Some unfolding f
        by (auto simp: fetch_response_def not_cached_def fetch_failed_def split: if_splits sum.splits)
      ultimately show ?thesis using inm Some
        by (simp add: Serve_miss [OF I(1) None] Let_def Serve_result_def answer_body kept_from_def)
    next
      case nokeep: None
      have "fr_err (snd ?f) = None \<and> fr_status (snd ?f) = 200" using nokeep ok unfolding f
        by (auto simp: fetch_response_def not_cached_def fetch_failed_def ReadAll_Limit_def split: if_splits sum.splits)
      moreover have "snd (originGet do (fst ?f) ?k rid) = Inr r" for rid using all url(2) by (simp add: originGet_def)
      ultimately show ?thesis using nokeep ok
        by (simp add: Serve_miss [OF I(1) None] Let_def Serve_result_def passthrough_def originGet_def split: sum.split)
    qed
  qed
qed



section \<open>chat-service and its neighbours\<close>

text \<open>What a room asks of its dispatcher, as the event each neighbour is sent.\<close>

definition accepted_downstream :: "string \<Rightarrow> string \<Rightarrow> effect \<Rightarrow> bool" where
  "accepted_downstream inst rnd e =
     (case e of
        Notify room u st \<Rightarrow> valid_event ((wire_event \<lparr>pv_room = room, pv_userID = u, pv_status = st\<rparr>)\<lparr>pe_InstanceID := inst\<rparr>)
      | Archive room u content at \<Rightarrow>
          ValidateEvent \<lparr>me_EventID = generateRequestID rnd, me_Room = room, me_UserID = u, me_Content = content, me_CreatedAt = at\<rparr> = Inr ())"

definition effect_fine :: "string \<Rightarrow> effect \<Rightarrow> bool" where
  "effect_fine name e = (case e of Notify room u st \<Rightarrow> room = name \<and> 0 < u | Archive room u content at \<Rightarrow> room = name \<and> 0 < u \<and> content \<noteq> '''')"

definition room_fine :: "string \<Rightarrow> Room \<Rightarrow> bool" where
  "room_fine name r \<longleftrightarrow> r_name r = name \<and> (\<forall>c. 0 < cl_userID (r_store r c)) \<and> list_all (effect_fine name) (r_out r)"

lemma fan_out_keeps:
  assumes "fan_out m cs (r, ev) = Inr (r', ev')"
  shows "r_name r' = r_name r \<and> r_out r' = r_out r \<and> (\<forall>c. cl_userID (r_store r' c) = cl_userID (r_store r c))"
  using assms
proof (induction cs arbitrary: r ev)
  case (Cons c cs)
  then obtain r1 ev1 where r1: "fan_out_one m c (r, ev) = Inr (r1, ev1)" "fan_out m cs (r1, ev1) = Inr (r', ev')"
    by (auto simp: bind_result_def split: sum.splits)
  have "r_name r1 = r_name r \<and> r_out r1 = r_out r \<and> (\<forall>c. cl_userID (r_store r1 c) = cl_userID (r_store r c))"
    using r1(1) by (auto simp: fan_out_one_def close_send_def bind_result_def split: if_splits)
  with Cons.IH [OF r1(2)] show ?case by simp
qed simp

lemma broadcastEvent_fine:
  assumes "broadcastEvent perm now ty u content r = Inr r'" "room_fine name r"
  shows "room_fine name r'"
proof -
  obtain r1 ev where f: "fan_out \<lparr>msg_Type = ty, msg_Room = r_name r, msg_UserID = u, msg_Content = content, msg_Timestamp = now\<rparr>
      (perm (r_clients r)) (r, []) = Inr (r1, ev)"
    "r' = r1\<lparr>r_out := r_out r1 @ map (\<lambda>c. Notify (r_name r1) (cl_userID (r_store r1 c)) Offline) ev\<rparr>"
    using assms(1) by (auto simp: broadcastEvent_def Let_def bind_result_Inr_iff)
  from fan_out_keeps [OF f(1)] f(2) assms(2) show ?thesis by (auto simp: room_fine_def effect_fine_def list_all_iff)
qed

lemma emit_fine: "room_fine name r \<Longrightarrow> effect_fine name e \<Longrightarrow> room_fine name (emit e r)"
  by (simp add: room_fine_def emit_def)

lemma room_step_fine:
  assumes "room_step unmarshal r s" "room_fine name r" "s = Inr r'"
  shows "room_fine name r'"
  using assms(1)
proof cases
  case (register c perm now)
  have "room_fine name (r\<lparr>r_clients := cs\<rparr>)" for cs using assms(2) by (simp add: room_fine_def)
  moreover have "effect_fine name (Notify (r_name r) (cl_userID (r_store r c)) Online)" using assms(2) by (simp add: room_fine_def effect_fine_def)
  ultimately show ?thesis using register assms(3) emit_fine broadcastEvent_fine by (auto simp: run_register_def Let_def)
next
  case (unregister perm now c)
  have e: "effect_fine name (Notify (r_name x) (cl_userID (r_store r c)) Offline)" if "room_fine name x" for x
    using that assms(2) by (simp add: room_fine_def effect_fine_def)
  have "room_fine name x" if "close_send c (r\<lparr>r_clients := cs\<rparr>) = Inr x" for cs x
    using that assms(2) by (auto simp: close_send_def room_fine_def split: if_splits)
  moreover have "run_unregister perm now c r = Inr r'" using unregister assms(3) by simp
  ultimately show ?thesis using assms(2) e emit_fine broadcastEvent_fine
    by (auto simp: run_unregister_def Let_def bind_result_Inr_iff split: if_splits)
next
  case (broadcast perm now c payload)
  have e: "effect_fine name (Archive (r_name x) (cl_userID (r_store r c)) content now)" if "room_fine name x" "content \<noteq> ''''" for x content
    using that assms(2) by (simp add: room_fine_def effect_fine_def)
  have "run_broadcast unmarshal perm now c payload r = Inr r'" using broadcast assms(3) by simp
  then show ?thesis using assms(2) e emit_fine broadcastEvent_fine
    by (auto simp: run_broadcast_def Let_def bind_result_Inr_iff split: if_splits option.splits)
next
  case (wrote c)
  then show ?thesis using assms(2,3) by (auto simp: writePump_take_def room_fine_def split: list.splits)
qed

lemma room_reach_fine:
  "room_reach unmarshal r0 s \<Longrightarrow> room_fine name r0 \<Longrightarrow> s = Inr r \<Longrightarrow> room_fine name r"
  by (induction arbitrary: r rule: room_reach.induct) (auto intro: room_step_fine)

text \<open>
  C20: nothing a room reports is refused by its neighbours.  In a room whose name the handshake accepted, with members
  whose ids are positive, every presence change, sent under a valid instance id, passes presence-service's validation,
  and every archived message, numbered with 16 random bytes, passes notification-service's: the copies of the rules
  agree, so no event is lost to a 400.
\<close>

theorem room_events_accepted:
  assumes "room_reach unmarshal (NewRoom name uid) (Inr r)" "ValidateRoomName name = Inr ()" "\<And>c. 0 < uid c"
    and "ValidInstanceID inst" "length rnd = 16" "e \<in> set (r_out r)"
  shows "accepted_downstream inst rnd e"
proof -
  have "room_fine name (NewRoom name uid)" using assms(3) by (simp add: room_fine_def NewRoom_def NewClient_def)
  from room_reach_fine [OF assms(1) this refl] have e: "effect_fine name e" using assms(6) by (simp add: room_fine_def list_all_iff)
  have n: "room_name name" using assms(2) by (simp add: ValidateRoomName_iff)
  have i: "instance_name inst" using assms(4) by (simp add: ValidInstanceID_iff)
  show ?thesis
  proof (cases e)
    case (Notify room u st)
    then show ?thesis using e n i
      by (cases st) (simp_all add: accepted_downstream_def effect_fine_def valid_event_def wire_event_def status_text_def
          presence_validateRoom_iff presence_validateInstanceID_iff)
  next
    case (Archive room u content at)
    have l: "length (generateRequestID rnd) = 32" using assms(5) by (simp add: generateRequestID_def)
    then have "generateRequestID rnd \<noteq> ''''" by (metis list.size(3) zero_neq_numeral)
    moreover have "notification_validateRoom name = Inr ()" using n by (simp add: notification_validateRoom_iff)
    ultimately show ?thesis using Archive e l by (simp add: accepted_downstream_def effect_fine_def ValidateEvent_def)
  qed
qed

theorem room_events_accepted_witness:
  "\<exists>r. run_register rev 5 3 (NewRoom ''general'' (\<lambda>c. int c + 1)) = Inr r \<and> list_all (accepted_downstream ''chat-1'' ''0123456789abcdef'') (r_out r)"
proof -
  have fresh: "fresh_client 3 (NewRoom ''general'' (\<lambda>c. int c + 1))" by (simp add: fresh_client_def NewRoom_def NewClient_def)
  obtain r where r: "run_register rev 5 3 (NewRoom ''general'' (\<lambda>c. int c + 1)) = Inr r"
    using run_register_inv [OF _ fresh is_order_id(2), of 5] room_reach_inv [OF room_reach.start] by blast
  have reach: "room_reach echo_json (NewRoom ''general'' (\<lambda>c. int c + 1)) (Inr r)"
    unfolding r [symmetric] by (rule room_reach.step [OF room_reach.start room_step.register [OF fresh is_order_id(2)]])
  have "ValidateRoomName ''general'' = Inr ()" "ValidInstanceID ''chat-1''" by code_simp+
  from room_events_accepted [OF reach this(1) _ this(2), of "''0123456789abcdef''"] r show ?thesis by (simp add: list_all_iff)
qed

section \<open>The heartbeat keeps users listed\<close>

definition beat_call :: "presence_body \<Rightarrow> pcall" where
  "beat_call b = (case b of EventBody ev \<Rightarrow> CallEvent ev | HeartbeatBody hr \<Rightarrow> CallHeartbeat hr)"

definition sent_by_sweep :: "presence_body outside \<Rightarrow> PresenceClient \<Rightarrow> (string \<times> int list) list \<Rightarrow> presence_body net \<Rightarrow> pcall list" where
  "sent_by_sweep os pc snap w = map (beat_call \<circ> or_body) (drop (length (nw_sent w)) (nw_sent (sweep os pc snap w)))"

definition withdraws :: "string \<Rightarrow> int \<Rightarrow> string \<Rightarrow> pcall \<Rightarrow> bool" where
  "withdraws room u inst c =
     (case c of CallEvent ev \<Rightarrow> pe_Room ev = room \<and> pe_UserID ev = u \<and> pe_InstanceID ev = inst \<and> pe_Status ev \<noteq> ''online'' | _ \<Rightarrow> False)"

definition held :: "string \<Rightarrow> int \<Rightarrow> string \<Rightarrow> int \<Rightarrow> pspec \<Rightarrow> bool" where
  "held room u inst x S = (case S room (u, inst) of None \<Rightarrow> False | Some e \<Rightarrow> x \<le> e)"

lemma spec_call_holds:
  assumes "held room u inst (t + ttl * 1000) S" "t \<le> fst c" "\<not> withdraws room u inst (snd c)"
  shows "held room u inst (t + ttl * 1000) (spec_call ttl c S)"
  using assms by (auto simp: held_def spec_call_def spec_refresh_def spec_offline_def withdraws_def split: pcall.splits option.splits)

lemma spec_calls_hold:
  assumes "held room u inst (t + ttl * 1000) S" "list_all (\<lambda>c. t \<le> fst c \<and> \<not> withdraws room u inst (snd c)) cs"
  shows "held room u inst (t + ttl * 1000) (fold (spec_call ttl) cs S)"
  using assms by (induction cs arbitrary: S) (auto intro: spec_call_holds)

lemma spec_beat_holds:
  assumes "valid_beat \<lparr>hr_Room = room, hr_InstanceID = inst, hr_UserIDs = us\<rparr>" "u \<in> set us"
  shows "held room u inst (t + ttl * 1000) (spec_call ttl (t, CallHeartbeat \<lparr>hr_Room = room, hr_InstanceID = inst, hr_UserIDs = us\<rparr>) S)"
  using assms by (simp add: held_def spec_call_def spec_refresh_def)

lemma sent_by_sweep_eq:
  assumes "os_url_ok os (pc_baseURL pc @ ''/heartbeat'')"
  shows "sent_by_sweep os pc snap w = map (\<lambda>(room, us). CallHeartbeat \<lparr>hr_Room = room, hr_InstanceID = pc_instanceID pc, hr_UserIDs = us\<rparr>)
    (filter (\<lambda>(room, us). us \<noteq> []) snap)"
proof -
  obtain rqs where rqs: "nw_sent (sweep os pc snap w) = nw_sent w @ rqs"
    "map or_body rqs = map (\<lambda>(room, us). HeartbeatBody \<lparr>hr_Room = room, hr_InstanceID = pc_instanceID pc, hr_UserIDs = us\<rparr>)
      (filter (\<lambda>(room, us). us \<noteq> []) snap)" using sweep_sent [OF assms] by blast
  have "sent_by_sweep os pc snap w = map beat_call (map or_body rqs)" by (simp add: sent_by_sweep_def rqs(1))
  then show ?thesis unfolding rqs(2) by (simp add: comp_def split_beta beat_call_def)
qed

text \<open>
  C17: a sweep keeps everyone it names listed for a TTL.  When the requests of a heartbeat sweep reach presence-service,
  on whatever table earlier calls have left, then for the next TTL \<^verbatim>\<open>GET /rooms/:room\<close> lists every user the hub's
  snapshot had in that room, whatever other instances report and whatever rooms and users the other calls concern, until this instance itself
  says the user went offline.
\<close>

theorem sweep_keeps_listed:
  assumes "os_url_ok os (pc_baseURL pc @ ''/heartbeat'')" "0 < ttl"
    and "sorted (map fst cs @ t # map fst ds @ [now])" "now \<le> t + ttl * 1000"
    and "(room, us) \<in> set snap" "u \<in> set us" "ValidateRoomName room = Inr ()" "ValidInstanceID (pc_instanceID pc)" "list_all (\<lambda>v. 0 < v) us"
    and "list_all (\<lambda>c. \<not> withdraws room u (pc_instanceID pc) (snd c)) ds"
    and "\<forall>c \<in> set (cs @ map (Pair t) (sent_by_sweep os pc snap w) @ ds). \<forall>v \<in> call_ids (snd c). int64_range v"
  shows "\<exists>ids. snd (GetRoom (redis_repo False ttl now) room
      (fold (run_call (redis_repo False ttl)) (cs @ map (Pair t) (sent_by_sweep os pc snap w) @ ds) empty_redis)) =
      Inr \<lparr>rp_Room = room, rp_Users = ids, rp_Count = length ids\<rparr> \<and> u \<in> set ids"
proof -
  let ?beats = "map (Pair t) (sent_by_sweep os pc snap w)"
  let ?cs = "cs @ ?beats @ ds"
  let ?S = "fold (spec_call ttl) ?cs (\<lambda>_. Map.empty)"
  have rn: "room_name room" "instance_name (pc_instanceID pc)" using assms(7,8) by (simp_all add: ValidateRoomName_iff ValidInstanceID_iff)
  then have vb: "valid_beat \<lparr>hr_Room = room, hr_InstanceID = pc_instanceID pc, hr_UserIDs = us\<rparr>"
    using assms(9) by (simp add: valid_beat_def presence_validateRoom_iff presence_validateInstanceID_iff list_all_iff)
  have "CallHeartbeat \<lparr>hr_Room = room, hr_InstanceID = pc_instanceID pc, hr_UserIDs = us\<rparr> \<in> set (sent_by_sweep os pc snap w)"
    unfolding sent_by_sweep_eq [OF assms(1)] using assms(5,6) by force
  then obtain b1 b2 where b: "sent_by_sweep os pc snap w = b1 @ CallHeartbeat \<lparr>hr_Room = room, hr_InstanceID = pc_instanceID pc, hr_UserIDs = us\<rparr> # b2"
    by (meson split_list)
  have nb: "\<not> withdraws room u (pc_instanceID pc) c" if "c \<in> set (sent_by_sweep os pc snap w)" for c
    using that unfolding sent_by_sweep_eq [OF assms(1)] by (auto simp: withdraws_def)
  have "list_all (\<lambda>c. t \<le> fst c \<and> \<not> withdraws room u (pc_instanceID pc) (snd c)) (map (Pair t) b2 @ ds)"
    using assms(3,10) nb b by (auto simp: list_all_iff sorted_append)
  then have "held room u (pc_instanceID pc) (t + ttl * 1000) ?S"
    using spec_calls_hold [OF spec_beat_holds [OF vb assms(6)], where cs = "map (Pair t) b2 @ ds" and t = t and ttl = ttl]
    unfolding b by simp
  then obtain e where "?S room (u, pc_instanceID pc) = Some e" "t + ttl * 1000 \<le> e" unfolding held_def by (cases "?S room (u, pc_instanceID pc)") auto
  then have "?S room (u, pc_instanceID pc) = Some e \<and> now \<le> e" using assms(4) by simp
  then have u: "u \<in> spec_users now room ?S" unfolding spec_users_def by blast
  let ?t0 = "hd (map fst ?cs @ [now])"
  have sorted: "sorted (map fst ?cs @ [now])"
    using assms(3) unfolding sorted_append by (auto simp: sorted_append comp_def sorted_wrt_map)
  then have "sorted (?t0 # map fst ?cs @ [now])" by (cases ?cs) auto
  then have "presence_rep ttl now (fold (run_call (redis_repo False ttl)) ?cs empty_redis) ?S"
    by (rule redis_presence.calls_keep [OF presence_rep_empty [OF assms(2)]]) (rule assms(11))
  from redis_presence.GetRoom_users [OF this, of room] rn u show ?thesis by (auto simp: presence_validateRoom_iff)
qed

theorem sweep_keeps_listed_witness:
  "\<exists>ids. snd (GetRoom (redis_repo False 30 20000) ''r''
      (fold (run_call (redis_repo False 30)) ([] @ map (Pair (1000 :: int)) (sent_by_sweep flaky flaky_client [(''r'', [7])] \<lparr>nw_now = 0, nw_sent = []\<rparr>) @ []) empty_redis)) =
      Inr \<lparr>rp_Room = ''r'', rp_Users = ids, rp_Count = length ids\<rparr> \<and> 7 \<in> set ids"
proof -
  have url: "os_url_ok flaky (pc_baseURL flaky_client @ ''/heartbeat'')" by (simp add: flaky_def)
  have ok: "ValidateRoomName ''r'' = Inr ()" "ValidInstanceID (pc_instanceID flaky_client)" by code_simp+
  have ids: "\<forall>c \<in> set ([] @ map (Pair (1000 :: int)) (sent_by_sweep flaky flaky_client [(''r'', [7])] \<lparr>nw_now = 0, nw_sent = []\<rparr>) @ []). \<forall>v \<in> call_ids (snd c). int64_range v"
    unfolding sent_by_sweep_eq [OF url] by (simp add: call_ids_def int64_range_def)
  show ?thesis by (rule sweep_keeps_listed [OF url _ _ _ _ _ ok _ _ ids, where us = "[7]"]) simp_all
qed

section \<open>Through the gateway\<close>



text \<open>
  C9: accounts are private behind the gateway.  A request that reaches notification-service through the gateway came with a valid
  token, and whatever its path, headers (forged ones included) and body, the only webhook and subscriptions it
  can change are those of the token's user; no message event is queued by it.
\<close>

theorem accounts_private:
  assumes "echo_router rfind" "echo_router rfind'" "gateway_reach env host target srt coll rfind g" "sorts_ring srt"
    and "gateway_serve rfind unrouted w cx g = (g', Some (ToNotification, r), resp)"
    and "n_GatewayKey ncfg = g_GatewayKey (gw_cfg g)"
    and "notification_serve rfind' unrouted' ncfg svc nw (incoming r) d = (d', resp')"
  shows "\<exists>c. bearer (w_jwt w) (gw_secret g) (w_unix w) (cx_req cx) = Some c \<and>
    (\<forall>v. account v d' = account v d \<or> v = UserID c) \<and> n_events d' = n_events d"
proof -
  have inv: "gateway_inv env target coll g" by (rule gateway_reach_inv [OF assms(3,4)])
  have ev: "n_events d' = n_events d"
    using events_untouched [OF assms(2), of "incoming r" unrouted' ncfg svc nw d] forwarded_lands [OF assms(1,2) inv assms(5)] assms(7) by auto
  show ?thesis
    using assms(1,5)
  proof (cases rule: forwarded_cases)
    case (user rt ps c)
    note H = handle_forwards [OF user(4) inv]
    have "rt_handler rt = GNotification" using H(1) by (simp add: goes_to_def)
    then have hd: "req_header r = trusted_headers (g_GatewayKey (gw_cfg g)) (with_claims w cx ps c)" using H(4) by simp
    have "gateway_user ncfg r = Some v \<Longrightarrow> v = UserID c" for v
      using ParseInt_FormatInt [OF bearer_int64 [OF user(3)]] by (simp add: gateway_user_def hd trusted_headers_get split: if_splits)
    then show ?thesis using tenant_isolation [OF assms(2,7)] user(3) ev by (metis incoming_req)
  next
    case (ticket ps s cx')
    then show ?thesis by (auto simp: chatWSProxy_def split: prod.splits)
  qed
qed

lemma ex_forward_notification:
  "\<exists>r resp. gateway_serve first_match (\<lambda>cx. respond 404 NoBody) ex_world (ex_request ''POST'' ''/subscriptions'') ex_gateway =
     (ex_gateway, Some (ToNotification, r), resp)"
proof -
  let ?cx = "ex_request ''POST'' ''/subscriptions''" and ?rt = "on ''POST'' ''/subscriptions'' [JWTMiddleware] GNotification"
  obtain ps where rt: "routed first_match gateway_routes (cx_req ?cx) ?rt ps"
    using fm.routed_static [OF tables_no_wildcards(1) tables_unambiguous(1), of ?rt "cx_req ?cx"] by (auto simp: gateway_routes_def ex_request_def)
  show ?thesis
    using serve_guarded [OF rt, where w = ex_world and g = ex_gateway and unrouted = "\<lambda>cx. respond 404 NoBody"]
    by (simp add: ex_started ex_bearer gateway_handle_def forwarded_def)
qed

theorem accounts_private_witness:
  "\<exists>r resp. gateway_serve first_match (\<lambda>cx. respond 404 NoBody) ex_world (ex_request ''POST'' ''/subscriptions'') ex_gateway =
      (ex_gateway, Some (ToNotification, r), resp) \<and>
    account 7 (fst (notification_serve first_match (\<lambda>cx. respond 404 NoBody) (ex_nconfig\<lparr>n_GatewayKey := g_GatewayKey (gw_cfg ex_gateway)\<rparr>)
      \<lparr>ws_parse = (\<lambda>_. None), ws_ParseIP = (\<lambda>_. None), ws_allowLoopback = False\<rparr> ex_nworld (incoming r) ex_ndispatcher)) = account 7 ex_ndispatcher"
proof -
  let ?cfg = "ex_nconfig\<lparr>n_GatewayKey := g_GatewayKey (gw_cfg ex_gateway)\<rparr>"
  let ?svc = "\<lparr>ws_parse = (\<lambda>_. None), ws_ParseIP = (\<lambda>_. None), ws_allowLoopback = False\<rparr>"
  obtain r resp where f: "gateway_serve first_match (\<lambda>cx. respond 404 NoBody) ex_world (ex_request ''POST'' ''/subscriptions'') ex_gateway =
     (ex_gateway, Some (ToNotification, r), resp)" using ex_forward_notification by blast
  obtain d' resp' where n: "notification_serve first_match (\<lambda>cx. respond 404 NoBody) ?cfg ?svc ex_nworld (incoming r) ex_ndispatcher = (d', resp')"
    by (metis prod.collapse)
  have k: "n_GatewayKey ?cfg = g_GatewayKey (gw_cfg ex_gateway)" by simp
  from accounts_private [OF fm.echo_router_axioms fm.echo_router_axioms ex_reach sorts_ring_sort_key f k n]
  have "account 7 d' = account 7 ex_ndispatcher" by (auto simp: ex_started ex_bearer)
  with f n show ?thesis by (intro exI [of _ r] exI [of _ resp]) simp
qed



end
